(* ===== verification/IotPrelude.thy ===== *)
theory IotPrelude
  imports Main "HOL-Library.Word" "HOL-Library.Monad_Syntax"
begin

text \<open>
  Shared vocabulary of the development: machine words, byte buffers that are read through
  checked loads, the conversion between C++ \<open>std::string\<close> values and raw bytes, byte swapping
  (\<open>changeEndian\<close> of serverlib/include/iot/core/types.hh) and the collections of simplification
  rules that the component theories fill.

  Conventions.  A pointer into a buffer is an offset into the list that holds the buffer, and a
  load outside the list is \<open>None\<close>: undefined behaviour of the C++ code is a value of the model
  and never a default.  A \<open>std::string\<close> is an Isabelle \<open>string\<close> (one \<open>char\<close> is one byte).
\<close>

unbundle bit_operations_syntax

type_synonym u8 = "8 word"
type_synonym u16 = "16 word"
type_synonym u32 = "32 word"
type_synonym u64 = "64 word"

text \<open>Rules that evaluate loads and slices of concrete buffers.\<close>
named_theorems buffer_simps

text \<open>Definitions of straight-line code that a proof about their caller unfolds.\<close>
named_theorems code_unfold_defs

subsection \<open>Checked reads of a buffer\<close>

definition load :: "'a list \<Rightarrow> nat \<Rightarrow> 'a option" where
  "load xs i = (if i < length xs then Some (xs ! i) else None)"

definition subrange :: "'a list \<Rightarrow> nat \<Rightarrow> nat \<Rightarrow> 'a list option" where
  "subrange xs i n = (if i + n \<le> length xs then Some (take n (drop i xs)) else None)"

lemma load_Some_iff: "load xs i = Some x \<longleftrightarrow> i < length xs \<and> xs ! i = x"
  by (auto simp: load_def)

lemma load_append_at [buffer_simps, simp]: "load (xs @ y # ys) (length xs) = Some y"
  by (simp add: load_def)

lemma load_0 [buffer_simps, simp]: "load (x # xs) 0 = Some x"
  by (simp add: load_def)

lemma load_Suc [buffer_simps, simp]: "load (x # xs) (Suc i) = load xs i"
  by (simp add: load_def)

lemma load_skip [buffer_simps]: "load (xs @ ys) (length xs + i) = load ys i"
  by (simp add: load_def nth_append)

lemma subrange_Some_iff: "subrange xs i n = Some ys \<longleftrightarrow> i + n \<le> length xs \<and> ys = take n (drop i xs)"
  by (auto simp: subrange_def)

lemma length_subrange: "subrange xs i n = Some ys \<Longrightarrow> length ys = n"
  by (auto simp: subrange_def split: if_splits)

lemma subrange_append_at [buffer_simps]: "n = length ys \<Longrightarrow> subrange (xs @ ys @ zs) (length xs) n = Some ys"
  by (simp add: subrange_def)

subsection \<open>Strings and bytes\<close>

definition byte_of :: "char \<Rightarrow> u8" where
  "byte_of c = word_of_nat (of_char c)"

definition chr_of :: "u8 \<Rightarrow> char" where
  "chr_of b = char_of (unat b)"

abbreviation bytes_of :: "string \<Rightarrow> u8 list" where
  "bytes_of \<equiv> map byte_of"

abbreviation chars_of :: "u8 list \<Rightarrow> string" where
  "chars_of \<equiv> map chr_of"

abbreviation NUL :: char where
  "NUL \<equiv> CHR 0x00"

lemma of_char_less_256 [simp]: "(of_char c :: nat) < 256"
proof -
  have "(of_char c :: nat) \<in> of_char ` UNIV" by blast
  then show ?thesis by (simp add: UNIV_char_of_nat image_image)
qed

lemma unat_byte_of [simp]: "unat (byte_of c) = of_char c"
  by (simp add: byte_of_def unat_of_nat take_bit_eq_mod)

lemma chr_of_byte_of [simp]: "chr_of (byte_of c) = c"
  by (simp add: chr_of_def)

lemma byte_of_chr_of [simp]: "byte_of (chr_of b) = b"
proof -
  have "unat b < 256" using unsigned_less [of b] by simp
  then have "(of_char (char_of (unat b) :: char) :: nat) = unat b"
    by (simp add: of_char_of)
  then show ?thesis by (simp add: byte_of_def chr_of_def)
qed

lemma chars_of_bytes_of [simp]: "chars_of (bytes_of s) = s"
  by (simp add: comp_def)

lemma bytes_of_chars_of [simp]: "bytes_of (chars_of s) = s"
  by (simp add: comp_def)

lemma inj_byte_of: "byte_of c = byte_of d \<longleftrightarrow> c = d"
  by (metis chr_of_byte_of)

subsection \<open>changeEndian\<close>

text \<open>The host is little endian, so \<open>changeEndian\<close> is \<open>__bswap_16\<close>, \<open>__bswap_32\<close>.\<close>

definition changeEndian16 :: "u16 \<Rightarrow> u16" where
  "changeEndian16 x = push_bit 8 (take_bit 8 x) OR take_bit 8 (drop_bit 8 x)"

definition changeEndian32 :: "u32 \<Rightarrow> u32" where
  "changeEndian32 x =
     push_bit 24 (take_bit 8 x) OR push_bit 16 (take_bit 8 (drop_bit 8 x)) OR
     push_bit 8 (take_bit 8 (drop_bit 16 x)) OR take_bit 8 (drop_bit 24 x)"

lemma bit_changeEndian16:
  "bit (changeEndian16 x) n \<longleftrightarrow> n < 16 \<and> bit x (if n < 8 then n + 8 else n - 8)"
  by (auto simp: changeEndian16_def bit_simps add.commute)

lemma bit_changeEndian32:
  "bit (changeEndian32 x) n \<longleftrightarrow> n < 32 \<and>
     bit x (if n < 8 then n + 24 else if n < 16 then n + 8
            else if n < 24 then n - 8 else n - 24)"
  by (auto simp: changeEndian32_def bit_simps add.commute)

lemma changeEndian16_involutive [simp]: "changeEndian16 (changeEndian16 x) = x"
  by (rule bit_word_eqI) (auto simp: bit_changeEndian16)

lemma changeEndian32_involutive [simp]: "changeEndian32 (changeEndian32 x) = x"
  by (rule bit_word_eqI) (auto simp: bit_changeEndian32)

lemma changeEndian16_inj: "changeEndian16 x = changeEndian16 y \<longleftrightarrow> x = y"
  by (metis changeEndian16_involutive)

subsection \<open>Words in memory\<close>

text \<open>The bytes of a word on the little endian host, and the word stored at the start of a list.\<close>

definition le16 :: "u16 \<Rightarrow> u8 list" where
  "le16 v = [ucast v, ucast (drop_bit 8 v)]"

definition le32 :: "u32 \<Rightarrow> u8 list" where
  "le32 v = [ucast v, ucast (drop_bit 8 v), ucast (drop_bit 16 v), ucast (drop_bit 24 v)]"

definition of_le16 :: "u8 list \<Rightarrow> u16" where
  "of_le16 bs = ucast (bs ! 0) OR push_bit 8 (ucast (bs ! 1))"

definition of_le32 :: "u8 list \<Rightarrow> u32" where
  "of_le32 bs = ucast (bs ! 0) OR push_bit 8 (ucast (bs ! 1)) OR
     push_bit 16 (ucast (bs ! 2)) OR push_bit 24 (ucast (bs ! 3))"

lemma length_le [simp]: "length (le16 v) = 2" "length (le32 w) = 4"
  by (simp_all add: le16_def le32_def)

lemma of_le16_le16 [simp]: "of_le16 (le16 v @ bs) = v"
  by (rule bit_word_eqI) (auto simp: of_le16_def le16_def bit_simps)

lemma of_le32_le32 [simp]: "of_le32 (le32 v @ bs) = v"
proof (rule bit_word_eqI)
  fix n :: nat assume "n < LENGTH(32)"
  then show "bit (of_le32 (le32 v @ bs)) n = bit v n"
    by (cases "n < 8"; cases "n < 16"; cases "n < 24") (auto simp: of_le32_def le32_def bit_simps)
qed

lemma of_le32_le32' [simp]: "of_le32 (le32 v) = v"
  using of_le32_le32 [of v "[]"] by simp

lemma of_le16_le16' [simp]: "of_le16 (le16 v) = v"
  using of_le16_le16 [of v "[]"] by simp

subsection \<open>Words and naturals\<close>

lemma ucast_same [simp]: "(ucast (v :: 'a::len word) :: 'a word) = v"
  by (rule bit_word_eqI) (simp add: bit_simps)

lemma unat_u8_less [simp]: "unat (b :: u8) < 256"
  using unsigned_less [of b] by simp

lemma unat_u16_less [simp]: "unat (b :: u16) < 65536"
  using unsigned_less [of b] by simp

text \<open>Two bytes are equal when their eight bits are.\<close>

lemma u8_eqI:
  assumes "\<And>n. n \<in> {0, 1, 2, 3, 4, 5, 6, 7} \<Longrightarrow> bit x n = bit (y :: u8) n"
  shows "x = y"
proof (rule bit_word_eqI)
  fix n assume "n < LENGTH(8)"
  then have "n \<in> {0, 1, 2, 3, 4, 5, 6, 7}" by auto
  then show "bit x n = bit y n" by (rule assms)
qed

lemma bit_u8_ge [simp]: "8 \<le> n \<Longrightarrow> bit (x :: u8) n = False"
  using bit_imp_le_length [of x n] by auto

lemma disjoint_add: "x AND y = 0 \<Longrightarrow> x + y = (x OR y :: 'a::len word)"
  by (rule disjunctive_add_eq_or)

subsection \<open>Finite ranges\<close>

text \<open>A property of all numbers below a bound, decided by evaluation.\<close>

lemma upt_allD: "list_all P [0..<n] \<Longrightarrow> d < n \<Longrightarrow> P d"
  by (simp add: list_all_iff)

subsection \<open>Options\<close>

lemma bind_Some_iff: "Option.bind m f = Some y \<longleftrightarrow> (\<exists>x. m = Some x \<and> f x = Some y)"
  by (cases m) auto

end
