(* ===== verification/MathConv.thy ===== *)
theory MathConv
  imports IotPrelude
begin

text \<open>
  serverlib/include/iot/core/math.hh: printing and reading of integers in a radix, the base64
  style hash string used for HTTP entity tags, and the base64 decoder of the HTTP/2 upgrade.
\<close>

subsection \<open>Digit tables\<close>

datatype number_case = lower | upper

definition lower_case_numbers :: string where
  "lower_case_numbers = ''0123456789abcdefghijklmnopqrstuvwxyz''"

definition upper_case_numbers :: string where
  "upper_case_numbers = ''0123456789ABCDEFGHIJKLMNOPQRSTUVWXYZ''"

fun digit_char :: "number_case \<Rightarrow> nat \<Rightarrow> char" where
  "digit_char lower d = lower_case_numbers ! d"
| "digit_char upper d = upper_case_numbers ! d"

definition char_to_int :: "u8 list" where
  "char_to_int =
     replicate 48 0 @ [0, 1, 2, 3, 4, 5, 6, 7, 8, 9] @ replicate 7 0 @
     [0x0a, 0x0b, 0x0c, 0x0d, 0x0e, 0x0f] @ replicate 26 0 @
     [0x0a, 0x0b, 0x0c, 0x0d, 0x0e, 0x0f] @ replicate 153 0"

text \<open>
  The table is indexed with \<open>(size_t)current\<close> for a \<open>char\<close>, which is signed on the target: a
  byte above 127 becomes an index near \<open>2 ^ 64\<close>, a read outside the table.
\<close>

definition char_value :: "char \<Rightarrow> u8 option" where
  "char_value c =
     (if (of_char c :: nat) < 128 then load char_to_int (of_char c) else None)"

subsection \<open>to_string\<close>

text \<open>The digits in the order the loop writes them, least significant first.\<close>

function digits_loop :: "nat \<Rightarrow> number_case \<Rightarrow> nat \<Rightarrow> string" where
  "digits_loop radix nc val1 =
     digit_char nc (val1 mod radix) #
     (if radix < 2 \<or> val1 div radix = 0 then [] else digits_loop radix nc (val1 div radix))"
  by pat_completeness auto
termination
  by (relation "measure (\<lambda>(radix, nc, val1). val1)") (auto simp: div_greater_zero_iff)

declare digits_loop.simps [simp del]

text \<open>
  \<open>to_string<T, radix, number_case, null_terminated>\<close> for an unsigned \<open>T\<close>: the characters written
  to \<open>dest\<close>.  The static assertions restrict \<open>radix\<close> to 2..36.
\<close>

definition to_string_uint :: "nat \<Rightarrow> number_case \<Rightarrow> bool \<Rightarrow> 'a::len word \<Rightarrow> string" where
  "to_string_uint radix nc null_terminated val =
     rev (digits_loop radix nc (unat val)) @ (if null_terminated then [NUL] else [])"

text \<open>
  The same for a signed \<open>T\<close> (radix 10 only).  \<open>abs\<close> of the least value is not representable in
  \<open>T\<close>; the digit index is then negative and the table is read out of bounds.
\<close>

definition to_string_int :: "bool \<Rightarrow> 'a::len word \<Rightarrow> string option" where
  "to_string_int null_terminated val =
     (let val1 = (if sint val < 0 then - val else val) in
      if sint val1 < 0 then None
      else Some (rev (digits_loop 10 lower (unat val1) @ (if sint val < 0 then ''-'' else [])) @
                 (if null_terminated then [NUL] else [])))"

subsection \<open>to_uint and to_int\<close>

fun to_uint_loop :: "'a::len word \<Rightarrow> 'a word \<Rightarrow> string \<Rightarrow> nat \<Rightarrow> ('a word \<times> nat) option" where
  "to_uint_loop radix val [] n = None"
| "to_uint_loop radix val (c # src) n =
     (if c = NUL then Some (val, Suc n)
      else do { d \<leftarrow> char_value c;
                to_uint_loop radix (val * radix + ucast d) src (Suc n) })"

text \<open>The value and the number of characters read, the terminating NUL included.\<close>

definition to_uint :: "'a::len word \<Rightarrow> string \<Rightarrow> ('a word \<times> nat) option" where
  "to_uint radix src =
     (case src of
        [] \<Rightarrow> None
      | c # cs \<Rightarrow>
          if c = NUL then Some (0, 1)
          else do { d \<leftarrow> char_value c; to_uint_loop radix (ucast d) cs 1 })"

text \<open>
  Assigning a value to a signed \<open>T\<close>: arithmetic is done in at least the width of \<open>int\<close> (32), so
  a narrower \<open>T\<close> wraps around, while an overflow at 32 or 64 bits is undefined, \<open>None\<close>.
\<close>

definition store_signed :: "nat \<Rightarrow> int \<Rightarrow> int option" where
  "store_signed bits v =
     (if bits < 32 then Some (signed_take_bit (bits - 1) v)
      else if - (2 ^ (bits - 1)) \<le> v \<and> v < 2 ^ (bits - 1) then Some v else None)"

fun to_int_loop :: "nat \<Rightarrow> int \<Rightarrow> int \<Rightarrow> string \<Rightarrow> nat \<Rightarrow> (int \<times> nat) option" where
  "to_int_loop bits radix val [] n = None"
| "to_int_loop bits radix val (c # src) n =
     (if c = NUL then Some (val, Suc n)
      else do { d \<leftarrow> char_value c;
                val' \<leftarrow> store_signed bits (val * radix + uint d);
                to_int_loop bits radix val' src (Suc n) })"

definition to_int :: "int \<Rightarrow> string \<Rightarrow> ('a::len word \<times> nat) option" where
  "to_int radix src =
     (let (sign, psrc, n) =
            (case src of
               [] \<Rightarrow> (1, [], 0)
             | c # cs \<Rightarrow> if c = CHR ''-'' then (- 1, cs, 1)
                         else if c = CHR ''+'' then (1, cs, 1) else (1, src, 0))
      in case psrc of
           [] \<Rightarrow> None
         | c # cs \<Rightarrow>
             if c = NUL then Some (0, Suc n)
             else do { d \<leftarrow> char_value c;
                       (val, n') \<leftarrow> to_int_loop LENGTH('a) radix (uint d) cs (Suc n);
                       Some (word_of_int (val * sign), n') })"

subsection \<open>Reading back what was printed\<close>

lemma digit_char_table:
  "list_all (\<lambda>d. digit_char nc d \<noteq> NUL \<and> char_value (digit_char nc d) = Some (word_of_nat d)) [0..<16]"
  by (cases nc) (simp only:, code_simp)+

lemma digit_char_not_NUL: "d < 16 \<Longrightarrow> digit_char nc d \<noteq> NUL"
  using upt_allD [OF digit_char_table] by blast

lemma char_value_digit_char: "d < 16 \<Longrightarrow> char_value (digit_char nc d) = Some (word_of_nat d)"
  using upt_allD [OF digit_char_table] by blast

lemma to_uint_loop_digit:
  assumes "d < 16"
  shows "to_uint_loop radix val (digit_char nc d # src) n =
         to_uint_loop radix (val * radix + word_of_nat d) src (Suc n)"
  using assms digit_char_not_NUL [OF assms, of nc]
  by (simp add: char_value_digit_char unsigned_of_nat take_bit_eq_mod)

lemma mod_less_16: "2 \<le> (r :: nat) \<Longrightarrow> r \<le> 16 \<Longrightarrow> m mod r < 16"
  by (rule less_le_trans [OF mod_less_divisor]) auto

lemma to_uint_loop_digits:
  assumes "2 \<le> radix" "radix \<le> 16"
  shows "to_uint_loop (word_of_nat radix :: 'a::len word) val (rev (digits_loop radix nc m) @ src) n =
         to_uint_loop (word_of_nat radix)
           (val * word_of_nat radix ^ length (digits_loop radix nc m) + word_of_nat m) src
           (n + length (digits_loop radix nc m))"
  using assms
proof (induction radix nc m arbitrary: src rule: digits_loop.induct)
  case (1 radix nc m)
  have d: "m mod radix < 16" using "1.prems" by (rule mod_less_16)
  show ?case
  proof (cases "m div radix = 0")
    case True
    then have "m mod radix = m" using "1.prems" by (simp add: div_eq_0_iff)
    with True d show ?thesis
      by (simp add: digits_loop.simps [of radix nc m] to_uint_loop_digit del: to_uint_loop.simps)
  next
    case False
    let ?l = "length (digits_loop radix nc (m div radix))"
    have "word_of_nat m = (word_of_nat (m div radix) * word_of_nat radix + word_of_nat (m mod radix) :: 'a word)"
      by (metis div_mult_mod_eq of_nat_add of_nat_mult)
    then show ?thesis
      using False "1.prems" "1.IH" d
      by (simp add: digits_loop.simps [of radix nc m] to_uint_loop_digit algebra_simps del: to_uint_loop.simps)
  qed
qed

lemma digits_loop_hd_last:
  assumes "2 \<le> radix" "radix \<le> 16"
  obtains d ds where "rev (digits_loop radix nc m) = digit_char nc d # ds" "d < 16"
proof -
  have "\<exists>d ds. rev (digits_loop radix nc m) = digit_char nc d # ds \<and> d < 16"
    using assms
  proof (induction radix nc m rule: digits_loop.induct)
    case (1 radix nc m)
    have d: "m mod radix < 16" using "1.prems" by (rule mod_less_16)
    show ?case
    proof (cases "m div radix = 0")
      case True
      with d show ?thesis by (auto simp: digits_loop.simps [of radix nc m])
    next
      case False
      with "1.prems" "1.IH" obtain d ds
        where "rev (digits_loop radix nc (m div radix)) = digit_char nc d # ds" "d < 16" by auto
      with False "1.prems" show ?thesis by (auto simp: digits_loop.simps [of radix nc m])
    qed
  qed
  with that show thesis by blast
qed

text \<open>
  On text that starts with a digit, reading is the loop started from 0: the special treatment of
  the first character changes nothing.
\<close>

lemma to_uint_eq_loop:
  assumes "src = digit_char nc d # ds" "d < 16"
  shows "to_uint (radix :: 'a::len word) src = to_uint_loop radix 0 src 0"
  using assms digit_char_not_NUL [OF assms(2), of nc]
  by (simp add: to_uint_def char_value_digit_char)

lemma to_uint_digits:
  assumes "2 \<le> radix" "radix \<le> 16"
  shows "to_uint (word_of_nat radix :: 'a::len word) (rev (digits_loop radix nc m) @ src) =
         to_uint_loop (word_of_nat radix) (word_of_nat m) src (length (digits_loop radix nc m))"
proof -
  obtain d ds where "rev (digits_loop radix nc m) = digit_char nc d # ds" "d < 16"
    using digits_loop_hd_last [OF assms] .
  then have "to_uint (word_of_nat radix :: 'a word) (rev (digits_loop radix nc m) @ src) =
      to_uint_loop (word_of_nat radix) 0 (rev (digits_loop radix nc m) @ src) 0"
    by (intro to_uint_eq_loop) auto
  also have "\<dots> = to_uint_loop (word_of_nat radix) (word_of_nat m) src (length (digits_loop radix nc m))"
    using to_uint_loop_digits [OF assms, where val = "0::'a word"] by simp
  finally show ?thesis .
qed

text \<open>
  Printing an unsigned integer of any width in a radix up to 16, in either case, with the
  terminating NUL, and reading it back with the same radix gives the integer, and the reported
  length is the number of characters written, whatever follows in memory.
\<close>

theorem to_uint_to_string:
  assumes "2 \<le> radix" "radix \<le> 16"
  shows "to_uint (word_of_nat radix) (to_string_uint radix nc True (v :: 'a::len word) @ rest) =
         Some (v, length (to_string_uint radix nc True v))"
  using to_uint_digits [OF assms, where 'a = 'a and nc = nc and m = "unat v" and src = "NUL # rest"]
  by (simp add: to_string_uint_def)

theorem to_uint_to_string_witness:
  "to_uint (16 :: u16) (to_string_uint 16 upper True (0xBEEF :: u16) @ ''xy'') = Some (0xBEEF, 5)"
  using to_uint_to_string [of 16 upper "0xBEEF :: u16" "''xy''"]
  by (simp add: to_string_uint_def digits_loop.simps)


subsection \<open>Signed integers\<close>

lemma digit_char_not_sign: "d < 16 \<Longrightarrow> digit_char nc d \<noteq> CHR ''-'' \<and> digit_char nc d \<noteq> CHR ''+''"
proof -
  have "list_all (\<lambda>d. digit_char nc d \<noteq> CHR ''-'' \<and> digit_char nc d \<noteq> CHR ''+'') [0..<16]"
    by (cases nc) (simp only:, code_simp)+
  then show "d < 16 \<Longrightarrow> ?thesis" by (rule upt_allD)
qed

lemma store_signed_fits: "0 \<le> v \<Longrightarrow> v < 2 ^ (bits - 1) \<Longrightarrow> store_signed bits v = Some v"
proof -
  assume v: "0 \<le> v" "v < 2 ^ (bits - 1)"
  have "(0 :: int) \<le> 2 ^ (bits - 1)" by simp
  with v have "- (2 ^ (bits - 1)) \<le> v" by linarith
  with v show ?thesis by (simp add: store_signed_def signed_take_bit_int_eq_self)
qed

lemma sint_nonneg_int_unat:
  assumes "0 \<le> sint (x :: 'a::len word)"
  shows "int (unat x) = sint x" "int (unat x) < 2 ^ (LENGTH('a) - 1)"
proof -
  have "sint x < 2 ^ (LENGTH('a) - 1)" by (rule sint_lt)
  also have "(2 :: int) ^ (LENGTH('a) - 1) \<le> 2 ^ LENGTH('a)" by (rule power_increasing) auto
  finally have "uint x = sint x" using assms by (simp add: uint_sint take_bit_int_eq_self)
  then show "int (unat x) = sint x" "int (unat x) < 2 ^ (LENGTH('a) - 1)"
    using sint_lt [of x] by (simp_all add: uint_nat [symmetric])
qed

lemma le_mult_add_int: "0 \<le> v \<Longrightarrow> 1 \<le> r \<Longrightarrow> 0 \<le> d \<Longrightarrow> v \<le> v * r + d" for v r d :: int
  using mult_left_mono [of 1 r v] by simp

lemma uint_digit: "d < 16 \<Longrightarrow> uint (word_of_nat d :: u8) = int d"
  by (simp add: uint_nat unsigned_of_nat take_bit_nat_eq_self)

lemma to_int_loop_digits:
  assumes "2 \<le> radix" "radix \<le> 16"
    "val * int radix ^ length (digits_loop radix nc m) + int m < 2 ^ (bits - 1)" "0 \<le> val"
  shows "to_int_loop bits (int radix) val (rev (digits_loop radix nc m) @ src) n =
         to_int_loop bits (int radix) (val * int radix ^ length (digits_loop radix nc m) + int m) src
           (n + length (digits_loop radix nc m))"
  using assms
proof (induction radix nc m arbitrary: src rule: digits_loop.induct)
  case (1 radix nc m)
  have d: "m mod radix < 16" using "1.prems"(1,2) by (rule mod_less_16)
  have digit: "to_int_loop bits r v (digit_char nc (m mod radix) # src) k =
      to_int_loop bits r (v * r + int (m mod radix)) src (Suc k)"
    if "0 \<le> v * r + int (m mod radix)" "v * r + int (m mod radix) < 2 ^ (bits - 1)" for r v src k
    using d digit_char_not_NUL [OF d, of nc] that
    by (simp add: char_value_digit_char [OF d] uint_digit [OF d] store_signed_fits)
  show ?case
  proof (cases "m div radix = 0")
    case True
    then have "m mod radix = m" using "1.prems" by (simp add: div_eq_0_iff)
    with True "1.prems"(3,4) digit [of val "int radix"] show ?thesis
      by (simp add: digits_loop.simps [of radix nc m] del: to_int_loop.simps)
  next
    case False
    let ?l = "length (digits_loop radix nc (m div radix))"
    let ?v = "val * int radix ^ ?l + int (m div radix)"
    have split: "?v * int radix + int (m mod radix) = val * int radix ^ Suc ?l + int m"
      by (simp add: algebra_simps flip: of_nat_mult of_nat_add)
    have big: "?v * int radix + int (m mod radix) < 2 ^ (bits - 1)"
      using "1.prems"(3) False "1.prems"(1) unfolding split
      by (simp add: digits_loop.simps [of radix nc m])
    have v0: "0 \<le> ?v" using "1.prems"(4) by simp
    then have "?v \<le> ?v * int radix + int (m mod radix)"
      using "1.prems"(1) by (intro le_mult_add_int) auto
    then have "?v < 2 ^ (bits - 1)" using big by (rule order.strict_trans1)
    with False "1.prems" "1.IH" have
      "to_int_loop bits (int radix) val (rev (digits_loop radix nc (m div radix)) @ digit_char nc (m mod radix) # src) n =
       to_int_loop bits (int radix) ?v (digit_char nc (m mod radix) # src) (n + ?l)" by simp
    also have "\<dots> = to_int_loop bits (int radix) (?v * int radix + int (m mod radix)) src (Suc (n + ?l))"
      using big v0 by (intro digit) simp_all
    finally show ?thesis using False "1.prems"(1) unfolding split
      by (simp add: digits_loop.simps [of radix nc m])
  qed
qed

text \<open>The scan after the sign, on digits that are followed by the terminating NUL.\<close>

lemma to_int_scan:
  fixes m :: nat
  assumes "8 \<le> bits" "int m < 2 ^ (bits - 1)" "rev (digits_loop 10 lower m) = c # cs"
  shows "c \<noteq> NUL" "c \<noteq> CHR ''-'' \<and> c \<noteq> CHR ''+''"
    "do { d \<leftarrow> char_value c; to_int_loop bits 10 (uint d) (cs @ NUL # rest) (Suc n) } =
     Some (int m, Suc (n + length (digits_loop 10 lower m)))"
proof -
  obtain d ds where d: "rev (digits_loop 10 lower m) = digit_char lower d # ds" "d < 16"
    using digits_loop_hd_last [of 10 lower m] by auto
  with assms(3) have c: "c = digit_char lower d" by simp
  show c0: "c \<noteq> NUL" "c \<noteq> CHR ''-'' \<and> c \<noteq> CHR ''+''"
    unfolding c using digit_char_not_sign [OF d(2)] digit_char_not_NUL [OF d(2)] by blast+
  have "(2 :: int) ^ 4 \<le> 2 ^ (bits - 1)" using assms(1) by (intro power_increasing) auto
  moreover have "int d < 2 ^ 4" using d(2) by simp
  ultimately have "store_signed bits (int d) = Some (int d)" by (intro store_signed_fits) linarith+
  then have "do { d \<leftarrow> char_value c; to_int_loop bits 10 (uint d) (cs @ NUL # rest) (Suc n) } =
      to_int_loop bits 10 0 ((c # cs) @ NUL # rest) n"
    using c c0 d(2)
    by (simp add: char_value_digit_char [OF d(2)] uint_digit [OF d(2)] del: digit_char.simps)
  also have "\<dots> = Some (int m, Suc (n + length (digits_loop 10 lower m)))"
    using to_int_loop_digits [of 10 0 lower m bits "NUL # rest" n] assms(2) by (simp add: assms(3))
  finally show "do { d \<leftarrow> char_value c; to_int_loop bits 10 (uint d) (cs @ NUL # rest) (Suc n) } =
     Some (int m, Suc (n + length (digits_loop 10 lower m)))" .
qed

text \<open>
  Every signed integer of 8 bits or more whose text \<open>to_string\<close> can produce is read back
  exactly by \<open>to_int\<close>, without overflow on the way, sign included, and the reported length is the
  number of characters written.
\<close>

theorem to_int_to_string:
  assumes "to_string_int True (v :: 'a::len word) = Some s" "8 \<le> LENGTH('a)"
  shows "to_int 10 (s @ rest) = Some (v, length s)"
proof (cases "sint v < 0")
  case True
  with assms(1) have s: "s = CHR ''-'' # rev (digits_loop 10 lower (unat (- v))) @ [NUL]"
    and pos: "0 \<le> sint (- v)"
    by (simp_all add: to_string_int_def Let_def split: if_splits)
  obtain c cs where c: "rev (digits_loop 10 lower (unat (- v))) = c # cs"
    by (rule digits_loop_hd_last [of 10 lower "unat (- v)"]) auto
  note scan = to_int_scan [OF assms(2) sint_nonneg_int_unat(2) [OF pos] c]
  have "word_of_int (- int (unat (- v))) = v" by (simp flip: uint_nat)
  then show ?thesis using scan(1) scan(3) [of rest 1] c
    by (cases "char_value c") (auto simp: s to_int_def)
next
  case False
  with assms have s: "s = rev (digits_loop 10 lower (unat v)) @ [NUL]"
    by (simp add: to_string_int_def Let_def split: if_splits)
  obtain c cs where c: "rev (digits_loop 10 lower (unat v)) = c # cs"
    by (rule digits_loop_hd_last [of 10 lower "unat v"]) auto
  have pos: "0 \<le> sint v" using False by simp
  note scan = to_int_scan [OF assms(2) sint_nonneg_int_unat(2) [OF pos] c]
  show ?thesis using scan(1,2) scan(3) [of rest 0] c
    by (cases "char_value c") (auto simp: s to_int_def)
qed

theorem to_int_to_string_witness:
  "to_string_int True (- 42 :: u32) = Some (''-42'' @ [NUL]) \<and>
   to_int 10 ((''-42'' @ [NUL]) @ ''7'') = Some (- 42 :: u32, 4)"
proof -
  have h: "to_string_int True (- 42 :: u32) = Some (''-42'' @ [NUL])"
    by code_simp
  show ?thesis using h to_int_to_string [OF h, of "''7''"] by simp
qed

text \<open>The least 32-bit integer has no text: the digit index is negative.\<close>

lemma to_string_int_least: "to_string_int True (0x80000000 :: u32) = None"
  by code_simp

subsection \<open>How many characters are written\<close>

lemma length_digits_loop_le:
  assumes "2 \<le> radix" "0 < k"
  shows "length (digits_loop radix nc n) \<le> k \<longleftrightarrow> n < radix ^ k"
  using assms
proof (induction radix nc n arbitrary: k rule: digits_loop.induct)
  case (1 radix nc n)
  obtain j where k: "k = Suc j" using "1.prems" by (cases k) auto
  show ?case
  proof (cases "n div radix = 0")
    case True
    then have "n < radix" using "1.prems" by (simp add: div_eq_0_iff)
    also have "radix \<le> radix ^ k" using "1.prems" by (simp add: self_le_power)
    finally show ?thesis using True k by (simp add: digits_loop.simps [of radix nc n])
  next
    case False
    show ?thesis
    proof (cases "j = 0")
      case True
      with False "1.prems" show ?thesis
        by (auto simp: k digits_loop.simps [of radix nc n] digits_loop.simps [of radix nc "n div radix"])
    next
      case j: False
      with "1.IH" [of j] False "1.prems"
      have "length (digits_loop radix nc (n div radix)) \<le> j \<longleftrightarrow> n div radix < radix ^ j" by simp
      also have "\<dots> \<longleftrightarrow> n < radix ^ k"
        using "1.prems" by (simp add: k div_less_iff_less_mult mult.commute)
      finally show ?thesis using False "1.prems" k by (simp add: digits_loop.simps [of radix nc n])
    qed
  qed
qed

text \<open>
  C40: \<open>to_string\<close> with the terminating NUL needs at most \<open>n + 1\<close> bytes exactly when the value
  is below \<open>radix ^ n\<close>; this is the bound every fixed-size digit buffer of the servers relies on.
\<close>

theorem to_string_uint_fits:
  assumes "2 \<le> radix" "0 < n"
  shows "length (to_string_uint radix nc True v) \<le> Suc n \<longleftrightarrow> unat v < radix ^ n"
  using assms by (simp add: to_string_uint_def length_digits_loop_le)

theorem to_string_uint_fits_witness:
  "length (to_string_uint 10 lower True (999999999 :: u64)) \<le> 10 \<and>
   \<not> length (to_string_uint 10 lower True (1000000000 :: u64)) \<le> 10"
  using to_string_uint_fits [of 10 9 lower "999999999 :: u64"]
    to_string_uint_fits [of 10 9 lower "1000000000 :: u64"] by simp

end
