(* ===== verification/Base64.thy ===== *)
theory Base64
  imports MathConv
begin

text \<open>
  The base 64 part of serverlib/include/iot/core/math.hh: the six-bit hash text that
  \<open>filemap::add_file\<close> uses as entity tag, and the decoder that
  \<open>settings_store::parse_base64_frame\<close> applies to the HTTP2-Settings header.
\<close>

subsection \<open>Tables\<close>

definition to_base64 :: string where
  "to_base64 = ''ABCDEFGHIJKLMNOPQRSTUVWXYZabcdefghijklmnopqrstuvwxyz0123456789+/''"

definition from_base64 :: "u8 list" where
  "from_base64 =
     replicate 43 0 @ [0x3e, 0, 0, 0, 0x3f] @
     [0x34, 0x35, 0x36, 0x37, 0x38, 0x39, 0x3a, 0x3b, 0x3c, 0x3d] @ replicate 7 0 @
     [0x00, 0x01, 0x02, 0x03, 0x04, 0x05, 0x06, 0x07, 0x08, 0x09, 0x0a, 0x0b, 0x0c, 0x0d, 0x0e,
      0x0f, 0x10, 0x11, 0x12, 0x13, 0x14, 0x15, 0x16, 0x17, 0x18, 0x19] @ replicate 6 0 @
     [0x1a, 0x1b, 0x1c, 0x1d, 0x1e, 0x1f, 0x20, 0x21, 0x22, 0x23, 0x24, 0x25, 0x26, 0x27, 0x28,
      0x29, 0x2a, 0x2b, 0x2c, 0x2d, 0x2e, 0x2f, 0x30, 0x31, 0x32, 0x33] @ replicate 133 0"

subsection \<open>to_string64_hash\<close>

function to_string64_hash_loop :: "nat \<Rightarrow> nat \<Rightarrow> 'a::len word \<Rightarrow> string" where
  "to_string64_hash_loop total_bits current_bit val =
     to_base64 ! unat (drop_bit current_bit val AND 0x3f) #
     (if current_bit + 6 < total_bits then to_string64_hash_loop total_bits (current_bit + 6) val else [])"
  by pat_completeness auto
termination
  by (relation "measure (\<lambda>(total_bits, current_bit, val). total_bits - current_bit)") auto

declare to_string64_hash_loop.simps [simp del]

definition to_string64_hash :: "bool \<Rightarrow> 'a::len word \<Rightarrow> string" where
  "to_string64_hash null_terminated val =
     to_base64 ! unat (val AND 0x3f) # to_string64_hash_loop LENGTH('a) 6 val @
     (if null_terminated then [NUL] else [])"

definition to_string64_hash_size :: "nat \<Rightarrow> bool \<Rightarrow> nat" where
  "to_string64_hash_size total_bits null_terminated =
     (total_bits + 5) div 6 + (if null_terminated then 1 else 0)"

subsection \<open>base64_decode_len and base64_decode\<close>

abbreviation pad :: u8 where
  "pad \<equiv> 0x3d"

definition base64_decode_len :: "u8 list \<Rightarrow> nat" where
  "base64_decode_len buffer =
     (let buffer_len = length buffer; decode_len = (buffer_len * 3) div 4 in
      if buffer_len < 4 then 0
      else if buffer ! (buffer_len - 2) = pad then decode_len - 2
      else if buffer ! (buffer_len - 1) = pad then decode_len - 1
      else decode_len)"

text \<open>
  The loop of \<open>base64_decode\<close>, one group of four characters a round, on the part of the buffer
  left after rounding its length down to a multiple of four; the result is what it stores at
  \<open>dest\<close>.
\<close>

fun base64_decode_loop :: "u8 list \<Rightarrow> u8 list" where
  "base64_decode_loop (c1 # c2 # c3 # c4 # rest) =
     (let val1 = from_base64 ! unat c1; val2 = from_base64 ! unat c2 in
      (push_bit 2 val1 + drop_bit 4 val2) #
      (if c3 = pad then []
       else let val3 = from_base64 ! unat c3 in
         (push_bit 4 val2 + drop_bit 2 val3) #
         (if c4 = pad then []
          else let val4 = from_base64 ! unat c4 in
            (push_bit 6 val3 + val4) # base64_decode_loop rest)))"
| "base64_decode_loop _ = []"

definition base64_decode :: "u8 list \<Rightarrow> u8 list" where
  "base64_decode buffer = base64_decode_loop (take (length buffer div 4 * 4) buffer)"

subsection \<open>Entity tags of different values differ\<close>

lemma to_base64_inj_table:
  "list_all (\<lambda>i. list_all (\<lambda>j. to_base64 ! i = to_base64 ! j \<longrightarrow> i = j) [0..<64]) [0..<64]"
proof -
  have "length to_base64 = 64" "distinct to_base64" by (code_simp, code_simp)
  then show ?thesis by (simp add: list_all_iff nth_eq_iff_index_eq)
qed

lemma to_base64_inj: "i < 64 \<Longrightarrow> j < 64 \<Longrightarrow> to_base64 ! i = to_base64 ! j \<Longrightarrow> i = j"
  using to_base64_inj_table by (auto simp: list_all_iff)

lemma and_63: "(x :: 'a::len word) AND 0x3f = take_bit 6 x"
  by (simp add: take_bit_eq_mask mask_eq_exp_minus_1)

lemma unat_sextet_less: "unat (x AND 0x3f :: 'a::len word) < 64"
proof -
  have "unat (take_bit 6 x) = take_bit 6 (unat x)" by (simp add: unsigned_take_bit_eq)
  also have "\<dots> < 2 ^ 6" by (rule take_bit_nat_less_exp)
  finally show ?thesis by (simp add: and_63)
qed

lemma to_base64_sextet_eq:
  "to_base64 ! unat (x AND 0x3f) = to_base64 ! unat (y AND 0x3f) \<longleftrightarrow>
   take_bit 6 x = take_bit 6 (y :: 'a::len word)"
  using to_base64_inj [OF unat_sextet_less unat_sextet_less, of x y]
  by (auto simp: and_63 unsigned_word_eqI)

lemma to_string64_hash_loop_eqD:
  "to_string64_hash_loop tot cur (v :: 'a::len word) = to_string64_hash_loop tot cur (w :: 'a word) \<Longrightarrow>
   cur \<le> n \<Longrightarrow> n < tot \<Longrightarrow> bit v n = bit w n"
proof (induction tot cur v rule: to_string64_hash_loop.induct)
  case (1 tot cur v)
  from "1.prems"(1) have eq: "take_bit 6 (drop_bit cur v) = take_bit 6 (drop_bit cur w)"
    by (simp add: to_string64_hash_loop.simps [of tot cur] to_base64_sextet_eq split: if_splits)
  show ?case
  proof (cases "n < cur + 6")
    case True
    then have "bit (take_bit 6 (drop_bit cur v)) (n - cur) = bit v n"
      and "bit (take_bit 6 (drop_bit cur w)) (n - cur) = bit w n"
      using "1.prems"(2) by (auto simp: bit_simps)
    with eq show ?thesis by simp
  next
    case False
    with "1.prems" have "cur + 6 < tot" by simp
    with "1.IH" "1.prems" False show ?thesis
      by (simp add: to_string64_hash_loop.simps [of tot cur])
  qed
qed

text \<open>
  Entity tags are injective: two values of the same width have the same hash text exactly
  when they are equal, so two different stamps never share a tag and the cache check of the HTTP
  server never answers NOT_MODIFIED for changed content.
\<close>

theorem to_string64_hash_inj:
  "to_string64_hash nt v = to_string64_hash nt (w :: 'a::len word) \<longleftrightarrow> v = w"
proof (rule iffI, rule bit_word_eqI)
  fix n assume eq: "to_string64_hash nt v = to_string64_hash nt w" and n: "n < LENGTH('a)"
  from eq have low: "take_bit 6 v = take_bit 6 w"
    and high: "to_string64_hash_loop LENGTH('a) 6 v = to_string64_hash_loop LENGTH('a) 6 w"
    by (auto simp: to_string64_hash_def to_base64_sextet_eq)
  show "bit v n = bit w n"
  proof (cases "n < 6")
    case True
    then have "bit (take_bit 6 v) n = bit v n" "bit (take_bit 6 w) n = bit w n"
      by (auto simp: bit_simps)
    with low show ?thesis by simp
  next
    case False
    then show ?thesis using to_string64_hash_loop_eqD [OF high] n by simp
  qed
qed simp

subsection \<open>The hash text fills the buffer it is given\<close>

lemma length_to_string64_hash_loop:
  "cur < tot \<Longrightarrow> length (to_string64_hash_loop tot cur v) = (tot - cur + 5) div 6"
proof (induction tot cur v rule: to_string64_hash_loop.induct)
  case (1 tot cur v)
  show ?case
  proof (cases "cur + 6 < tot")
    case True
    with "1.IH" have "length (to_string64_hash_loop tot (cur + 6) v) = (tot - (cur + 6) + 5) div 6"
      by simp
    then show ?thesis using True by (simp add: to_string64_hash_loop.simps [of tot cur])
  next
    case False
    with "1.prems" show ?thesis by (simp add: to_string64_hash_loop.simps [of tot cur])
  qed
qed

lemma length_to_string64_hash:
  assumes "6 < LENGTH('a)"
  shows "length (to_string64_hash nt (v :: 'a::len word)) = to_string64_hash_size LENGTH('a) nt"
  using assms by (auto simp: to_string64_hash_def to_string64_hash_size_def length_to_string64_hash_loop)

subsection \<open>The decoder against RFC 4648\<close>

text \<open>The encoder of RFC 4648 section 4, the specification the decoder is measured against.\<close>

abbreviation sym64 :: "u8 \<Rightarrow> u8" where
  "sym64 x \<equiv> byte_of (to_base64 ! unat x)"

fun rfc4648_encode :: "u8 list \<Rightarrow> u8 list" where
  "rfc4648_encode [] = []"
| "rfc4648_encode [a] = [sym64 (drop_bit 2 a), sym64 (push_bit 4 (take_bit 2 a)), pad, pad]"
| "rfc4648_encode [a, b] =
     [sym64 (drop_bit 2 a), sym64 (push_bit 4 (take_bit 2 a) OR drop_bit 4 b),
      sym64 (push_bit 2 (take_bit 4 b)), pad]"
| "rfc4648_encode (a # b # c # rest) =
     [sym64 (drop_bit 2 a), sym64 (push_bit 4 (take_bit 2 a) OR drop_bit 4 b),
      sym64 (push_bit 2 (take_bit 4 b) OR drop_bit 6 c), sym64 (take_bit 6 c)] @
     rfc4648_encode rest"

lemma from_base64_table:
  "list_all (\<lambda>i. to_base64 ! i \<noteq> CHR ''='' \<and>
     from_base64 ! of_char (to_base64 ! i) = word_of_nat i) [0..<64]"
  by code_simp

lemma sym64_code:
  assumes "unat x < 64"
  shows "sym64 x \<noteq> pad" "from_base64 ! (of_char (to_base64 ! unat x)) = x"
proof -
  have "pad = byte_of CHR ''=''" by (simp add: byte_of_def)
  then show "sym64 x \<noteq> pad"
    using upt_allD [OF from_base64_table assms] inj_byte_of by metis
  show "from_base64 ! (of_char (to_base64 ! unat x)) = x"
    using upt_allD [OF from_base64_table assms] by simp
qed

lemma unat_less_64_iff: "unat (x :: u8) < 64 \<longleftrightarrow> take_bit 6 x = x"
proof -
  have "take_bit 6 x = x \<longleftrightarrow> take_bit 6 (unat x) = unat x"
    by (metis unsigned_take_bit_eq unsigned_word_eqI)
  then show ?thesis by (simp add: take_bit_nat_eq_self_iff)
qed

lemma sextets [simp]:
  "unat (drop_bit 2 (a :: u8)) < 64" "unat (push_bit 4 (take_bit 2 a)) < 64"
  "unat (push_bit 4 (take_bit 2 a) OR drop_bit 4 b) < 64"
  "unat (push_bit 2 (take_bit 4 b)) < 64"
  "unat (push_bit 2 (take_bit 4 b) OR drop_bit 6 c) < 64" "unat (take_bit 6 c) < 64"
  by (simp_all only: unat_less_64_iff) (rule u8_eqI; auto simp: bit_simps)+

lemma regroup:
  "push_bit 2 (drop_bit 2 a) + drop_bit 4 (push_bit 4 (take_bit 2 a) OR drop_bit 4 b) = (a :: u8)"
  "push_bit 2 (drop_bit 2 a) + drop_bit 4 (push_bit 4 (take_bit 2 a)) = a"
  "push_bit 4 (push_bit 4 (take_bit 2 a) OR drop_bit 4 b) +
     drop_bit 2 (push_bit 2 (take_bit 4 b) OR drop_bit 6 c) = b"
  "push_bit 4 (push_bit 4 (take_bit 2 a) OR drop_bit 4 b) + drop_bit 2 (push_bit 2 (take_bit 4 b)) = b"
  "push_bit 4 (drop_bit 4 b) + drop_bit 2 (push_bit 2 (take_bit 4 b)) = b"
  "push_bit 6 (drop_bit 6 c) + take_bit 6 c = c"
  "push_bit 6 (push_bit 2 (take_bit 4 b) OR drop_bit 6 c) + take_bit 6 c = c"
  by (subst disjoint_add; rule u8_eqI; auto simp: bit_simps simp flip: numeral_2_eq_2 numeral_3_eq_3)+

lemma group_counts: "(5 + n) div 3 = Suc ((2 + n) div 3)" "(4 + n) div 4 = Suc (n div 4)" for n :: nat
  by presburger+

lemma rfc4648_encode_length: "length (rfc4648_encode xs) = (length xs + 2) div 3 * 4"
  by (induction xs rule: rfc4648_encode.induct) (auto simp: group_counts)

lemma base64_decode_loop_encode: "base64_decode_loop (rfc4648_encode xs) = xs"
proof (induction xs rule: rfc4648_encode.induct)
  case 1
  then show ?case by simp
next
  case (2 a)
  then show ?case by (simp add: Let_def sym64_code regroup)
next
  case (3 a b)
  then show ?case by (simp add: Let_def sym64_code regroup)
next
  case (4 a b c rest)
  then show ?case by (simp add: Let_def sym64_code regroup)
qed

text \<open>
  The decoder inverts the RFC 4648 encoding: for every byte sequence, decoding its base64
  text gives the sequence back.
\<close>

theorem base64_decode_encode: "base64_decode (rfc4648_encode xs) = xs"
  by (simp add: base64_decode_def rfc4648_encode_length base64_decode_loop_encode)

subsection \<open>The decoder stays inside the buffer of base64_decode_len bytes\<close>

abbreviation pad_discount :: "u8 list \<Rightarrow> nat" where
  "pad_discount b \<equiv>
     (if b ! (length b - 2) = pad then 2 else if b ! (length b - 1) = pad then 1 else 0)"

lemma base64_decode_loop_bound:
  "4 dvd length b \<Longrightarrow> b \<noteq> [] \<Longrightarrow>
   length (base64_decode_loop b) + pad_discount b \<le> length b div 4 * 3"
proof (induction b rule: base64_decode_loop.induct)
  case (1 c1 c2 c3 c4 rest)
  show ?case
  proof (cases "rest = []")
    case False
    have "4 dvd length rest" using "1.prems"(1) by simp presburger
    with False have len: "4 dvd length rest" "4 \<le> length rest" by (auto dest: dvd_imp_le)
    then have nth: "(c1 # c2 # c3 # c4 # rest) ! (length rest + 2) = rest ! (length rest - 2)"
      "(c1 # c2 # c3 # c4 # rest) ! (length rest + 3) = rest ! (length rest - 1)"
      by (auto simp: nth_Cons' numeral_2_eq_2)
    show ?thesis
    proof (cases "c3 = pad \<or> c4 = pad")
      case True
      have "1 \<le> length rest div 4" using len by (simp add: div_greater_zero_iff Suc_le_eq)
      with True show ?thesis by (auto simp: Let_def group_counts)
    next
      case noP: False
      with "1.IH" False len have
        "length (base64_decode_loop rest) + pad_discount rest \<le> length rest div 4 * 3" by simp
      moreover have "pad_discount (c1 # c2 # c3 # c4 # rest) = pad_discount rest"
        using nth by (simp add: numeral_eq_Suc)
      ultimately show ?thesis using noP by (simp add: Let_def group_counts)
    qed
  qed (auto simp: Let_def)
qed (auto dest: dvd_imp_le)

text \<open>
  On every buffer whose length is a multiple of four, whatever it holds, the decoder writes
  at most \<open>base64_decode_len\<close> bytes, the size the HTTP/2 upgrade allocates for it.
\<close>

theorem base64_decode_fits:
  assumes "4 dvd length b"
  shows "length (base64_decode b) \<le> base64_decode_len b"
proof (cases "b = []")
  case False
  with assms have "4 \<le> length b" by (auto dest: dvd_imp_le)
  moreover have "length b div 4 * 4 = length b" using assms by simp
  moreover have "length b * 3 div 4 = length b div 4 * 3"
    using assms by (metis div_mult_swap mult.commute)
  ultimately show ?thesis
    using base64_decode_loop_bound [OF assms False]
    by (auto simp: base64_decode_def base64_decode_len_def Let_def split: if_splits)
qed (simp add: base64_decode_def)

theorem base64_decode_fits_witness:
  "length (base64_decode (bytes_of ''AAMAAABk'')) \<le> 6"
proof -
  have "length (bytes_of ''AAMAAABk'') = 8" by simp
  then have "4 dvd length (bytes_of ''AAMAAABk'')" by (simp only:) simp
  note base64_decode_fits [OF this]
  moreover have "base64_decode_len (bytes_of ''AAMAAABk'') = 6" by code_simp
  ultimately show ?thesis by (simp only:)
qed

text \<open>
  The length must be a multiple of four: on five characters the decoder writes three bytes into
  a buffer of two.
\<close>

lemma base64_decode_overflow:
  "length (base64_decode (bytes_of ''abcd='')) = 3 \<and> base64_decode_len (bytes_of ''abcd='') = 2"
  by code_simp

end
