(* ===== verification/Errors.thy ===== *)
theory Errors
  imports IotPrelude
begin

text \<open>
  serverlib/include/iot/core/error.hh: the error codes of every component, their texts, and the
  translation of \<open>errno\<close> and of OpenSSL error numbers into error codes.
\<close>

subsection \<open>err_t\<close>

text \<open>\<open>ERROR_T_LIST\<close>, in the order of the source.\<close>

datatype (plugins only: ) err_t =
    SUCCESS | SUCCESS_NONBLOCKING | SOCKET_CONNECT_ALREADY_CONNECTED
  | GENERAL_FAILURE | BIND_FAILURE | LISTEN_FAILURE
  | ACCEPT_FAILURE | CLOSE_FAILURE | RECEIVE_FAILURE
  | SEND_FAILURE | BAD_FILE_DESCRIPTOR | MAPPING_NOT_FOUND
  | PTHREAD_JOIN_FAILURE | PTHREAD_JOIN_DEADLOCK_FAILURE | PTHREAD_JOIN_NOT_JOINABLE_FAILURE
  | PTHREAD_JOIN_INVALID_THREAD_ID_FAILURE | PTHREAD_CREATE_FAILURE | GUID_BAD_STRING_FAILURE
  | MESSAGE_COMMAND_LIMIT_FAILURE | SOCKET_FAILURE | SOCKET_PERMISSION_FAILURE
  | SOCKET_ADDRESS_NOT_SUPPORTED | SOCKET_PROTOCOL_NOT_SUPPORTED | SOCKET_LIMIT_REACHED
  | SOCKET_INSUFFICIENT_MEMORY | SOCKET_CONNECT_FAILURE | SOCKET_CONNECT_PERMISSION_FAILURE
  | SOCKET_CONNECT_ADDRESS_IN_USE | SOCKET_CONNECT_ADDRESS_NOT_SUPPORTED | SOCKET_CONNECT_INVALID_ID
  | SOCKET_CONNECT_CONNECTION_REFUSED | SOCKET_CONNECT_INTERRUPTED | SOCKET_CONNECT_NETWORK_UNREACHABLE
  | SOCKET_CONNECT_UNSUPPORTED_PROTOCOL | SOCKET_CONNECT_TIMEOUT | SOCKET_WRITE_ZERO
  | SOCKET_RETRY | SOCKET_GET_READ_BUFFER_FAILED | SOCKET_GET_WRITE_BUFFER_FAILED
  | SOCKET_SET_READ_BUFFER_FAILED | SOCKET_SET_WRITE_BUFFER_FAILED | SOCKET_SSL_CONTEXT_FAILED
  | SOCKET_SSL_CERTIFICATE_FAILED | SOCKET_SSL_CERTIFICATE_FILE_NOT_FOUND | SOCKET_SSL_PRIKEY_FAILED
  | SOCKET_SSL_WANT_READ | SOCKET_SSL_WANT_WRITE | SOCKET_SSL_WANT_X509_LOOKUP
  | SOCKET_SSL_SYSCALL_ERROR | SOCKET_SSL_ZERO_RETURN | SOCKET_SSL_ERROR
  | SOCKET_SSL_SANITY_ERROR | SOCKOPT_FAILURE | SOCKOPT_BAD_ID
  | SOCKOPT_UNKNOWN_OPTION | LOG_READ_FAILURE | LOG_UNSUPPORTED_TYPE_FAILURE
  | LOG_FILE_OPEN_FAILURE | MATH_INSUFFICIENT_BUFFER | EVENT_DIST_CREATE_FAILED
  | EVENT_CREATE_FAILED | EVENT_CREATE_FAILED_ZERO | EVENT_REMOVE_FAILED
  | FILEWATCHER_ADD_FOLDER_FAILED | FILEWATCHER_EVENT_CREATE_FAILED | SSL_CONNECT_FAILED
  | SSL_SESSION_NULL | CRYPTO_MEMORY_BAD_ASSIGNMENT | CRYPTO_UNKNOWN_ALGORITHM
  | CRYPTO_MEMORY_FAILURE | CRYPTO_CREATE_CONTEXT_FAILED | CRYPTO_INIT_AES_FAILED
  | CRYPTO_ENCRYPT_AES_FAILED | CRYPTO_DECRYPT_AES_FAILED | CRYPTO_KEY_GENERATION_FAILED
  | CRYPTO_CONTEXT_CREATION_FAILED | CRYPTO_BAD_KEY | CRYPTO_BAD_PUBLIC_KEY
  | CRYPTO_BAD_PRIVATE_KEY | CRYPTO_BAD_SYMETRIC_KEY | CRYPTO_KEY_ENCODE_FAIL
  | CRYPTO_CURVE_NOT_FOUND | HTTP_FILEMAP_NOT_FOUND | HTTP11_PARSER_MEMORY_FAILURE
  | HTTP11_PARSER_FAILURE | HTTP2_HPACK_TABLE_ERROR | HTTP2_INITIATE_GOAWAY
  | MAX_FAILURE

definition err_t_list :: "err_t list" where
  "err_t_list =
    [SUCCESS, SUCCESS_NONBLOCKING, SOCKET_CONNECT_ALREADY_CONNECTED,
     GENERAL_FAILURE, BIND_FAILURE, LISTEN_FAILURE,
     ACCEPT_FAILURE, CLOSE_FAILURE, RECEIVE_FAILURE,
     SEND_FAILURE, BAD_FILE_DESCRIPTOR, MAPPING_NOT_FOUND,
     PTHREAD_JOIN_FAILURE, PTHREAD_JOIN_DEADLOCK_FAILURE, PTHREAD_JOIN_NOT_JOINABLE_FAILURE,
     PTHREAD_JOIN_INVALID_THREAD_ID_FAILURE, PTHREAD_CREATE_FAILURE, GUID_BAD_STRING_FAILURE,
     MESSAGE_COMMAND_LIMIT_FAILURE, SOCKET_FAILURE, SOCKET_PERMISSION_FAILURE,
     SOCKET_ADDRESS_NOT_SUPPORTED, SOCKET_PROTOCOL_NOT_SUPPORTED, SOCKET_LIMIT_REACHED,
     SOCKET_INSUFFICIENT_MEMORY, SOCKET_CONNECT_FAILURE, SOCKET_CONNECT_PERMISSION_FAILURE,
     SOCKET_CONNECT_ADDRESS_IN_USE, SOCKET_CONNECT_ADDRESS_NOT_SUPPORTED, SOCKET_CONNECT_INVALID_ID,
     SOCKET_CONNECT_CONNECTION_REFUSED, SOCKET_CONNECT_INTERRUPTED, SOCKET_CONNECT_NETWORK_UNREACHABLE,
     SOCKET_CONNECT_UNSUPPORTED_PROTOCOL, SOCKET_CONNECT_TIMEOUT, SOCKET_WRITE_ZERO,
     SOCKET_RETRY, SOCKET_GET_READ_BUFFER_FAILED, SOCKET_GET_WRITE_BUFFER_FAILED,
     SOCKET_SET_READ_BUFFER_FAILED, SOCKET_SET_WRITE_BUFFER_FAILED, SOCKET_SSL_CONTEXT_FAILED,
     SOCKET_SSL_CERTIFICATE_FAILED, SOCKET_SSL_CERTIFICATE_FILE_NOT_FOUND, SOCKET_SSL_PRIKEY_FAILED,
     SOCKET_SSL_WANT_READ, SOCKET_SSL_WANT_WRITE, SOCKET_SSL_WANT_X509_LOOKUP,
     SOCKET_SSL_SYSCALL_ERROR, SOCKET_SSL_ZERO_RETURN, SOCKET_SSL_ERROR,
     SOCKET_SSL_SANITY_ERROR, SOCKOPT_FAILURE, SOCKOPT_BAD_ID,
     SOCKOPT_UNKNOWN_OPTION, LOG_READ_FAILURE, LOG_UNSUPPORTED_TYPE_FAILURE,
     LOG_FILE_OPEN_FAILURE, MATH_INSUFFICIENT_BUFFER, EVENT_DIST_CREATE_FAILED,
     EVENT_CREATE_FAILED, EVENT_CREATE_FAILED_ZERO, EVENT_REMOVE_FAILED,
     FILEWATCHER_ADD_FOLDER_FAILED, FILEWATCHER_EVENT_CREATE_FAILED, SSL_CONNECT_FAILED,
     SSL_SESSION_NULL, CRYPTO_MEMORY_BAD_ASSIGNMENT, CRYPTO_UNKNOWN_ALGORITHM,
     CRYPTO_MEMORY_FAILURE, CRYPTO_CREATE_CONTEXT_FAILED, CRYPTO_INIT_AES_FAILED,
     CRYPTO_ENCRYPT_AES_FAILED, CRYPTO_DECRYPT_AES_FAILED, CRYPTO_KEY_GENERATION_FAILED,
     CRYPTO_CONTEXT_CREATION_FAILED, CRYPTO_BAD_KEY, CRYPTO_BAD_PUBLIC_KEY,
     CRYPTO_BAD_PRIVATE_KEY, CRYPTO_BAD_SYMETRIC_KEY, CRYPTO_KEY_ENCODE_FAIL,
     CRYPTO_CURVE_NOT_FOUND, HTTP_FILEMAP_NOT_FOUND, HTTP11_PARSER_MEMORY_FAILURE,
     HTTP11_PARSER_FAILURE, HTTP2_HPACK_TABLE_ERROR, HTTP2_INITIATE_GOAWAY,
     MAX_FAILURE]"

text \<open>\<open>err_t_string\<close>: the enumerator, a dash and its description.\<close>

definition err_t_string :: "string list" where
  "err_t_string =
    [''SUCCESS - SUCCESS'',
     ''SUCCESS_NONBLOCKING - Call is non blocking'',
     ''SOCKET_CONNECT_ALREADY_CONNECTED - Socket is already connected'',
     ''GENERAL_FAILURE - Failed'',
     ''BIND_FAILURE - Unable to bind to a socket'',
     ''LISTEN_FAILURE - Socket is already connected'',
     ''ACCEPT_FAILURE - Unable to accept connection to a socket'',
     ''CLOSE_FAILURE - Unable to close a socket'',
     ''RECEIVE_FAILURE - Unable to read from a socket'',
     ''SEND_FAILURE - Unable to write to a socket'',
     ''BAD_FILE_DESCRIPTOR - Bad file descriptor'',
     ''MAPPING_NOT_FOUND - General mapping error'',
     ''PTHREAD_JOIN_FAILURE - Unable to join to a thread'',
     ''PTHREAD_JOIN_DEADLOCK_FAILURE - pthread_join created a deadlock'',
     ''PTHREAD_JOIN_NOT_JOINABLE_FAILURE - Either thread is not joinable probably other thread is trying to join'',
     ''PTHREAD_JOIN_INVALID_THREAD_ID_FAILURE - No thread is running with given thread ID'',
     ''PTHREAD_CREATE_FAILURE - Unable to create thread'',
     ''GUID_BAD_STRING_FAILURE - Bad GUID string'',
     ''MESSAGE_COMMAND_LIMIT_FAILURE - Cannot add more command to message'',
     ''SOCKET_FAILURE - Unable to create socket'',
     ''SOCKET_PERMISSION_FAILURE - Insufficient permission to create socket'',
     ''SOCKET_ADDRESS_NOT_SUPPORTED - Address type is not supported'',
     ''SOCKET_PROTOCOL_NOT_SUPPORTED - Protocol type is not supported'',
     ''SOCKET_LIMIT_REACHED - Filedescriptor limit for socket reached'',
     ''SOCKET_INSUFFICIENT_MEMORY - Insufficient memory'',
     ''SOCKET_CONNECT_FAILURE - Unable to connect to socket'',
     ''SOCKET_CONNECT_PERMISSION_FAILURE - Insufficient permission to connect to socket'',
     ''SOCKET_CONNECT_ADDRESS_IN_USE - Already connected with this address'',
     ''SOCKET_CONNECT_ADDRESS_NOT_SUPPORTED - Address type is not supported'',
     ''SOCKET_CONNECT_INVALID_ID - Invalid socket ID'',
     ''SOCKET_CONNECT_CONNECTION_REFUSED - Connection refused, remote server not accepting connection'',
     ''SOCKET_CONNECT_INTERRUPTED - Connect was interrupted due to signal'',
     ''SOCKET_CONNECT_NETWORK_UNREACHABLE - Unreachable server'',
     ''SOCKET_CONNECT_UNSUPPORTED_PROTOCOL - Unsupported protocol'',
     ''SOCKET_CONNECT_TIMEOUT - Unable to connect as it timeout'',
     ''SOCKET_WRITE_ZERO - Socket write written zero byte'',
     ''SOCKET_RETRY - Socket retry last operation'',
     ''SOCKET_GET_READ_BUFFER_FAILED - Socket read buffer get failed'',
     ''SOCKET_GET_WRITE_BUFFER_FAILED - Socket write buffer get failed'',
     ''SOCKET_SET_READ_BUFFER_FAILED - Socket read buffer set failed'',
     ''SOCKET_SET_WRITE_BUFFER_FAILED - Socket write buffer set failed'',
     ''SOCKET_SSL_CONTEXT_FAILED - Creation on SSL context failed'',
     ''SOCKET_SSL_CERTIFICATE_FAILED - Failed to load SSL certificate'',
     ''SOCKET_SSL_CERTIFICATE_FILE_NOT_FOUND - Failed to load SSL certificate, file not found'',
     ''SOCKET_SSL_PRIKEY_FAILED - Failed to load Primay Key'',
     ''SOCKET_SSL_WANT_READ - Non blocking SSL, want to read more data'',
     ''SOCKET_SSL_WANT_WRITE - Non blocking SSL, want to write more data'',
     ''SOCKET_SSL_WANT_X509_LOOKUP - Non blocking SSL, looking for certificate'',
     ''SOCKET_SSL_SYSCALL_ERROR - SSL syscall error, probably connection is closed or wrong parameter'',
     ''SOCKET_SSL_ZERO_RETURN - SSL zero bytes returned no data'',
     ''SOCKET_SSL_ERROR - SSL error, Openssl call failed'',
     ''SOCKET_SSL_SANITY_ERROR - SSL error, parameter changes requires exactly same parameter'',
     ''SOCKOPT_FAILURE - Unable to set socket option'',
     ''SOCKOPT_BAD_ID - Unable to set socket option, bad socket ID'',
     ''SOCKOPT_UNKNOWN_OPTION - Unknown socket option'',
     ''LOG_READ_FAILURE - Unable to read log'',
     ''LOG_UNSUPPORTED_TYPE_FAILURE - Unsupported log type'',
     ''LOG_FILE_OPEN_FAILURE - Unable to open log file'',
     ''MATH_INSUFFICIENT_BUFFER - Buffer is not sufficient to store result, partial and wrong result may have been written to buffer'',
     ''EVENT_DIST_CREATE_FAILED - Event distributor creation failed'',
     ''EVENT_CREATE_FAILED - Event creation failed'',
     ''EVENT_CREATE_FAILED_ZERO - Event creation failed for 0 file descriptor value'',
     ''EVENT_REMOVE_FAILED - Event remove failed'',
     ''FILEWATCHER_ADD_FOLDER_FAILED - FILEWATCHER failed to add folder for watch'',
     ''FILEWATCHER_EVENT_CREATE_FAILED - FILEWATCHER event create failed'',
     ''SSL_CONNECT_FAILED - Failed to create SSL session'',
     ''SSL_SESSION_NULL - SSL session in NULL'',
     ''CRYPTO_MEMORY_BAD_ASSIGNMENT - Assigning to non null memory, make sure to free it first'',
     ''CRYPTO_UNKNOWN_ALGORITHM - Unknown crypto algorithm'',
     ''CRYPTO_MEMORY_FAILURE - Failed to allocated OpenSSL memory'',
     ''CRYPTO_CREATE_CONTEXT_FAILED - Failed to create OpenSSL encryption/decryption context'',
     ''CRYPTO_INIT_AES_FAILED - Failed to initialize OpenSSL AES encryption/decryption'',
     ''CRYPTO_ENCRYPT_AES_FAILED - Failed OpenSSL AES encryption'',
     ''CRYPTO_DECRYPT_AES_FAILED - Failed OpenSSL AES decryption'',
     ''CRYPTO_KEY_GENERATION_FAILED - Failed OpenSSL to generate key'',
     ''CRYPTO_CONTEXT_CREATION_FAILED - Context creation failed in OpenSSL'',
     ''CRYPTO_BAD_KEY - Bad key provided'',
     ''CRYPTO_BAD_PUBLIC_KEY - Bad public key provided'',
     ''CRYPTO_BAD_PRIVATE_KEY - Bad private key provided'',
     ''CRYPTO_BAD_SYMETRIC_KEY - Bad symetric key provided'',
     ''CRYPTO_KEY_ENCODE_FAIL - Failed to encode key to binary'',
     ''CRYPTO_CURVE_NOT_FOUND - Failed to find curve from key'',
     ''HTTP_FILEMAP_NOT_FOUND - Failed to find filemap'',
     ''HTTP11_PARSER_MEMORY_FAILURE - HTTP 1.1 parser failed to allocate memory'',
     ''HTTP11_PARSER_FAILURE - HTTP 1.1 parser failed to parse bad string'',
     ''HTTP2_HPACK_TABLE_ERROR - HTTP 2 HPACK internal error'',
     ''HTTP2_INITIATE_GOAWAY - HTTP 2 goaway initiated'',
     ''MAX_FAILURE - Max failure nothing beyond this'']"

text \<open>The underlying \<open>log_id_type\<close> value of an enumerator is its position.\<close>

definition err_value :: "err_t \<Rightarrow> nat" where
  "err_value e = length (takeWhile (\<lambda>x. x \<noteq> e) err_t_list)"

text \<open>Prefix increment; past \<open>MAX_FAILURE\<close> the value is no enumerator.\<close>

definition err_inc :: "err_t \<Rightarrow> err_t option" where
  "err_inc e = load err_t_list (err_value e + 1)"

text \<open>
  Postfix increment takes its operand by value: the pair of the result and the caller's variable
  afterwards.
\<close>

definition err_post_inc :: "err_t \<Rightarrow> err_t \<times> err_t" where
  "err_post_inc e = (let reterr = e in (reterr, e))"

definition to_string_size :: "bool \<Rightarrow> err_t \<Rightarrow> nat" where
  "to_string_size null_terminated e =
     (if null_terminated then length (err_t_string ! err_value e) + 1
      else length (err_t_string ! err_value e))"

definition err_to_string :: "bool \<Rightarrow> err_t \<Rightarrow> string" where
  "err_to_string null_terminated e =
     take (to_string_size null_terminated e) (err_t_string ! err_value e @ [NUL])"

definition isFailure :: "err_t \<Rightarrow> bool" where
  "isFailure e = (e \<noteq> SUCCESS)"

subsection \<open>Translation of errno\<close>

abbreviation EPERM :: int where "EPERM \<equiv> 1"
abbreviation EINTR :: int where "EINTR \<equiv> 4"
abbreviation EBADF :: int where "EBADF \<equiv> 9"
abbreviation EAGAIN :: int where "EAGAIN \<equiv> 11"
abbreviation ENOMEM :: int where "ENOMEM \<equiv> 12"
abbreviation EACCES :: int where "EACCES \<equiv> 13"
abbreviation EFAULT :: int where "EFAULT \<equiv> 14"
abbreviation EINVAL :: int where "EINVAL \<equiv> 22"
abbreviation EMFILE :: int where "EMFILE \<equiv> 24"
abbreviation ENOTSOCK :: int where "ENOTSOCK \<equiv> 88"
abbreviation EPROTOTYPE :: int where "EPROTOTYPE \<equiv> 91"
abbreviation ENOPROTOOPT :: int where "ENOPROTOOPT \<equiv> 92"
abbreviation EPROTONOSUPPORT :: int where "EPROTONOSUPPORT \<equiv> 93"
abbreviation EAFNOSUPPORT :: int where "EAFNOSUPPORT \<equiv> 97"
abbreviation EADDRINUSE :: int where "EADDRINUSE \<equiv> 98"
abbreviation EADDRNOTAVAIL :: int where "EADDRNOTAVAIL \<equiv> 99"
abbreviation ENETUNREACH :: int where "ENETUNREACH \<equiv> 101"
abbreviation ENOBUFS :: int where "ENOBUFS \<equiv> 105"
abbreviation EISCONN :: int where "EISCONN \<equiv> 106"
abbreviation ETIMEDOUT :: int where "ETIMEDOUT \<equiv> 110"
abbreviation ECONNREFUSED :: int where "ECONNREFUSED \<equiv> 111"
abbreviation EALREADY :: int where "EALREADY \<equiv> 114"
abbreviation EINPROGRESS :: int where "EINPROGRESS \<equiv> 115"

definition socket_create_ret :: "int \<Rightarrow> err_t" where
  "socket_create_ret errno =
     (if errno = 0 then SUCCESS
      else if errno = EACCES then SOCKET_PERMISSION_FAILURE
      else if errno = EAFNOSUPPORT then SOCKET_ADDRESS_NOT_SUPPORTED
      else if errno \<in> {EPROTONOSUPPORT, EINVAL} then SOCKET_PROTOCOL_NOT_SUPPORTED
      else if errno = EMFILE then SOCKET_LIMIT_REACHED
      else if errno \<in> {ENOBUFS, ENOMEM} then SOCKET_INSUFFICIENT_MEMORY
      else SOCKET_FAILURE)"

definition socket_connect_ret :: "int \<Rightarrow> err_t" where
  "socket_connect_ret errno =
     (if errno = 0 then SUCCESS
      else if errno \<in> {EAGAIN, EALREADY, EINPROGRESS} then SUCCESS_NONBLOCKING
      else if errno = EISCONN then SOCKET_CONNECT_ALREADY_CONNECTED
      else if errno \<in> {EACCES, EPERM} then SOCKET_CONNECT_PERMISSION_FAILURE
      else if errno \<in> {EADDRINUSE, EADDRNOTAVAIL} then SOCKET_CONNECT_ADDRESS_IN_USE
      else if errno = EAFNOSUPPORT then SOCKET_CONNECT_ADDRESS_NOT_SUPPORTED
      else if errno \<in> {EBADF, EFAULT, ENOTSOCK} then SOCKET_CONNECT_INVALID_ID
      else if errno = ECONNREFUSED then SOCKET_CONNECT_CONNECTION_REFUSED
      else if errno = EINTR then SOCKET_CONNECT_INTERRUPTED
      else if errno = ENETUNREACH then SOCKET_CONNECT_NETWORK_UNREACHABLE
      else if errno = EPROTOTYPE then SOCKET_CONNECT_UNSUPPORTED_PROTOCOL
      else if errno = ETIMEDOUT then SOCKET_CONNECT_TIMEOUT
      else SOCKET_CONNECT_FAILURE)"

definition sockopt_ret :: "int \<Rightarrow> err_t" where
  "sockopt_ret errno =
     (if errno = 0 then SUCCESS
      else if errno \<in> {EBADF, ENOTSOCK} then SOCKOPT_BAD_ID
      else if errno = ENOPROTOOPT then SOCKOPT_UNKNOWN_OPTION
      else SOCKOPT_FAILURE)"

text \<open>The numbers of OpenSSL's \<open>SSL_get_error\<close>.\<close>

abbreviation SSL_ERROR_SSL :: int where "SSL_ERROR_SSL \<equiv> 1"
abbreviation SSL_ERROR_WANT_READ :: int where "SSL_ERROR_WANT_READ \<equiv> 2"
abbreviation SSL_ERROR_WANT_WRITE :: int where "SSL_ERROR_WANT_WRITE \<equiv> 3"
abbreviation SSL_ERROR_WANT_X509_LOOKUP :: int where "SSL_ERROR_WANT_X509_LOOKUP \<equiv> 4"
abbreviation SSL_ERROR_SYSCALL :: int where "SSL_ERROR_SYSCALL \<equiv> 5"
abbreviation SSL_ERROR_ZERO_RETURN :: int where "SSL_ERROR_ZERO_RETURN \<equiv> 6"

definition ssl_error_ret :: "int \<Rightarrow> err_t" where
  "ssl_error_ret ssl_error =
     (if ssl_error \<in> {SSL_ERROR_WANT_READ, SSL_ERROR_WANT_WRITE, SSL_ERROR_WANT_X509_LOOKUP}
      then SOCKET_RETRY
      else if ssl_error = SSL_ERROR_SYSCALL then SOCKET_SSL_SYSCALL_ERROR
      else if ssl_error = SSL_ERROR_ZERO_RETURN then SOCKET_SSL_ZERO_RETURN
      else if ssl_error = SSL_ERROR_SSL then SOCKET_SSL_SANITY_ERROR
      else SOCKET_SSL_ERROR)"

subsection \<open>Every code has its own text\<close>

lemma length_err_tables: "length err_t_list = 88" "length err_t_string = 88"
  by (simp_all add: err_t_list_def err_t_string_def)

lemma err_t_list_complete: "e \<in> set err_t_list"
  by (cases e) (simp_all add: err_t_list_def)

lemma err_value_nth [simp]: "err_t_list ! err_value e = e"
  and err_value_less: "err_value e < 88"
proof -
  have "\<exists>x \<in> set err_t_list. \<not> x \<noteq> e" using err_t_list_complete [of e] by blast
  then have len: "err_value e < length err_t_list"
    unfolding err_value_def
    by (metis (mono_tags, lifting) length_takeWhile_le linorder_neqE_nat not_less takeWhile_eq_all_conv
        takeWhile_eq_take take_all)
  then show "err_value e < 88" by (simp add: length_err_tables)
  show "err_t_list ! err_value e = e"
    using nth_length_takeWhile [of "\<lambda>x. x \<noteq> e" err_t_list] len by (simp add: err_value_def)
qed

lemma err_value_inj: "err_value e = err_value e' \<longleftrightarrow> e = e'"
  by (metis err_value_nth)

lemma err_t_string_distinct: "distinct err_t_string"
proof -
  have "distinct (map (\<lambda>s. sum_list (map of_char s) :: integer) err_t_string)"
    by code_simp
  then show ?thesis by (simp add: distinct_map)
qed

text \<open>
  The buffer size announced for the text of an error code is the number of characters
  \<open>to_string\<close> writes, and different codes have different texts.
\<close>

theorem err_to_string_exact:
  "length (err_to_string nt e) = to_string_size nt e \<and>
   (err_to_string nt e = err_to_string nt e' \<longleftrightarrow> e = e')"
proof -
  have written: "err_to_string nt e = err_t_string ! err_value e @ (if nt then [NUL] else [])" for e
    by (simp add: err_to_string_def to_string_size_def)
  have "err_t_string ! err_value e = err_t_string ! err_value e' \<longleftrightarrow> err_value e = err_value e'"
    using err_t_string_distinct err_value_less
    by (simp add: nth_eq_iff_index_eq length_err_tables)
  then show ?thesis by (simp add: written to_string_size_def err_value_inj)
qed

text \<open>
  A connect that is still in progress is told apart from failures, and only \<open>errno\<close> 0 is
  reported as success by the three translations of \<open>errno\<close>.
\<close>

theorem errno_translation:
  "(socket_create_ret errno = SUCCESS \<longleftrightarrow> errno = 0) \<and>
   (socket_connect_ret errno = SUCCESS \<longleftrightarrow> errno = 0) \<and>
   (sockopt_ret errno = SUCCESS \<longleftrightarrow> errno = 0) \<and>
   (socket_connect_ret errno = SUCCESS_NONBLOCKING \<longleftrightarrow> errno \<in> {EAGAIN, EALREADY, EINPROGRESS})"
  by (auto simp: socket_create_ret_def socket_connect_ret_def sockopt_ret_def)

end
