(* ===== verification/Guid.thy ===== *)
theory Guid
  imports MathConv
begin

text \<open>
  serverlib/include/iot/core/guid.hh and the class \<open>guid_t\<close> of types.hh: 128-bit identifiers, their
  text form (five groups of hexadecimal digits) and their binary form in messages.
\<close>

subsection \<open>guid_t\<close>

text \<open>The union of a \<open>guid_t\<close> as its sixteen bytes \<open>guid_8\<close>.\<close>

type_synonym guid = "u8 list"

definition guid_size :: nat where
  "guid_size = 16"

definition guid_string_size :: nat where
  "guid_string_size = 36"

definition wf_guid :: "guid \<Rightarrow> bool" where
  "wf_guid g \<longleftrightarrow> length g = guid_size"

text \<open>One element of the \<open>guid_64\<close> view of the union on a little endian host.\<close>

definition guid_64 :: "guid \<Rightarrow> nat \<Rightarrow> u64" where
  "guid_64 g i = foldr (\<lambda>b acc. acc * 256 + ucast b) (take 8 (drop (8 * i) g)) 0"

definition guid_hash :: "guid \<Rightarrow> u64" where
  "guid_hash g = guid_64 g 0 XOR guid_64 g 1"

definition guid_eq :: "guid \<Rightarrow> guid \<Rightarrow> bool" where
  "guid_eq g h \<longleftrightarrow> guid_64 g 0 = guid_64 h 0 \<and> guid_64 g 1 = guid_64 h 1"

text \<open>
  \<open>serialized\<close> into a buffer of \<open>avail\<close> bytes: the bytes stored, or \<open>None\<close> for the null pointer.
\<close>

definition guid_serialized :: "nat \<Rightarrow> guid \<Rightarrow> u8 list option" where
  "guid_serialized avail g = (if avail \<le> guid_size then None else Some g)"

subsection \<open>to_string\<close>

definition guid_t_str_copy_helper :: "number_case \<Rightarrow> u8 \<Rightarrow> string" where
  "guid_t_str_copy_helper nc b =
     [digit_char nc (unat (drop_bit 4 b)), digit_char nc (unat (b AND 0x0f))]"

text \<open>The digits of the bytes \<open>from\<close> up to but not including \<open>upto\<close>, one \<open>for\<close> loop of the code.\<close>

definition guid_group :: "number_case \<Rightarrow> guid \<Rightarrow> nat \<Rightarrow> nat \<Rightarrow> string" where
  "guid_group nc g from_i upto_i = concat (map (\<lambda>i. guid_t_str_copy_helper nc (g ! i)) [from_i..<upto_i])"

definition guid_to_string :: "number_case \<Rightarrow> bool \<Rightarrow> guid \<Rightarrow> string" where
  "guid_to_string nc null_terminated g =
     guid_group nc g 0 4 @ ''-'' @ guid_group nc g 4 6 @ ''-'' @ guid_group nc g 6 8 @ ''-'' @
     guid_group nc g 8 10 @ ''-'' @ guid_group nc g 10 16 @ (if null_terminated then [NUL] else [])"

subsection \<open>to_guid\<close>

definition to_guid_helper :: "string \<Rightarrow> nat \<Rightarrow> (u8 \<times> nat) option" where
  "to_guid_helper src src_i =
     do { c1 \<leftarrow> load src src_i;
          v1 \<leftarrow> char_value c1;
          c2 \<leftarrow> load src (src_i + 1);
          v2 \<leftarrow> char_value c2;
          Some (v1 * 16 + v2, src_i + 2) }"

text \<open>One \<open>for\<close> loop that reads \<open>n\<close> bytes.\<close>

fun to_guid_group :: "nat \<Rightarrow> string \<Rightarrow> nat \<Rightarrow> (u8 list \<times> nat) option" where
  "to_guid_group 0 src src_i = Some ([], src_i)"
| "to_guid_group (Suc n) src src_i =
     do { (b, src_i') \<leftarrow> to_guid_helper src src_i;
          (bs, src_i'') \<leftarrow> to_guid_group n src src_i';
          Some (b # bs, src_i'') }"

definition to_guid :: "string \<Rightarrow> (guid \<times> nat) option" where
  "to_guid src =
     do { (g1, i1) \<leftarrow> to_guid_group 4 src 0;
          (g2, i2) \<leftarrow> to_guid_group 2 src (i1 + 1);
          (g3, i3) \<leftarrow> to_guid_group 2 src (i2 + 1);
          (g4, i4) \<leftarrow> to_guid_group 2 src (i3 + 1);
          (g5, i5) \<leftarrow> to_guid_group 6 src (i4 + 1);
          Some (g1 @ g2 @ g3 @ g4 @ g5, i5) }"

subsection \<open>The text form is read back\<close>

lemma nibbles [simp]: "unat (drop_bit 4 (b :: u8)) < 16" "unat (b AND 0x0f) < 16"
proof -
  have "drop_bit 4 b = take_bit 4 (drop_bit 4 b)" "b AND 0x0f = take_bit 4 b"
    by (rule u8_eqI; auto simp: bit_simps) (simp add: take_bit_eq_mask mask_eq_exp_minus_1)
  then show "unat (drop_bit 4 (b :: u8)) < 16" "unat (b AND 0x0f) < 16"
    using take_bit_nat_less_exp [of 4] by (metis unsigned_take_bit_eq power4_eq_xxxx mult_2_right numeral_Bit0)+
qed

lemma nibbles_sum: "drop_bit 4 b * 16 + (b AND 0x0f) = (b :: u8)"
proof -
  have "drop_bit 4 b * 16 = push_bit 4 (drop_bit 4 b)" "b AND 0x0f = take_bit 4 b"
    by (simp_all add: push_bit_eq_mult take_bit_eq_mask mask_eq_exp_minus_1)
  then show ?thesis by (simp add: bits_ident)
qed

lemma to_guid_helper_hex:
  "to_guid_helper (pre @ guid_t_str_copy_helper nc b @ rest) (length pre) = Some (b, length pre + 2)"
  by (simp add: to_guid_helper_def guid_t_str_copy_helper_def load_def nth_append
      char_value_digit_char nibbles_sum del: digit_char.simps)

lemma to_guid_group_hex:
  "to_guid_group (length bs) (pre @ concat (map (guid_t_str_copy_helper nc) bs) @ rest) (length pre) =
   Some (bs, length pre + 2 * length bs)"
proof (induction bs arbitrary: pre)
  case (Cons b bs)
  have "length (pre @ guid_t_str_copy_helper nc b) = length pre + 2"
    by (simp add: guid_t_str_copy_helper_def)
  with Cons [of "pre @ guid_t_str_copy_helper nc b"] show ?case
    using to_guid_helper_hex [of pre nc b "concat (map (guid_t_str_copy_helper nc) bs) @ rest"]
    by simp
qed simp

lemma length_guid_group: "length (guid_group nc g i j) = 2 * (j - i)"
  by (simp add: guid_group_def guid_t_str_copy_helper_def length_concat comp_def sum_list_triv)

lemma to_guid_group_guid_group:
  assumes "k = length pre" "n = j - i"
  shows "to_guid_group n (pre @ guid_group nc g i j @ rest) k =
         Some (map ((!) g) [i..<j], k + 2 * n)"
  using to_guid_group_hex [of "map ((!) g) [i..<j]" pre nc rest] assms
  by (simp add: guid_group_def comp_def)

lemma upt_join: "i \<le> j \<Longrightarrow> j \<le> k \<Longrightarrow> [i..<j] @ [j..<k] = [i..<k]"
  using upt_add_eq_append [of i j "k - j"] by simp

text \<open>
  The text of every guid, in either case, is parsed back to the same sixteen bytes, and the
  reported length is the 36 characters of the text.
\<close>

theorem to_guid_to_string:
  assumes "wf_guid g"
  shows "to_guid (guid_to_string nc nt g @ rest) = Some (g, guid_string_size)"
proof -
  let ?s = "guid_to_string nc nt g @ rest" and ?e = "(if nt then [NUL] else []) @ rest"
  let ?g1 = "guid_group nc g 0 4" and ?g2 = "guid_group nc g 4 6" and ?g3 = "guid_group nc g 6 8"
  let ?g4 = "guid_group nc g 8 10" and ?g5 = "guid_group nc g 10 16"
  have l: "length ?g1 = 8" "length ?g2 = 4" "length ?g3 = 4" "length ?g4 = 4"
    by (simp_all add: length_guid_group)
  have "to_guid_group 4 ?s 0 = Some (map ((!) g) [0..<4], 0 + 2 * 4)"
  proof -
    have "0 = length ([] :: string)" "4 = 4 - (0 :: nat)" using l by simp_all
    from to_guid_group_guid_group [OF this, of nc g "''-'' @ ?g2 @ ''-'' @ ?g3 @ ''-'' @ ?g4 @ ''-'' @ ?g5 @ ?e"] show ?thesis
      by (simp only: guid_to_string_def append_assoc append_Nil)
  qed
  moreover have "to_guid_group 2 ?s 9 = Some (map ((!) g) [4..<6], 9 + 2 * 2)"
  proof -
    have "9 = length (?g1 @ ''-'')" "2 = 6 - (4 :: nat)" using l by simp_all
    from to_guid_group_guid_group [OF this, of nc g "''-'' @ ?g3 @ ''-'' @ ?g4 @ ''-'' @ ?g5 @ ?e"] show ?thesis
      by (simp only: guid_to_string_def append_assoc append_Nil)
  qed
  moreover have "to_guid_group 2 ?s 14 = Some (map ((!) g) [6..<8], 14 + 2 * 2)"
  proof -
    have "14 = length (?g1 @ ''-'' @ ?g2 @ ''-'')" "2 = 8 - (6 :: nat)" using l by simp_all
    from to_guid_group_guid_group [OF this, of nc g "''-'' @ ?g4 @ ''-'' @ ?g5 @ ?e"] show ?thesis
      by (simp only: guid_to_string_def append_assoc append_Nil)
  qed
  moreover have "to_guid_group 2 ?s 19 = Some (map ((!) g) [8..<10], 19 + 2 * 2)"
  proof -
    have "19 = length (?g1 @ ''-'' @ ?g2 @ ''-'' @ ?g3 @ ''-'')" "2 = 10 - (8 :: nat)" using l by simp_all
    from to_guid_group_guid_group [OF this, of nc g "''-'' @ ?g5 @ ?e"] show ?thesis
      by (simp only: guid_to_string_def append_assoc append_Nil)
  qed
  moreover have "to_guid_group 6 ?s 24 = Some (map ((!) g) [10..<16], 24 + 2 * 6)"
  proof -
    have "24 = length (?g1 @ ''-'' @ ?g2 @ ''-'' @ ?g3 @ ''-'' @ ?g4 @ ''-'')" "6 = 16 - (10 :: nat)" using l by simp_all
    from to_guid_group_guid_group [OF this, of nc g "?e"] show ?thesis
      by (simp only: guid_to_string_def append_assoc append_Nil)
  qed
  moreover have "map ((!) g) [0..<4] @ map ((!) g) [4..<6] @ map ((!) g) [6..<8] @
      map ((!) g) [8..<10] @ map ((!) g) [10..<16] = map ((!) g) [0..<16]"
    by (simp only: map_append [symmetric] upt_join zero_le numeral_le_iff semiring_norm)
  moreover have "map ((!) g) [0..<16] = g"
    using assms by (metis guid_size_def map_nth wf_guid_def)
  ultimately show ?thesis by (simp add: to_guid_def guid_string_size_def)
qed

theorem to_guid_to_string_witness:
  "to_guid (guid_to_string lower True (map word_of_nat [240..<256]) @ ''x'') =
   Some (map word_of_nat [240..<256], 36)"
  using to_guid_to_string [of "map word_of_nat [240..<256]" lower True "''x''"]
  by (simp add: wf_guid_def guid_size_def guid_string_size_def)

text \<open>A buffer that has exactly the room needed is refused.\<close>

lemma guid_serialized_exact_fit: "guid_serialized guid_size g = None"
  by (simp add: guid_serialized_def)

end
