(* ===== verification/Ipv6.thy ===== *)
theory Ipv6
  imports MathConv
begin

text \<open>
  serverlib/include/iot/core/ipv6addr.hh and the address classes of types.hh: IPv6 addresses and
  socket addresses, their parser (two passes over the text, the first to find the position of the
  double colon) and their printer (which abbreviates the longest run of zero groups).
\<close>

subsection \<open>ipv6_addr_t, ipv6_port_t, ipv6_socket_addr_t\<close>

text \<open>The \<open>addr_16\<close> view of the union: eight groups in network byte order.\<close>

type_synonym ipv6_addr = "u16 list"

definition ipv6_addr16_size :: nat where
  "ipv6_addr16_size = 16 div 2"

definition wf_ipv6 :: "ipv6_addr \<Rightarrow> bool" where
  "wf_ipv6 a \<longleftrightarrow> length a = ipv6_addr16_size"

text \<open>A port is kept in network byte order.\<close>

record ipv6_port =
  port_value :: u16

definition ipv6_port_of :: "u16 \<Rightarrow> ipv6_port" where
  "ipv6_port_of v = \<lparr>port_value = changeEndian16 v\<rparr>"

definition port_to_uint16 :: "ipv6_port \<Rightarrow> u16" where
  "port_to_uint16 p = changeEndian16 (port_value p)"

record ipv6_socket_addr =
  sa_addr :: ipv6_addr
  sa_port :: ipv6_port

definition to_ipv6_port_t :: "string \<Rightarrow> (ipv6_port \<times> nat) option" where
  "to_ipv6_port_t src = map_option (\<lambda>(value, len). (ipv6_port_of value, len)) (to_uint 10 src)"

subsection \<open>to_ipv6_addr_t\<close>

text \<open>
  The first pass counts the colons in \<open>pos\<close> and records \<open>compacted_pos_start\<close>; the second stores
  the groups.  Both are \<open>size_t\<close> arithmetic.  A text without its end, a store outside the address
  and a failed assertion are \<open>None\<close>.
\<close>

fun ipv6_pass1 :: "bool \<Rightarrow> string \<Rightarrow> bool \<Rightarrow> u64 \<Rightarrow> u64 \<Rightarrow> (u64 \<times> u64) option" where
  "ipv6_pass1 bracesEnd [] lastcolon pos compacted_pos_start = None"
| "ipv6_pass1 bracesEnd (c # s) lastcolon pos compacted_pos_start =
     (if c = NUL \<or> bracesEnd \<and> c = CHR '']'' then Some (pos, compacted_pos_start)
      else if c = CHR '':'' then
        ipv6_pass1 bracesEnd s True (pos + 1) (if lastcolon then pos else compacted_pos_start)
      else ipv6_pass1 bracesEnd s False pos compacted_pos_start)"

definition store16 :: "ipv6_addr \<Rightarrow> u64 \<Rightarrow> u16 \<Rightarrow> ipv6_addr option" where
  "store16 addr pos v = (if unat pos < length addr then Some (addr[unat pos := v]) else None)"

text \<open>The last component counts the characters read, the one that ends the text included.\<close>

fun ipv6_pass2 :: "bool \<Rightarrow> u64 \<Rightarrow> u64 \<Rightarrow> string \<Rightarrow> u64 \<Rightarrow> u16 \<Rightarrow> ipv6_addr \<Rightarrow> nat \<Rightarrow>
    (u64 \<times> u16 \<times> ipv6_addr \<times> nat) option" where
  "ipv6_pass2 bracesEnd start skip [] pos hexval addr n = None"
| "ipv6_pass2 bracesEnd start skip (c # s) pos hexval addr n =
     (if c = NUL \<or> bracesEnd \<and> c = CHR '']'' then Some (pos, hexval, addr, Suc n)
      else if c = CHR '':'' then
        do { addr' \<leftarrow> store16 addr pos (changeEndian16 hexval);
             if pos = start then ipv6_pass2 bracesEnd start skip s (pos + skip) hexval addr' (Suc n)
             else ipv6_pass2 bracesEnd start skip s (pos + 1) 0 addr' (Suc n) }
      else
        do { d \<leftarrow> char_value c;
             ipv6_pass2 bracesEnd start skip s pos (hexval * 16 + ucast d) addr (Suc n) })"

definition to_ipv6_addr_t :: "bool \<Rightarrow> string \<Rightarrow> (ipv6_addr \<times> nat) option" where
  "to_ipv6_addr_t bracesEnd ipv6str =
     do { (colons, compacted_pos_start) \<leftarrow> ipv6_pass1 bracesEnd ipv6str False 0 8;
          (pos, hexval, addr, n) \<leftarrow>
            ipv6_pass2 bracesEnd compacted_pos_start (8 - colons) ipv6str 0 0 (replicate 8 0) 0;
          if pos \<noteq> 7 then None
          else do { addr' \<leftarrow> store16 addr pos (changeEndian16 hexval); Some (addr', n) } }"

subsection \<open>to_string\<close>

text \<open>The search for the run of zero groups to abbreviate: \<open>(compact_start, compact_size)\<close>.\<close>

fun compact_search :: "ipv6_addr \<Rightarrow> nat \<Rightarrow> nat \<Rightarrow> nat \<times> nat \<Rightarrow> nat \<times> nat" where
  "compact_search [] index current_size best = best"
| "compact_search (a # as) index current_size (compact_start, compact_size) =
     (if a = 0 then
        (if compact_size < Suc current_size
         then compact_search as (Suc index) (Suc current_size) (index + 1 - Suc current_size, Suc current_size)
         else compact_search as (Suc index) (Suc current_size) (compact_start, compact_size))
      else compact_search as (Suc index) 0 (compact_start, compact_size))"

partial_function (option) ipv6_write ::
    "number_case \<Rightarrow> ipv6_addr \<Rightarrow> nat \<Rightarrow> nat \<Rightarrow> nat \<Rightarrow> string option" where
  "ipv6_write nc val compact_start compact_size index =
     (if index < 8 then
        if index = compact_start then
          do { s \<leftarrow> ipv6_write nc val compact_start compact_size (index + compact_size);
               Some ((if index = 0 then '':'' else []) @ '':'' @ s) }
        else
          do { a \<leftarrow> load val index;
               s \<leftarrow> ipv6_write nc val compact_start compact_size (Suc index);
               Some (to_string_uint 16 nc False (changeEndian16 a) @
                     (if index \<noteq> 7 then '':'' else []) @ s) }
      else Some [])"

definition ipv6_to_string :: "number_case \<Rightarrow> bool \<Rightarrow> ipv6_addr \<Rightarrow> string option" where
  "ipv6_to_string nc null_terminated val =
     (let (compact_start, compact_size) = compact_search val 0 0 (8, 1) in
      do { s \<leftarrow> ipv6_write nc val compact_start compact_size 0;
           Some (s @ (if null_terminated then [NUL] else [])) })"

subsection \<open>Socket addresses\<close>

definition to_ipv6_socket_addr_t :: "string \<Rightarrow> (ipv6_socket_addr \<times> nat) option" where
  "to_ipv6_socket_addr_t ipv6str =
     do { (addr, len) \<leftarrow> to_ipv6_addr_t True (drop 1 ipv6str);
          (value, len') \<leftarrow> to_uint 10 (drop (1 + len + 1) ipv6str);
          Some (\<lparr>sa_addr = addr, sa_port = ipv6_port_of value\<rparr>, 1 + len + 1 + len') }"

definition ipv6_socket_to_string :: "number_case \<Rightarrow> bool \<Rightarrow> ipv6_socket_addr \<Rightarrow> string option" where
  "ipv6_socket_to_string nc null_terminated val =
     do { s \<leftarrow> ipv6_to_string nc False (sa_addr val);
          Some (''['' @ s @ '']'' @ '':'' @
                to_string_uint 10 nc null_terminated (port_to_uint16 (sa_port val))) }"

definition ipv6_addr_t_max_hex_string :: nat where
  "ipv6_addr_t_max_hex_string = 40"

definition ipv6_socket_addr_t_max_hex_string :: nat where
  "ipv6_socket_addr_t_max_hex_string = ipv6_addr_t_max_hex_string + 8"

subsection \<open>Groups of hexadecimal digits\<close>

abbreviation hex_group :: "number_case \<Rightarrow> u16 \<Rightarrow> string" where
  "hex_group nc a \<equiv> to_string_uint 16 nc False a"

lemma hex_char_plain:
  assumes "d < 16"
  shows "digit_char nc d \<noteq> NUL" "digit_char nc d \<noteq> CHR '':''" "digit_char nc d \<noteq> CHR '']''"
proof -
  have "list_all (\<lambda>d. digit_char nc d \<noteq> NUL \<and> digit_char nc d \<noteq> CHR '':'' \<and> digit_char nc d \<noteq> CHR '']'') [0..<16]"
    by (cases nc) (simp only:, code_simp)+
  from upt_allD [OF this assms]
  show "digit_char nc d \<noteq> NUL" "digit_char nc d \<noteq> CHR '':''" "digit_char nc d \<noteq> CHR '']''" by auto
qed

lemma ipv6_pass1_digits:
  "ipv6_pass1 b (rev (digits_loop 16 nc m) @ s) lc pos start = ipv6_pass1 b s False pos start"
proof (induction "16 :: nat" nc m arbitrary: s rule: digits_loop.induct)
  case (1 nc m)
  have "m mod 16 < 16" by simp
  note d = hex_char_plain [OF this, of nc]
  have "ipv6_pass1 b (digit_char nc (m mod 16) # s) l pos start = ipv6_pass1 b s False pos start" for l
    using d by simp
  moreover have "m mod 16 = m" if "m div 16 = 0" using that by (simp add: div_eq_0_iff)
  ultimately show ?case
    using "1.hyps" by (cases "m div 16 = 0") (simp_all add: digits_loop.simps [of 16 nc m]
        del: digit_char.simps ipv6_pass1.simps)
qed

lemma ipv6_pass2_digits:
  "ipv6_pass2 b start skip (rev (digits_loop 16 nc m) @ s) pos v addr n =
   ipv6_pass2 b start skip s pos (v * 16 ^ length (digits_loop 16 nc m) + word_of_nat m) addr
     (n + length (digits_loop 16 nc m))"
proof (induction "16 :: nat" nc m arbitrary: s rule: digits_loop.induct)
  case (1 nc m)
  have m: "m mod 16 < 16" by simp
  note d = hex_char_plain [OF m, of nc] char_value_digit_char [OF m, of nc]
  have digit: "ipv6_pass2 b start skip (digit_char nc (m mod 16) # s) pos w addr k =
      ipv6_pass2 b start skip s pos (w * 16 + word_of_nat (m mod 16)) addr (Suc k)" for w k
    using d m by (simp add: unsigned_of_nat take_bit_nat_eq_self del: digit_char.simps)
  show ?case
  proof (cases "m div 16 = 0")
    case True
    then have "m mod 16 = m" by (simp add: div_eq_0_iff)
    with True digit show ?thesis
      by (simp add: digits_loop.simps [of 16 nc m] del: ipv6_pass2.simps digit_char.simps)
  next
    case False
    have "word_of_nat m = (word_of_nat (m div 16) * 16 + word_of_nat (m mod 16) :: u16)"
      by (metis div_mult_mod_eq of_nat_add of_nat_mult of_nat_numeral)
    with False digit "1.hyps" show ?thesis
      by (simp add: digits_loop.simps [of 16 nc m] algebra_simps
          del: ipv6_pass2.simps digit_char.simps)
  qed
qed

lemma ipv6_pass1_group [simp]:
  "ipv6_pass1 b (hex_group nc a @ s) lc pos start = ipv6_pass1 b s False pos start"
  by (simp add: to_string_uint_def ipv6_pass1_digits)

lemma ipv6_pass2_group [simp]:
  "ipv6_pass2 b start skip (hex_group nc a @ s) pos 0 addr n =
   ipv6_pass2 b start skip s pos a addr (n + length (hex_group nc a))"
  by (simp add: to_string_uint_def ipv6_pass2_digits)

lemma length_hex_group: "length (hex_group nc a) \<le> 4"
  by (simp add: to_string_uint_def length_digits_loop_le)

subsection \<open>The run of zero groups\<close>

definition zero_run :: "ipv6_addr \<Rightarrow> nat \<Rightarrow> nat \<Rightarrow> bool" where
  "zero_run val i n \<longleftrightarrow> i + n \<le> length val \<and> (\<forall>k < n. val ! (i + k) = 0)"

lemma zero_run_append: "zero_run pre i n \<Longrightarrow> zero_run (pre @ as) i n"
  by (auto simp: zero_run_def nth_append)

lemma zero_run_extend:
  assumes "zero_run pre (length pre - cur) cur" "cur \<le> length pre"
  shows "zero_run (pre @ [0]) (length pre - cur) (Suc cur)"
  using assms by (auto simp: zero_run_def nth_append less_Suc_eq)

lemma compact_search_run:
  assumes "compact_search as (length pre) cur (st, sz) = (st', sz')"
    and "cur \<le> length pre" "zero_run pre (length pre - cur) cur"
    and "(st, sz) = (8, 1) \<or> 2 \<le> sz \<and> zero_run pre st sz"
  shows "(st', sz') = (8, 1) \<or> 2 \<le> sz' \<and> zero_run (pre @ as) st' sz'"
  using assms
proof (induction as arbitrary: pre cur st sz)
  case (Cons a as)
  let ?pre = "pre @ [a]"
  have IH: "compact_search as (Suc (length pre)) cur' (x, y) = (st', sz') \<Longrightarrow> cur' \<le> Suc (length pre) \<Longrightarrow>
      zero_run ?pre (Suc (length pre) - cur') cur' \<Longrightarrow>
      (x, y) = (8, 1) \<or> 2 \<le> y \<and> zero_run ?pre x y \<Longrightarrow>
      (st', sz') = (8, 1) \<or> 2 \<le> sz' \<and> zero_run (pre @ a # as) st' sz'" for cur' x y
    using Cons.IH [of ?pre cur' x y] by simp
  have keep: "(st, sz) = (8, 1) \<or> 2 \<le> sz \<and> zero_run ?pre st sz"
    using Cons.prems(4) zero_run_append by blast
  show ?case
  proof (cases "a = 0")
    case zero: True
    note run = zero_run_extend [OF Cons.prems(3,2), folded zero]
    have one: "1 \<le> sz" using Cons.prems(4) by auto
    show ?thesis
    proof (cases "sz < Suc cur")
      case True
      with one Cons.prems(1,2) run zero show ?thesis
        by (intro IH [of "Suc cur" "length pre - cur" "Suc cur"]) (auto simp: Suc_diff_le)
    next
      case False
      with Cons.prems(1,2) run zero keep show ?thesis
        by (intro IH [of "Suc cur" st sz]) auto
    qed
  next
    case False
    with Cons.prems(1) show ?thesis by (intro IH [of 0 st sz] keep) (auto simp: zero_run_def)
  qed
qed simp

text \<open>The only shapes the search can report for eight groups.\<close>

lemma compact_search_cases:
  assumes "wf_ipv6 val" "compact_search val 0 0 (8, 1) = (st, sz)"
  shows "(st, sz) = (8, 1) \<or> 2 \<le> sz \<and> st + sz \<le> 8 \<and> (\<forall>k < sz. val ! (st + k) = 0)"
  using compact_search_run [of val "[]" 0 8 1 st sz] assms
  by (auto simp: zero_run_def wf_ipv6_def ipv6_addr16_size_def)

lemma changeEndian16_0 [simp]: "changeEndian16 0 = 0"
  by (simp add: changeEndian16_def)

lemma compaction_choices:
  assumes "(st, sz) = (8, 1) \<or> 2 \<le> sz \<and> st + sz \<le> (8 :: nat)"
  shows "st = 8 \<and> sz = 1 \<or> st = 0 \<and> sz = 2 \<or> st = 1 \<and> sz = 2 \<or> st = 2 \<and> sz = 2 \<or>
     st = 3 \<and> sz = 2 \<or> st = 4 \<and> sz = 2 \<or> st = 5 \<and> sz = 2 \<or> st = 6 \<and> sz = 2 \<or>
     st = 0 \<and> sz = 3 \<or> st = 1 \<and> sz = 3 \<or> st = 2 \<and> sz = 3 \<or> st = 3 \<and> sz = 3 \<or>
     st = 4 \<and> sz = 3 \<or> st = 5 \<and> sz = 3 \<or> st = 0 \<and> sz = 4 \<or> st = 1 \<and> sz = 4 \<or>
     st = 2 \<and> sz = 4 \<or> st = 3 \<and> sz = 4 \<or> st = 4 \<and> sz = 4 \<or> st = 0 \<and> sz = 5 \<or>
     st = 1 \<and> sz = 5 \<or> st = 2 \<and> sz = 5 \<or> st = 3 \<and> sz = 5 \<or> st = 0 \<and> sz = 6 \<or>
     st = 1 \<and> sz = 6 \<or> st = 2 \<and> sz = 6 \<or> st = 0 \<and> sz = 7 \<or> st = 1 \<and> sz = 7 \<or>
     st = 0 \<and> sz = 8"
  using assms by (simp only: prod.inject) presburger

lemmas ipv6_eval = to_ipv6_addr_t_def store16_def load_def ipv6_write.simps

lemma ipv6_parse_write:
  assumes "wf_ipv6 val" "compact_search val 0 0 (8, 1) = (st, sz)" "c = NUL \<or> b \<and> c = CHR '']''"
  shows "\<exists>s. ipv6_write nc val st sz 0 = Some s \<and>
           to_ipv6_addr_t b (s @ c # rest) = Some (val, Suc (length s))"
proof -
  have "length val = Suc (Suc (Suc (Suc (Suc (Suc (Suc (Suc 0)))))))"
    using assms(1) by (simp add: wf_ipv6_def ipv6_addr16_size_def)
  then obtain a0 a1 a2 a3 a4 a5 a6 a7 where val: "val = [a0, a1, a2, a3, a4, a5, a6, a7]"
    unfolding length_Suc_conv by auto
  note shape = compact_search_cases [OF assms(1,2)]
  have zero: "\<forall>k < sz. val ! (st + k) = 0" if "st \<noteq> 8" using shape that by auto
  have "(st, sz) = (8, 1) \<or> 2 \<le> sz \<and> st + sz \<le> 8" using shape by auto
  from compaction_choices [OF this] show ?thesis
    using assms(3) zero unfolding val
    by (elim disjE) (simp_all add: ipv6_eval, simp_all add: numeral_eq_Suc All_less_Suc)
qed

lemma ipv6_write_length:
  assumes "length val = 8" "(st, sz) = (8, 1) \<or> 2 \<le> sz \<and> st + sz \<le> 8"
    and "ipv6_write nc val st sz 0 = Some s"
  shows "length s \<le> 39"
proof -
  have group: "length (hex_group nc (changeEndian16 (val ! i))) \<le> 4" for i
    by (rule length_hex_group)
  show ?thesis
    using compaction_choices [OF assms(2)] assms(1,3) group [of 0] group [of "Suc 0"]
      group [of "Suc (Suc 0)"] group [of "Suc (Suc (Suc 0))"] group [of "Suc (Suc (Suc (Suc 0)))"]
      group [of "Suc (Suc (Suc (Suc (Suc 0))))"] group [of "Suc (Suc (Suc (Suc (Suc (Suc 0)))))"]
      group [of "Suc (Suc (Suc (Suc (Suc (Suc (Suc 0))))))"]
      group [of 2] group [of 3] group [of 4] group [of 5] group [of 6] group [of 7]
    by (elim disjE) (auto simp add: ipv6_write.simps load_def)
qed

subsection \<open>Addresses and socket addresses survive printing and parsing\<close>

lemma ipv6_to_string_parse:
  assumes "wf_ipv6 val"
  shows "\<exists>s. ipv6_to_string nc nt val = Some (s @ (if nt then [NUL] else [])) \<and> length s \<le> 39 \<and>
           (\<forall>b c rest. c = NUL \<or> b \<and> c = CHR '']'' \<longrightarrow>
              to_ipv6_addr_t b (s @ c # rest) = Some (val, Suc (length s)))"
proof -
  obtain st sz where c: "compact_search val 0 0 (8, 1) = (st, sz)" by fastforce
  obtain s where s: "ipv6_write nc val st sz 0 = Some s"
    using ipv6_parse_write [OF assms c, of NUL] by blast
  have "(st, sz) = (8, 1) \<or> 2 \<le> sz \<and> st + sz \<le> 8" using compact_search_cases [OF assms c] by auto
  moreover have "length val = 8" using assms by (simp add: wf_ipv6_def ipv6_addr16_size_def)
  ultimately have "length s \<le> 39" using s by (intro ipv6_write_length) auto
  moreover have "to_ipv6_addr_t b (s @ c' # rest) = Some (val, Suc (length s))"
    if "c' = NUL \<or> b \<and> c' = CHR '']''" for b c' rest
    using ipv6_parse_write [OF assms c that, of nc rest] s by auto
  ultimately show ?thesis using s c by (auto simp: ipv6_to_string_def)
qed

text \<open>
  Every IPv6 address is printed, in a text that fits the 40 byte buffer of
  \<open>ipv6_addr_t_max_hex_string\<close>, and the two-pass parser reads that text back to the same address
  and stops right after the terminating NUL, whichever run of zero groups was abbreviated.
\<close>

theorem to_ipv6_addr_to_string:
  assumes "wf_ipv6 val"
  shows "\<exists>s. ipv6_to_string nc True val = Some s \<and> length s \<le> ipv6_addr_t_max_hex_string \<and>
             to_ipv6_addr_t False (s @ rest) = Some (val, length s)"
  using ipv6_to_string_parse [OF assms, of nc True]
  by (auto simp: ipv6_addr_t_max_hex_string_def)

theorem to_ipv6_addr_to_string_witness:
  "\<exists>s. ipv6_to_string upper True [0x120, 0, 0, 0, 0, 0, 0, 0x100] = Some s \<and>
       length s \<le> ipv6_addr_t_max_hex_string \<and>
       to_ipv6_addr_t False (s @ ''z'') = Some ([0x120, 0, 0, 0, 0, 0, 0, 0x100], length s)"
  using to_ipv6_addr_to_string [of "[0x120, 0, 0, 0, 0, 0, 0, 0x100]" upper "''z''"]
  by (simp add: wf_ipv6_def ipv6_addr16_size_def)

text \<open>
  Every socket address is printed in at most 48 bytes and read back: brackets, address, colon
  and port, and the parser reports the length of the whole text.
\<close>

theorem to_ipv6_socket_addr_to_string:
  assumes "wf_ipv6 (sa_addr val)"
  shows "\<exists>s. ipv6_socket_to_string nc True val = Some s \<and>
             length s \<le> ipv6_socket_addr_t_max_hex_string \<and>
             to_ipv6_socket_addr_t (s @ rest) = Some (val, length s)"
proof -
  obtain s where s: "ipv6_to_string nc False (sa_addr val) = Some s" "length s \<le> 39"
    and parse: "\<And>rest. to_ipv6_addr_t True (s @ CHR '']'' # rest) = Some (sa_addr val, Suc (length s))"
    using ipv6_to_string_parse [OF assms, of nc False] by auto
  let ?p = "port_to_uint16 (sa_port val)"
  let ?t = "to_string_uint 10 nc True ?p"
  have port: "to_uint 10 (?t @ rest) = Some (?p, length ?t)"
    using to_uint_digits [of 10, where 'a = 16 and nc = nc and m = "unat ?p" and src = "NUL # rest"]
    by (simp add: to_string_uint_def)
  have "unat ?p < 65536" "(65536 :: nat) < 10 ^ 5" by simp_all
  then have "unat ?p < 10 ^ 5" by (rule less_trans)
  then have "length ?t \<le> 6"
    using length_digits_loop_le [of 10 5 nc "unat ?p"] by (simp add: to_string_uint_def)
  moreover have "ipv6_port_of ?p = sa_port val"
    by (simp add: ipv6_port_of_def port_to_uint16_def)
  ultimately show ?thesis
    using s parse [of "CHR '':'' # ?t @ rest"] port
    by (auto simp: ipv6_socket_to_string_def to_ipv6_socket_addr_t_def
        ipv6_socket_addr_t_max_hex_string_def ipv6_addr_t_max_hex_string_def)
qed

theorem to_ipv6_socket_addr_to_string_witness:
  "\<exists>s. ipv6_socket_to_string lower True
         \<lparr>sa_addr = [0, 0, 0, 0, 0, 0, 0, 0x100], sa_port = ipv6_port_of 8080\<rparr> = Some s \<and>
       length s \<le> ipv6_socket_addr_t_max_hex_string \<and>
       to_ipv6_socket_addr_t (s @ []) =
         Some (\<lparr>sa_addr = [0, 0, 0, 0, 0, 0, 0, 0x100], sa_port = ipv6_port_of 8080\<rparr>, length s)"
  using to_ipv6_socket_addr_to_string
    [of "\<lparr>sa_addr = [0, 0, 0, 0, 0, 0, 0, 0x100], sa_port = ipv6_port_of 8080\<rparr>" lower "[]"]
  by (simp add: wf_ipv6_def ipv6_addr16_size_def)

end
