(* ===== verification/HttpFields.thy ===== *)
theory HttpFields
  imports IotPrelude
begin

text \<open>
  The header fields of httpparser/include/http11.hh: \<open>HTTP_FIELD_LIST\<close>, the enumeration
  \<open>http_header::FIELD\<close> it expands to, its names and the map \<open>http_header::field_map\<close> from names
  to fields.  The enumeration is split along the comments of the list, the long section of other
  fields in three; \<open>FIELD\<close> is the sum of the parts.
\<close>

subsection \<open>FIELD\<close>

datatype (plugins only: ) pseudo_field =
    Authority | Method | Path | Scheme
  | Status

datatype (plugins only: ) general_field =
    Cache_Control | Connection | Date | Pragma
  | Trailer | Transfer_Encoding | Upgrade | Via
  | Warning

datatype (plugins only: ) request_field =
    Accept | Accept_Charset | Accept_Encoding | Accept_Language
  | Authorization | Expect | From | Host
  | If_Match | If_Modified_Since | If_None_Match | If_Range
  | If_Unmodified_Since | Max_Forwards | Proxy_Authorization | Range
  | Referer | TE | User_Agent | HTTP2_Settings

datatype (plugins only: ) response_field =
    Accept_Ranges | Age | ETag | Location
  | Proxy_Authenticate | Retry_After | Server | Vary
  | WWW_Authenticate | Allow | Content_Encoding | Content_Language
  | Content_Length | Content_Location | Content_MD5 | Content_Range
  | Content_Type | Expires | Last_Modified

datatype (plugins only: ) other_field1 =
    A_IM | Accept_Additions | Accept_CH | Accept_Datetime
  | Accept_Features | Accept_Patch | Accept_Post | ALPN
  | Also_Control | Alt_Svc | Alt_Used | Alternates
  | Apply_To_Redirect_Ref | Authentication_Control | Authentication_Info | C_Ext
  | C_Man | C_Opt | C_PEP | C_PEP_Info
  | Cal_Managed_ID | CalDAV_Timezones | CDN_Loop | Cert_Not_After
  | Cert_Not_Before | Close | Content_Base | Content_Disposition
  | Content_ID | Content_Script_Type | Content_Style_Type | Content_Version
  | Cookie | Cookie2 | DASL | DAV
  | Default_Style | Delta_Base | Depth | Derived_From
  | Destination

datatype (plugins only: ) other_field2 =
    Differential_ID | Digest | Early_Data | Expect_CT
  | Ext | Forwarded | GetProfile | Hobareg
  | IM | If_field | If_Schedule_Tag_Match | Include_Referred_Token_Binding_ID
  | Keep_Alive | Label | Link | Lock_Token
  | Man | Memento_Datetime | Meter | MIME_Version
  | Negotiate | OData_EntityId | OData_Isolation | OData_MaxVersion
  | OData_Version | Opt | Optional_WWW_Authenticate | Ordering_Type
  | Origin | OSCORE | Overwrite | P3P
  | PEP | PICS_Label | Pep_Info | Position
  | Prefer | Preference_Applied | ProfileObject | Protocol
  | Protocol_Info

datatype (plugins only: ) other_field3 =
    Protocol_Query | Protocol_Request | Proxy_Authentication_Info | Proxy_Features
  | Proxy_Instruction | Public | Public_Key_Pins | Public_Key_Pins_Report_Only
  | Redirect_Ref | Replay_Nonce | Safe | Schedule_Reply
  | Schedule_Tag | Sec_Token_Binding | Sec_WebSocket_Accept | Sec_WebSocket_Extensions
  | Sec_WebSocket_Key | Sec_WebSocket_Protocol | Sec_WebSocket_Version | Security_Scheme
  | Set_Cookie | Set_Cookie2 | SetProfile | SLUG
  | SoapAction | Status_URI | Strict_Transport_Security | Sunset
  | Surrogate_Capability | Surrogate_Control | TCN | Timeout
  | Topic | TTL | Urgency | URI
  | Variant_Vary | Want_Digest | X_Content_Type_Options | X_Frame_Options

datatype (plugins only: ) provisional_field =
    Access_Control | Access_Control_Allow_Credentials | Access_Control_Allow_Headers | Access_Control_Allow_Methods
  | Access_Control_Allow_Origin | Access_Control_Max_Age | Access_Control_Request_Method | Access_Control_Request_Headers
  | AMP_Cache_Transform | Compliance | Content_Transfer_Encoding | Cost
  | EDIINT_Features | Isolation | Message_ID | Method_Check
  | Method_Check_Expires | Non_Compliance | Optional | OSLC_Core_Version
  | Referer_Root | Repeatability_Client_ID | Repeatability_First_Sent | Repeatability_Request_ID
  | Repeatability_Result | Resolution_Hint | Resolver_Location | SubOK
  | Subst | Timing_Allow_Origin | Title | Traceparent
  | Tracestate | UA_Color | UA_Media | UA_Pixels
  | UA_Resolution | UA_Windowpixels | Version | X_Device_Accept
  | X_Device_Accept_Charset | X_Device_Accept_Encoding | X_Device_Accept_Language | X_Device_User_Agent

datatype (plugins only: ) last_field =
    Refresh | IGNORE_THIS

datatype (plugins only: ) FIELD =
    Pseudo pseudo_field
  | General general_field
  | Request request_field
  | Response response_field
  | Other1 other_field1
  | Other2 other_field2
  | Other3 other_field3
  | Provisional provisional_field
  | Last last_field

subsection \<open>HTTP_FIELD_LIST\<close>

text \<open>The entries of the list, enumerator and name, in the order of the source.\<close>

definition pseudo_field_list :: "(pseudo_field \<times> string) list" where
  "pseudo_field_list =
    [(Authority, ''Authority''), (Method, ''Method''),
     (Path, ''Path''), (Scheme, ''Scheme''),
     (Status, ''Status'')]"

definition general_field_list :: "(general_field \<times> string) list" where
  "general_field_list =
    [(Cache_Control, ''Cache-Control''), (Connection, ''Connection''),
     (Date, ''Date''), (Pragma, ''Pragma''),
     (Trailer, ''Trailer''), (Transfer_Encoding, ''Transfer-Encoding''),
     (Upgrade, ''Upgrade''), (Via, ''Via''),
     (Warning, ''Warning'')]"

definition request_field_list :: "(request_field \<times> string) list" where
  "request_field_list =
    [(Accept, ''Accept''), (Accept_Charset, ''Accept-Charset''),
     (Accept_Encoding, ''Accept-Encoding''), (Accept_Language, ''Accept-Language''),
     (Authorization, ''Authorization''), (Expect, ''Expect''),
     (From, ''From''), (Host, ''Host''),
     (If_Match, ''If-Match''), (If_Modified_Since, ''If-Modified-Since''),
     (If_None_Match, ''If-None-Match''), (If_Range, ''If-Range''),
     (If_Unmodified_Since, ''If-Unmodified-Since''), (Max_Forwards, ''Max-Forwards''),
     (Proxy_Authorization, ''Proxy-Authorization''), (Range, ''Range''),
     (Referer, ''Referer''), (TE, ''TE''),
     (User_Agent, ''User-Agent''), (HTTP2_Settings, ''HTTP2-Settings'')]"

definition response_field_list :: "(response_field \<times> string) list" where
  "response_field_list =
    [(Accept_Ranges, ''Accept-Ranges''), (Age, ''Age''),
     (ETag, ''ETag''), (Location, ''Location''),
     (Proxy_Authenticate, ''Proxy-Authenticate''), (Retry_After, ''Retry-After''),
     (Server, ''Server''), (Vary, ''Vary''),
     (WWW_Authenticate, ''WWW-Authenticate''), (Allow, ''Allow''),
     (Content_Encoding, ''Content-Encoding''), (Content_Language, ''Content-Language''),
     (Content_Length, ''Content-Length''), (Content_Location, ''Content-Location''),
     (Content_MD5, ''Content-MD5''), (Content_Range, ''Content-Range''),
     (Content_Type, ''Content-Type''), (Expires, ''Expires''),
     (Last_Modified, ''Last-Modified'')]"

definition other_field1_list :: "(other_field1 \<times> string) list" where
  "other_field1_list =
    [(A_IM, ''A-IM''), (Accept_Additions, ''Accept-Additions''),
     (Accept_CH, ''Accept-CH''), (Accept_Datetime, ''Accept-Datetime''),
     (Accept_Features, ''Accept-Features''), (Accept_Patch, ''Accept-Patch''),
     (Accept_Post, ''Accept-Post''), (ALPN, ''ALPN''),
     (Also_Control, ''Also-Control''), (Alt_Svc, ''Alt-Svc''),
     (Alt_Used, ''Alt-Used''), (Alternates, ''Alternates''),
     (Apply_To_Redirect_Ref, ''Apply-To-Redirect-Ref''), (Authentication_Control, ''Authentication-Control''),
     (Authentication_Info, ''Authentication-Info''), (C_Ext, ''C-Ext''),
     (C_Man, ''C-Man''), (C_Opt, ''C-Opt''),
     (C_PEP, ''C-PEP''), (C_PEP_Info, ''C-PEP-Info''),
     (Cal_Managed_ID, ''Cal-Managed-ID''), (CalDAV_Timezones, ''CalDAV-Timezones''),
     (CDN_Loop, ''CDN-Loop''), (Cert_Not_After, ''Cert-Not-After''),
     (Cert_Not_Before, ''Cert-Not-Before''), (Close, ''Close''),
     (Content_Base, ''Content-Base''), (Content_Disposition, ''Content-Disposition''),
     (Content_ID, ''Content-ID''), (Content_Script_Type, ''Content-Script-Type''),
     (Content_Style_Type, ''Content-Style-Type''), (Content_Version, ''Content-Version''),
     (Cookie, ''Cookie''), (Cookie2, ''Cookie2''),
     (DASL, ''DASL''), (DAV, ''DAV''),
     (Default_Style, ''Default-Style''), (Delta_Base, ''Delta-Base''),
     (Depth, ''Depth''), (Derived_From, ''Derived-From''),
     (Destination, ''Destination'')]"

definition other_field2_list :: "(other_field2 \<times> string) list" where
  "other_field2_list =
    [(Differential_ID, ''Differential-ID''), (Digest, ''Digest''),
     (Early_Data, ''Early-Data''), (Expect_CT, ''Expect-CT''),
     (Ext, ''Ext''), (Forwarded, ''Forwarded''),
     (GetProfile, ''GetProfile''), (Hobareg, ''Hobareg''),
     (IM, ''IM''), (If_field, ''If''),
     (If_Schedule_Tag_Match, ''If-Schedule-Tag-Match''), (Include_Referred_Token_Binding_ID, ''Include-Referred-Token-Binding-ID''),
     (Keep_Alive, ''Keep-Alive''), (Label, ''Label''),
     (Link, ''Link''), (Lock_Token, ''Lock-Token''),
     (Man, ''Man''), (Memento_Datetime, ''Memento-Datetime''),
     (Meter, ''Meter''), (MIME_Version, ''MIME-Version''),
     (Negotiate, ''Negotiate''), (OData_EntityId, ''OData-EntityId''),
     (OData_Isolation, ''OData-Isolation''), (OData_MaxVersion, ''OData-MaxVersion''),
     (OData_Version, ''OData-Version''), (Opt, ''Opt''),
     (Optional_WWW_Authenticate, ''Optional-WWW-Authenticate''), (Ordering_Type, ''Ordering-Type''),
     (Origin, ''Origin''), (OSCORE, ''OSCORE''),
     (Overwrite, ''Overwrite''), (P3P, ''P3P''),
     (PEP, ''PEP''), (PICS_Label, ''PICS-Label''),
     (Pep_Info, ''Pep-Info''), (Position, ''Position''),
     (Prefer, ''Prefer''), (Preference_Applied, ''Preference-Applied''),
     (ProfileObject, ''ProfileObject''), (Protocol, ''Protocol''),
     (Protocol_Info, ''Protocol-Info'')]"

definition other_field3_list :: "(other_field3 \<times> string) list" where
  "other_field3_list =
    [(Protocol_Query, ''Protocol-Query''), (Protocol_Request, ''Protocol-Request''),
     (Proxy_Authentication_Info, ''Proxy-Authentication-Info''), (Proxy_Features, ''Proxy-Features''),
     (Proxy_Instruction, ''Proxy-Instruction''), (Public, ''Public''),
     (Public_Key_Pins, ''Public-Key-Pins''), (Public_Key_Pins_Report_Only, ''Public-Key-Pins-Report-Only''),
     (Redirect_Ref, ''Redirect-Ref''), (Replay_Nonce, ''Replay-Nonce''),
     (Safe, ''Safe''), (Schedule_Reply, ''Schedule-Reply''),
     (Schedule_Tag, ''Schedule-Tag''), (Sec_Token_Binding, ''Sec-Token-Binding''),
     (Sec_WebSocket_Accept, ''Sec-WebSocket-Accept''), (Sec_WebSocket_Extensions, ''Sec-WebSocket-Extensions''),
     (Sec_WebSocket_Key, ''Sec-WebSocket-Key''), (Sec_WebSocket_Protocol, ''Sec-WebSocket-Protocol''),
     (Sec_WebSocket_Version, ''Sec-WebSocket-Version''), (Security_Scheme, ''Security-Scheme''),
     (Set_Cookie, ''Set-Cookie''), (Set_Cookie2, ''Set-Cookie2''),
     (SetProfile, ''SetProfile''), (SLUG, ''SLUG''),
     (SoapAction, ''SoapAction''), (Status_URI, ''Status-URI''),
     (Strict_Transport_Security, ''Strict-Transport-Security''), (Sunset, ''Sunset''),
     (Surrogate_Capability, ''Surrogate-Capability''), (Surrogate_Control, ''Surrogate-Control''),
     (TCN, ''TCN''), (Timeout, ''Timeout''),
     (Topic, ''Topic''), (TTL, ''TTL''),
     (Urgency, ''Urgency''), (URI, ''URI''),
     (Variant_Vary, ''Variant-Vary''), (Want_Digest, ''Want-Digest''),
     (X_Content_Type_Options, ''X-Content-Type-Options''), (X_Frame_Options, ''X-Frame-Options'')]"

definition provisional_field_list :: "(provisional_field \<times> string) list" where
  "provisional_field_list =
    [(Access_Control, ''Access-Control''), (Access_Control_Allow_Credentials, ''Access-Control-Allow-Credentials''),
     (Access_Control_Allow_Headers, ''Access-Control-Allow-Headers''), (Access_Control_Allow_Methods, ''Access-Control-Allow-Methods''),
     (Access_Control_Allow_Origin, ''Access-Control-Allow-Origin''), (Access_Control_Max_Age, ''Access-Control-Max-Age''),
     (Access_Control_Request_Method, ''Access-Control-Request-Method''), (Access_Control_Request_Headers, ''Access-Control-Request-Headers''),
     (AMP_Cache_Transform, ''AMP-Cache-Transform''), (Compliance, ''Compliance''),
     (Content_Transfer_Encoding, ''Content-Transfer-Encoding''), (Cost, ''Cost''),
     (EDIINT_Features, ''EDIINT-Features''), (Isolation, ''Isolation''),
     (Message_ID, ''Message-ID''), (Method_Check, ''Method-Check''),
     (Method_Check_Expires, ''Method-Check-Expires''), (Non_Compliance, ''Non-Compliance''),
     (Optional, ''Optional''), (OSLC_Core_Version, ''OSLC-Core-Version''),
     (Referer_Root, ''Referer-Root''), (Repeatability_Client_ID, ''Repeatability-Client-ID''),
     (Repeatability_First_Sent, ''Repeatability-First-Sent''), (Repeatability_Request_ID, ''Repeatability-Request-ID''),
     (Repeatability_Result, ''Repeatability-Result''), (Resolution_Hint, ''Resolution-Hint''),
     (Resolver_Location, ''Resolver-Location''), (SubOK, ''SubOK''),
     (Subst, ''Subst''), (Timing_Allow_Origin, ''Timing-Allow-Origin''),
     (Title, ''Title''), (Traceparent, ''Traceparent''),
     (Tracestate, ''Tracestate''), (UA_Color, ''UA-Color''),
     (UA_Media, ''UA-Media''), (UA_Pixels, ''UA-Pixels''),
     (UA_Resolution, ''UA-Resolution''), (UA_Windowpixels, ''UA-Windowpixels''),
     (Version, ''Version''), (X_Device_Accept, ''X-Device-Accept''),
     (X_Device_Accept_Charset, ''X-Device-Accept-Charset''), (X_Device_Accept_Encoding, ''X-Device-Accept-Encoding''),
     (X_Device_Accept_Language, ''X-Device-Accept-Language''), (X_Device_User_Agent, ''X-Device-User-Agent'')]"

definition last_field_list :: "(last_field \<times> string) list" where
  "last_field_list =
    [(Refresh, ''Refresh''), (IGNORE_THIS, ''IGNORE THIS'')]"

definition field_list :: "(FIELD \<times> string) list" where
  "field_list =
     map (map_prod Pseudo id) pseudo_field_list @
     map (map_prod General id) general_field_list @
     map (map_prod Request id) request_field_list @
     map (map_prod Response id) response_field_list @
     map (map_prod Other1 id) other_field1_list @
     map (map_prod Other2 id) other_field2_list @
     map (map_prod Other3 id) other_field3_list @
     map (map_prod Provisional id) provisional_field_list @
     map (map_prod Last id) last_field_list"

subsection \<open>Names and fields\<close>

text \<open>\<open>get_field_string\<close>: the default label stands before the first entry of the list.\<close>

definition get_field_string :: "FIELD \<Rightarrow> string" where
  "get_field_string field =
     (case map_of field_list field of Some name \<Rightarrow> name | None \<Rightarrow> snd (hd field_list))"

text \<open>The size with the terminating NUL.\<close>

definition get_field_string_size :: "FIELD \<Rightarrow> nat" where
  "get_field_string_size field = length (get_field_string field) + 1"

definition field_map :: "string \<Rightarrow> FIELD option" where
  "field_map name = map_of (map (\<lambda>(field, name). (name, field)) field_list) name"

lemmas field_lists = pseudo_field_list_def general_field_list_def request_field_list_def
  response_field_list_def other_field1_list_def other_field2_list_def other_field3_list_def
  provisional_field_list_def last_field_list_def

text \<open>A number that tells the names apart, to compare all pairs quickly.\<close>

definition name_key :: "string \<Rightarrow> integer" where
  "name_key s = foldl (\<lambda>v c. v * 5 + of_char c) 0 s"

lemma field_names:
  "map snd field_list =
     map snd pseudo_field_list @ map snd general_field_list @ map snd request_field_list @
     map snd response_field_list @ map snd other_field1_list @ map snd other_field2_list @
     map snd other_field3_list @ map snd provisional_field_list @ map snd last_field_list"
  by (simp only: field_list_def map_append map_map comp_def snd_map_prod id_apply)

lemma field_name_keys:
  "map name_key (map snd field_list) =
    [36755701, 321505, 13109, 337421, 347600, 22308121138, 184926540, 11606, 336592, 1745819,
     17056995785153, 1759776, 2772, 1750778, 280576, 109604965871, 548025082028, 548025457041,
     22972334665, 307761, 12264, 12466, 7501249, 14653619037096, 23448266874, 7504241,
     366590874896471, 4966633715, 413566673506540, 66741, 1676719, 489, 220806691, 113404998380,
     21921036945, 2241, 11313, 8059665, 82713333881106, 1054353769, 340319, 13866,
     3307816302981, 57499, 2891023128903, 2891023503916, 115640942634, 2891023684665, 925127318,
     23128191741, 4625639186, 1539720, 24666347230, 9692, 2740123073440, 35073532, 548024849646,
     548025018720, 4384206249, 876841591, 10503, 4501480513, 1434014, 7170355, 180221895,
     8865257922983907, 44859831661246138, 358878653290621, 49941, 50020, 50151, 49925,
     156056246, 111380430308, 2789300940370, 6581692, 113273572519, 566367863696, 58826,
     4625636351, 361377878114665, 185025433, 361378011920436, 72275609545436, 578204873290,
     295926, 1479680, 10616, 2111, 22774913791, 182858226, 58609, 4581462264, 917375290,
     574354950683, 294216, 183667852, 38471669, 2441, 38246730, 188879141, 1548708, 442, 467,
     9161356975798124, 2329482574152724741036308, 195776191, 62688, 12782, 201413415, 2520,
     3130768990271, 64269, 4655263915, 40404356, 119120836740, 595606056540, 2978031435790,
     23824404540, 2651, 6383690899369037356, 26082161061, 334460, 309579, 42104431, 2335, 2425,
     191500188, 8218746, 8427165, 337044, 82292376452355, 26432215136, 8467638, 26461409371,
     132307052841, 3307676294716, 6461979209463837496, 132341424970, 16542731992165, 338699,
     661546919540, 161510478406570232036, 5237437032, 5260847221, 13411, 131803973586,
     5272158938, 16433467850153, 2054199272155576, 1283874545114588440, 16433594177501,
     51354981805342638, 10270996361123290, 661139790546, 211624051, 1058120305, 212316641,
     12771, 215079665, 217258233, 6663789206492837576, 349746, 2137957454794951, 17103659683638,
     2513, 1724851, 69799, 2596, 1764741, 2608, 5419857616, 1092091091, 48060094657923440,
     615902064065, 109610464888, 418130740740511912557455, 669009185184819095085,
     669009185184819185765, 133801837036963850085, 42816587851979741, 3345045925943435868380,
     16725229629717179251335, 320839692103704, 184902971, 5646531949573910153, 11841,
     526487909345, 39650290, 201006683, 5023714252, 1962388384742845, 128309902971, 8367218,
     15148665810790, 5239788696, 256748485974150433, 1283742429876341691, 1283742429898169183,
     2053987887837331, 658614227916, 16465248294040, 69420, 69641, 421192237287585, 69166,
     1090599941, 218123856, 7855994, 7860747, 39318180, 24575990915, 614669168180, 1748290,
     614979186826, 240226244858872121, 1201131224294613278, 1201131224294988291,
     384362037212941, 1678079, 889732748]"
  unfolding field_names field_lists list.map snd_conv append.simps by code_simp

lemma field_names_distinct: "distinct (map snd field_list)"
proof -
  have "distinct (map name_key (map snd field_list))" unfolding field_name_keys by simp
  then show ?thesis by (simp only: distinct_map)
qed

lemma mem_map_prod_fst: "x \<in> set (map fst l) \<Longrightarrow> C x \<in> fst ` set (map (map_prod C id) l)"
  by force

lemma pseudo_complete: "f \<in> set (map fst pseudo_field_list)"
  unfolding field_lists list.map fst_conv by (cases f) simp_all

lemma general_complete: "f \<in> set (map fst general_field_list)"
  unfolding field_lists list.map fst_conv by (cases f) simp_all

lemma request_complete: "f \<in> set (map fst request_field_list)"
  unfolding field_lists list.map fst_conv by (cases f) simp_all

lemma response_complete: "f \<in> set (map fst response_field_list)"
  unfolding field_lists list.map fst_conv by (cases f) simp_all

lemma other1_complete: "f \<in> set (map fst other_field1_list)"
  unfolding field_lists list.map fst_conv by (cases f) simp_all

lemma other2_complete: "f \<in> set (map fst other_field2_list)"
  unfolding field_lists list.map fst_conv by (cases f) simp_all

lemma other3_complete: "f \<in> set (map fst other_field3_list)"
  unfolding field_lists list.map fst_conv by (cases f) simp_all

lemma provisional_complete: "f \<in> set (map fst provisional_field_list)"
  unfolding field_lists list.map fst_conv by (cases f) simp_all

lemma last_complete: "f \<in> set (map fst last_field_list)"
  unfolding field_lists list.map fst_conv by (cases f) simp_all

lemma field_list_complete: "field \<in> fst ` set field_list"
  unfolding field_list_def set_append image_Un
  by (cases field) (simp_all only: Un_iff simp_thms
      mem_map_prod_fst [OF pseudo_complete]
      mem_map_prod_fst [OF general_complete]
      mem_map_prod_fst [OF request_complete]
      mem_map_prod_fst [OF response_complete]
      mem_map_prod_fst [OF other1_complete]
      mem_map_prod_fst [OF other2_complete]
      mem_map_prod_fst [OF other3_complete]
      mem_map_prod_fst [OF provisional_complete]
      mem_map_prod_fst [OF last_complete])

lemma get_field_string_entry: "(field, get_field_string field) \<in> set field_list"
proof -
  obtain name where "map_of field_list field = Some name"
    using field_list_complete [of field] by (metis domD dom_map_of_conv_image_fst)
  then show ?thesis by (simp add: get_field_string_def map_of_SomeD)
qed

lemma map_fst_swap: "map fst (map (\<lambda>(a, b). (b, a)) xs) = map snd xs"
  by (induction xs) auto

lemma field_map_get_field_string: "field_map (get_field_string field) = Some field"
proof -
  let ?swap = "map (\<lambda>(field, name). (name, field)) field_list"
  have "distinct (map fst ?swap)" unfolding map_fst_swap by (rule field_names_distinct)
  moreover have "(get_field_string field, field) \<in> set ?swap"
    using get_field_string_entry [of field] by force
  ultimately show ?thesis unfolding field_map_def by (rule map_of_is_SomeI)
qed

text \<open>
  Every one of the 221 header fields is found in \<open>field_map\<close> under the name it is printed
  with, and no two fields share a name.
\<close>

theorem field_map_inverse:
  "field_map (get_field_string field) = Some field \<and>
   (get_field_string field = get_field_string field' \<longleftrightarrow> field = field')"
  by (metis field_map_get_field_string option.inject)

end
