(* ===== verification/Http11.thy ===== *)
theory Http11
  imports HttpFields Ipv6
begin

text \<open>
  httpparser/include/http11.hh and httpparser/lib/http11.cc: HTTP versions, methods and codes, the
  request header with its entity tag check, and the writers of responses; with
  deviceserver/lib/iothttphelper.cc, the error pages of the device server.

  A writer is a function that returns the text it stores at its buffer; \<open>None\<close> marks a read or a
  write outside an object.
\<close>

subsection \<open>Versions, methods and codes\<close>

datatype VERSION = VER_1_1 | VER_2

fun get_version_string :: "VERSION \<Rightarrow> string" where
  "get_version_string VER_1_1 = ''HTTP/1.1''"
| "get_version_string VER_2 = ''HTTP/2.0''"

definition get_version_string_size :: "VERSION \<Rightarrow> nat" where
  "get_version_string_size version = length (get_version_string version) + 1"

datatype METHOD = METHOD_IGNORE_THIS | OPTIONS | GET | HEAD | POST | PUT | DELETE | TRACE | CONNECT | PRI

definition method_list :: "(METHOD \<times> string) list" where
  "method_list =
    [(METHOD_IGNORE_THIS, ''IGNORE_THIS''), (OPTIONS, ''OPTIONS''), (GET, ''GET''),
     (HEAD, ''HEAD''), (POST, ''POST''), (PUT, ''PUT''), (DELETE, ''DELETE''), (TRACE, ''TRACE''),
     (CONNECT, ''CONNECT''), (PRI, ''PRI'')]"

definition method_map :: "string \<Rightarrow> METHOD option" where
  "method_map name = map_of (map (\<lambda>(method, name). (name, method)) method_list) name"

text \<open>\<open>CODE\<close> is the number itself: \<open>operator"" _rc\<close> casts any number to it.\<close>

type_synonym CODE = nat

definition http_code_list :: "(CODE \<times> string) list" where
  "http_code_list =
    [(100, ''Continue''), (101, ''Switching Protocols''),
     (200, ''OK''), (201, ''Created''),
     (202, ''Accepted''), (203, ''Non-Authoritative Information''),
     (204, ''No Content''), (205, ''Reset Content''),
     (206, ''Partial Content''), (300, ''Multiple Choices''),
     (301, ''Moved Permanently''), (302, ''Found''),
     (303, ''See Other''), (304, ''Not Modified''),
     (305, ''Use Proxy''), (307, ''Temporary Redirect''),
     (400, ''Bad Request''), (401, ''Unauthorized''),
     (402, ''Payment Required''), (403, ''Forbidden''),
     (404, ''Not Found''), (405, ''Method Not Allowed''),
     (406, ''Not Acceptable''), (407, ''Proxy Authentication Required''),
     (408, ''Request Timeout''), (409, ''Conflict''),
     (410, ''Gone''), (411, ''Length Required''),
     (412, ''Precondition Failed''), (413, ''Request Entity Too Large''),
     (414, ''Request-URI Too Long''), (415, ''Unsupported Media Type''),
     (416, ''Requested Range Not Satisfiable''), (417, ''Expectation Failed''),
     (500, ''Internal Server Error''), (501, ''Not Implemented''),
     (502, ''Bad Gateway''), (503, ''Service Unavailable''),
     (504, ''Gateway Timeout''), (505, ''HTTP Version Not Supported'')]"

text \<open>The code's number and its phrase, or \<open>Unknown\<close>.\<close>

definition code_number :: "CODE \<Rightarrow> string" where
  "code_number code = to_string_uint 10 lower False (word_of_nat code :: u64)"

definition get_code_string :: "CODE \<Rightarrow> string" where
  "get_code_string code =
     (case map_of http_code_list code of
        Some phrase \<Rightarrow> code_number code @ '' '' @ phrase
      | None \<Rightarrow> ''Unknown'')"

definition get_code_string_size :: "CODE \<Rightarrow> nat" where
  "get_code_string_size code = length (get_code_string code) + 1"

text \<open>The template \<open>code_string\<close> and its specialisations.\<close>

definition code_string_with_code :: "CODE \<Rightarrow> string" where
  "code_string_with_code code =
     (case map_of http_code_list code of
        Some phrase \<Rightarrow> code_number code @ '' '' @ phrase
      | None \<Rightarrow> ''0 bad_type'')"

definition code_string_str :: "CODE \<Rightarrow> string" where
  "code_string_str code =
     (case map_of http_code_list code of Some phrase \<Rightarrow> phrase | None \<Rightarrow> ''bad_type'')"

subsection \<open>http_header_request\<close>

type_synonym fields_t = "FIELD \<rightharpoonup> string"

record http_header_request =
  hr_version :: VERSION
  hr_method :: METHOD
  hr_fields :: fields_t

definition get_path :: "http_header_request \<Rightarrow> string" where
  "get_path req =
     (case hr_fields req (Pseudo Path) of Some path \<Rightarrow> path | None \<Rightarrow> [])"

definition upgrade_version :: "http_header_request \<Rightarrow> VERSION" where
  "upgrade_version req =
     (case hr_fields req (General Upgrade) of
        Some v \<Rightarrow> if v = ''h2c'' then VER_2 else VER_1_1
      | None \<Rightarrow> VER_1_1)"

definition tag_separator :: "char \<Rightarrow> bool" where
  "tag_separator ch \<longleftrightarrow> ch = CHR '' '' \<or> ch = CHR '','' \<or> ch = CHR 0x22"

fun match_etag_loop :: "string \<Rightarrow> nat \<Rightarrow> string \<Rightarrow> bool \<Rightarrow> nat \<Rightarrow> bool option" where
  "match_etag_loop etag etag_size [] ignore index = Some (index = etag_size \<and> \<not> ignore)"
| "match_etag_loop etag etag_size (ch # s) ignore index =
     (if tag_separator ch then
        if index = etag_size \<and> \<not> ignore then Some True
        else match_etag_loop etag etag_size s False 0
      else if ignore then match_etag_loop etag etag_size s True index
      else if index = etag_size then match_etag_loop etag etag_size s True index
      else do { e \<leftarrow> load etag index;
                match_etag_loop etag etag_size s (ch \<noteq> e) (index + 1) })"

text \<open>\<open>etag\<close> is the memory the pointer refers to.\<close>

definition match_etag :: "http_header_request \<Rightarrow> string \<Rightarrow> nat \<Rightarrow> bool option" where
  "match_etag req etag etag_size =
     (if etag_size = 0 then None
      else do { last \<leftarrow> load etag (etag_size - 1);
                let size = (if last = NUL then etag_size - 1 else etag_size) in
                (case hr_fields req (Request If_None_Match) of
                   None \<Rightarrow> Some False
                 | Some value \<Rightarrow> match_etag_loop etag size value False 0) })"

subsection \<open>Response writers\<close>

abbreviation CRLF :: string where
  "CRLF \<equiv> [CHR 0x0D, CHR 0x0A]"

text \<open>The value is a pointer and a size that counts the terminating NUL.\<close>

record http_header_line =
  hl_field :: FIELD
  hl_value :: string
  hl_size :: nat

text \<open>The constructor from a character array of known size.\<close>

definition header_line_of :: "FIELD \<Rightarrow> string \<Rightarrow> http_header_line" where
  "header_line_of field s = \<lparr>hl_field = field, hl_value = s @ [NUL], hl_size = length s + 1\<rparr>"

definition copy_http_header_response_line :: "http_header_line \<Rightarrow> string option" where
  "copy_http_header_response_line line =
     do { field \<leftarrow> subrange (get_field_string (hl_field line) @ [NUL]) 0
                     (get_field_string_size (hl_field line) - 1);
          value \<leftarrow> (if hl_size line = 0 then None else subrange (hl_value line) 0 (hl_size line - 1));
          Some (field @ '':'' @ '' '' @ value @ CRLF) }"

fun copy_http_header_response_lines :: "http_header_line list \<Rightarrow> string option" where
  "copy_http_header_response_lines [] = Some []"
| "copy_http_header_response_lines (line # lines) =
     do { s \<leftarrow> copy_http_header_response_line line;
          t \<leftarrow> copy_http_header_response_lines lines;
          Some (s @ t) }"

definition copy_http_header_response ::
    "VERSION \<Rightarrow> CODE \<Rightarrow> http_header_line list \<Rightarrow> string option" where
  "copy_http_header_response version response_code lines =
     do { t \<leftarrow> copy_http_header_response_lines lines;
          Some (take (get_version_string_size version - 1) (get_version_string version) @ '' '' @
                take (get_code_string_size response_code - 1) (get_code_string response_code) @
                CRLF @ t) }"

text \<open>A digit buffer of ten bytes: the length line, \<open>None\<close> if the digits overrun the buffer.\<close>

definition content_length_line :: "u64 \<Rightarrow> string option" where
  "content_length_line content_length =
     (let content_length_str = to_string_uint 10 lower True content_length in
      if 10 < length content_length_str then None
      else copy_http_header_response_line
             \<lparr>hl_field = Response Content_Length, hl_value = content_length_str,
              hl_size = length content_length_str\<rparr>)"

definition copy_http_response_content_length :: "u64 \<Rightarrow> string option" where
  "copy_http_response_content_length content_length = content_length_line content_length"

definition copy_http_response ::
    "VERSION \<Rightarrow> CODE \<Rightarrow> http_header_line list \<Rightarrow> string \<Rightarrow> u64 \<Rightarrow> string option" where
  "copy_http_response version response_code lines body M =
     do { head \<leftarrow> copy_http_header_response version response_code lines;
          len \<leftarrow> copy_http_response_content_length M;
          content \<leftarrow> subrange body 0 (unat M);
          Some (head @ len @ CRLF @ content) }"

subsection \<open>Error pages\<close>

definition WEB_SERVER_NAME :: string where
  "WEB_SERVER_NAME = ''Rohit Web '' @ ''1'' @ ''.'' @ ''0''"

definition http11_error_html :: "CODE \<Rightarrow> string \<Rightarrow> ipv6_socket_addr \<Rightarrow> string option" where
  "http11_error_html code message local_address =
     do { addr \<leftarrow> ipv6_socket_to_string upper False local_address;
          Some (''<!DOCTYPE HTML>'' @ ''<html><head>'' @ ''<title>'' @ code_string_with_code code @
                ''</title>'' @ ''</head><body>'' @ ''<h1>'' @ code_string_str code @ ''</h1>'' @
                message @ ''<hr><address>'' @ WEB_SERVER_NAME @ '' Server at '' @ addr @
                ''</address></body></html>'' @ [CHR 0x0A]) }"

text \<open>
  The common body of the four error responses of iothttphelper.cc; the page is built in a buffer
  of 1024 bytes.
\<close>

definition http_add_error ::
    "CODE \<Rightarrow> http_header_line list \<Rightarrow> string \<Rightarrow> ipv6_socket_addr \<Rightarrow> string \<Rightarrow> nat \<Rightarrow> string option" where
  "http_add_error code extra message local_address date_str date_str_size =
     do { head \<leftarrow> copy_http_header_response VER_1_1 code
            ([\<lparr>hl_field = General Date, hl_value = date_str, hl_size = date_str_size\<rparr>,
              header_line_of (Response Server) WEB_SERVER_NAME,
              header_line_of (Response Content_Type) ''text/html''] @ extra);
          body \<leftarrow> http11_error_html code message local_address;
          if 1024 < length body then None
          else do { len \<leftarrow> content_length_line (word_of_nat (length body));
                    Some (head @ len @ CRLF @ body) } }"

definition http_add_404_Not_Found :: "ipv6_socket_addr \<Rightarrow> string \<Rightarrow> nat \<Rightarrow> string option" where
  "http_add_404_Not_Found =
     http_add_error 404 [] ''<p>The requested URL was not found on this server.</p>''"

definition http_add_400_Bad_Request :: "ipv6_socket_addr \<Rightarrow> string \<Rightarrow> nat \<Rightarrow> string option" where
  "http_add_400_Bad_Request =
     http_add_error 400 [header_line_of (General Connection) ''close'']
       (''<p>Server was unable to parse your http request.</p>'' @
        ''<p>Are you trying to make https request on http port?</p>'')"

definition http_add_405_Method_Not_Allowed :: "ipv6_socket_addr \<Rightarrow> string \<Rightarrow> nat \<Rightarrow> string option" where
  "http_add_405_Method_Not_Allowed =
     http_add_error 405 [header_line_of (Response Allow) ''GET, PRI'']
       ''<p>This method is not supported by server.</p>''"

definition http_add_505_HTTP_Version_Not_Supported ::
    "ipv6_socket_addr \<Rightarrow> string \<Rightarrow> nat \<Rightarrow> string option" where
  "http_add_505_HTTP_Version_Not_Supported =
     http_add_error 505 [header_line_of (General Connection) ''close'']
       ''<p>This HTTP version is not supported by server.</p>''"

subsection \<open>The entity tag check\<close>

text \<open>
  The specification: the value of If-None-Match, cut at blanks, commas and quotes.  The first
  argument is the part already read.
\<close>

fun tags_from :: "string \<Rightarrow> string \<Rightarrow> string list" where
  "tags_from pre [] = [pre]"
| "tags_from pre (ch # s) = (if tag_separator ch then pre # tags_from [] s else tags_from (pre @ [ch]) s)"

abbreviation etag_tags :: "string \<Rightarrow> string list" where
  "etag_tags \<equiv> tags_from []"

lemma match_etag_loop_tags:
  assumes "n \<le> length etag"
    and "ignore \<Longrightarrow> \<not> (\<exists>q. take n etag = pre @ q)"
    and "\<not> ignore \<Longrightarrow> index \<le> n \<and> pre = take index etag"
  shows "match_etag_loop etag n s ignore index = Some (take n etag \<in> set (tags_from pre s))"
  using assms
proof (induction s arbitrary: pre ignore index)
  case Nil
  show ?case
  proof (cases ignore)
    case True
    then have "take n etag \<noteq> pre" using Nil.prems(2) by auto
    with True show ?thesis by simp
  next
    case False
    with Nil.prems have "index \<le> n" "pre = take index etag" by auto
    then have "index = n \<longleftrightarrow> take n etag = pre"
      using Nil.prems(1) by (auto dest: arg_cong [where f = length])
    with False show ?thesis by simp
  qed
next
  case (Cons ch s)
  show ?case
  proof (cases "tag_separator ch")
    case sep: True
    have rest: "match_etag_loop etag n s False 0 = Some (take n etag \<in> set (etag_tags s))"
      by (rule Cons.IH) (use Cons.prems(1) in auto)
    have "index = n \<and> \<not> ignore \<longleftrightarrow> take n etag = pre"
    proof (cases ignore)
      case True
      then have "take n etag \<noteq> pre" using Cons.prems(2) by auto
      with True show ?thesis by simp
    next
      case False
      with Cons.prems(3) have "index \<le> n" "pre = take index etag" by auto
      with False Cons.prems(1) show ?thesis by (auto dest: arg_cong [where f = length])
    qed
    with sep rest show ?thesis by auto
  next
    case nosep: False
    show ?thesis
    proof (cases ignore)
      case True
      then have "\<not> (\<exists>q. take n etag = (pre @ [ch]) @ q)" using Cons.prems(2) by auto
      then have "match_etag_loop etag n s True index = Some (take n etag \<in> set (tags_from (pre @ [ch]) s))"
        using Cons.prems(1) by (intro Cons.IH) auto
      with True nosep show ?thesis by simp
    next
      case False
      with Cons.prems(3) have i: "index \<le> n" "pre = take index etag" by auto
      show ?thesis
      proof (cases "index = n")
        case True
        with i have "\<not> (\<exists>q. take n etag = (pre @ [ch]) @ q)" by (auto dest: arg_cong [where f = length])
        then have "match_etag_loop etag n s True index = Some (take n etag \<in> set (tags_from (pre @ [ch]) s))"
          using Cons.prems(1) by (intro Cons.IH) auto
        with True False nosep show ?thesis by simp
      next
        case lt: False
        with i Cons.prems(1) have l: "load etag index = Some (etag ! index)" "index < length etag"
          by (auto simp: load_def)
        have "match_etag_loop etag n s (ch \<noteq> etag ! index) (index + 1) =
            Some (take n etag \<in> set (tags_from (pre @ [ch]) s))"
        proof (rule Cons.IH [OF Cons.prems(1)])
          assume "ch \<noteq> etag ! index"
          moreover have "(take n etag) ! index = etag ! index" using lt i by simp
          moreover have "(pre @ ch # q) ! index = ch" for q
            using i l(2) by (simp add: nth_append)
          ultimately show "\<not> (\<exists>q. take n etag = (pre @ [ch]) @ q)" by auto
        next
          assume "\<not> ch \<noteq> etag ! index"
          with l(2) lt i show "index + 1 \<le> n \<and> pre @ [ch] = take (index + 1) etag"
            by (simp add: take_Suc_conv_app_nth)
        qed
        with False nosep lt l show ?thesis by simp
      qed
    qed
  qed
qed

text \<open>
  The entity tag check answers exactly whether the tag, without its terminating NUL, is one
  of the pieces of the If-None-Match header that blanks, commas and quotes separate; without that
  header the answer is no.
\<close>

theorem match_etag_correct:
  assumes "length etag = Suc n" "etag ! n = NUL"
  shows "match_etag req etag (Suc n) =
         Some (case hr_fields req (Request If_None_Match) of
                 None \<Rightarrow> False
               | Some value \<Rightarrow> take n etag \<in> set (etag_tags value))"
  using assms match_etag_loop_tags [of n etag False "[]" 0]
  by (auto simp: match_etag_def load_def split: option.splits)

theorem match_etag_correct_witness:
  "match_etag \<lparr>hr_version = VER_1_1, hr_method = GET,
      hr_fields = [Request If_None_Match \<mapsto> [CHR 0x22] @ ''abc'' @ [CHR 0x22] @ '', xyz'']\<rparr>
      (''xyz'' @ [NUL]) 4 = Some True"
  using match_etag_correct [of "''xyz'' @ [NUL]" 3
    "\<lparr>hr_version = VER_1_1, hr_method = GET,
      hr_fields = [Request If_None_Match \<mapsto> [CHR 0x22] @ ''abc'' @ [CHR 0x22] @ '', xyz'']\<rparr>"]
  by (simp add: tag_separator_def)

subsection \<open>Responses\<close>

definition wf_header_line :: "http_header_line \<Rightarrow> bool" where
  "wf_header_line line \<longleftrightarrow> 0 < hl_size line \<and> hl_size line \<le> length (hl_value line) + 1"

definition header_text :: "http_header_line \<Rightarrow> string" where
  "header_text line = get_field_string (hl_field line) @ '': '' @ take (hl_size line - 1) (hl_value line) @ CRLF"

lemma copy_http_header_response_line_wf:
  "copy_http_header_response_line line =
   (if wf_header_line line then Some (header_text line) else None)"
  by (auto simp: copy_http_header_response_line_def wf_header_line_def header_text_def
      subrange_def get_field_string_size_def)

lemma copy_http_header_response_lines_wf:
  "copy_http_header_response_lines lines =
   (if list_all wf_header_line lines then Some (concat (map header_text lines)) else None)"
  by (induction lines) (auto simp: copy_http_header_response_line_wf)

lemma copy_http_header_response_wf:
  "copy_http_header_response version code lines =
   (if list_all wf_header_line lines
    then Some (get_version_string version @ '' '' @ get_code_string code @ CRLF @
               concat (map header_text lines))
    else None)"
  by (simp add: copy_http_header_response_def copy_http_header_response_lines_wf
      get_version_string_size_def get_code_string_size_def)

abbreviation decimal :: "u64 \<Rightarrow> string" where
  "decimal v \<equiv> to_string_uint 10 lower False v"

lemma content_length_line_wf:
  "content_length_line n =
   (if unat n < 10 ^ 9 then Some (''Content-Length: '' @ decimal n @ CRLF) else None)"
proof -
  have "get_field_string (Response Content_Length) = ''Content-Length''"
    by (simp add: get_field_string_def field_list_def field_lists)
  moreover have "length (digits_loop 10 lower (unat n)) \<le> 9 \<longleftrightarrow> unat n < 10 ^ 9"
    by (rule length_digits_loop_le) auto
  ultimately show ?thesis
    by (auto simp: content_length_line_def copy_http_header_response_line_wf wf_header_line_def
        header_text_def to_string_uint_def Let_def)
qed

text \<open>
  A response is produced exactly when every header value lies inside its object, the body has
  the announced bytes and its length has at most nine digits (the room of the digit buffer); it
  is then the status line, the headers, the Content-Length, an empty line and the body, and the
  decimal text of the length reads back as the length.
\<close>

theorem copy_http_response_framing:
  "copy_http_response version code lines body M =
     (if list_all wf_header_line lines \<and> unat M < 10 ^ 9 \<and> unat M \<le> length body
      then Some (get_version_string version @ '' '' @ get_code_string code @ CRLF @
                 concat (map header_text lines) @ ''Content-Length: '' @ decimal M @ CRLF @ CRLF @
                 take (unat M) body)
      else None) \<and>
   to_uint 10 (decimal M @ [NUL]) = Some (M, length (decimal M) + 1)"
proof -
  have "to_uint 10 (decimal M @ [NUL]) = Some (M, length (decimal M) + 1)"
    using to_uint_digits [of 10, where 'a = 64 and nc = lower and m = "unat M" and src = "[NUL]"]
    by (simp add: to_string_uint_def)
  then show ?thesis
    by (simp add: copy_http_response_def copy_http_header_response_wf
        copy_http_response_content_length_def content_length_line_wf subrange_def)
qed

subsection \<open>Error pages fit their buffers\<close>

lemma http11_error_html_length:
  assumes "wf_ipv6 (sa_addr addr)"
  shows "\<exists>page. http11_error_html code message addr = Some page \<and>
     length page \<le> 192 + length (code_string_with_code code) + length (code_string_str code) + length message"
proof -
  obtain s where s: "ipv6_to_string upper False (sa_addr addr) = Some s" "length s \<le> 39"
    using ipv6_to_string_parse [OF assms, of upper False] by auto
  have "unat (port_to_uint16 (sa_port addr)) < 65536" "(65536 :: nat) < 10 ^ 5" by simp_all
  then have "unat (port_to_uint16 (sa_port addr)) < 10 ^ 5" by (rule less_trans)
  then have "length (to_string_uint 10 upper False (port_to_uint16 (sa_port addr))) \<le> 5"
    using length_digits_loop_le [of 10 5 upper "unat (port_to_uint16 (sa_port addr))"]
    by (simp add: to_string_uint_def)
  with s show ?thesis
    by (auto simp: http11_error_html_def ipv6_socket_to_string_def WEB_SERVER_NAME_def)
qed

lemma wf_header_line_of [simp]: "wf_header_line (header_line_of field s)"
  by (simp add: wf_header_line_def header_line_of_def)

lemma http_add_error_some:
  assumes "wf_ipv6 (sa_addr addr)" "0 < date_size" "date_size \<le> length date" "list_all wf_header_line extra"
    and "length (code_string_with_code code) + length (code_string_str code) + length message \<le> 800"
  shows "\<exists>head page. http_add_error code extra message addr date date_size =
           Some (head @ ''Content-Length: '' @ decimal (word_of_nat (length page)) @ CRLF @ CRLF @ page) \<and>
           http11_error_html code message addr = Some page \<and> length page \<le> 1024"
proof -
  obtain page where page: "http11_error_html code message addr = Some page" "length page \<le> 1024"
    using http11_error_html_length [OF assms(1), of code message] assms(5) by force
  then have "unat (word_of_nat (length page) :: u64) = length page"
    by (simp add: unsigned_of_nat take_bit_nat_eq_self)
  with page assms show ?thesis
    by (auto simp: http_add_error_def copy_http_header_response_wf content_length_line_wf
        wf_header_line_def header_line_of_def)
qed

text \<open>
  Whatever the local address, each of the four error responses is produced without overrunning
  the page buffer of 1024 bytes or the digit buffer, and it ends with a Content-Length equal to the
  length of the page that follows the empty line.
\<close>

theorem http_error_pages_fit:
  assumes "wf_ipv6 (sa_addr addr)" "0 < date_size" "date_size \<le> length date"
    and "respond \<in> {http_add_404_Not_Found, http_add_400_Bad_Request,
                    http_add_405_Method_Not_Allowed, http_add_505_HTTP_Version_Not_Supported}"
  shows "\<exists>head page. respond addr date date_size =
           Some (head @ ''Content-Length: '' @ decimal (word_of_nat (length page)) @ CRLF @ CRLF @ page) \<and>
           length page \<le> 1024"
proof -
  have small: "length (code_string_with_code code) \<le> 30 \<and> length (code_string_str code) \<le> 30"
    if "code \<in> {404, 400, 405, 505}" for code :: CODE
    using that by (auto simp: code_string_with_code_def code_string_str_def http_code_list_def
        code_number_def to_string_uint_def digits_loop.simps)
  have "\<exists>code extra message. respond = http_add_error code extra message \<and>
      code \<in> {404, 400, 405, 505} \<and> list_all wf_header_line extra \<and> length message \<le> 200"
    using assms(4)
    by (elim insertE emptyE)
      (simp_all only: http_add_404_Not_Found_def http_add_400_Bad_Request_def
        http_add_405_Method_Not_Allowed_def http_add_505_HTTP_Version_Not_Supported_def,
       (rule exI, rule exI, rule exI, rule conjI [OF refl], simp)+)
  then obtain code extra message where r: "respond = http_add_error code extra message"
    "code \<in> {404, 400, 405, 505}" "list_all wf_header_line extra" "length message \<le> 200" by blast
  with small [OF r(2)] have "length (code_string_with_code code) + length (code_string_str code) +
      length message \<le> 800" by simp
  from http_add_error_some [OF assms(1-3) r(3) this] show ?thesis unfolding r(1) by blast
qed

theorem http_error_pages_fit_witness:
  "\<exists>head page. http_add_404_Not_Found
      \<lparr>sa_addr = [0, 0, 0, 0, 0, 0, 0, 0x100], sa_port = ipv6_port_of 443\<rparr> (''today'' @ [NUL]) 6 =
      Some (head @ ''Content-Length: '' @ decimal (word_of_nat (length page)) @ CRLF @ CRLF @ page) \<and>
      length page \<le> 1024"
  by (rule http_error_pages_fit) (simp_all add: wf_ipv6_def ipv6_addr16_size_def)

end
