(* ===== verification/Huffman.thy ===== *)
theory Huffman
  imports IotPrelude "HOL-Library.Sublist"
begin

text \<open>
  The Huffman coding of HPACK strings: the table and the tree of httpparser/include/hpack.hh and
  httpparser/lib/hpack.cc, the bit-wise decoder \<open>get_huffman_string\<close> and the encoder
  \<open>add_huffman_string\<close>.
\<close>

subsection \<open>static_huffman\<close>

text \<open>Code and code length of the symbols 0 to 255 and of the end of string, 256.\<close>

definition static_huffman :: "(u32 \<times> nat) list" where
  "static_huffman =
    [(0x1ff8, 13), (0x7fffd8, 23), (0xfffffe2, 28), (0xfffffe3, 28), (0xfffffe4, 28), (0xfffffe5, 28),
     (0xfffffe5, 28), (0xfffffe7, 28), (0xfffffe8, 28), (0xffffea, 24), (0x3ffffffc, 30), (0xfffffe9, 28),
     (0xfffffea, 28), (0x3ffffffd, 30), (0xfffffeb, 28), (0xfffffec, 28), (0xfffffed, 28), (0xfffffee, 28),
     (0xfffffef, 28), (0xffffff0, 28), (0xffffff1, 28), (0xffffff2, 28), (0x3ffffffe, 30), (0xffffff3, 28),
     (0xffffff4, 28), (0xffffff5, 28), (0xffffff6, 28), (0xffffff7, 28), (0xffffff8, 28), (0xffffff9, 28),
     (0xffffffa, 28), (0xffffffb, 28), (0x14, 6), (0x3f8, 10), (0x3f9, 10), (0xffa, 12),
     (0x1ff9, 13), (0x15, 6), (0xf8, 8), (0x7fa, 11), (0x3fa, 10), (0x3fb, 10),
     (0xf9, 8), (0x7fb, 11), (0xfa, 8), (0x16, 6), (0x17, 6), (0x18, 6),
     (0x0, 5), (0x1, 5), (0x2, 5), (0x19, 6), (0x1a, 6), (0x1b, 6),
     (0x1c, 6), (0x1d, 6), (0x1e, 6), (0x1f, 6), (0x5c, 7), (0xfb, 8),
     (0x7ffc, 15), (0x20, 6), (0xffb, 12), (0x3fc, 10), (0x1ffa, 13), (0x21, 6),
     (0x5d, 7), (0x5e, 7), (0x5f, 7), (0x60, 7), (0x61, 7), (0x62, 7),
     (0x63, 7), (0x64, 7), (0x65, 7), (0x66, 7), (0x67, 7), (0x68, 7),
     (0x69, 7), (0x6a, 7), (0x6b, 7), (0x6c, 7), (0x6d, 7), (0x6e, 7),
     (0x6f, 7), (0x70, 7), (0x71, 7), (0x72, 7), (0xfc, 8), (0x73, 7),
     (0xfd, 8), (0x1ffb, 13), (0x7fff0, 19), (0x1ffc, 13), (0x3ffc, 14), (0x22, 6),
     (0x7ffd, 15), (0x3, 5), (0x23, 6), (0x4, 5), (0x24, 6), (0x5, 5),
     (0x25, 6), (0x26, 6), (0x27, 6), (0x6, 5), (0x74, 7), (0x75, 7),
     (0x28, 6), (0x29, 6), (0x2a, 6), (0x7, 5), (0x2b, 6), (0x76, 7),
     (0x2c, 6), (0x8, 5), (0x9, 5), (0x2d, 6), (0x77, 7), (0x78, 7),
     (0x79, 7), (0x7a, 7), (0x7b, 7), (0x7ffe, 15), (0x7fc, 11), (0x3ffd, 14),
     (0x1ffd, 13), (0xffffffc, 28), (0xfffe6, 20), (0x3fffd2, 22), (0xfffe7, 20), (0xfffe8, 20),
     (0x3fffd3, 22), (0x3fffd4, 22), (0x3fffd5, 22), (0x7fffd9, 23), (0x3fffd6, 22), (0x7fffda, 23),
     (0x7fffdb, 23), (0x7fffdc, 23), (0x7fffdd, 23), (0x7fffde, 23), (0xffffeb, 24), (0x7fffdf, 23),
     (0xffffec, 24), (0xffffed, 24), (0x3fffd7, 22), (0x7fffe0, 23), (0xffffee, 24), (0x7fffe1, 23),
     (0x7fffe2, 23), (0x7fffe3, 23), (0x7fffe4, 23), (0x1fffdc, 21), (0x3fffd8, 22), (0x7fffe5, 23),
     (0x3fffd9, 22), (0x7fffe6, 23), (0x7fffe7, 23), (0xffffef, 24), (0x3fffda, 22), (0x1fffdd, 21),
     (0xfffe9, 20), (0x3fffdb, 22), (0x3fffdc, 22), (0x7fffe8, 23), (0x7fffe9, 23), (0x1fffde, 21),
     (0x7fffea, 23), (0x3fffdd, 22), (0x3fffde, 22), (0xfffff0, 24), (0x1fffdf, 21), (0x3fffdf, 22),
     (0x7fffeb, 23), (0x7fffec, 23), (0x1fffe0, 21), (0x1fffe1, 21), (0x3fffe0, 22), (0x1fffe2, 21),
     (0x7fffed, 23), (0x3fffe1, 22), (0x7fffee, 23), (0x7fffef, 23), (0xfffea, 20), (0x3fffe2, 22),
     (0x3fffe3, 22), (0x3fffe4, 22), (0x7ffff0, 23), (0x3fffe5, 22), (0x3fffe6, 22), (0x7ffff1, 23),
     (0x3ffffe0, 26), (0x3ffffe1, 26), (0xfffeb, 20), (0x7fff1, 19), (0x3fffe7, 22), (0x7ffff2, 23),
     (0x3fffe8, 22), (0x1ffffec, 25), (0x3ffffe2, 26), (0x3ffffe3, 26), (0x3ffffe4, 26), (0x7ffffde, 27),
     (0x7ffffdf, 27), (0x3ffffe5, 26), (0xfffff1, 24), (0x1ffffed, 25), (0x7fff2, 19), (0x1fffe3, 21),
     (0x3ffffe6, 26), (0x7ffffe0, 27), (0x7ffffe1, 27), (0x3ffffe7, 26), (0x7ffffe2, 27), (0xfffff2, 24),
     (0x1fffe4, 21), (0x1fffe5, 21), (0x3ffffe8, 26), (0x3ffffe9, 26), (0xffffffd, 28), (0x7ffffe3, 27),
     (0x7ffffe4, 27), (0x7ffffe5, 27), (0xfffec, 20), (0xfffff3, 24), (0xfffed, 20), (0x1fffe6, 21),
     (0x3fffe9, 22), (0x1fffe7, 21), (0x1fffe8, 21), (0x7ffff3, 23), (0x3fffea, 22), (0x3fffeb, 22),
     (0x1ffffee, 25), (0x1ffffef, 25), (0xfffff4, 24), (0xfffff5, 24), (0x3ffffea, 26), (0x7ffff4, 23),
     (0x3ffffeb, 26), (0x7ffffe6, 27), (0x3ffffec, 26), (0x3ffffed, 26), (0x7ffffe7, 27), (0x7ffffe8, 27),
     (0x7ffffe9, 27), (0x7ffffea, 27), (0x7ffffeb, 27), (0xffffffe, 28), (0x7ffffec, 27), (0x7ffffed, 27),
     (0x7ffffee, 27), (0x7ffffef, 27), (0x7fffff0, 27), (0x3ffffee, 26), (0x3fffffff, 30)]"

subsection \<open>The tree\<close>

text \<open>A pointer to a node; the constructor's symbol is \<open>-1\<close>.\<close>

datatype node = Nullptr | Node (node_symbol: int) (node_left: node) (node_right: node)

fun is_leaf :: "node \<Rightarrow> bool" where
  "is_leaf (Node s Nullptr Nullptr) = True"
| "is_leaf _ = False"

definition new_node :: node where
  "new_node = Node (- 1) Nullptr Nullptr"

text \<open>The bits of a code, most significant first.\<close>

definition code_bits :: "u32 \<Rightarrow> nat \<Rightarrow> bool list" where
  "code_bits code len = map (bit code) (rev [0..<len])"

text \<open>The descent for one symbol, creating the missing nodes, and \<open>set_leaf\<close> at its end.\<close>

fun set_leaf_at :: "bool list \<Rightarrow> int \<Rightarrow> node \<Rightarrow> node" where
  "set_leaf_at [] s Nullptr = Node s Nullptr Nullptr"
| "set_leaf_at [] s (Node s' l r) = Node s l r"
| "set_leaf_at (b # bs) s Nullptr =
     (if b then Node (- 1) Nullptr (set_leaf_at bs s Nullptr)
      else Node (- 1) (set_leaf_at bs s Nullptr) Nullptr)"
| "set_leaf_at (b # bs) s (Node s' l r) =
     (if b then Node s' l (set_leaf_at bs s r) else Node s' (set_leaf_at bs s l) r)"

fun huffman_tree_loop :: "int \<Rightarrow> (u32 \<times> nat) list \<Rightarrow> node \<Rightarrow> node" where
  "huffman_tree_loop symbol [] root = root"
| "huffman_tree_loop symbol ((code, code_len) # entries) root =
     huffman_tree_loop (symbol + 1) entries (set_leaf_at (code_bits code code_len) symbol root)"

definition created_huffman_tree :: node where
  "created_huffman_tree = huffman_tree_loop 0 static_huffman new_node"

definition huffman_root :: node where
  "huffman_root = created_huffman_tree"

subsection \<open>get_huffman_string\<close>

text \<open>The bits of a byte in the order the decoder tests them.\<close>

definition byte_bits :: "u8 \<Rightarrow> bool list" where
  "byte_bits b = map (\<lambda>j. bit b (7 - j)) [0..<8]"

text \<open>Following a null pointer is \<open>None\<close>; the end of string ends the decoding.\<close>

fun get_huffman_bits :: "node \<Rightarrow> node \<Rightarrow> bool list \<Rightarrow> string \<Rightarrow> string option" where
  "get_huffman_bits root pcurr [] value = Some value"
| "get_huffman_bits root Nullptr (b # bs) value = None"
| "get_huffman_bits root (Node s l r) (b # bs) value =
     (let pcurr = (if b then r else l) in
      if pcurr = Nullptr then None
      else if is_leaf pcurr then
        if node_symbol pcurr = 256 then Some value
        else get_huffman_bits root root bs (value @ [char_of (node_symbol pcurr)])
      else get_huffman_bits root pcurr bs value)"

definition get_huffman_string :: "u8 list \<Rightarrow> string option" where
  "get_huffman_string buffer =
     get_huffman_bits huffman_root huffman_root (concat (map byte_bits buffer)) []"

subsection \<open>add_huffman_string\<close>

definition bit_mask :: "u8 list" where
  "bit_mask = [0xff, 0x7f, 0x3f, 0x1f, 0x0f, 0x07, 0x03, 0x01]"

text \<open>
  The state of the encoder: the bytes finished, the byte at \<open>*pstart\<close> and \<open>bit_index\<close>.  The inner
  \<open>while (true)\<close> loop for one code; reading the msk out of range is \<open>None\<close>.
\<close>

function huffman_put :: "u8 list \<Rightarrow> u8 \<Rightarrow> nat \<Rightarrow> u32 \<Rightarrow> nat \<Rightarrow> (u8 list \<times> u8 \<times> nat) option" where
  "huffman_put out cur bit_index code len_left =
     (case load bit_mask bit_index of
        None \<Rightarrow> None
      | Some msk \<Rightarrow>
          if bit_index + len_left \<le> 8 then
            let cur' = cur + ucast (push_bit (8 - bit_index - len_left) code AND ucast msk);
                bit_index' = bit_index + len_left in
            if bit_index' = 8 then Some (out @ [cur'], 0, 0) else Some (out, cur', bit_index')
          else
            huffman_put (out @ [cur + ucast (drop_bit (len_left + bit_index - 8) code AND ucast msk)])
              0 0 code (len_left - (8 - bit_index)))"
  by pat_completeness auto
termination
  by (relation "measure (\<lambda>(out, cur, bit_index, code, len_left). len_left)")
    (auto simp: load_def bit_mask_def split: if_splits)

declare huffman_put.simps [simp del]

fun add_huffman_loop :: "u8 list \<Rightarrow> u8 \<Rightarrow> nat \<Rightarrow> u8 list \<Rightarrow> u8 list option" where
  "add_huffman_loop out cur bit_index [] =
     (if bit_index = 0 then Some out
      else do { msk \<leftarrow> load bit_mask bit_index; Some (out @ [cur + msk]) })"
| "add_huffman_loop out cur bit_index (v # value) =
     (let (code, code_len) = static_huffman ! unat v in
      do { (out', cur', bit_index') \<leftarrow> huffman_put out cur bit_index code code_len;
           add_huffman_loop out' cur' bit_index' value })"

text \<open>
  The bytes between \<open>pstart\<close> and the returned pointer.  When the codes end on a byte boundary the code
  also stores a zero at the returned pointer, one byte behind its output; that store is not part of the
  result.
\<close>

definition add_huffman_string :: "u8 list \<Rightarrow> u8 list option" where
  "add_huffman_string value = add_huffman_loop [] 0 0 value"

fun huffman_size_loop :: "nat \<Rightarrow> u8 list \<Rightarrow> nat" where
  "huffman_size_loop sz [] = sz"
| "huffman_size_loop sz (v # value) = huffman_size_loop (sz + snd (static_huffman ! unat v)) value"

definition huffman_string_size :: "u8 list \<Rightarrow> nat" where
  "huffman_string_size value = huffman_size_loop 7 value div 8"

subsection \<open>The encoder writes the codes one after the other\<close>

lemma length_byte_bits [simp]: "length (byte_bits b) = 8"
  by (simp add: byte_bits_def)

lemma nth_byte_bits: "j < 8 \<Longrightarrow> byte_bits b ! j = bit b (7 - j)"
  by (simp add: byte_bits_def)

lemma length_code_bits [simp]: "length (code_bits code len) = len"
  by (simp add: code_bits_def)

lemma nth_code_bits: "j < len \<Longrightarrow> code_bits code len ! j = bit code (len - Suc j)"
  by (simp add: code_bits_def rev_nth)

lemma bit_mask_nth:
  assumes "i < 8"
  shows "bit (bit_mask ! i) n \<longleftrightarrow> n < 8 - i"
proof -
  have "list_all (\<lambda>i. list_all (\<lambda>n. bit (bit_mask ! i) n \<longleftrightarrow> n < 8 - i) [0..<8]) [0..<8]"
    by code_simp
  then have "n < 8 \<Longrightarrow> ?thesis" using assms by (simp add: list_all_iff)
  then show ?thesis by (cases "n < 8") auto
qed

text \<open>The bits already written, when \<open>bit_index\<close> bits of \<open>cur\<close> are in use.\<close>

definition enc_bits :: "u8 list \<Rightarrow> u8 \<Rightarrow> nat \<Rightarrow> bool list" where
  "enc_bits out cur bi = concat (map byte_bits out) @ take bi (byte_bits cur)"

definition enc_inv :: "u8 \<Rightarrow> nat \<Rightarrow> bool" where
  "enc_inv cur bi \<longleftrightarrow> bi < 8 \<and> (\<forall>n < 8 - bi. \<not> bit cur n)"

lemma bit_add_masked:
  assumes "enc_inv cur bi"
  shows "bit (cur + ucast (w AND ucast (bit_mask ! bi) :: u32)) n \<longleftrightarrow>
         bit cur n \<or> bit w n \<and> n < 8 - bi"
proof -
  have bi: "bi < 8" using assms by (simp add: enc_inv_def)
  have "cur AND ucast (w AND ucast (bit_mask ! bi) :: u32) = 0"
    using assms by (intro u8_eqI) (auto simp: bit_simps bit_mask_nth [OF bi] enc_inv_def)
  then show ?thesis
    by (auto simp: disjoint_add bit_simps bit_mask_nth [OF bi])
qed

lemma take_byte_bits_masked:
  assumes "enc_inv cur bi" "k \<le> 8 - bi"
    and "\<And>i. i < k \<Longrightarrow> bit w (7 - bi - i) = bs ! i" "length bs = k"
  shows "take (bi + k) (byte_bits (cur + ucast (w AND ucast (bit_mask ! bi) :: u32))) =
         take bi (byte_bits cur) @ bs"
proof (rule nth_equalityI)
  have bi: "bi < 8" using assms(1) by (simp add: enc_inv_def)
  show "length (take (bi + k) (byte_bits (cur + ucast (w AND ucast (bit_mask ! bi) :: u32)))) =
      length (take bi (byte_bits cur) @ bs)"
    using bi assms(2,4) by simp
  fix j assume "j < length (take (bi + k) (byte_bits (cur + ucast (w AND ucast (bit_mask ! bi) :: u32))))"
  then have j: "j < bi + k" "j < 8" using assms(2) by auto
  show "take (bi + k) (byte_bits (cur + ucast (w AND ucast (bit_mask ! bi) :: u32))) ! j =
      (take bi (byte_bits cur) @ bs) ! j"
  proof (cases "j < bi")
    case True
    then have "\<not> 7 - j < 8 - bi" using j bi by simp
    with True j show ?thesis
      by (simp add: nth_byte_bits bit_add_masked [OF assms(1)] nth_append)
  next
    case False
    then have pos: "7 - j < 8 - bi" "7 - j = 7 - bi - (j - bi)" "j - bi < k" using j bi by auto
    have "\<not> bit cur (7 - j)"
      using assms(1) pos(1) unfolding enc_inv_def by blast
    then have "byte_bits (cur + ucast (w AND ucast (bit_mask ! bi) :: u32)) ! j \<longleftrightarrow> bit w (7 - j)"
      using bit_add_masked [OF assms(1), of w "7 - j"] pos(1) nth_byte_bits [OF j(2)] by blast
    also have "\<dots> \<longleftrightarrow> bs ! (j - bi)" unfolding pos(2) by (rule assms(3) [OF pos(3)])
    finally show ?thesis using False j bi by (simp add: nth_append)
  qed
qed

lemma enc_inv_0 [simp]: "enc_inv 0 0"
  by (simp add: enc_inv_def)

lemma huffman_put_bits:
  assumes "enc_inv cur bi"
  shows "\<exists>out' cur' bi'. huffman_put out cur bi code len = Some (out', cur', bi') \<and>
           enc_inv cur' bi' \<and> enc_bits out' cur' bi' = enc_bits out cur bi @ code_bits code len"
  using assms
proof (induction len arbitrary: out cur bi rule: less_induct)
  case (less len)
  have bi: "bi < 8" using less.prems by (simp add: enc_inv_def)
  then have mask: "load bit_mask bi = Some (bit_mask ! bi)" by (simp add: load_def bit_mask_def)
  show ?case
  proof (cases "bi + len \<le> 8")
    case fits: True
    let ?w = "push_bit (8 - bi - len) code"
    let ?cur = "cur + ucast (?w AND ucast (bit_mask ! bi) :: u32)"
    have "bit ?w (7 - bi - i) = code_bits code len ! i" if "i < len" for i
      using that fits bi by (auto simp: bit_simps nth_code_bits)
    then have written: "take (bi + len) (byte_bits ?cur) = take bi (byte_bits cur) @ code_bits code len"
      using less.prems fits by (intro take_byte_bits_masked) auto
    show ?thesis
    proof (cases "bi + len = 8")
      case True
      then have "take (bi + len) (byte_bits ?cur) = byte_bits ?cur" by simp
      with True written mask show ?thesis
        by (simp add: huffman_put.simps [of out cur bi] enc_bits_def)
    next
      case False
      have "enc_inv ?cur (bi + len)"
        using less.prems fits False
        by (auto simp: enc_inv_def bit_add_masked [OF less.prems] bit_simps)
      with False fits written mask show ?thesis
        by (simp add: huffman_put.simps [of out cur bi] enc_bits_def)
    qed
  next
    case False
    let ?k = "8 - bi" and ?w = "drop_bit (len + bi - 8) code"
    let ?cur = "cur + ucast (?w AND ucast (bit_mask ! bi) :: u32)"
    have "bit ?w (7 - bi - i) = take ?k (code_bits code len) ! i" if "i < ?k" for i
      using that False bi by (auto simp: bit_simps nth_code_bits intro!: arg_cong [where f = "bit code"])
    then have "take (bi + ?k) (byte_bits ?cur) = take bi (byte_bits cur) @ take ?k (code_bits code len)"
      using less.prems False by (intro take_byte_bits_masked) auto
    then have written: "byte_bits ?cur = take bi (byte_bits cur) @ take ?k (code_bits code len)"
      using bi by simp
    have remaining: "code_bits code (len - ?k) = drop ?k (code_bits code len)"
      by (rule nth_equalityI) (simp_all add: nth_code_bits)
    have "len - ?k < len" using bi False by simp
    from less.IH [OF this enc_inv_0, of "out @ [?cur]"] obtain out' cur' bi' where
      "huffman_put (out @ [?cur]) 0 0 code (len - ?k) = Some (out', cur', bi')" "enc_inv cur' bi'"
      "enc_bits out' cur' bi' = enc_bits (out @ [?cur]) 0 0 @ code_bits code (len - ?k)" by blast
    moreover have "enc_bits (out @ [?cur]) 0 0 @ code_bits code (len - ?k) = enc_bits out cur bi @ code_bits code len"
      by (simp add: enc_bits_def written remaining)
    ultimately show ?thesis using False mask
      by (simp add: huffman_put.simps [of out cur bi])
  qed
qed

text \<open>The codes of a string, and the ones that fill its last byte.\<close>

definition symbol_bits :: "u8 \<Rightarrow> bool list" where
  "symbol_bits v = (let (code, code_len) = static_huffman ! unat v in code_bits code code_len)"

lemma byte_bits_pad:
  assumes "enc_inv cur bi"
  shows "byte_bits (cur + bit_mask ! bi) = take bi (byte_bits cur) @ replicate (8 - bi) True"
proof -
  have bi: "bi < 8" using assms by (simp add: enc_inv_def)
  have "cur AND bit_mask ! bi = 0"
    using assms by (intro u8_eqI) (auto simp: bit_simps bit_mask_nth [OF bi] enc_inv_def)
  then have "bit (cur + bit_mask ! bi) n \<longleftrightarrow> bit cur n \<or> n < 8 - bi" for n
    by (simp add: disjoint_add bit_simps bit_mask_nth [OF bi])
  note added = this
  show ?thesis
  proof (rule nth_equalityI)
    show "length (byte_bits (cur + bit_mask ! bi)) =
        length (take bi (byte_bits cur) @ replicate (8 - bi) True)" using bi by simp
    fix j assume "j < length (byte_bits (cur + bit_mask ! bi))"
    then have j: "j < 8" by simp
    show "byte_bits (cur + bit_mask ! bi) ! j = (take bi (byte_bits cur) @ replicate (8 - bi) True) ! j"
    proof (cases "j < bi")
      case True
      with j bi have "\<not> 7 - j < 8 - bi" by simp
      with True j show ?thesis using added
        by (simp only: nth_byte_bits nth_append) (simp add: nth_byte_bits)
    next
      case False
      with j bi have "7 - j < 8 - bi" "j - bi < 8 - bi" by simp_all
      with False j bi show ?thesis using added by (simp only: nth_byte_bits nth_append) simp
    qed
  qed
qed

lemma add_huffman_loop_bits:
  assumes "enc_inv cur bi"
  shows "\<exists>out'. add_huffman_loop out cur bi vs = Some out' \<and>
           (\<exists>k < 8. concat (map byte_bits out') =
              enc_bits out cur bi @ concat (map symbol_bits vs) @ replicate k True)"
  using assms
proof (induction vs arbitrary: out cur bi)
  case Nil
  then have bi: "bi < 8" by (simp add: enc_inv_def)
  show ?case
  proof (cases "bi = 0")
    case True
    then show ?thesis by (auto simp: enc_bits_def intro: exI [of _ 0])
  next
    case False
    with bi byte_bits_pad [OF Nil] show ?thesis
      by (auto simp: load_def bit_mask_def enc_bits_def intro!: exI [of _ "8 - bi"])
  qed
next
  case (Cons v vs)
  obtain code len where e: "static_huffman ! unat v = (code, len)" by fastforce
  obtain out' cur' bi' where put: "huffman_put out cur bi code len = Some (out', cur', bi')"
    "enc_inv cur' bi'" "enc_bits out' cur' bi' = enc_bits out cur bi @ code_bits code len"
    using huffman_put_bits [OF Cons.prems] by blast
  from Cons.IH [OF put(2), of out'] put e show ?case
    by (auto simp: symbol_bits_def)
qed

lemma add_huffman_string_bits:
  "\<exists>out k. add_huffman_string vs = Some out \<and> k < 8 \<and>
     concat (map byte_bits out) = concat (map symbol_bits vs) @ replicate k True"
  using add_huffman_loop_bits [OF enc_inv_0, of "[]" vs]
  by (auto simp: add_huffman_string_def enc_bits_def)

subsection \<open>The announced size is the number of bytes written\<close>

lemma huffman_size_loop_bits:
  "huffman_size_loop sz vs = sz + length (concat (map symbol_bits vs))"
  by (induction vs arbitrary: sz) (auto simp: symbol_bits_def split: prod.split)

lemma length_concat_byte_bits: "length (concat (map byte_bits out)) = 8 * length out"
  by (induction out) auto

lemma add_huffman_length:
  "\<exists>out. add_huffman_string vs = Some out \<and> length out = huffman_string_size vs"
proof -
  obtain out k where o: "add_huffman_string vs = Some out" "k < 8"
    "concat (map byte_bits out) = concat (map symbol_bits vs) @ replicate k True"
    using add_huffman_string_bits by blast
  from arg_cong [OF o(3), of length]
  have "8 * length out = length (concat (map symbol_bits vs)) + k"
    unfolding length_concat_byte_bits by simp
  with o show ?thesis by (simp add: huffman_string_size_def huffman_size_loop_bits)
qed

subsection \<open>Walking the tree\<close>

text \<open>
  \<open>descend bs p\<close> follows the bits from \<open>p\<close>: \<open>None\<close> at a null pointer, or at a leaf before the
  last bit.
\<close>

fun descend :: "bool list \<Rightarrow> node \<Rightarrow> node option" where
  "descend [] p = Some p"
| "descend (b # bs) Nullptr = None"
| "descend (b # bs) (Node s l r) =
     (let p = (if b then r else l) in if bs \<noteq> [] \<and> is_leaf p then None else descend bs p)"

lemma get_huffman_bits_leaf:
  assumes "descend bs p = Some q" "bs \<noteq> []" "is_leaf q" "node_symbol q \<noteq> 256"
  shows "get_huffman_bits root p (bs @ rest) vs =
         get_huffman_bits root root rest (vs @ [char_of (node_symbol q)])"
  using assms
proof (induction bs p rule: descend.induct)
  case (3 b bs s l r)
  let ?p = "if b then r else l"
  show ?case
  proof (cases "bs = []")
    case True
    with "3.prems" show ?thesis by auto
  next
    case False
    with "3.prems"(1) have p: "descend bs ?p = Some q" "\<not> is_leaf ?p"
      by (auto simp: Let_def split: if_splits)
    moreover have "?p \<noteq> Nullptr" using p(1) False by (cases bs) auto
    ultimately show ?thesis using "3.IH" [OF refl _ p(1) False "3.prems"(3,4)] False
      by (auto simp: Let_def)
  qed
qed auto

lemma get_huffman_bits_inner:
  assumes "descend bs p = Some q" "\<not> is_leaf q" "q \<noteq> Nullptr"
  shows "get_huffman_bits root p bs vs = Some vs"
  using assms
proof (induction bs p rule: descend.induct)
  case (3 b bs s l r)
  let ?p = "if b then r else l"
  show ?case
  proof (cases "bs = []")
    case True
    with "3.prems" show ?thesis by auto
  next
    case False
    with "3.prems"(1) have p: "descend bs ?p = Some q" "\<not> is_leaf ?p"
      by (auto simp: Let_def split: if_splits)
    moreover have "?p \<noteq> Nullptr" using p(1) False by (cases bs) auto
    ultimately show ?thesis using "3.IH" [OF refl _ p(1) "3.prems"(2,3)] False
      by (auto simp: Let_def)
  qed
qed auto

subsection \<open>The tree holds the codes it was built from\<close>

fun sub :: "bool list \<Rightarrow> node \<Rightarrow> node" where
  "sub [] p = p"
| "sub (b # bs) Nullptr = Nullptr"
| "sub (b # bs) (Node s l r) = sub bs (if b then r else l)"

lemma sub_Nullptr [simp]: "sub bs Nullptr = Nullptr"
  by (cases bs) auto

lemma sub_append: "sub (bs @ bs') p = sub bs' (sub bs p)"
  by (induction bs p rule: sub.induct) auto

lemma sub_set_leaf_at:
  "sub bs' (set_leaf_at bs s p) \<noteq> Nullptr \<longleftrightarrow> sub bs' p \<noteq> Nullptr \<or> prefix bs' bs"
proof (induction bs s p arbitrary: bs' rule: set_leaf_at.induct)
  case (1 s)
  then show ?case by (cases bs') auto
next
  case (2 s s' l r)
  then show ?case by (cases bs') auto
next
  case (3 b bs s)
  then show ?case by (cases bs') auto
next
  case (4 b bs s s' l r)
  then show ?case by (cases bs') auto
qed

lemma sub_set_leaf_at_symbol:
  "node_symbol (sub bs (set_leaf_at bs s p)) = s"
  by (induction bs s p rule: set_leaf_at.induct) auto

lemma sub_set_leaf_at_other:
  "bs' \<noteq> bs \<Longrightarrow> sub bs' p \<noteq> Nullptr \<Longrightarrow>
   node_symbol (sub bs' (set_leaf_at bs s p)) = node_symbol (sub bs' p)"
proof (induction bs s p arbitrary: bs' rule: set_leaf_at.induct)
  case (2 s s' l r)
  then show ?case by (cases bs') auto
next
  case (4 b bs s s' l r)
  then show ?case by (cases bs') auto
qed auto

abbreviation entry_bits :: "u32 \<times> nat \<Rightarrow> bool list" where
  "entry_bits e \<equiv> code_bits (fst e) (snd e)"

lemma sub_tree_loop:
  "sub bs (huffman_tree_loop s es root) \<noteq> Nullptr \<longleftrightarrow>
   sub bs root \<noteq> Nullptr \<or> (\<exists>e \<in> set es. prefix bs (entry_bits e))"
  by (induction s es root rule: huffman_tree_loop.induct) (auto simp: sub_set_leaf_at)

lemma tree_loop_symbol_kept:
  "sub bs root \<noteq> Nullptr \<Longrightarrow> \<forall>e \<in> set es. entry_bits e \<noteq> bs \<Longrightarrow>
   node_symbol (sub bs (huffman_tree_loop s es root)) = node_symbol (sub bs root)"
proof (induction s es root rule: huffman_tree_loop.induct)
  case (2 s code len es root)
  let ?root = "set_leaf_at (code_bits code len) s root"
  have "sub bs ?root \<noteq> Nullptr" using "2.prems"(1) by (simp add: sub_set_leaf_at)
  moreover have "bs \<noteq> code_bits code len" using "2.prems"(2) by auto
  ultimately show ?case
    using "2.IH" "2.prems" sub_set_leaf_at_other [of bs "code_bits code len" root s] by simp
qed simp

lemma tree_loop_symbol:
  "i < length es \<Longrightarrow> \<forall>j. i < j \<and> j < length es \<longrightarrow> entry_bits (es ! j) \<noteq> entry_bits (es ! i) \<Longrightarrow>
   node_symbol (sub (entry_bits (es ! i)) (huffman_tree_loop s es root)) = s + int i"
proof (induction s es root arbitrary: i rule: huffman_tree_loop.induct)
  case (2 s code len es root)
  let ?root = "set_leaf_at (code_bits code len) s root"
  show ?case
  proof (cases i)
    case 0
    have "\<forall>e \<in> set es. entry_bits e \<noteq> code_bits code len"
      using "2.prems"(2) unfolding 0 by (fastforce simp: in_set_conv_nth)
    moreover have "sub (code_bits code len) ?root \<noteq> Nullptr" by (simp add: sub_set_leaf_at)
    ultimately show ?thesis unfolding 0
      by (simp add: tree_loop_symbol_kept sub_set_leaf_at_symbol)
  next
    case (Suc k)
    have "\<forall>j. k < j \<and> j < length es \<longrightarrow> entry_bits (es ! j) \<noteq> entry_bits (es ! k)"
      using "2.prems"(2) unfolding Suc by fastforce
    with "2.IH" [of k] "2.prems"(1) show ?thesis unfolding Suc by simp
  qed
qed simp

lemma descend_sub: "sub bs p \<noteq> Nullptr \<Longrightarrow> descend bs p = Some (sub bs p)"
proof (induction bs p rule: descend.induct)
  case (3 b bs s l r)
  let ?p = "if b then r else l"
  have "\<not> is_leaf ?p" if "bs \<noteq> []"
    using "3.prems" that by (cases bs; cases ?p rule: is_leaf.cases) auto
  with "3.prems" "3.IH" [OF refl] show ?case by (auto simp: Let_def)
qed auto

lemma is_leaf_sub:
  "sub bs t \<noteq> Nullptr \<Longrightarrow> \<forall>b. sub (bs @ [b]) t = Nullptr \<Longrightarrow> is_leaf (sub bs t)"
  by (cases "sub bs t" rule: is_leaf.cases) (auto simp: sub_append all_bool_eq)

subsection \<open>The code is prefix-free\<close>

text \<open>
  A code \<open>c\<close> of \<open>l\<close> bits stands for the interval of the 30-bit numbers that start with it.  The
  table without its sixth entry, a copy of the fifth, has different interval starts, and the
  intervals of each length lie in a range of their own.
\<close>

definition code_start :: "u32 \<times> nat \<Rightarrow> int" where
  "code_start e = uint (fst e) * 2 ^ (30 - snd e)"

definition code_ranges :: "(nat \<times> int \<times> int) list" where
  "code_ranges =
    [(5, 0, 335544320), (6, 335544320, 771751936), (7, 771751936, 1040187392), (8, 1040187392, 1065353216),
     (10, 1065353216, 1070596096), (11, 1070596096, 1072168960), (12, 1072168960, 1072693248), (13, 1072693248, 1073479680),
     (14, 1073479680, 1073610752), (15, 1073610752, 1073709056), (19, 1073709056, 1073715200), (20, 1073715200, 1073723392),
     (21, 1073723392, 1073730048), (22, 1073730048, 1073736704), (23, 1073736704, 1073740416), (24, 1073740416, 1073741184),
     (25, 1073741184, 1073741312), (26, 1073741312, 1073741552), (27, 1073741552, 1073741704), (28, 1073741704, 1073741820),
     (30, 1073741820, 1073741824)]"

definition huffman_once :: "(u32 \<times> nat) list" where
  "huffman_once = take 6 static_huffman @ drop 7 static_huffman"

lemma huffman_starts:
  "map code_start huffman_once =
    [1072693248, 1073736704, 1073741704, 1073741708, 1073741712, 1073741716, 1073741724, 1073741728,
     1073740416, 1073741820, 1073741732, 1073741736, 1073741821, 1073741740, 1073741744, 1073741748,
     1073741752, 1073741756, 1073741760, 1073741764, 1073741768, 1073741822, 1073741772, 1073741776,
     1073741780, 1073741784, 1073741788, 1073741792, 1073741796, 1073741800, 1073741804, 335544320,
     1065353216, 1066401792, 1072168960, 1072824320, 352321536, 1040187392, 1070596096, 1067450368,
     1068498944, 1044381696, 1071120384, 1048576000, 369098752, 385875968, 402653184, 0,
     33554432, 67108864, 419430400, 436207616, 452984832, 469762048, 486539264, 503316480,
     520093696, 771751936, 1052770304, 1073610752, 536870912, 1072431104, 1069547520, 1072955392,
     553648128, 780140544, 788529152, 796917760, 805306368, 813694976, 822083584, 830472192,
     838860800, 847249408, 855638016, 864026624, 872415232, 880803840, 889192448, 897581056,
     905969664, 914358272, 922746880, 931135488, 939524096, 947912704, 956301312, 1056964608,
     964689920, 1061158912, 1073086464, 1073709056, 1073217536, 1073479680, 570425344, 1073643520,
     100663296, 587202560, 134217728, 603979776, 167772160, 620756992, 637534208, 654311424,
     201326592, 973078528, 981467136, 671088640, 687865856, 704643072, 234881024, 721420288,
     989855744, 738197504, 268435456, 301989888, 754974720, 998244352, 1006632960, 1015021568,
     1023410176, 1031798784, 1073676288, 1071644672, 1073545216, 1073348608, 1073741808, 1073715200,
     1073730048, 1073716224, 1073717248, 1073730304, 1073730560, 1073730816, 1073736832, 1073731072,
     1073736960, 1073737088, 1073737216, 1073737344, 1073737472, 1073740480, 1073737600, 1073740544,
     1073740608, 1073731328, 1073737728, 1073740672, 1073737856, 1073737984, 1073738112, 1073738240,
     1073723392, 1073731584, 1073738368, 1073731840, 1073738496, 1073738624, 1073740736, 1073732096,
     1073723904, 1073718272, 1073732352, 1073732608, 1073738752, 1073738880, 1073724416, 1073739008,
     1073732864, 1073733120, 1073740800, 1073724928, 1073733376, 1073739136, 1073739264, 1073725440,
     1073725952, 1073733632, 1073726464, 1073739392, 1073733888, 1073739520, 1073739648, 1073719296,
     1073734144, 1073734400, 1073734656, 1073739776, 1073734912, 1073735168, 1073739904, 1073741312,
     1073741328, 1073720320, 1073711104, 1073735424, 1073740032, 1073735680, 1073741184, 1073741344,
     1073741360, 1073741376, 1073741552, 1073741560, 1073741392, 1073740864, 1073741216, 1073713152,
     1073726976, 1073741408, 1073741568, 1073741576, 1073741424, 1073741584, 1073740928, 1073727488,
     1073728000, 1073741440, 1073741456, 1073741812, 1073741592, 1073741600, 1073741608, 1073721344,
     1073740992, 1073722368, 1073728512, 1073735936, 1073729024, 1073729536, 1073740160, 1073736192,
     1073736448, 1073741248, 1073741280, 1073741056, 1073741120, 1073741472, 1073740288, 1073741488,
     1073741616, 1073741504, 1073741520, 1073741624, 1073741632, 1073741640, 1073741648, 1073741656,
     1073741816, 1073741664, 1073741672, 1073741680, 1073741688, 1073741696, 1073741536, 1073741823]"
  by code_simp

lemma huffman_starts_distinct: "distinct (map code_start huffman_once)"
  unfolding huffman_starts by simp

lemma static_huffman_wf:
  "list_all (\<lambda>(c, l). 0 < l \<and> l \<le> 30 \<and> uint c < 2 ^ l \<and>
     (case map_of code_ranges l of
        Some (lo, hi) \<Rightarrow> lo \<le> uint c * 2 ^ (30 - l) \<and> uint c * 2 ^ (30 - l) + 2 ^ (30 - l) \<le> hi
      | None \<Rightarrow> False)) static_huffman"
  by code_simp

lemma code_ranges_sorted: "sorted_wrt (\<lambda>(l, lo, hi) (l', lo', hi'). hi \<le> lo') code_ranges"
  by (simp add: code_ranges_def)

lemma length_static_huffman: "length static_huffman = 257"
  by (simp add: static_huffman_def)

lemma static_huffman_6: "static_huffman ! 6 = static_huffman ! 5"
  by (simp add: static_huffman_def)

lemma sorted_wrt_cases:
  "sorted_wrt P xs \<Longrightarrow> x \<in> set xs \<Longrightarrow> y \<in> set xs \<Longrightarrow> x \<noteq> y \<Longrightarrow> P x y \<or> P y x"
  by (induction xs) auto

lemma prefix_code_div:
  assumes "prefix (code_bits c l) (code_bits c' l')" "uint c < 2 ^ l" "uint c' < 2 ^ l'"
  shows "l \<le> l' \<and> uint c = drop_bit (l' - l) (uint c')"
proof -
  have le: "l \<le> l'" using prefix_length_le [OF assms(1)] by simp
  have low: "take_bit l (uint c) = uint c" "take_bit l' (uint c') = uint c'"
    using assms(2,3) by (simp_all add: take_bit_int_eq_self_iff)
  have "bit (uint c) n = bit (drop_bit (l' - l) (uint c')) n" for n
  proof (cases "n < l")
    case True
    have "code_bits c l ! (l - Suc n) = code_bits c' l' ! (l - Suc n)"
      using assms(1) True by (auto simp: prefix_def nth_append dest!: arg_cong [where f = "\<lambda>xs. xs ! (l - Suc n)"])
    moreover have "l - Suc (l - Suc n) = n" "l' - Suc (l - Suc n) = n + (l' - l)" using True le by auto
    ultimately have "bit c n = bit c' (n + (l' - l))" using True le by (simp add: nth_code_bits)
    then show ?thesis by (auto simp: bit_simps add.commute dest: bit_imp_le_length)
  next
    case False
    have "\<not> bit (take_bit l (uint c)) n" using False by (simp add: bit_take_bit_iff)
    moreover have "l' \<le> n + (l' - l)" using False le by simp
    then have "\<not> bit (take_bit l' (uint c')) (n + (l' - l))" by (simp only: bit_take_bit_iff) simp
    ultimately show ?thesis unfolding low by (simp add: bit_drop_bit_eq add.commute)
  qed
  then show ?thesis using le by (auto intro: bit_eqI)
qed

lemma prefix_code_start:
  assumes "prefix (code_bits c l) (code_bits c' l')" "uint c < 2 ^ l" "uint c' < 2 ^ l'" "l' \<le> 30"
  shows "uint c * 2 ^ (30 - l) \<le> uint c' * 2 ^ (30 - l') \<and>
         uint c' * 2 ^ (30 - l') < uint c * 2 ^ (30 - l) + 2 ^ (30 - l)"
proof -
  obtain le: "l \<le> l'" and c: "uint c = uint c' div 2 ^ (l' - l)"
    using prefix_code_div [OF assms(1-3)] by (simp add: drop_bit_eq_div)
  let ?k = "2 ^ (l' - l) :: int" and ?w = "2 ^ (30 - l') :: int"
  have "uint c * ?k \<le> uint c'" unfolding c by (simp add: minus_mod_eq_div_mult [symmetric])
  then have "uint c * ?k * ?w \<le> uint c' * ?w" by (intro mult_right_mono) auto
  moreover have "uint c' mod ?k < ?k" by simp
  then have "uint c' < uint c' div ?k * ?k + ?k"
    using div_mult_mod_eq [of "uint c'" ?k] by linarith
  then have "uint c' < (uint c + 1) * ?k" by (simp only: c distrib_right mult_1)
  then have "uint c' * ?w < (uint c + 1) * ?k * ?w" by (intro mult_strict_right_mono) auto
  moreover have "?k * ?w = 2 ^ (30 - l)" using le assms(4) by (simp flip: power_add)
  ultimately show ?thesis by (simp add: algebra_simps)
qed

text \<open>No code of the table is a proper prefix of another.\<close>

lemma static_huffman_prefix_free:
  assumes "e \<in> set static_huffman" "e' \<in> set static_huffman" "prefix (entry_bits e) (entry_bits e')"
  shows "e = e'"
proof -
  obtain c l c' l' where e: "e = (c, l)" "e' = (c', l')" by (cases e, cases e')
  obtain lo hi where r: "l \<le> 30" "uint c < 2 ^ l" "map_of code_ranges l = Some (lo, hi)"
    "lo \<le> uint c * 2 ^ (30 - l)" "uint c * 2 ^ (30 - l) + 2 ^ (30 - l) \<le> hi"
    using static_huffman_wf assms(1) unfolding e by (fastforce simp: list_all_iff split: option.splits)
  obtain lo' hi' where r': "l' \<le> 30" "uint c' < 2 ^ l'" "map_of code_ranges l' = Some (lo', hi')"
    "lo' \<le> uint c' * 2 ^ (30 - l')" "uint c' * 2 ^ (30 - l') + 2 ^ (30 - l') \<le> hi'"
    using static_huffman_wf assms(2) unfolding e by (fastforce simp: list_all_iff split: option.splits)
  have pre: "prefix (code_bits c l) (code_bits c' l')" using assms(3) e by simp
  note s = prefix_code_start [OF pre r(2) r'(2) r'(1)]
  have "l = l'"
  proof (rule ccontr)
    assume "l \<noteq> l'"
    then have "hi \<le> lo' \<or> hi' \<le> lo"
      using sorted_wrt_cases [OF code_ranges_sorted map_of_SomeD [OF r(3)] map_of_SomeD [OF r'(3)]]
      by auto
    moreover have "(0 :: int) < 2 ^ (30 - l')" by simp
    ultimately show False using s r(4,5) r'(4,5) by linarith
  qed
  with prefix_code_div [OF pre r(2) r'(2)] have "uint c = uint c'" by simp
  with \<open>l = l'\<close> e show ?thesis by (simp add: word_uint_eq_iff)
qed

text \<open>The only repeated entry is the sixth.\<close>

lemma static_huffman_repeat:
  assumes "static_huffman ! j = static_huffman ! i" "i < j" "j < 257"
  shows "i = 5"
proof -
  let ?g = "\<lambda>k. if k < 6 then k else k - 1"
  have g: "static_huffman ! k = huffman_once ! ?g k" if "k < 257" for k
  proof (cases "k = 6")
    case True
    then show ?thesis by (simp add: huffman_once_def static_huffman_6 nth_append length_static_huffman)
  next
    case False
    then show ?thesis using that
      by (auto simp: huffman_once_def nth_append length_static_huffman)
  qed
  have "distinct huffman_once" using huffman_starts_distinct by (simp only: distinct_map)
  moreover have "length huffman_once = 256" by (simp add: huffman_once_def length_static_huffman)
  ultimately have "?g j = ?g i"
    using assms g [of i] g [of j] by (simp add: nth_eq_iff_index_eq split: if_splits)
  with assms(2) show ?thesis by (auto split: if_splits)
qed

lemma u8_eq_5_iff: "unat (v :: u8) = 5 \<longleftrightarrow> v = 5"
  using unsigned_word_eqI [of v 5, where 'a = nat] by auto

lemma huffman_symbol_leaf:
  obtains q where "descend (symbol_bits v) huffman_root = Some q" "symbol_bits v \<noteq> []" "is_leaf q"
    "node_symbol q = (if v = 5 then 6 else int (unat v))"
proof -
  let ?i = "if v = 5 then 6 else unat v"
  let ?e = "static_huffman ! ?i"
  have "unat v < 257" using unat_u8_less [of v] by linarith
  then have i: "?i < 257" by simp
  have e: "symbol_bits v = entry_bits ?e"
    using u8_eq_5_iff [of v] by (auto simp: symbol_bits_def static_huffman_6 case_prod_beta)
  have mem: "?e \<in> set static_huffman" using i by (intro nth_mem) (simp add: length_static_huffman)
  then have "0 < snd ?e" using static_huffman_wf by (auto simp: list_all_iff case_prod_beta)
  then have ne: "symbol_bits v \<noteq> []" unfolding e by (metis length_code_bits length_0_conv less_irrefl)
  have root: "huffman_root = huffman_tree_loop 0 static_huffman new_node"
    by (simp add: huffman_root_def created_huffman_tree_def)
  have there: "sub (symbol_bits v) huffman_root \<noteq> Nullptr"
    unfolding root sub_tree_loop e using mem by blast
  have "sub (symbol_bits v @ [b]) huffman_root = Nullptr" for b
  proof (rule ccontr)
    assume "sub (symbol_bits v @ [b]) huffman_root \<noteq> Nullptr"
    moreover have "sub (symbol_bits v @ [b]) new_node = Nullptr"
      using ne by (cases "symbol_bits v") (auto simp: new_node_def)
    ultimately obtain e' where e': "e' \<in> set static_huffman" "prefix (symbol_bits v @ [b]) (entry_bits e')"
      unfolding root sub_tree_loop by blast
    then have "prefix (entry_bits ?e) (entry_bits e')"
      unfolding e [symmetric] by (auto simp: prefix_def)
    with mem e'(1) have "e' = ?e" using static_huffman_prefix_free by blast
    with e'(2) show False unfolding e by (auto simp: prefix_def)
  qed
  then have "is_leaf (sub (symbol_bits v) huffman_root)" using is_leaf_sub there by blast
  moreover have "\<forall>j. ?i < j \<and> j < length static_huffman \<longrightarrow> entry_bits (static_huffman ! j) \<noteq> entry_bits ?e"
  proof (intro allI impI notI)
    fix j assume j: "?i < j \<and> j < length static_huffman" and eq: "entry_bits (static_huffman ! j) = entry_bits ?e"
    then have "static_huffman ! j = ?e"
      using static_huffman_prefix_free [OF _ mem, of "static_huffman ! j"] by simp
    with j have "?i = 5" using static_huffman_repeat by (simp add: length_static_huffman)
    then show False using u8_eq_5_iff [of v] by (auto split: if_splits)
  qed
  then have "node_symbol (sub (symbol_bits v) huffman_root) = int ?i"
    using tree_loop_symbol [of ?i static_huffman 0 new_node] i
    unfolding root e by (simp add: length_static_huffman)
  ultimately show thesis using that [OF descend_sub [OF there] ne] by (simp split: if_splits)
qed

lemma get_huffman_bits_symbol:
  "get_huffman_bits huffman_root huffman_root (symbol_bits v @ rest) vs =
   get_huffman_bits huffman_root huffman_root rest (vs @ [if v = 5 then CHR 0x06 else chr_of v])"
proof -
  obtain q where q: "descend (symbol_bits v) huffman_root = Some q" "symbol_bits v \<noteq> []" "is_leaf q"
    "node_symbol q = (if v = 5 then 6 else int (unat v))"
    by (rule huffman_symbol_leaf)
  have "node_symbol q \<noteq> 256" 
  proof
    assume "node_symbol q = 256"
    with q(4) have "int (unat v) = 256" by (cases "v = 5") simp_all
    with unat_u8_less [of v] show False by linarith
  qed
  moreover have "char_of (node_symbol q) = (if v = 5 then CHR 0x06 else chr_of v)"
  proof (cases "v = 5")
    case True
    then show ?thesis unfolding q(4) by (simp add: char_of_def)
  next
    case False
    then show ?thesis unfolding q(4) by (simp only: if_False char_of_nat chr_of_def)
  qed
  ultimately show ?thesis
    using get_huffman_bits_leaf [OF q(1-3), of huffman_root rest vs] by metis
qed

lemma get_huffman_bits_string:
  "get_huffman_bits huffman_root huffman_root (concat (map symbol_bits s) @ rest) vs =
   get_huffman_bits huffman_root huffman_root rest
     (vs @ map (\<lambda>v. if v = 5 then CHR 0x06 else chr_of v) s)"
  by (induction s arbitrary: vs) (auto simp: get_huffman_bits_symbol)

text \<open>Ones alone never complete a code below 8 bits: they are a prefix of the end of string.\<close>

lemma get_huffman_bits_padding:
  assumes "k < 8"
  shows "get_huffman_bits huffman_root huffman_root (replicate k True) vs = Some vs"
proof -
  have root: "huffman_root = huffman_tree_loop 0 static_huffman new_node"
    by (simp add: huffman_root_def created_huffman_tree_def)
  have eos: "static_huffman ! 256 = (0x3fffffff, 30)" by (simp add: static_huffman_def)
  then have mem: "(0x3fffffff, 30) \<in> set static_huffman"
    using nth_mem [of 256 static_huffman] by (simp add: length_static_huffman)
  have "code_bits 0x3fffffff 30 = replicate 30 True" by code_simp
  moreover have "replicate 30 True = replicate (Suc k) True @ replicate (29 - k) True"
    using assms by (simp only: replicate_add [symmetric]) simp
  ultimately have "prefix (replicate (Suc k) True) (entry_bits (0x3fffffff, 30))"
    unfolding prefix_def fst_conv snd_conv by metis
  then have "sub (replicate (Suc k) True) huffman_root \<noteq> Nullptr"
    unfolding root sub_tree_loop using mem by blast
  then have "sub (replicate k True @ [True]) huffman_root \<noteq> Nullptr"
    by (simp add: replicate_append_same)
  then have "sub [True] (sub (replicate k True) huffman_root) \<noteq> Nullptr"
    by (simp only: sub_append) simp
  then have "sub (replicate k True) huffman_root \<noteq> Nullptr \<and>
      \<not> is_leaf (sub (replicate k True) huffman_root)"
    by (cases "sub (replicate k True) huffman_root" rule: is_leaf.cases) auto
  then show ?thesis using descend_sub get_huffman_bits_inner by blast
qed

lemma get_huffman_string_add:
  assumes "add_huffman_string s = Some out"
  shows "get_huffman_string out = Some (map (\<lambda>v. if v = 5 then CHR 0x06 else chr_of v) s)"
proof -
  obtain k where k: "k < 8" "concat (map byte_bits out) = concat (map symbol_bits s) @ replicate k True"
    using add_huffman_string_bits [of s] assms by auto
  show ?thesis
    unfolding get_huffman_string_def k(2) get_huffman_bits_string get_huffman_bits_padding [OF k(1)]
    by simp
qed

text \<open>
  C20: Huffman coding gives back every byte of a string but the byte 5, which becomes 6: for any string
  the encoder never reads its masks out of range, writes exactly the bytes that \<open>huffman_string_size\<close>
  announces, and decoding them, the padding of the last byte included, gives this string.
\<close>

theorem huffman_roundtrip:
  "\<exists>out. add_huffman_string s = Some out \<and> length out = huffman_string_size s \<and>
     get_huffman_string out = Some (map (\<lambda>v. if v = 5 then CHR 0x06 else chr_of v) s)"
proof -
  obtain out where "add_huffman_string s = Some out" "length out = huffman_string_size s"
    using add_huffman_length by blast
  then show ?thesis using get_huffman_string_add by blast
qed

text \<open>The byte 5 is decoded as 6: the table has the same code for both.\<close>

lemma huffman_symbol_5:
  "add_huffman_string [5] = Some out \<Longrightarrow> get_huffman_string out = Some [CHR 0x06]"
  using get_huffman_string_add [of "[5]" out] by simp

end
