(* ===== verification/Hpack.thy ===== *)
theory Hpack
  imports Huffman Http11
begin

text \<open>
  httpparser/include/hpack.hh: the header tables of HPACK with their two lookup maps, the integer
  coding, and the coding of header strings.  The locale \<open>header_table\<close> states what the coders of
  header fields rely on.
\<close>

type_synonym header_entry = "FIELD \<times> string"

subsection \<open>What a header table promises\<close>

text \<open>
  The interface the encoder and the decoder of header fields use: an index found for a line or for
  a field designates an entry that has that line or that field.
\<close>

locale header_table =
  fixes wf :: "'t \<Rightarrow> bool"
    and at :: "'t \<Rightarrow> nat \<Rightarrow> header_entry"
    and find_line :: "'t \<Rightarrow> header_entry \<Rightarrow> nat option"
    and find_field :: "'t \<Rightarrow> FIELD \<Rightarrow> nat option"
    and extent :: "'t \<Rightarrow> nat"
  assumes line_found: "wf t \<Longrightarrow> find_line t l = Some i \<Longrightarrow> i < extent t \<and> at t i = l"
    and field_found: "wf t \<Longrightarrow> find_field t f = Some i \<Longrightarrow> i < extent t \<and> fst (at t i) = f"
begin

text \<open>Two lines found at the same index are the same line.\<close>

lemma line_index_inj: "wf t \<Longrightarrow> find_line t l = Some i \<Longrightarrow> find_line t l' = Some i \<Longrightarrow> l = l'"
  using line_found by metis

text \<open>A line and a field found at the same index agree on the field.\<close>

lemma line_field_agree: "wf t \<Longrightarrow> find_line t l = Some i \<Longrightarrow> find_field t f = Some i \<Longrightarrow> fst l = f"
  using line_found field_found by metis

end

subsection \<open>map_table_t\<close>

text \<open>
  The two \<open>unordered_map\<close>s are partial functions; inserting a key that is present changes nothing.
\<close>

record map_table =
  mt_entries :: "header_entry list"
  mt_value_map :: "header_entry \<rightharpoonup> nat"
  mt_entry_map :: "FIELD \<rightharpoonup> nat \<times> nat"

definition map_insert :: "('k \<rightharpoonup> 'v) \<Rightarrow> 'k \<Rightarrow> 'v \<Rightarrow> 'k \<rightharpoonup> 'v" where
  "map_insert m k v = (if m k = None then m(k \<mapsto> v) else m)"

definition empty_map_table :: map_table where
  "empty_map_table = \<lparr>mt_entries = [], mt_value_map = Map.empty, mt_entry_map = Map.empty\<rparr>"

definition mt_size :: "map_table \<Rightarrow> nat" where
  "mt_size t = length (mt_entries t)"

text \<open>The three subscript operators; the index \<open>-1\<close> of a missing key is \<open>None\<close>.\<close>

definition mt_at :: "map_table \<Rightarrow> nat \<Rightarrow> header_entry" where
  "mt_at t index =
     (if length (mt_entries t) \<le> index then (Last IGNORE_THIS, []) else mt_entries t ! index)"

definition mt_find_line :: "map_table \<Rightarrow> header_entry \<Rightarrow> nat option" where
  "mt_find_line t header_line = mt_value_map t header_line"

definition mt_find_field :: "map_table \<Rightarrow> FIELD \<Rightarrow> nat option" where
  "mt_find_field t field = map_option fst (mt_entry_map t field)"

definition mt_contains_line :: "map_table \<Rightarrow> header_entry \<Rightarrow> bool" where
  "mt_contains_line t entry \<longleftrightarrow> mt_value_map t entry \<noteq> None"

definition mt_contains_field :: "map_table \<Rightarrow> FIELD \<Rightarrow> bool" where
  "mt_contains_field t field \<longleftrightarrow> mt_entry_map t field \<noteq> None"

definition mt_push_back :: "header_entry \<Rightarrow> map_table \<Rightarrow> map_table" where
  "mt_push_back entry t =
     (let entries = mt_entries t @ [entry];
          index = length entries - 1;
          value_map = (if snd entry \<noteq> [] then map_insert (mt_value_map t) entry index else mt_value_map t);
          entry_map = (case mt_entry_map t (fst entry) of
             None \<Rightarrow> map_insert (mt_entry_map t) (fst entry) (index, 1)
           | Some (first, count) \<Rightarrow> (mt_entry_map t)(fst entry \<mapsto> (first, count + 1)))
      in \<lparr>mt_entries = entries, mt_value_map = value_map, mt_entry_map = entry_map\<rparr>)"

text \<open>
  \<open>None\<close> for an empty table, and for a field the entry map has lost (an exception in debug builds,
  undefined otherwise).
\<close>

definition mt_pop_back :: "map_table \<Rightarrow> map_table option" where
  "mt_pop_back t =
     (if mt_entries t = [] then None
      else
        let entry = last (mt_entries t);
            value_map = (if snd entry \<noteq> [] then (mt_value_map t)(entry := None) else mt_value_map t)
        in (case mt_entry_map t (fst entry) of
              None \<Rightarrow> None
            | Some (first, count) \<Rightarrow>
                Some \<lparr>mt_entries = butlast (mt_entries t), mt_value_map = value_map,
                      mt_entry_map =
                        (if count = 1 then (mt_entry_map t)(fst entry := None)
                         else (mt_entry_map t)(fst entry \<mapsto> (first, count - 1)))\<rparr>))"

definition mt_clear :: "map_table \<Rightarrow> map_table" where
  "mt_clear t = empty_map_table"

text \<open>The constructor from an initializer list.\<close>

definition mt_of_list :: "header_entry list \<Rightarrow> map_table" where
  "mt_of_list entries = foldl (\<lambda>t entry. mt_push_back entry t) empty_map_table entries"

subsection \<open>dynamic_table_t\<close>

record dynamic_table =
  dt_table :: map_table
  dt_max_size :: nat

definition new_dynamic_table :: "nat \<Rightarrow> dynamic_table" where
  "new_dynamic_table max_size = \<lparr>dt_table = empty_map_table, dt_max_size = max_size\<rparr>"

lemma mt_pop_back_size: "mt_pop_back t = Some t' \<Longrightarrow> mt_size t' < mt_size t"
  by (auto simp: mt_pop_back_def mt_size_def Let_def split: if_splits option.splits)

function trim_table :: "nat \<Rightarrow> map_table \<Rightarrow> map_table option" where
  "trim_table new_size t =
     (if new_size < mt_size t then
        (case mt_pop_back t of None \<Rightarrow> None | Some t' \<Rightarrow> trim_table new_size t')
      else Some t)"
  by pat_completeness auto
termination
  by (relation "measure (\<lambda>(n, t). mt_size t)") (auto dest: mt_pop_back_size)

declare trim_table.simps [simp del]

definition dt_update_size :: "nat \<Rightarrow> dynamic_table \<Rightarrow> dynamic_table option" where
  "dt_update_size new_size d =
     (if dt_max_size d = new_size then Some d
      else do { t \<leftarrow> trim_table new_size (dt_table d);
                Some \<lparr>dt_table = t, dt_max_size = new_size\<rparr> })"

definition dt_insert :: "header_entry \<Rightarrow> dynamic_table \<Rightarrow> dynamic_table" where
  "dt_insert entry d =
     (let t = (if dt_max_size d \<le> mt_size (dt_table d) then mt_clear (dt_table d) else dt_table d)
      in d\<lparr>dt_table := mt_push_back entry t\<rparr>)"

subsection \<open>static_table_t\<close>

definition static_table_list :: "header_entry list" where
  "static_table_list =
    [(Last IGNORE_THIS, []), (Pseudo Authority, []),
     (Pseudo Method, ''GET''), (Pseudo Method, ''POST''),
     (Pseudo Path, ''/''), (Pseudo Path, ''/index.html''),
     (Pseudo Scheme, ''http''), (Pseudo Scheme, ''https''),
     (Pseudo Status, ''200''), (Pseudo Status, ''204''),
     (Pseudo Status, ''206''), (Pseudo Status, ''304''),
     (Pseudo Status, ''400''), (Pseudo Status, ''404''),
     (Pseudo Status, ''500''), (Request Accept_Charset, []),
     (Request Accept_Encoding, ''gzip, deflate''), (Request Accept_Language, []),
     (Response Accept_Ranges, []), (Request Accept, []),
     (Provisional Access_Control_Allow_Origin, []), (Response Age, []),
     (Response Allow, []), (Request Authorization, []),
     (General Cache_Control, []), (Other1 Content_Disposition, []),
     (Response Content_Encoding, []), (Response Content_Language, []),
     (Response Content_Length, []), (Response Content_Location, []),
     (Response Content_Range, []), (Response Content_Type, []),
     (Other1 Cookie, []), (General Date, []),
     (Response ETag, []), (Request Expect, []),
     (Response Expires, []), (Request From, []),
     (Request Host, []), (Request If_Match, []),
     (Request If_Modified_Since, []), (Request If_None_Match, []),
     (Request If_Range, []), (Request If_Unmodified_Since, []),
     (Response Last_Modified, []), (Other2 Link, []),
     (Response Location, []), (Request Max_Forwards, []),
     (Response Proxy_Authenticate, []), (Request Proxy_Authorization, []),
     (Request Range, []), (Request Referer, []),
     (Last Refresh, []), (Response Retry_After, []),
     (Response Server, []), (Other3 Set_Cookie, []),
     (Other3 Strict_Transport_Security, []), (General Transfer_Encoding, []),
     (Request User_Agent, []), (Response Vary, []),
     (General Via, []), (Response WWW_Authenticate, [])]"

definition static_table :: map_table where
  "static_table = mt_of_list static_table_list"

subsection \<open>Integers\<close>

definition int_mask :: "nat \<Rightarrow> u32" where
  "int_mask N = push_bit N 1 - 1"

text \<open>The buffer runs from \<open>pstart\<close> to \<open>pend\<close>; the result is the value and what is left.\<close>

fun decode_integer_loop :: "u32 \<Rightarrow> u8 list \<Rightarrow> u32 \<times> u8 list" where
  "decode_integer_loop v [] = (v, [])"
| "decode_integer_loop v (b # bs) =
     (if b AND 0x80 \<noteq> 0 then decode_integer_loop (ucast (b AND 0x7f)) bs else (ucast b, bs))"

definition decode_integer :: "nat \<Rightarrow> u8 list \<Rightarrow> (u32 \<times> u8 list) option" where
  "decode_integer N buffer =
     (case buffer of
        [] \<Rightarrow> None
      | b # bs \<Rightarrow>
          let v = ucast b AND int_mask N in
          if v < int_mask N then Some (v, bs) else Some (decode_integer_loop (int_mask N) bs))"

function encode_integer_loop :: "u32 \<Rightarrow> u8 list" where
  "encode_integer_loop v =
     (if 128 \<le> v then ucast (0x80 AND v mod 128) # encode_integer_loop (drop_bit 7 v)
      else [ucast v])"
  by pat_completeness auto
termination
proof (relation "measure unat")
  fix v :: u32
  assume "128 \<le> v"
  then have "128 \<le> unat v" by (simp add: word_le_nat_alt)
  then have "unat v div 2 ^ 7 < unat v" by (intro div_less_dividend) auto
  then show "(drop_bit 7 v, v) \<in> measure unat"
    by (simp add: drop_bit_eq_div unat_div_distrib)
qed simp

declare encode_integer_loop.simps [simp del]

definition encode_integer :: "nat \<Rightarrow> u8 \<Rightarrow> u32 \<Rightarrow> u8 list" where
  "encode_integer N head v =
     (if v < int_mask N then [head + ucast v]
      else (head + ucast (int_mask N)) # encode_integer_loop (v - int_mask N))"

subsection \<open>Header strings\<close>

text \<open>\<open>pstart\<close> is the head of the buffer; reading past it is \<open>None\<close>.\<close>

definition get_header_string :: "u8 list \<Rightarrow> (string \<times> u8 list) option" where
  "get_header_string buffer =
     (case buffer of
        [] \<Rightarrow> None
      | b # bs \<Rightarrow>
          let len = unat (b AND 0x7f) in
          if b AND 0x80 = 0x80 then
            do { text \<leftarrow> subrange bs 0 len;
                 s \<leftarrow> get_huffman_string text;
                 Some (s, drop len bs) }
          else
            do { text \<leftarrow> subrange bs 0 len;
                 Some (chars_of text, drop len bs) })"

text \<open>
  A trailing NUL is left out of the Huffman code.  \<open>back\<close> of the empty string is undefined.
\<close>

definition add_header_string :: "string \<Rightarrow> u8 list option" where
  "add_header_string text =
     (if text = [] then None
      else
        let coded = bytes_of (if last text = NUL then butlast text else text);
            sz = huffman_string_size coded in
        if sz < length text then
          do { out \<leftarrow> add_huffman_string coded;
               Some (encode_integer 7 0x80 (word_of_nat sz) @ out) }
        else Some (encode_integer 7 0x80 (word_of_nat (length text)) @ bytes_of text))"

definition get_header_field :: "u8 list \<Rightarrow> (FIELD \<times> u8 list) option" where
  "get_header_field buffer =
     do { (header_string, rest) \<leftarrow> get_header_string buffer;
          Some (case field_map header_string of None \<Rightarrow> Last IGNORE_THIS | Some f \<Rightarrow> f, rest) }"

definition get_header_method :: "string \<Rightarrow> METHOD" where
  "get_header_method method_name =
     (case method_map method_name of None \<Rightarrow> METHOD_IGNORE_THIS | Some m \<Rightarrow> m)"

subsection \<open>The invariant of a table\<close>

definition field_count :: "FIELD \<Rightarrow> header_entry list \<Rightarrow> nat" where
  "field_count f es = length (filter (\<lambda>e. fst e = f) es)"

definition first_index :: "FIELD \<Rightarrow> header_entry list \<Rightarrow> nat" where
  "first_index f es = length (takeWhile (\<lambda>e. fst e \<noteq> f) es)"

text \<open>What the entry map holds for a list of entries: first position and number of occurrences.\<close>

definition entry_index :: "header_entry list \<Rightarrow> FIELD \<rightharpoonup> nat \<times> nat" where
  "entry_index es f = (if field_count f es = 0 then None else Some (first_index f es, field_count f es))"

definition mt_inv :: "map_table \<Rightarrow> bool" where
  "mt_inv t \<longleftrightarrow>
     mt_entry_map t = entry_index (mt_entries t) \<and>
     (\<forall>l i. mt_value_map t l = Some i \<longrightarrow>
        i < length (mt_entries t) \<and> mt_entries t ! i = l \<and> snd l \<noteq> [])"

lemma mt_invI:
  "mt_entry_map t = entry_index (mt_entries t) \<Longrightarrow>
   (\<And>l i. mt_value_map t l = Some i \<Longrightarrow>
      i < length (mt_entries t) \<and> mt_entries t ! i = l \<and> snd l \<noteq> []) \<Longrightarrow> mt_inv t"
  unfolding mt_inv_def by blast

lemma mt_inv_valueD:
  "mt_inv t \<Longrightarrow> mt_value_map t l = Some i \<Longrightarrow>
   i < length (mt_entries t) \<and> mt_entries t ! i = l \<and> snd l \<noteq> []"
  unfolding mt_inv_def by blast

lemma mt_inv_entryD: "mt_inv t \<Longrightarrow> mt_entry_map t = entry_index (mt_entries t)"
  unfolding mt_inv_def by blast

lemma field_count_0_iff: "field_count f es = 0 \<longleftrightarrow> f \<notin> fst ` set es"
  by (auto simp: field_count_def filter_empty_conv)

lemma first_index_less: "f \<in> fst ` set es \<Longrightarrow> first_index f es < length es \<and> fst (es ! first_index f es) = f"
  unfolding first_index_def by (induction es) auto

lemma entry_index_snoc:
  "entry_index (es @ [e]) =
   (case entry_index es (fst e) of
      None \<Rightarrow> (entry_index es)(fst e \<mapsto> (length es, 1))
    | Some (i, c) \<Rightarrow> (entry_index es)(fst e \<mapsto> (i, c + 1)))"
proof (rule ext)
  fix f
  have first: "first_index f (es @ [e]) = first_index f es" if "f \<in> fst ` set es"
    using that by (auto simp: first_index_def takeWhile_append1)
  have "takeWhile (\<lambda>x. fst x \<noteq> fst e) (es @ [e]) = es" if "fst e \<notin> fst ` set es"
    using that by (subst takeWhile_append2) (auto simp: image_iff)
  then show "entry_index (es @ [e]) f =
      (case entry_index es (fst e) of
         None \<Rightarrow> (entry_index es)(fst e \<mapsto> (length es, 1))
       | Some (i, c) \<Rightarrow> (entry_index es)(fst e \<mapsto> (i, c + 1))) f"
    using first
    by (cases "fst e = f") (auto simp: entry_index_def field_count_0_iff first_index_def field_count_def
        filter_empty_conv split: option.splits)
qed

lemma mt_inv_empty [simp]: "mt_inv empty_map_table"
  by (auto simp: mt_inv_def empty_map_table_def entry_index_def field_count_def)

lemma mt_inv_push_back:
  assumes "mt_inv t"
  shows "mt_inv (mt_push_back e t)"
proof -
  have "mt_entry_map (mt_push_back e t) = entry_index (mt_entries t @ [e])"
    using assms unfolding entry_index_snoc
    by (auto simp: mt_push_back_def mt_inv_def Let_def map_insert_def split: option.splits)
  moreover have "mt_entries (mt_push_back e t) = mt_entries t @ [e]"
    by (simp add: mt_push_back_def Let_def)
  moreover have "i < Suc (length (mt_entries t)) \<and> (mt_entries t @ [e]) ! i = l \<and> snd l \<noteq> []"
    if "mt_value_map (mt_push_back e t) l = Some i" for l i
  proof (cases "mt_value_map t l")
    case None
    with that show ?thesis
      by (auto simp: mt_push_back_def Let_def map_insert_def split: if_splits)
  next
    case (Some j)
    with that have "i = j"
      by (auto simp: mt_push_back_def Let_def map_insert_def split: if_splits)
    with mt_inv_valueD [OF assms Some] show ?thesis by (simp add: nth_append)
  qed
  ultimately show ?thesis by (intro mt_invI) (simp_all only: length_append_singleton simp_thms)
qed

lemma mt_inv_pop_back:
  assumes "mt_inv t" "mt_entries t \<noteq> []"
  obtains t' where "mt_pop_back t = Some t'" "mt_inv t'" "mt_entries t' = butlast (mt_entries t)"
proof -
  obtain es e where es: "mt_entries t = es @ [e]" using assms(2) by (cases "mt_entries t" rule: rev_cases) auto
  have idx: "mt_entry_map t = entry_index (es @ [e])" using assms(1) es by (simp add: mt_inv_def)
  obtain i c where ic: "mt_entry_map t (fst e) = Some (i, c)" "c = field_count (fst e) es + 1"
    unfolding idx entry_index_def by (auto simp: field_count_def)
  let ?t = "\<lparr>mt_entries = es,
      mt_value_map = (if snd e \<noteq> [] then (mt_value_map t)(e := None) else mt_value_map t),
      mt_entry_map = (if c = 1 then (mt_entry_map t)(fst e := None) else (mt_entry_map t)(fst e \<mapsto> (i, c - 1)))\<rparr>"
  have pop: "mt_pop_back t = Some ?t"
    using ic es by (simp add: mt_pop_back_def Let_def)
  have "mt_entry_map ?t = entry_index es"
  proof (cases "entry_index es (fst e)")
    case None
    then have "field_count (fst e) es = 0" by (auto simp: entry_index_def split: if_splits)
    with None ic idx show ?thesis by (auto simp: entry_index_snoc)
  next
    case (Some p)
    then have "field_count (fst e) es \<noteq> 0" "p = (first_index (fst e) es, field_count (fst e) es)"
      by (auto simp: entry_index_def split: if_splits)
    with Some ic idx show ?thesis by (auto simp: entry_index_snoc)
  qed
  moreover have "j < length es \<and> es ! j = l \<and> snd l \<noteq> []" if "mt_value_map ?t l = Some j" for l j
  proof -
    have v: "mt_value_map t l = Some j" "snd e \<noteq> [] \<Longrightarrow> l \<noteq> e" using that by (auto split: if_splits)
    with mt_inv_valueD [OF assms(1) v(1)] es have "j < Suc (length es)" "(es @ [e]) ! j = l" "snd l \<noteq> []"
      by auto
    with v(2) show ?thesis by (auto simp: nth_append less_Suc_eq split: if_splits)
  qed
  ultimately have "mt_inv ?t" by (intro mt_invI) (simp_all only: map_table.simps simp_thms)
  with pop es that [of ?t] show thesis by (simp only: map_table.simps butlast_snoc)
qed

lemma mt_inv_line_found:
  "mt_inv t \<Longrightarrow> mt_find_line t l = Some i \<Longrightarrow> i < mt_size t \<and> mt_at t i = l"
  using mt_inv_valueD [of t l i] by (simp add: mt_find_line_def mt_size_def mt_at_def)

lemma mt_inv_field_found:
  assumes "mt_inv t" "mt_find_field t f = Some i"
  shows "i < mt_size t \<and> fst (mt_at t i) = f"
proof -
  have "f \<in> fst ` set (mt_entries t)" "i = first_index f (mt_entries t)"
    using assms(2) mt_inv_entryD [OF assms(1)]
    by (auto simp: mt_find_field_def entry_index_def field_count_0_iff split: if_splits)
  then show ?thesis using first_index_less [of f "mt_entries t"] by (simp add: mt_size_def mt_at_def)
qed

interpretation mt: header_table mt_inv mt_at mt_find_line mt_find_field mt_size
  by unfold_locales (auto dest: mt_inv_line_found mt_inv_field_found)

subsection \<open>Dynamic tables over their lifetime\<close>

text \<open>The states a dynamic table can reach from its construction with a given size limit.\<close>

inductive dt_reachable :: "dynamic_table \<Rightarrow> bool" where
  dt_new: "dt_reachable (new_dynamic_table n)"
| dt_ins: "dt_reachable d \<Longrightarrow> dt_reachable (dt_insert e d)"
| dt_upd: "dt_reachable d \<Longrightarrow> dt_update_size n d = Some d' \<Longrightarrow> dt_reachable d'"

inductive_cases dt_reachableE: "dt_reachable d"

lemma mt_entries_push_back [simp]: "mt_entries (mt_push_back e t) = mt_entries t @ [e]"
  by (simp add: mt_push_back_def Let_def)

lemma trim_table_inv:
  "mt_inv t \<Longrightarrow> \<exists>t'. trim_table n t = Some t' \<and> mt_inv t' \<and> mt_size t' = min n (mt_size t) \<and>
     mt_entries t' = take n (mt_entries t)"
proof (induction n t rule: trim_table.induct)
  case (1 n t)
  show ?case
  proof (cases "n < mt_size t")
    case True
    then have "mt_entries t \<noteq> []" by (auto simp: mt_size_def)
    with "1.prems" obtain t1 where t1: "mt_pop_back t = Some t1" "mt_inv t1"
      "mt_entries t1 = butlast (mt_entries t)" by (rule mt_inv_pop_back)
    then have s: "mt_size t1 = mt_size t - 1" by (simp add: mt_size_def)
    from "1.IH" [OF True t1(1,2)] obtain t' where
      "trim_table n t1 = Some t'" "mt_inv t'" "mt_size t' = min n (mt_size t1)"
      "mt_entries t' = take n (mt_entries t1)" by blast
    then show ?thesis using True t1 s
      by (auto simp: trim_table.simps [of n t] take_butlast mt_size_def)
  next
    case False
    with "1.prems" show ?thesis by (auto simp: trim_table.simps [of n t] mt_size_def)
  qed
qed

text \<open>
  C40: every table reached by insertions and size updates satisfies the table invariant and holds
  at most its limit of entries (one at least, since an insertion into a table of size 0 keeps its
  entry); a size update always succeeds and keeps the oldest entries, and whatever a lookup of a
  line or of a field finds designates an entry with that line or that field.
\<close>

theorem dynamic_table_reachable:
  assumes "dt_reachable d"
  shows "mt_inv (dt_table d) \<and> mt_size (dt_table d) \<le> max 1 (dt_max_size d) \<and>
    (\<exists>d'. dt_update_size n d = Some d' \<and> (dt_max_size d \<noteq> n \<longrightarrow>
       mt_entries (dt_table d') = take n (mt_entries (dt_table d)))) \<and>
    (\<forall>l i. mt_find_line (dt_table d) l = Some i \<longrightarrow> mt_at (dt_table d) i = l) \<and>
    (\<forall>f i. mt_find_field (dt_table d) f = Some i \<longrightarrow> fst (mt_at (dt_table d) i) = f)"
proof -
  have inv: "mt_inv (dt_table d) \<and> mt_size (dt_table d) \<le> max 1 (dt_max_size d)"
    using assms
  proof (induction rule: dt_reachable.induct)
    case (dt_new n)
    then show ?case by (simp add: new_dynamic_table_def) (simp add: empty_map_table_def mt_size_def)
  next
    case (dt_ins d e)
    then show ?case
      by (auto simp: dt_insert_def Let_def mt_clear_def mt_inv_push_back) (auto simp: mt_size_def empty_map_table_def)
  next
    case (dt_upd d n d')
    obtain t where t: "trim_table n (dt_table d) = Some t" "mt_inv t" "mt_size t \<le> n"
      using trim_table_inv [of "dt_table d" n] dt_upd.IH by auto
    with dt_upd show ?case by (auto simp: dt_update_size_def split: if_splits)
  qed
  obtain t where "trim_table n (dt_table d) = Some t" "mt_entries t = take n (mt_entries (dt_table d))"
    using trim_table_inv [of "dt_table d" n] inv by auto
  then have "\<exists>d'. dt_update_size n d = Some d' \<and> (dt_max_size d \<noteq> n \<longrightarrow>
      mt_entries (dt_table d') = take n (mt_entries (dt_table d)))"
    by (auto simp: dt_update_size_def)
  then show ?thesis using inv mt.line_found mt.field_found by blast
qed

theorem dynamic_table_reachable_witness:
  "mt_inv (dt_table (dt_insert (Other1 Cookie, ''a'') (new_dynamic_table 12))) \<and>
   mt_size (dt_table (dt_insert (Other1 Cookie, ''a'') (new_dynamic_table 12))) \<le> 12"
proof -
  have "dt_reachable (dt_insert (Other1 Cookie, ''a'') (new_dynamic_table 12))"
    by (intro dt_reachable.intros)
  from dynamic_table_reachable [OF this, of 0] show ?thesis
    by (simp add: dt_insert_def new_dynamic_table_def Let_def)
qed

text \<open>
  Removing the last entry also forgets an equal earlier one: the line is then in the table but no
  longer found.
\<close>

lemma pop_back_forgets:
  "map_option (\<lambda>t. (mt_entries t, mt_find_line t (Other1 Cookie, ''a'')))
     (mt_pop_back (mt_of_list [(Other1 Cookie, ''a''), (Other1 Cookie, ''a'')])) =
   Some ([(Other1 Cookie, ''a'')], None)"
  by (simp add: mt_of_list_def mt_push_back_def empty_map_table_def map_insert_def Let_def
      mt_pop_back_def mt_find_line_def)

subsection \<open>The static table\<close>

lemma foldl_push_back_inv:
  "mt_inv t \<Longrightarrow> mt_inv (foldl (\<lambda>t e. mt_push_back e t) t es) \<and>
     mt_entries (foldl (\<lambda>t e. mt_push_back e t) t es) = mt_entries t @ es"
  by (induction es arbitrary: t) (auto simp: mt_inv_push_back)

lemma mt_inv_of_list: "mt_inv (mt_of_list es)" and mt_entries_of_list: "mt_entries (mt_of_list es) = es"
  using foldl_push_back_inv [OF mt_inv_empty, of es]
  by (simp_all add: mt_of_list_def empty_map_table_def)

text \<open>A table that only grew finds every line that has a value.\<close>

lemma foldl_push_back_complete:
  "(\<forall>l \<in> set es'. snd l \<noteq> [] \<longrightarrow> mt_value_map t l \<noteq> None) \<Longrightarrow> l \<in> set (es' @ es) \<Longrightarrow> snd l \<noteq> [] \<Longrightarrow>
   mt_value_map (foldl (\<lambda>t e. mt_push_back e t) t es) l \<noteq> None"
proof (induction es arbitrary: t es')
  case (Cons e es)
  have "\<forall>l \<in> set (es' @ [e]). snd l \<noteq> [] \<longrightarrow> mt_value_map (mt_push_back e t) l \<noteq> None"
    using Cons.prems(1) by (auto simp: mt_push_back_def Let_def map_insert_def)
  from Cons.IH [OF this] Cons.prems show ?case by simp
qed auto

lemma mt_of_list_complete: "l \<in> set es \<Longrightarrow> snd l \<noteq> [] \<Longrightarrow> \<exists>i. mt_find_line (mt_of_list es) l = Some i"
  using foldl_push_back_complete [of "[]" empty_map_table l es]
  by (simp add: mt_of_list_def mt_find_line_def)

lemma static_table_size: "mt_size static_table = 62"
  by (simp add: static_table_def mt_size_def mt_entries_of_list static_table_list_def)

text \<open>
  The static table has 62 entries (index 0 unused); every line of it that has a value is found
  at the index that holds it, and every field of it is found at an index whose entry has that
  field, so the indexed representation of a header always decodes to the header.
\<close>

theorem static_table_lookup:
  "mt_size static_table = 62 \<and>
   (l \<in> set static_table_list \<and> snd l \<noteq> [] \<longrightarrow>
      (\<exists>i < 62. mt_find_line static_table l = Some i \<and> mt_at static_table i = l)) \<and>
   (f \<in> fst ` set static_table_list \<longrightarrow>
      (\<exists>i < 62. mt_find_field static_table f = Some i \<and> fst (mt_at static_table i) = f))"
proof -
  have inv: "mt_inv static_table" by (simp add: static_table_def mt_inv_of_list)
  have "mt_find_field static_table f \<noteq> None" if "f \<in> fst ` set static_table_list"
    using that mt_inv_entryD [OF inv]
    by (auto simp: mt_find_field_def entry_index_def field_count_0_iff static_table_def mt_entries_of_list)
  moreover have "mt_find_line static_table l \<noteq> None" if "l \<in> set static_table_list" "snd l \<noteq> []"
    using mt_of_list_complete [OF that] by (auto simp: static_table_def)
  ultimately show ?thesis
    using mt.line_found [OF inv] mt.field_found [OF inv] static_table_size by (metis not_None_eq)
qed

theorem static_table_lookup_witness:
  "\<exists>i < 62. mt_find_line static_table (Pseudo Method, ''GET'') = Some i \<and>
     mt_at static_table i = (Pseudo Method, ''GET'')"
  using static_table_lookup [of "(Pseudo Method, ''GET'')"] by (simp add: static_table_list_def)

subsection \<open>The integer coding\<close>

lemma bit_int_mask: "N \<le> 8 \<Longrightarrow> bit (int_mask N) n \<longleftrightarrow> n < N"
proof -
  assume "N \<le> 8"
  then have "int_mask N = mask N" by (simp add: int_mask_def mask_eq_exp_minus_1)
  then show ?thesis using \<open>N \<le> 8\<close> by (auto simp: bit_simps)
qed

lemma unat_int_mask: "N \<le> 8 \<Longrightarrow> unat (int_mask N) = 2 ^ N - 1"
proof -
  have "list_all (\<lambda>N. unat (int_mask N) = 2 ^ N - 1) [0..<9]"
    by (simp add: int_mask_def upt_conv_Cons)
  then show "N \<le> 8 \<Longrightarrow> ?thesis" by (rule upt_allD) simp
qed

lemma bit_below: "unat v < 2 ^ k \<Longrightarrow> bit v n \<Longrightarrow> n < k" for v :: "'a::len word"
proof -
  assume v: "unat v < 2 ^ k" "bit v n"
  then have "take_bit k (unat v) = unat v" by (intro take_bit_nat_eq_self)
  moreover have "bit (unat v) n" using v(2) by (simp add: bit_unsigned_iff bit_imp_le_length)
  ultimately show "n < k" by (metis bit_take_bit_iff)
qed

lemma less_int_mask_bits:
  assumes "v < int_mask N" "N \<le> 8" "bit v n"
  shows "n < N"
proof -
  have "unat v < 2 ^ N" using assms(1) unat_int_mask [OF assms(2)] by (simp add: word_less_nat_alt)
  then show ?thesis using assms(3) by (rule bit_below)
qed

lemma head_and_value:
  assumes "N \<le> 8" "ucast head AND int_mask N = 0" "\<And>n. bit v n \<Longrightarrow> n < N"
  shows "ucast (head + ucast v :: u8) AND int_mask N = v"
proof -
  have head: "\<not> bit head n" if "n < N" for n
  proof -
    have "\<not> bit (ucast head AND int_mask N) n" using assms(2) by simp
    then show ?thesis using that assms(1) by (auto simp: bit_simps bit_int_mask dest: bit_imp_le_length)
  qed
  have "head AND ucast v = (0 :: u8)"
    by (intro u8_eqI) (auto simp: bit_simps dest: head assms(3))
  then have "bit (ucast (head + ucast v :: u8) AND int_mask N) n \<longleftrightarrow> bit v n" for n
    using assms(1) head assms(3) [of n]
    by (auto simp: disjoint_add bit_simps bit_int_mask [OF assms(1)] dest: bit_imp_le_length)
  then show ?thesis by (intro bit_word_eqI) simp
qed

lemma decode_integer_encode:
  assumes "1 \<le> N" "N \<le> 8" "ucast head AND int_mask N = 0"
  shows "decode_integer N (encode_integer N head v @ rest) =
    Some (if v < int_mask N then (v, rest)
          else if v - int_mask N < 128 then (v - int_mask N, rest)
          else (0, encode_integer_loop (drop_bit 7 (v - int_mask N)) @ rest))"
proof (cases "v < int_mask N")
  case True
  have "ucast (head + ucast v :: u8) AND int_mask N = v"
    using assms less_int_mask_bits [OF True assms(2)] by (intro head_and_value) auto
  with True show ?thesis by (simp add: encode_integer_def decode_integer_def)
next
  case False
  let ?w = "v - int_mask N"
  have "ucast (head + ucast (int_mask N) :: u8) AND int_mask N = int_mask N"
    using assms bit_int_mask [OF assms(2)] by (intro head_and_value) auto
  then have first: "decode_integer N (encode_integer N head v @ rest) =
      Some (decode_integer_loop (int_mask N) (encode_integer_loop ?w @ rest))"
    using False by (simp add: encode_integer_def decode_integer_def)
  show ?thesis
  proof (cases "?w < 128")
    case True
    then have "unat ?w < 2 ^ 7" by (simp add: word_less_nat_alt)
    then have bits: "n < 7" if "bit ?w n" for n
      using that by (rule bit_below)
    have "(ucast ?w :: u8) AND 0x80 = 0"
      by (rule u8_eqI) (auto simp: bit_simps dest: bits)
    moreover have "(ucast (ucast ?w :: u8) :: u32) = ?w"
      by (rule bit_word_eqI) (auto simp: bit_simps dest: bits)
    moreover have "encode_integer_loop ?w = [ucast ?w]"
      by (subst encode_integer_loop.simps) (rule if_not_P [OF iffD2 [OF not_le True]])
    ultimately show ?thesis using first True False by simp
  next
    case big: False
    have "bit (0x80 AND ?w mod 128 :: u32) n = False" for n
    proof -
      have "?w mod 128 = take_bit 7 ?w" by (simp add: take_bit_eq_mod)
      moreover have "bit (0x80 :: u32) n \<Longrightarrow> n = 7"
      proof -
        have "(0x80 :: u32) = push_bit 7 1" by simp
        then show "bit (0x80 :: u32) n \<Longrightarrow> n = 7" by (simp only: bit_push_bit_iff bit_1_iff) auto
      qed
      ultimately show ?thesis by (auto simp: bit_and_iff bit_take_bit_iff)
    qed
    then have "(0x80 AND ?w mod 128 :: u32) = 0" by (intro bit_word_eqI) simp
    then have "encode_integer_loop ?w = 0 # encode_integer_loop (drop_bit 7 ?w)"
      using big by (simp add: encode_integer_loop.simps [of ?w] not_less)
    then show ?thesis using first big False by simp
  qed
qed

text \<open>
  An integer coded in a prefix of \<open>N\<close> bits is read back, and the rest of the buffer left
  untouched, exactly when it fits the prefix: larger ones lose the prefix part, and from 128 above
  it everything.
\<close>

theorem decode_integer_roundtrip_iff:
  assumes "1 \<le> N" "N \<le> 8" "ucast head AND int_mask N = 0"
  shows "decode_integer N (encode_integer N head v @ rest) = Some (v, rest) \<longleftrightarrow> v < int_mask N"
proof -
  have "int_mask N \<noteq> 0"
  proof
    assume "int_mask N = 0"
    then have "\<not> bit (int_mask N) 0" by simp
    with bit_int_mask [OF assms(2)] assms(1) show False by simp
  qed
  then have "v - int_mask N \<noteq> v" "\<not> v < int_mask N \<Longrightarrow> v \<noteq> 0"
    by (auto simp: word_neq_0_conv)
  then show ?thesis unfolding decode_integer_encode [OF assms] by auto
qed

theorem decode_integer_roundtrip_iff_witness:
  "decode_integer 7 (encode_integer 7 0x80 5 @ [1]) = Some (5, [1]) \<and>
   decode_integer 4 (encode_integer 4 0x10 30 @ []) \<noteq> Some (30, [])"
  using decode_integer_roundtrip_iff [where N = "7" and head = "0x80" and v = "5" and rest = "[1]"]
    decode_integer_roundtrip_iff [where N = "4" and head = "0x10" and v = "30" and rest = "[]"]
  by (simp add: int_mask_def)

subsection \<open>Header strings\<close>

lemma string_length_byte:
  assumes "n < 127"
  shows "encode_integer 7 0x80 (word_of_nat n) = [0x80 + word_of_nat n]"
    "(0x80 + word_of_nat n :: u8) AND 0x80 = 0x80" "unat ((0x80 + word_of_nat n :: u8) AND 0x7f) = n"
proof -
  have small: "take_bit 7 n = n" using assms by (simp add: take_bit_nat_eq_self)
  have bits: "m < 7" if "bit n m" for m using that small by (metis bit_take_bit_iff)
  have w: "bit (word_of_nat n :: u8) m \<longleftrightarrow> m < 8 \<and> bit n m" for m by (simp add: bit_simps)
  have sum: "0x80 + word_of_nat n = (0x80 OR word_of_nat n :: u8)"
    by (intro disjoint_add u8_eqI) (auto simp: bit_simps w dest: bits)
  show "(0x80 + word_of_nat n :: u8) AND 0x80 = 0x80"
    unfolding sum by (rule u8_eqI) (auto simp: bit_simps w)
  have "(0x80 + word_of_nat n :: u8) AND 0x7f = word_of_nat n"
    unfolding sum by (rule u8_eqI) (auto simp: bit_simps w dest: bits)
  then show "unat ((0x80 + word_of_nat n :: u8) AND 0x7f) = n"
    using assms by (simp add: unsigned_of_nat take_bit_nat_eq_self)
  have "unat (word_of_nat n :: u32) = n" using assms by (simp add: unsigned_of_nat take_bit_nat_eq_self)
  then have "(word_of_nat n :: u32) < int_mask 7"
    using assms unat_int_mask [of 7] by (simp add: word_less_nat_alt)
  moreover have "(ucast (word_of_nat n :: u32) :: u8) = word_of_nat n"
    by (rule bit_word_eqI) (auto simp: bit_simps)
  ultimately show "encode_integer 7 0x80 (word_of_nat n) = [0x80 + word_of_nat n]"
    by (simp add: encode_integer_def)
qed

lemma get_header_string_flagged:
  assumes "n < 127" "length text = n"
  shows "get_header_string (encode_integer 7 0x80 (word_of_nat n) @ text @ rest) =
         map_option (\<lambda>s. (s, rest)) (get_huffman_string text)"
  using string_length_byte [OF assms(1)] assms(2)
  by (cases "get_huffman_string text") (simp_all add: get_header_string_def Let_def subrange_def)

text \<open>
  A string that is stored unencoded gets the Huffman flag too, so it is read as a Huffman code it
  is not.
\<close>

lemma raw_string_read_as_huffman:
  assumes "text \<noteq> []" "coded = (if last text = NUL then butlast text else text)"
    "length text \<le> huffman_string_size (bytes_of coded)" "length text < 127"
  shows "\<exists>out. add_header_string text = Some out \<and>
         get_header_string (out @ rest) = map_option (\<lambda>s. (s, rest)) (get_huffman_string (bytes_of text))"
  using assms get_header_string_flagged [of "length text" "bytes_of text" rest]
  by (auto simp: add_header_string_def Let_def)

lemma bytes_five: "map (\<lambda>v. if v = 5 then CHR 0x06 else chr_of v) (bytes_of s) =
  map (\<lambda>c. if c = CHR 0x05 then CHR 0x06 else c) s"
proof -
  have "byte_of CHR 0x05 = 5" by (simp add: byte_of_def)
  then have five: "byte_of c = 5 \<longleftrightarrow> c = CHR 0x05" for c using inj_byte_of by (metis injD)
  have "chr_of (byte_of c) = c" for c using chars_of_bytes_of [of "[c]"] by simp
  then show ?thesis by (simp add: five)
qed

lemma header_string_read_any:
  assumes "text \<noteq> []" "coded = (if last text = NUL then butlast text else text)"
    "huffman_string_size (bytes_of coded) < min 127 (length text)"
  shows "\<exists>out. add_header_string text = Some out \<and>
    get_header_string (out @ rest) = Some (map (\<lambda>c. if c = CHR 0x05 then CHR 0x06 else c) coded, rest)"
proof -
  obtain out where out: "add_huffman_string (bytes_of coded) = Some out"
    "length out = huffman_string_size (bytes_of coded)"
    using add_huffman_length by blast
  have "get_huffman_string out = Some (map (\<lambda>c. if c = CHR 0x05 then CHR 0x06 else c) coded)"
    using get_huffman_string_add [OF out(1)] unfolding bytes_five .
  with out assms show ?thesis
    using get_header_string_flagged [of "length out" out rest]
    by (auto simp: add_header_string_def Let_def)
qed

lemma header_string_read_back:
  assumes "text \<noteq> []" "coded = (if last text = NUL then butlast text else text)"
    "huffman_string_size (bytes_of coded) < min 127 (length text)" "CHR 0x05 \<notin> set coded"
  shows "\<exists>out. add_header_string text = Some out \<and> get_header_string (out @ rest) = Some (coded, rest)"
proof -
  have "map (\<lambda>c. if c = CHR 0x05 then CHR 0x06 else c) coded = coded"
    using assms(4) by (intro map_idI) auto
  then show ?thesis using header_string_read_any [OF assms(1-3), of rest] by simp
qed

text \<open>
  A header string whose Huffman code is shorter than its text and than 127 bytes, and that
  does not hold the byte 5, is read back without its terminating NUL, and the reader stops right
  behind it.
\<close>

theorem header_string_roundtrip:
  assumes "text \<noteq> []" "coded = (if last text = NUL then butlast text else text)"
    "huffman_string_size (bytes_of coded) < min 127 (length text)" "CHR 0x05 \<notin> set coded"
  shows "\<exists>out. add_header_string text = Some out \<and> get_header_string (out @ rest) = Some (coded, rest)"
  using assms by (rule header_string_read_back)

theorem header_string_roundtrip_witness:
  "\<exists>out. add_header_string ''www.iot.com'' = Some out \<and>
     get_header_string (out @ [7]) = Some (''www.iot.com'', [7])"
proof -
  have "huffman_string_size (bytes_of ''www.iot.com'') = 8" by code_simp
  then show ?thesis
    using header_string_roundtrip [of "''www.iot.com''" "''www.iot.com''" "[7]"] by simp
qed

end
