(* ===== verification/Http2Frame.thy ===== *)
theory Http2Frame
  imports Base64
begin

text \<open>
  httpparser/include/http2.hh, first half: the frame header as it lies in memory, SETTINGS frames
  and the settings store, GOAWAY frames, and the payloads of PRIORITY and WINDOW_UPDATE.

  A struct is laid out by the little endian host: \<open>frame\<close> is a record of its bit fields (words of
  24 and 31 bits), \<open>frame_bytes\<close> and \<open>frame_of_bytes\<close> its nine bytes.
\<close>

subsection \<open>Write buffers\<close>

text \<open>A write pointer is a memory and a position in it; writing past the end is \<open>None\<close>.\<close>

type_synonym wbuf = "u8 list \<times> nat"

definition put :: "u8 list \<Rightarrow> wbuf \<Rightarrow> wbuf option" where
  "put bs b = (case b of (mem, pos) \<Rightarrow>
     if pos + length bs \<le> length mem
     then Some (take pos mem @ bs @ drop (pos + length bs) mem, pos + length bs) else None)"

subsection \<open>frame\<close>

datatype type_t = DATA | HEADERS | PRIORITY_frame | RST_STREAM | SETTINGS | PUSH_PROMISE | PING
  | GOAWAY | WINDOW_UPDATE | CONTINUATION

fun type_code :: "type_t \<Rightarrow> u8" where
  "type_code DATA = 0x00"
| "type_code HEADERS = 0x01"
| "type_code PRIORITY_frame = 0x02"
| "type_code RST_STREAM = 0x03"
| "type_code SETTINGS = 0x04"
| "type_code PUSH_PROMISE = 0x05"
| "type_code PING = 0x06"
| "type_code GOAWAY = 0x07"
| "type_code WINDOW_UPDATE = 0x08"
| "type_code CONTINUATION = 0x09"

definition type_list :: "type_t list" where
  "type_list = [DATA, HEADERS, PRIORITY_frame, RST_STREAM, SETTINGS, PUSH_PROMISE, PING, GOAWAY,
     WINDOW_UPDATE, CONTINUATION]"

text \<open>The case a switch over the type byte takes; \<open>None\<close> is its default.\<close>

definition type_of_code :: "u8 \<Rightarrow> type_t option" where
  "type_of_code b = map_of (map (\<lambda>t. (type_code t, t)) type_list) b"

definition type_string :: "u8 \<Rightarrow> string" where
  "type_string b =
     (case type_of_code b of
        Some DATA \<Rightarrow> ''DATA''
      | Some HEADERS \<Rightarrow> ''HEADERS''
      | Some PRIORITY_frame \<Rightarrow> ''PRIORITY''
      | Some RST_STREAM \<Rightarrow> ''RST STREAM''
      | Some SETTINGS \<Rightarrow> ''SETTINGS''
      | Some PUSH_PROMISE \<Rightarrow> ''PUSH PROMISE''
      | Some PING \<Rightarrow> ''PING''
      | Some GOAWAY \<Rightarrow> ''GOAWAY''
      | Some WINDOW_UPDATE \<Rightarrow> ''WINDOW UPDATE''
      | Some CONTINUATION \<Rightarrow> ''CONTINUATION''
      | None \<Rightarrow> ''BAD TYPE'')"

datatype flags_t = NONE | END_STREAM | END_HEADERS | PADDED | PRIORITY_flag | REQUEST | ACK

fun flag_code :: "flags_t \<Rightarrow> u8" where
  "flag_code NONE = 0x00"
| "flag_code END_STREAM = 0x01"
| "flag_code END_HEADERS = 0x04"
| "flag_code PADDED = 0x08"
| "flag_code PRIORITY_flag = 0x20"
| "flag_code REQUEST = 0x00"
| "flag_code ACK = 0x01"

definition flag_string :: "u8 \<Rightarrow> string" where
  "flag_string b =
     (if b = flag_code NONE then ''NONE''
      else if b = flag_code END_STREAM then ''END STREAM''
      else if b = flag_code END_HEADERS then ''END HEADERS''
      else if b = flag_code PADDED then ''PADDED''
      else if b = flag_code PRIORITY_flag then ''PRIORITY''
      else ''BAD FLAG'')"

datatype error_t = NO_ERROR | PROTOCOL_ERROR | INTERNAL_ERROR | FLOW_CONTROL_ERROR
  | SETTINGS_TIMEOUT | STREAM_CLOSED | FRAME_SIZE_ERROR | REFUSED_STREAM | CANCEL
  | COMPRESSION_ERROR | CONNECT_ERROR | ENHANCE_YOUR_CALM | INADEQUATE_SECURITY
  | HTTP_1_1_REQUIRED

fun error_code :: "error_t \<Rightarrow> u32" where
  "error_code NO_ERROR = 0x00"
| "error_code PROTOCOL_ERROR = 0x01"
| "error_code INTERNAL_ERROR = 0x02"
| "error_code FLOW_CONTROL_ERROR = 0x03"
| "error_code SETTINGS_TIMEOUT = 0x04"
| "error_code STREAM_CLOSED = 0x05"
| "error_code FRAME_SIZE_ERROR = 0x06"
| "error_code REFUSED_STREAM = 0x07"
| "error_code CANCEL = 0x08"
| "error_code COMPRESSION_ERROR = 0x09"
| "error_code CONNECT_ERROR = 0x0a"
| "error_code ENHANCE_YOUR_CALM = 0x0b"
| "error_code INADEQUATE_SECURITY = 0x0c"
| "error_code HTTP_1_1_REQUIRED = 0x0d"

definition error_names :: "string list" where
  "error_names = [''NO ERROR'', ''PROTOCOL ERROR'', ''INTERNAL ERROR'', ''FLOW CONTROL ERROR'',
     ''SETTINGS TIMEOUT'', ''STREAM CLOSED'', ''FRAME SIZE ERROR'', ''REFUSED STREAM'', ''CANCEL'',
     ''COMPRESSION ERROR'', ''CONNECT ERROR'', ''ENHANCE YOUR CALM'', ''INADEQUATE SECURITY'',
     ''HTTP 1.1 REQUIRED'']"

definition error_string :: "u32 \<Rightarrow> string" where
  "error_string err =
     (if unat err < length error_names then error_names ! unat err else ''UNKNOWN ERROR'')"

record frame =
  fr_length :: "24 word"
  fr_type :: u8
  fr_flags :: u8
  fr_stream_identifier :: "31 word"
  fr_reserved :: bool

definition frame_size :: nat where
  "frame_size = 9"

definition frame_bytes :: "frame \<Rightarrow> u8 list" where
  "frame_bytes f =
     [ucast (fr_length f), ucast (drop_bit 8 (fr_length f)), ucast (drop_bit 16 (fr_length f)),
      fr_type f, fr_flags f] @
     le32 (ucast (fr_stream_identifier f) OR (if fr_reserved f then push_bit 31 1 else 0))"

definition frame_of_bytes :: "u8 list \<Rightarrow> frame" where
  "frame_of_bytes bs =
     \<lparr>fr_length = ucast (bs ! 0) OR push_bit 8 (ucast (bs ! 1)) OR push_bit 16 (ucast (bs ! 2)),
      fr_type = bs ! 3, fr_flags = bs ! 4,
      fr_stream_identifier = ucast (of_le32 (drop 5 bs)),
      fr_reserved = bit (of_le32 (drop 5 bs)) 31\<rparr>"

text \<open>\<open>reinterpret_cast\<close> of a pointer into a buffer.\<close>

definition frame_at :: "u8 list \<Rightarrow> nat \<Rightarrow> frame option" where
  "frame_at buf pos = map_option frame_of_bytes (subrange buf pos frame_size)"

definition get_length :: "frame \<Rightarrow> u32" where
  "get_length f = changeEndian32 (push_bit 8 (ucast (fr_length f)))"

definition set_length :: "u32 \<Rightarrow> frame \<Rightarrow> frame" where
  "set_length len f = f\<lparr>fr_length := ucast (drop_bit 8 (changeEndian32 len))\<rparr>"

definition get_type :: "frame \<Rightarrow> type_t option" where
  "get_type f = type_of_code (fr_type f)"

definition set_type :: "type_t \<Rightarrow> frame \<Rightarrow> frame" where
  "set_type t f = f\<lparr>fr_type := type_code t\<rparr>"

definition get_flags :: "frame \<Rightarrow> u8" where
  "get_flags f = fr_flags f"

definition clean_flag :: "frame \<Rightarrow> frame" where
  "clean_flag f = f\<lparr>fr_flags := flag_code NONE\<rparr>"

definition set_flag :: "flags_t \<Rightarrow> frame \<Rightarrow> frame" where
  "set_flag flag f = f\<lparr>fr_flags := fr_flags f OR flag_code flag\<rparr>"

definition contains_flag :: "frame \<Rightarrow> flags_t \<Rightarrow> bool" where
  "contains_flag f flag \<longleftrightarrow> fr_flags f AND flag_code flag = flag_code flag"

definition get_stream_identifier :: "frame \<Rightarrow> u32" where
  "get_stream_identifier f = changeEndian32 (ucast (fr_stream_identifier f))"

definition set_stream_identifier :: "u32 \<Rightarrow> frame \<Rightarrow> frame" where
  "set_stream_identifier stream_identifier f =
     f\<lparr>fr_stream_identifier := ucast (changeEndian32 stream_identifier)\<rparr>"

text \<open>The three overloads of \<open>init_frame\<close> differ in the number of flags they combine.\<close>

definition init_frame :: "u32 \<Rightarrow> type_t \<Rightarrow> flags_t list \<Rightarrow> u32 \<Rightarrow> frame \<Rightarrow> frame" where
  "init_frame len t flags stream_identifier f =
     set_stream_identifier stream_identifier
       ((set_type t (set_length len f))
          \<lparr>fr_flags := foldl (\<lambda>acc flag. acc OR flag_code flag) 0 flags, fr_reserved := False\<rparr>)"

text \<open>The memory the pointer of \<open>init_frame\<close> designates; the code overwrites all of it.\<close>

definition raw_frame :: frame where
  "raw_frame = \<lparr>fr_length = 0, fr_type = 0, fr_flags = 0, fr_stream_identifier = 0, fr_reserved = False\<rparr>"

definition new_frame_bytes :: "u32 \<Rightarrow> type_t \<Rightarrow> flags_t list \<Rightarrow> u32 \<Rightarrow> u8 list" where
  "new_frame_bytes len t flags stream_identifier =
     frame_bytes (init_frame len t flags stream_identifier raw_frame)"

definition construct_frame :: "u32 \<Rightarrow> type_t \<Rightarrow> flags_t \<Rightarrow> u32 \<Rightarrow> frame" where
  "construct_frame len t flags stream_identifier =
     \<lparr>fr_length = ucast (drop_bit 8 (changeEndian32 len)), fr_type = type_code t,
      fr_flags = flag_code flags,
      fr_stream_identifier = ucast (changeEndian32 stream_identifier), fr_reserved = False\<rparr>"

subsection \<open>Payloads of PRIORITY and WINDOW_UPDATE\<close>

definition get_execlusive :: "u8 list \<Rightarrow> bool" where
  "get_execlusive bs = bit (of_le32 bs) 31"

definition get_stream_dependency :: "u8 list \<Rightarrow> u32" where
  "get_stream_dependency bs = changeEndian32 (ucast (ucast (of_le32 bs) :: 31 word))"

definition get_window_size_increment :: "u8 list \<Rightarrow> u32" where
  "get_window_size_increment bs = changeEndian32 (ucast (ucast (of_le32 bs) :: 31 word))"

subsection \<open>settings\<close>

datatype identifier_t = SETTINGS_HEADER_TABLE_SIZE | SETTINGS_ENABLE_PUSH
  | SETTINGS_MAX_CONCURRENT_STREAMS | SETTINGS_INITIAL_WINDOW_SIZE | SETTINGS_MAX_FRAME_SIZE
  | SETTINGS_MAX_HEADER_LIST_SIZE

fun identifier_code :: "identifier_t \<Rightarrow> u16" where
  "identifier_code SETTINGS_HEADER_TABLE_SIZE = 0x01"
| "identifier_code SETTINGS_ENABLE_PUSH = 0x02"
| "identifier_code SETTINGS_MAX_CONCURRENT_STREAMS = 0x03"
| "identifier_code SETTINGS_INITIAL_WINDOW_SIZE = 0x04"
| "identifier_code SETTINGS_MAX_FRAME_SIZE = 0x05"
| "identifier_code SETTINGS_MAX_HEADER_LIST_SIZE = 0x06"

fun identifier_name :: "identifier_t \<Rightarrow> string" where
  "identifier_name SETTINGS_HEADER_TABLE_SIZE = ''HEADER TABLE SIZE''"
| "identifier_name SETTINGS_ENABLE_PUSH = ''ENABLE PUSH''"
| "identifier_name SETTINGS_MAX_CONCURRENT_STREAMS = ''MAX CONCURRENT STREAMS''"
| "identifier_name SETTINGS_INITIAL_WINDOW_SIZE = ''INITIAL WINDOW SIZE''"
| "identifier_name SETTINGS_MAX_FRAME_SIZE = ''MAX FRAME SIZE''"
| "identifier_name SETTINGS_MAX_HEADER_LIST_SIZE = ''MAX HEADER LIST SIZE''"

definition identifier_list :: "identifier_t list" where
  "identifier_list = [SETTINGS_HEADER_TABLE_SIZE, SETTINGS_ENABLE_PUSH,
     SETTINGS_MAX_CONCURRENT_STREAMS, SETTINGS_INITIAL_WINDOW_SIZE, SETTINGS_MAX_FRAME_SIZE,
     SETTINGS_MAX_HEADER_LIST_SIZE]"

definition identifier_of_code :: "u16 \<Rightarrow> identifier_t option" where
  "identifier_of_code v = map_of (map (\<lambda>i. (identifier_code i, i)) identifier_list) v"

definition settings_string :: "u16 \<Rightarrow> string" where
  "settings_string v =
     (case identifier_of_code v of None \<Rightarrow> ''UNKNOWN SETTINGS'' | Some i \<Rightarrow> identifier_name i)"

record settings =
  set_identifier :: u16
  set_value :: u32

definition settings_size :: nat where
  "settings_size = 6"

definition settings_bytes :: "settings \<Rightarrow> u8 list" where
  "settings_bytes s = le16 (set_identifier s) @ le32 (set_value s)"

definition settings_of_bytes :: "u8 list \<Rightarrow> settings" where
  "settings_of_bytes bs = \<lparr>set_identifier = of_le16 bs, set_value = of_le32 (drop 2 bs)\<rparr>"

definition get_identifier :: "settings \<Rightarrow> identifier_t option" where
  "get_identifier s = identifier_of_code (changeEndian16 (set_identifier s))"

definition get_value :: "settings \<Rightarrow> u32" where
  "get_value s = changeEndian32 (set_value s)"

definition settings_init :: "identifier_t \<Rightarrow> u32 \<Rightarrow> settings" where
  "settings_init i v =
     \<lparr>set_identifier = changeEndian16 (identifier_code i), set_value = changeEndian32 v\<rparr>"

fun settings_add :: "(identifier_t \<times> u32) list \<Rightarrow> u8 list" where
  "settings_add [] = []"
| "settings_add ((i, v) # args) = settings_bytes (settings_init i v) @ settings_add args"

definition get_frame_len :: "nat \<Rightarrow> nat" where
  "get_frame_len count = frame_size + count * 6"

definition settings_add_ack_frame :: "u8 list" where
  "settings_add_ack_frame = new_frame_bytes 0 SETTINGS [ACK] 0"

text \<open>The argument pack alternates identifiers and values: its size is twice the list's.\<close>

definition settings_add_frame :: "(identifier_t \<times> u32) list \<Rightarrow> u8 list" where
  "settings_add_frame args =
     new_frame_bytes (word_of_nat (2 * length args * 3)) SETTINGS [NONE] 0 @ settings_add args"

subsection \<open>settings_store\<close>

record settings_store =
  st_header_table_size :: u32
  st_enable_push :: bool
  st_max_concurrent_streams :: u32
  st_initial_window_size :: u32
  st_max_frame_size :: u32
  st_max_header_list_size :: u32

definition new_settings_store :: settings_store where
  "new_settings_store =
     \<lparr>st_header_table_size = 4096, st_enable_push = False, st_max_concurrent_streams = 100,
      st_initial_window_size = 65535, st_max_frame_size = 16777215, st_max_header_list_size = 1024\<rparr>"

definition store_setting :: "settings \<Rightarrow> settings_store \<Rightarrow> settings_store" where
  "store_setting s st =
     (case get_identifier s of
        Some SETTINGS_HEADER_TABLE_SIZE \<Rightarrow> st\<lparr>st_header_table_size := get_value s\<rparr>
      | Some SETTINGS_ENABLE_PUSH \<Rightarrow> st\<lparr>st_enable_push := get_value s \<noteq> 0\<rparr>
      | Some SETTINGS_MAX_CONCURRENT_STREAMS \<Rightarrow> st\<lparr>st_max_concurrent_streams := get_value s\<rparr>
      | Some SETTINGS_INITIAL_WINDOW_SIZE \<Rightarrow> st\<lparr>st_initial_window_size := get_value s\<rparr>
      | Some SETTINGS_MAX_FRAME_SIZE \<Rightarrow> st\<lparr>st_max_frame_size := get_value s\<rparr>
      | Some SETTINGS_MAX_HEADER_LIST_SIZE \<Rightarrow> st\<lparr>st_max_header_list_size := get_value s\<rparr>
      | None \<Rightarrow> st)"

definition parse_one :: "settings_store \<Rightarrow> u8 list \<Rightarrow> nat \<Rightarrow> (settings_store \<times> nat) option" where
  "parse_one st buf pos =
     do { bs \<leftarrow> subrange buf pos settings_size;
          Some (store_setting (settings_of_bytes bs) st, pos + settings_size) }"

function parse_settings_loop :: "settings_store \<Rightarrow> u8 list \<Rightarrow> nat \<Rightarrow> nat \<Rightarrow> settings_store option" where
  "parse_settings_loop st buf pos pend2 =
     (if pos < pend2 then
        (case parse_one st buf pos of
           None \<Rightarrow> None
         | Some (st', pos') \<Rightarrow> parse_settings_loop st' buf pos' pend2)
      else Some st)"
  by pat_completeness auto
termination
  by (relation "measure (\<lambda>(st, buf, pos, pend2). pend2 - pos)")
    (auto simp: parse_one_def settings_size_def bind_Some_iff)

declare parse_settings_loop.simps [simp del]

text \<open>The result is the store and the position behind the frame.\<close>

definition parse_frame ::
    "settings_store \<Rightarrow> frame \<Rightarrow> u8 list \<Rightarrow> nat \<Rightarrow> nat \<Rightarrow> (settings_store \<times> nat) option" where
  "parse_frame st f buf pstart pend =
     (let pend1 = pstart + unat (get_length f) in
      if pend < pend1 then Some (st, pend)
      else
        do { (padded_bytes, pos) \<leftarrow> (if contains_flag f PADDED
               then do { b \<leftarrow> load buf pstart; Some (unat b, pstart + 1) }
               else Some (0, pstart));
             st' \<leftarrow> parse_settings_loop st buf pos (pend1 - padded_bytes);
             Some (st', pend1) })"

definition parse_frame_buffer ::
    "settings_store \<Rightarrow> u8 list \<Rightarrow> nat \<Rightarrow> nat \<Rightarrow> (settings_store \<times> nat) option" where
  "parse_frame_buffer st buf pstart pend =
     do { f \<leftarrow> frame_at buf pstart;
          parse_frame st f buf (pstart + frame_size) pend }"

text \<open>\<open>None\<close> also when the decoder writes past the buffer that was allocated for it.\<close>

definition parse_base64_frame :: "settings_store \<Rightarrow> u8 list \<Rightarrow> settings_store option" where
  "parse_base64_frame st buffer =
     (let decode_len = base64_decode_len buffer; decoded_buffer = base64_decode buffer in
      if decode_len < length decoded_buffer then None
      else map_option fst (parse_frame_buffer st decoded_buffer 0 decode_len))"

subsection \<open>goaway\<close>

definition goaway_size :: nat where
  "goaway_size = 8"

definition goaway_bytes :: "u32 \<Rightarrow> error_t \<Rightarrow> u8 list" where
  "goaway_bytes last_stream_id err =
     le32 (ucast (ucast (changeEndian32 last_stream_id) :: 31 word)) @
     le32 (changeEndian32 (error_code err))"

definition get_last_stream_id :: "u8 list \<Rightarrow> u32" where
  "get_last_stream_id bs = changeEndian32 (ucast (ucast (of_le32 bs) :: 31 word))"

definition get_error_code :: "u8 list \<Rightarrow> u32" where
  "get_error_code bs = changeEndian32 (of_le32 (drop 4 bs))"

definition goaway_add_frame_size :: "string \<Rightarrow> nat" where
  "goaway_add_frame_size debug_data = frame_size + goaway_size + (length debug_data + 1)"

text \<open>
  \<open>std::copy (buffer, buffer + sizeof(goaway), buffer)\<close> copies the buffer onto itself: the local
  \<open>goaway\<close> is not written, and the pointer moves by \<open>sizeof(goaway)\<close> twice.
\<close>

definition goaway_add_frame :: "wbuf \<Rightarrow> u32 \<Rightarrow> error_t \<Rightarrow> string \<Rightarrow> wbuf option" where
  "goaway_add_frame buffer max_stream err debug_data =
     (let debug_data_size = length debug_data + 1;
          len = word_of_nat (frame_size + goaway_size + debug_data_size) in
      do { (mem, pos) \<leftarrow> put (new_frame_bytes len SETTINGS [ACK] 0) buffer;
           old \<leftarrow> subrange mem pos goaway_size;
           (mem, pos) \<leftarrow> put old (mem, pos);
           put (bytes_of debug_data @ [0]) (mem, pos + goaway_size) })"

subsection \<open>The frame header\<close>

lemma length_frame_bytes [simp]: "length (frame_bytes f) = 9"
  by (simp add: frame_bytes_def)

lemma frame_of_frame_bytes [simp]: "frame_of_bytes (frame_bytes f @ bs) = f"
proof -
  have "(ucast (ucast l :: u8) OR push_bit 8 (ucast (ucast (drop_bit 8 l) :: u8)) OR
      push_bit 16 (ucast (ucast (drop_bit 16 l) :: u8))) = l" for l :: "24 word"
  proof (rule bit_word_eqI)
    fix n :: nat assume "n < LENGTH(24)"
    then show "bit (ucast (ucast l :: u8) OR push_bit 8 (ucast (ucast (drop_bit 8 l) :: u8)) OR
        push_bit 16 (ucast (ucast (drop_bit 16 l) :: u8)) :: 24 word) n = bit l n"
      by (cases "n < 8"; cases "n < 16") (auto simp: bit_simps)
  qed
  moreover have "ucast (ucast s OR (if r then push_bit 31 1 else 0) :: u32) = s" for s :: "31 word" and r
    by (rule bit_word_eqI) (auto simp: bit_simps bit_push_bit_iff simp del: push_bit_of_1)
  moreover have "bit (ucast s OR (if r then push_bit 31 1 else 0) :: u32) 31 = r" for s :: "31 word" and r
    by (auto simp: bit_simps dest: bit_imp_le_length)
  ultimately show ?thesis
    by (simp add: frame_of_bytes_def frame_bytes_def )
qed

lemma frame_at_frame_bytes:
  assumes "length pre = n"
  shows "frame_at (pre @ frame_bytes f @ post) n = Some f"
proof -
  have "subrange (pre @ frame_bytes f @ post) n frame_size = Some (frame_bytes f)"
    using assms subrange_append_at [of frame_size "frame_bytes f" pre post] by (simp add: frame_size_def)
  then show ?thesis using frame_of_frame_bytes [of f "[]"] by (simp add: frame_at_def)
qed

lemma type_of_code_type_code [simp]: "type_of_code (type_code t) = Some t"
  by (cases t) (simp_all add: type_of_code_def type_list_def)

lemma get_length_set_length: "get_length (set_length len f) = take_bit 24 len"
  by (rule bit_word_eqI) (auto simp: get_length_def set_length_def bit_changeEndian32 bit_simps)

lemma bit_128_u32: "bit (0x80 :: u32) n \<longleftrightarrow> n = 7"
proof -
  have "(0x80 :: u32) = push_bit 7 1" by simp
  then show ?thesis by (simp only: bit_push_bit_iff bit_1_iff) auto
qed

lemma bit_clear_7: "bit (i AND NOT 0x80) n \<longleftrightarrow> bit i n \<and> n \<noteq> 7" for i :: u32
  unfolding bit_and_iff bit_not_iff bit_128_u32 by (auto dest: bit_imp_le_length)

lemma get_stream_identifier_set:
  "get_stream_identifier (set_stream_identifier i f) = i AND NOT 0x80"
  by (rule bit_word_eqI, unfold bit_clear_7)
    (auto simp: get_stream_identifier_def set_stream_identifier_def bit_changeEndian32 bit_simps)

lemma and_not_128_iff: "i AND NOT 0x80 = i \<longleftrightarrow> \<not> bit i 7" for i :: u32
  by (metis bit_clear_7 bit_word_eqI)

lemma or_flags_keep:
  "x AND v = v \<Longrightarrow> foldl (\<lambda>acc flag. acc OR flag_code flag) x flags AND v = v" for x v :: u8
proof (induction flags arbitrary: x)
  case (Cons fl flags)
  have "(x OR flag_code fl) AND v = v"
  proof (rule bit_word_eqI)
    fix n :: nat
    have "bit (x AND v) n = bit v n" using Cons.prems by simp
    then show "bit ((x OR flag_code fl) AND v) n = bit v n" by (auto simp: bit_simps)
  qed
  then show ?case using Cons.IH by simp
qed simp

lemma or_flags_contain:
  "fl \<in> set flags \<Longrightarrow>
   foldl (\<lambda>acc flag. acc OR flag_code flag) x flags AND flag_code fl = flag_code fl" for x :: u8
proof (induction flags arbitrary: x)
  case (Cons a flags)
  have "(x OR flag_code fl) AND flag_code fl = flag_code fl"
    by (rule bit_word_eqI) (auto simp: bit_simps)
  with Cons show ?case by (auto intro: or_flags_keep)
qed simp

text \<open>
  A frame header written by \<open>init_frame\<close> into any memory is read back with its type, its flags
  and its length modulo 2^24, but bit 7 of the stream identifier is lost: the identifier is read
  back exactly when that bit is not set (so stream 129 becomes stream 1).
\<close>

theorem frame_header_roundtrip:
  "\<exists>g. frame_at (pre @ frame_bytes (init_frame len t flags i f) @ post) (length pre) = Some g \<and>
     get_length g = take_bit 24 len \<and> get_type g = Some t \<and>
     list_all (contains_flag g) flags \<and>
     get_stream_identifier g = i AND NOT 0x80 \<and>
     (get_stream_identifier g = i \<longleftrightarrow> \<not> bit i 7)"
proof -
  let ?g = "init_frame len t flags i f"
  have "contains_flag ?g fl" if "fl \<in> set flags" for fl
    using or_flags_contain [OF that] by (simp add: contains_flag_def init_frame_def set_stream_identifier_def)
  moreover have "get_length ?g = take_bit 24 len" "get_stream_identifier ?g = i AND NOT 0x80"
    "get_type ?g = Some t"
    using get_length_set_length [of len f] get_stream_identifier_set [of i raw_frame]
    by (simp_all add: init_frame_def get_type_def get_length_def get_stream_identifier_def
        set_stream_identifier_def set_length_def set_type_def)
  ultimately show ?thesis
    using frame_at_frame_bytes [of pre "length pre" ?g post] and_not_128_iff [of i] by (simp add: list_all_iff)
qed

subsection \<open>SETTINGS frames\<close>

text \<open>What a SETTINGS parameter means for the store (RFC 7540, 6.5.2).\<close>

fun apply_setting :: "identifier_t \<Rightarrow> u32 \<Rightarrow> settings_store \<Rightarrow> settings_store" where
  "apply_setting SETTINGS_HEADER_TABLE_SIZE v st = st\<lparr>st_header_table_size := v\<rparr>"
| "apply_setting SETTINGS_ENABLE_PUSH v st = st\<lparr>st_enable_push := v \<noteq> 0\<rparr>"
| "apply_setting SETTINGS_MAX_CONCURRENT_STREAMS v st = st\<lparr>st_max_concurrent_streams := v\<rparr>"
| "apply_setting SETTINGS_INITIAL_WINDOW_SIZE v st = st\<lparr>st_initial_window_size := v\<rparr>"
| "apply_setting SETTINGS_MAX_FRAME_SIZE v st = st\<lparr>st_max_frame_size := v\<rparr>"
| "apply_setting SETTINGS_MAX_HEADER_LIST_SIZE v st = st\<lparr>st_max_header_list_size := v\<rparr>"

definition apply_settings :: "(identifier_t \<times> u32) list \<Rightarrow> settings_store \<Rightarrow> settings_store" where
  "apply_settings args st = foldl (\<lambda>st (i, v). apply_setting i v st) st args"

lemma length_settings_bytes [simp]: "length (settings_bytes s) = 6"
  by (simp add: settings_bytes_def)

lemma length_settings_add [simp]: "length (settings_add args) = 6 * length args"
  by (induction args rule: settings_add.induct) simp_all

lemma settings_of_settings_bytes [simp]: "settings_of_bytes (settings_bytes s) = s"
proof -
  have "drop 2 (le16 (set_identifier s) @ le32 (set_value s)) = le32 (set_value s)" by simp
  then show ?thesis by (simp add: settings_of_bytes_def settings_bytes_def)
qed

lemma identifier_of_code_code [simp]: "identifier_of_code (identifier_code i) = Some i"
  by (cases i) (simp_all add: identifier_of_code_def identifier_list_def)

lemma store_setting_init: "store_setting (settings_init i v) st = apply_setting i v st"
proof -
  have "get_identifier (settings_init i v) = Some i" "get_value (settings_init i v) = v"
    by (simp_all add: get_identifier_def get_value_def settings_init_def)
  then show ?thesis by (cases i) (simp_all add: store_setting_def)
qed

lemma parse_settings_loop_add:
  assumes "n = length pre" "m = length pre + 6 * length args"
  shows "parse_settings_loop st (pre @ settings_add args @ post) n m = Some (apply_settings args st)"
  using assms
proof (induction args arbitrary: st pre n m)
  case Nil
  then show ?case by (simp add: parse_settings_loop.simps apply_settings_def)
next
  case (Cons a args)
  obtain i v where a: "a = (i, v)" by (cases a)
  let ?pre = "pre @ settings_bytes (settings_init i v)"
  have "parse_one st (pre @ settings_add (a # args) @ post) n = Some (apply_setting i v st, n + 6)"
    using Cons.prems subrange_append_at [of settings_size "settings_bytes (settings_init i v)" pre]
    by (simp add: a parse_one_def settings_size_def store_setting_init)
  moreover have "parse_settings_loop (apply_setting i v st) (?pre @ settings_add args @ post) (n + 6) m =
      Some (apply_settings args (apply_setting i v st))"
    using Cons.prems by (intro Cons.IH) simp_all
  ultimately show ?case
    using Cons.prems by (subst parse_settings_loop.simps) (simp add: a apply_settings_def)
qed

lemma new_frame_bytes_at:
  assumes "n = length pre"
  shows "\<exists>g. frame_at (pre @ new_frame_bytes len t flags i @ post) n = Some g \<and>
    get_length g = take_bit 24 len \<and>
    fr_flags g = foldl (\<lambda>acc flag. acc OR flag_code flag) 0 flags \<and> get_type g = Some t \<and>
    get_stream_identifier g = i AND NOT 0x80"
proof -
  have "get_length (init_frame len t flags i raw_frame) = take_bit 24 len"
    using get_length_set_length [of len raw_frame]
    by (simp add: init_frame_def get_length_def set_stream_identifier_def set_length_def set_type_def)
  moreover have "fr_flags (init_frame len t flags i raw_frame) = foldl (\<lambda>acc flag. acc OR flag_code flag) 0 flags"
    by (simp add: init_frame_def set_stream_identifier_def)
  moreover have "get_type (init_frame len t flags i raw_frame) = Some t"
    by (simp add: init_frame_def get_type_def set_stream_identifier_def set_type_def)
  moreover have "get_stream_identifier (init_frame len t flags i raw_frame) = i AND NOT 0x80"
    using get_stream_identifier_set [of i] by (simp add: init_frame_def)
  ultimately show ?thesis
    using frame_at_frame_bytes [OF assms [symmetric]] by (simp add: new_frame_bytes_def)
qed

lemma length_new_frame_bytes [simp]: "length (new_frame_bytes len t flags i) = 9"
  by (simp add: new_frame_bytes_def)

lemma settings_frame_parsed:
  assumes "6 * length args < 2 ^ 24" "length pre + get_frame_len (length args) \<le> pend"
  shows "\<exists>g. frame_at (pre @ settings_add_frame args @ post) (length pre) = Some g \<and>
    fr_flags g = 0 \<and> get_type g = Some SETTINGS \<and> get_stream_identifier g = 0 \<and>
    unat (get_length g) = 6 * length args \<and>
    parse_frame st g (pre @ settings_add_frame args @ post) (length pre + frame_size) pend =
      Some (apply_settings args st, length pre + get_frame_len (length args))"
proof -
  define k where "k = 2 * length args * 3"
  let ?len = "word_of_nat k :: u32"
  obtain g where g: "frame_at (pre @ settings_add_frame args @ post) (length pre) = Some g"
      "get_length g = take_bit 24 ?len" "fr_flags g = 0" "get_type g = Some SETTINGS"
      "get_stream_identifier g = 0"
    using new_frame_bytes_at [of "length pre" pre ?len SETTINGS "[NONE]" 0 "settings_add args @ post"]
    by (auto simp: settings_add_frame_def k_def)
  have k: "k = 6 * length args" by (simp add: k_def)
  have "take_bit 24 k = k" using assms(1) unfolding k [symmetric] by (intro take_bit_nat_eq_self)
  then have len: "unat (get_length g) = 6 * length args"
    unfolding g(2) k [symmetric] by (simp add: unsigned_take_bit_eq unsigned_of_nat)
  have "\<not> contains_flag g PADDED" by (simp add: contains_flag_def g(3))
  moreover have "parse_settings_loop st (pre @ settings_add_frame args @ post) (length pre + 9)
      (length pre + 9 + 6 * length args) = Some (apply_settings args st)"
    using parse_settings_loop_add [of "length pre + 9" "pre @ new_frame_bytes ?len SETTINGS [NONE] 0"
        "length pre + 9 + 6 * length args" args st post]
    by (simp add: settings_add_frame_def k_def)
  ultimately show ?thesis
    using assms(2) g len by (simp add: parse_frame_def frame_size_def get_frame_len_def)
qed

text \<open>
  A SETTINGS frame written by \<open>settings::add_frame\<close> anywhere in a buffer is parsed back into
  exactly the assignments it lists, in order, and the parser stops right behind the frame.
\<close>

theorem settings_frame_roundtrip:
  assumes "6 * length args < 2 ^ 24" "length pre + get_frame_len (length args) \<le> pend"
  shows "parse_frame_buffer st (pre @ settings_add_frame args @ post) (length pre) pend =
    Some (apply_settings args st, length pre + get_frame_len (length args))"
  using settings_frame_parsed [OF assms, of post st] by (auto simp: parse_frame_buffer_def)

theorem settings_frame_roundtrip_witness:
  "map_option (\<lambda>(st, pos). (st_max_concurrent_streams st, st_enable_push st, pos))
     (parse_frame_buffer new_settings_store
        ([7] @ settings_add_frame [(SETTINGS_MAX_CONCURRENT_STREAMS, 250), (SETTINGS_ENABLE_PUSH, 1)] @ [])
        (length [7 :: u8]) 22) = Some (250, True, 22)"
  by (subst settings_frame_roundtrip)
    (simp_all add: get_frame_len_def frame_size_def apply_settings_def)

text \<open>
  The payload of an \<open>HTTP2-Settings\<close> header has no frame header (RFC 7540, 3.2.1), but
  \<open>parse_base64_frame\<close> expects one: on the six bytes of the RFC's own kind it reads past the
  decoded buffer.
\<close>

lemma parse_base64_frame_overrun:
  "parse_base64_frame new_settings_store (bytes_of ''AAMAAABk'') = None"
  by code_simp

subsection \<open>GOAWAY frames\<close>

text \<open>
  What \<open>goaway::add_frame\<close> leaves in memory: a header of type SETTINGS with ACK whose length also
  counts the header, sixteen bytes of whatever was there, and the debug text: eight bytes more
  than \<open>add_frame_size\<close> announces.
\<close>

lemma goaway_add_frame_bytes:
  assumes "length hole = 16"  "length room = length debug_data + 1" "length old = 9"
  shows "goaway_add_frame (pre @ old @ hole @ room @ post, length pre) max_stream err debug_data =
    Some (pre @ new_frame_bytes (word_of_nat (goaway_add_frame_size debug_data)) SETTINGS [ACK] 0 @
            hole @ bytes_of debug_data @ [0] @ post,
          length pre + goaway_add_frame_size debug_data + 8)"
proof -
  define h where "h = new_frame_bytes (word_of_nat (goaway_add_frame_size debug_data)) SETTINGS [ACK] 0"
  have h: "length h = 9" by (simp add: h_def)
  define a where "a = take 8 hole"
  define b where "b = drop 8 hole"
  have hole: "hole = a @ b" "length a = 8" "length b = 8" using assms(1) by (simp_all add: a_def b_def)
  have 1: "put h (pre @ old @ hole @ room @ post, length pre) = Some (pre @ h @ hole @ room @ post, length pre + 9)"
    using assms(3) h by (simp add: put_def)
  have 2: "subrange (pre @ h @ hole @ room @ post) (length pre + 9) goaway_size = Some a"
    using h hole by (simp add: subrange_def goaway_size_def)
  have 3: "put a (pre @ h @ hole @ room @ post, length pre + 9) = Some (pre @ h @ hole @ room @ post, length pre + 17)"
    using h hole by (simp add: put_def)
  have 4: "put (bytes_of debug_data @ [0]) (pre @ h @ hole @ room @ post, length pre + 17 + goaway_size) =
      Some (pre @ h @ hole @ bytes_of debug_data @ [0] @ post, length pre + goaway_add_frame_size debug_data + 8)"
    using h hole assms(2) by (simp add: put_def goaway_add_frame_size_def frame_size_def goaway_size_def)
  show ?thesis
    unfolding goaway_add_frame_def Let_def goaway_add_frame_size_def [symmetric] h_def [symmetric]
    by (simp add: 1 2 3 4)
qed

end
