(* ===== verification/Http2Headers.thy ===== *)
theory Http2Headers
  imports Hpack
begin

text \<open>
  The header block of httpparser/include/http2.hh: \<open>header_request::parse_header\<close>, which reads a
  block of HPACK representations, and the overloads of \<open>request::copy_http_header_response\<close>, which
  write one representation.
\<close>

subsection \<open>header_request\<close>

text \<open>
  A stream's request.  Pointers are indices of the heap of \<open>request\<close>; \<open>method\<close> is not initialised
  by the default constructor (\<open>None\<close>), and \<open>previous\<close> is never assigned.
\<close>

record header_request =
  hq_version :: VERSION
  hq_method :: "METHOD option"
  hq_fields :: fields_t
  hq_stream_identifier :: u32
  hq_weight :: u8
  hq_error :: u32
  hq_next :: "nat option"
  hq_previous :: "nat option"

definition new_header_request :: "u32 \<Rightarrow> u8 \<Rightarrow> header_request" where
  "new_header_request stream_identifier weight =
     \<lparr>hq_version = VER_2, hq_method = None, hq_fields = Map.empty,
      hq_stream_identifier = stream_identifier, hq_weight = weight, hq_error = 0,
      hq_next = None, hq_previous = None\<rparr>"

text \<open>The upgrade of an HTTP/1.1 request becomes stream 1.\<close>

definition upgrade_header_request :: "http_header_request \<Rightarrow> header_request" where
  "upgrade_header_request header =
     \<lparr>hq_version = hr_version header, hq_method = Some (hr_method header), hq_fields = hr_fields header,
      hq_stream_identifier = 1, hq_weight = 16, hq_error = 0, hq_next = None, hq_previous = None\<rparr>"

definition set_error :: "u32 \<Rightarrow> header_request \<Rightarrow> header_request" where
  "set_error err q = q\<lparr>hq_error := err\<rparr>"

subsection \<open>parse_header\<close>

text \<open>
  The read pointer is the rest of the memory and \<open>n\<close>, the bytes left before \<open>pend\<close>: a header
  string may be read past \<open>pend\<close>, an integer is not.
\<close>

type_synonym header_state = "fields_t \<times> dynamic_table"

definition read_index :: "nat \<Rightarrow> nat \<Rightarrow> u8 list \<Rightarrow> (u32 \<times> u8 list) option" where
  "read_index N n buf =
     do { (index, rest) \<leftarrow> decode_integer N (take n buf);
          Some (index, drop (length (take n buf) - length rest) buf) }"

definition header_at :: "dynamic_table \<Rightarrow> u32 \<Rightarrow> header_entry" where
  "header_at dynamic_table index =
     (if index < 62 then mt_at static_table (unat index)
      else mt_at (dt_table dynamic_table) (unat (index - 62)))"

definition fields_insert :: "header_entry \<Rightarrow> fields_t \<Rightarrow> fields_t" where
  "fields_insert header flds = map_insert flds (fst header) (snd header)"

text \<open>A name and a value as strings, and an indexed name with a value.\<close>

definition read_literal :: "u8 list \<Rightarrow> (header_entry \<times> u8 list) option" where
  "read_literal buf =
     do { (field, buf) \<leftarrow> get_header_field buf;
          (text, buf) \<leftarrow> get_header_string buf;
          Some ((field, text), buf) }"

definition read_indexed_literal ::
    "nat \<Rightarrow> dynamic_table \<Rightarrow> nat \<Rightarrow> u8 list \<Rightarrow> (header_entry \<times> u8 list) option" where
  "read_indexed_literal N dynamic_table n buf =
     do { (index, buf) \<leftarrow> read_index N n buf;
          (text, buf) \<leftarrow> get_header_string buf;
          Some ((fst (header_at dynamic_table index), text), buf) }"

text \<open>One round of the loop.\<close>

definition parse_header_field :: "nat \<Rightarrow> header_state \<Rightarrow> u8 list \<Rightarrow> (header_state \<times> u8 list) option" where
  "parse_header_field n st buf =
     (case (st, buf) of
        (_, []) \<Rightarrow> None
      | ((flds, d), b # bs) \<Rightarrow>
          if b AND 0x80 = 0x80 then
            do { (index, rest) \<leftarrow> read_index 7 n buf;
                 Some ((fields_insert (header_at d index) flds, d), rest) }
          else if b = 0x40 then
            do { (header, rest) \<leftarrow> read_literal bs;
                 Some ((fields_insert header flds, dt_insert header d), rest) }
          else if b AND 0xc0 = 0x40 then
            do { (header, rest) \<leftarrow> read_indexed_literal 6 d n buf;
                 Some ((fields_insert header flds, dt_insert header d), rest) }
          else if b = 0x00 then
            do { (header, rest) \<leftarrow> read_literal bs;
                 Some ((fields_insert header flds, d), rest) }
          else if b AND 0xf0 = 0x00 then
            do { (header, rest) \<leftarrow> read_indexed_literal 4 d n buf;
                 Some ((fields_insert header flds, d), rest) }
          else if b = 0x10 then
            do { (header, rest) \<leftarrow> read_literal bs;
                 Some ((fields_insert header flds, d), rest) }
          else if b AND 0xf0 = 0x10 then
            do { (header, rest) \<leftarrow> read_indexed_literal 4 d n buf;
                 Some ((fields_insert header flds, d), rest) }
          else if b AND 0xe0 = 0x20 then
            do { (index, rest) \<leftarrow> read_index 5 n buf;
                 d' \<leftarrow> dt_update_size (unat index) d;
                 Some ((flds, d'), rest) }
          else Some ((flds, d), buf))"

text \<open>Every round moves the pointer: no first byte falls through all the tests.\<close>

lemma get_header_string_shorter: "get_header_string buf = Some (s, rest) \<Longrightarrow> length rest < length buf"
  by (auto simp: get_header_string_def Let_def bind_Some_iff split: list.splits if_splits)

lemma get_header_field_shorter: "get_header_field buf = Some (s, rest) \<Longrightarrow> length rest < length buf"
  by (auto simp: get_header_field_def bind_Some_iff dest: get_header_string_shorter)

lemma decode_integer_loop_shorter: "decode_integer_loop v bs = (w, rest) \<Longrightarrow> length rest \<le> length bs"
  by (induction v bs rule: decode_integer_loop.induct) (auto split: if_splits)

lemma decode_integer_shorter: "decode_integer N bs = Some (w, rest) \<Longrightarrow> length rest < length bs"
  by (auto simp: decode_integer_def Let_def split: list.splits if_splits dest!: decode_integer_loop_shorter)

lemma read_index_shorter: "read_index N n buf = Some (v, rest) \<Longrightarrow> length rest < length buf"
  by (auto simp: read_index_def bind_Some_iff dest!: decode_integer_shorter)

lemma read_literal_shorter: "read_literal buf = Some (h, rest) \<Longrightarrow> length rest < length buf"
  by (auto simp: read_literal_def bind_Some_iff
      dest!: get_header_string_shorter get_header_field_shorter)

lemma read_indexed_literal_shorter:
  "read_indexed_literal N d n buf = Some (h, rest) \<Longrightarrow> length rest < length buf"
  by (auto simp: read_indexed_literal_def bind_Some_iff
      dest!: get_header_string_shorter read_index_shorter)

lemma first_byte_cases:
  "b AND 0x80 = 0x80 \<or> b AND 0xc0 = 0x40 \<or> b AND 0xf0 = 0x00 \<or> b AND 0xf0 = 0x10 \<or> b AND 0xe0 = 0x20"
  for b :: u8
proof -
  have "b AND 0xc0 = 0x40" if "\<not> bit b 7" "bit b 6"
    using that by (intro u8_eqI) (auto simp: bit_simps)
  moreover have "b AND 0xe0 = 0x20" if "\<not> bit b 7" "\<not> bit b 6" "bit b 5"
    using that by (intro u8_eqI) (auto simp: bit_simps)
  moreover have "b AND 0xf0 = 0x10" if "\<not> bit b 7" "\<not> bit b 6" "\<not> bit b 5" "bit b 4"
    using that by (intro u8_eqI) (auto simp: bit_simps)
  moreover have "b AND 0xf0 = 0x00" if "\<not> bit b 7" "\<not> bit b 6" "\<not> bit b 5" "\<not> bit b 4"
    using that by (intro u8_eqI) (auto simp: bit_simps)
  moreover have "b AND 0x80 = 0x80" if "bit b 7"
    using that by (intro u8_eqI) (auto simp: bit_simps)
  ultimately show ?thesis by blast
qed

lemma parse_header_field_shorter:
  assumes "parse_header_field n st buf = Some (st', rest)"
  shows "length rest < length buf"
proof -
  obtain flds d where st: "st = (flds, d)" by (cases st)
  show ?thesis
    using assms first_byte_cases [of "hd buf"]
    by (auto simp: st parse_header_field_def bind_Some_iff split: list.splits if_splits
        dest!: read_index_shorter read_literal_shorter read_indexed_literal_shorter)
qed

function parse_header_loop :: "nat \<Rightarrow> header_state \<Rightarrow> u8 list \<Rightarrow> header_state option" where
  "parse_header_loop n st buf =
     (if n = 0 then Some st
      else case parse_header_field n st buf of
        None \<Rightarrow> None
      | Some (st', rest) \<Rightarrow> parse_header_loop (n - (length buf - length rest)) st' rest)"
  by pat_completeness auto
termination
  by (relation "measure (\<lambda>(n, st, buf). length buf)") (auto dest: parse_header_field_shorter)

declare parse_header_loop.simps [simp del]

definition parse_header ::
    "nat \<Rightarrow> u8 list \<Rightarrow> u32 \<Rightarrow> header_request \<Rightarrow> dynamic_table \<Rightarrow> (header_request \<times> dynamic_table) option" where
  "parse_header n buf stream_identifier q d =
     do { (flds, d') \<leftarrow> parse_header_loop n (hq_fields q, d) buf;
          Some (q\<lparr>hq_stream_identifier := stream_identifier, hq_fields := flds,
                  hq_version := VER_2,
                  hq_method := Some (case flds (Pseudo Method) of
                      Some m \<Rightarrow> get_header_method m | None \<Rightarrow> METHOD_IGNORE_THIS)\<rparr>, d') }"

subsection \<open>copy_http_header_response\<close>

text \<open>The \<open>size_t\<close> index of a table as the \<open>uint32_t\<close> parameter of \<open>encode_integer\<close>.\<close>

definition index_u32 :: "nat option \<Rightarrow> u32" where
  "index_u32 i = (case i of None \<Rightarrow> - 1 | Some n \<Rightarrow> word_of_nat n)"

definition copy_header_line ::
    "dynamic_table \<Rightarrow> header_entry \<Rightarrow> bool \<Rightarrow> (u8 list \<times> dynamic_table) option" where
  "copy_header_line d line add_index =
     (let dt = dt_table d; field = fst line in
      if mt_contains_line static_table line then
        Some (encode_integer 7 0x80 (index_u32 (mt_find_line static_table line)), d)
      else if mt_contains_line dt line then
        Some (encode_integer 7 0x80 (index_u32 (mt_find_line dt line)), d)
      else if add_index then
        (if mt_contains_field static_table field then
           do { text \<leftarrow> add_header_string (snd line);
                Some (encode_integer 6 0x40 (index_u32 (mt_find_field static_table field)) @ text,
                      dt_insert line d) }
         else if mt_contains_field dt field then
           do { text \<leftarrow> add_header_string (snd line);
                Some (encode_integer 6 0x40 (index_u32 (mt_find_field dt field)) @ text, d) }
         else
           do { name \<leftarrow> add_header_string (get_field_string field);
                text \<leftarrow> add_header_string (snd line);
                Some (0x40 # name @ text, dt_insert line d) })
      else
        (if mt_contains_field static_table field then
           do { text \<leftarrow> add_header_string (snd line);
                Some (encode_integer 4 0x00 (index_u32 (mt_find_field static_table field)) @ text, d) }
         else if mt_contains_field dt field then
           do { text \<leftarrow> add_header_string (snd line);
                Some (encode_integer 4 0x00 (index_u32 (mt_find_field dt field)) @ text, d) }
         else
           do { name \<leftarrow> add_header_string (get_field_string field);
                text \<leftarrow> add_header_string (snd line);
                Some (0x00 # name @ text, d) }))"

text \<open>The overloads: a string, a pointer and a size, a character array, a number or an enumerator.\<close>

definition copy_header_string ::
    "dynamic_table \<Rightarrow> FIELD \<Rightarrow> string \<Rightarrow> bool \<Rightarrow> (u8 list \<times> dynamic_table) option" where
  "copy_header_string d field text add_index = copy_header_line d (field, text) add_index"

definition copy_header_pointer ::
    "dynamic_table \<Rightarrow> FIELD \<Rightarrow> string \<Rightarrow> nat \<Rightarrow> bool \<Rightarrow> (u8 list \<times> dynamic_table) option" where
  "copy_header_pointer d field text N add_index =
     do { s \<leftarrow> subrange text 0 N; copy_header_line d (field, s) add_index }"

definition copy_header_array ::
    "dynamic_table \<Rightarrow> FIELD \<Rightarrow> string \<Rightarrow> bool \<Rightarrow> (u8 list \<times> dynamic_table) option" where
  "copy_header_array d field text add_index = copy_header_line d (field, text @ [NUL]) add_index"

text \<open>\<open>std::to_string\<close> of an unsigned number: its decimal digits.\<close>

definition std_to_string :: "u64 \<Rightarrow> string" where
  "std_to_string n = to_string_uint 10 lower False n"

definition copy_header_number ::
    "dynamic_table \<Rightarrow> FIELD \<Rightarrow> u64 \<Rightarrow> bool \<Rightarrow> (u8 list \<times> dynamic_table) option" where
  "copy_header_number d field n add_index = copy_header_line d (field, std_to_string n) add_index"

text \<open>The status line: seven codes have the byte of their static table line.\<close>

definition copy_status_header :: "dynamic_table \<Rightarrow> CODE \<Rightarrow> (u8 list \<times> dynamic_table) option" where
  "copy_status_header d code =
     (if code = 200 then Some ([0x80 + 8], d)
      else if code = 204 then Some ([0x80 + 9], d)
      else if code = 206 then Some ([0x80 + 10], d)
      else if code = 304 then Some ([0x80 + 11], d)
      else if code = 400 then Some ([0x80 + 12], d)
      else if code = 404 then Some ([0x80 + 13], d)
      else if code = 500 then Some ([0x80 + 14], d)
      else copy_header_number d (Pseudo Status) (word_of_nat code) True)"

subsection \<open>A written line is read back\<close>

lemma encode_integer_small: "v < int_mask N \<Longrightarrow> encode_integer N head v = [head + ucast v]"
  by (simp add: encode_integer_def)

lemma read_index_encode:
  assumes "1 \<le> N" "N \<le> 8" "ucast head AND int_mask N = 0" "v < int_mask N" "0 < n"
  shows "read_index N n ((head + ucast v) # rest) = Some (v, rest)"
proof -
  have "take n ((head + ucast v) # rest) = encode_integer N head v @ take (n - 1) rest"
    using assms(4, 5) by (simp add: encode_integer_small take_Cons')
  then show ?thesis
    using decode_integer_encode [OF assms(1-3), of v "take (n - 1) rest"] assms(4, 5)
    by (simp add: read_index_def encode_integer_small)
qed

text \<open>The first bytes of an indexed line and of a literal with an indexed name.\<close>

lemma index_bytes:
  assumes "i < 62"
  shows "(0x80 + word_of_nat i :: u8) AND 0x80 = 0x80 \<and>
    (0x40 + word_of_nat i :: u8) AND 0x80 \<noteq> 0x80 \<and> (0x40 + word_of_nat i :: u8) AND 0xc0 = 0x40 \<and>
    (0 < i \<longrightarrow> 0x40 + word_of_nat i \<noteq> (0x40 :: u8)) \<and>
    (word_of_nat i :: u32) < int_mask 6 \<and> (word_of_nat i :: u32) < int_mask 7 \<and>
    (word_of_nat i :: u32) < 62 \<and>
    ucast (word_of_nat i :: u32) = (word_of_nat i :: u8) \<and> unat (word_of_nat i :: u32) = i"
proof -
  have "list_all (\<lambda>i. (0x80 + word_of_nat i :: u8) AND 0x80 = 0x80 \<and>
    (0x40 + word_of_nat i :: u8) AND 0x80 \<noteq> 0x80 \<and> (0x40 + word_of_nat i :: u8) AND 0xc0 = 0x40 \<and>
    (0 < i \<longrightarrow> 0x40 + word_of_nat i \<noteq> (0x40 :: u8)) \<and>
    (word_of_nat i :: u32) < int_mask 6 \<and> (word_of_nat i :: u32) < int_mask 7 \<and>
    (word_of_nat i :: u32) < 62 \<and>
    ucast (word_of_nat i :: u32) = (word_of_nat i :: u8) \<and> unat (word_of_nat i :: u32) = i) [0..<62]"
    by (simp add: upt_conv_Cons int_mask_def)
  then show ?thesis using assms by (rule upt_allD)
qed

lemma mt_inv_static_table: "mt_inv static_table"
  by (simp add: static_table_def mt_inv_of_list)

lemma static_line_index:
  assumes "mt_contains_line static_table line"
  obtains i where "i < 62" "mt_find_line static_table line = Some i" "mt_at static_table i = line"
proof -
  obtain i where i: "mt_find_line static_table line = Some i"
    using assms by (auto simp: mt_contains_line_def mt_find_line_def)
  with mt.line_found [OF mt_inv_static_table this] static_table_size show ?thesis
    by (intro that [of i]) simp_all
qed

lemma static_field_index:
  assumes "mt_contains_field static_table f" "f \<noteq> Last IGNORE_THIS"
  obtains i where "0 < i" "i < 62" "mt_find_field static_table f = Some i" "fst (mt_at static_table i) = f"
proof -
  obtain i where i: "mt_find_field static_table f = Some i"
    using assms(1) by (auto simp: mt_contains_field_def mt_find_field_def)
  have at: "i < 62" "fst (mt_at static_table i) = f"
    using mt.field_found [OF mt_inv_static_table i] static_table_size by simp_all
  have "fst (mt_at static_table 0) = Last IGNORE_THIS"
    by (simp add: mt_at_def static_table_def mt_entries_of_list static_table_list_def)
  with at assms(2) have "i \<noteq> 0" by metis
  with at i show ?thesis by (intro that [of i]) simp_all
qed

lemma header_at_static: "i < 62 \<Longrightarrow> header_at d (word_of_nat i) = mt_at static_table i"
  using index_bytes [of i] by (simp add: header_at_def)

lemma parse_indexed_byte:
  assumes "i < 62" "0 < n"
  shows "parse_header_field n (flds, d) ((0x80 + word_of_nat i) # rest) =
    Some ((fields_insert (mt_at static_table i) flds, d), rest)"
proof -
  have "read_index 7 n ((0x80 + word_of_nat i) # rest) = Some (word_of_nat i, rest)"
    using read_index_encode [of 7 "0x80" "word_of_nat i" n rest] index_bytes [OF assms(1)] assms(2)
    by (simp add: int_mask_def)
  then show ?thesis
    using index_bytes [OF assms(1)] header_at_static [OF assms(1)] by (simp add: parse_header_field_def)
qed

lemma parse_static_line:
  assumes "mt_contains_line static_table line" "copy_header_line d line add_index = Some (out, d')" "0 < n"
  shows "parse_header_field n (flds, e) (out @ rest) = Some ((fields_insert line flds, e), rest) \<and> d' = d \<and>
    length out = 1"
proof -
  obtain i where i: "i < 62" "mt_find_line static_table line = Some i" "mt_at static_table i = line"
    using static_line_index [OF assms(1)] .
  then show ?thesis
    using assms(2) parse_indexed_byte [OF i(1) assms(3), of flds e rest] index_bytes [OF i(1)] assms(1)
    by (auto simp: copy_header_line_def index_u32_def encode_integer_small)
qed

text \<open>The bytes written for the seven status codes are those of their lines.\<close>

lemma static_line_unique:
  assumes "mt_contains_line static_table line"
    "list_all (\<lambda>j. static_table_list ! j = line \<longrightarrow> j = k) [0..<62]"
  shows "mt_find_line static_table line = Some k"
proof -
  obtain i where i: "i < 62" "mt_find_line static_table line = Some i" "mt_at static_table i = line"
    using static_line_index [OF assms(1)] .
  have "static_table_list ! i = line"
    using i(1, 3) static_table_size by (simp add: mt_at_def mt_size_def static_table_def mt_entries_of_list)
  with i(1, 2) assms(2) show ?thesis by (auto simp: list_all_iff)
qed

lemma static_table_contains:
  "mt_contains_line static_table line \<longleftrightarrow> line \<in> set static_table_list \<and> snd line \<noteq> []"
  using mt_of_list_complete [of line static_table_list] mt_inv_valueD [OF mt_inv_static_table, of line]
  by (auto simp: mt_contains_line_def mt_find_line_def static_table_def mt_entries_of_list in_set_conv_nth)

lemma static_table_contains_field:
  "mt_contains_field static_table f \<longleftrightarrow> f \<in> fst ` set static_table_list"
  using mt_inv_entryD [OF mt_inv_static_table]
  by (auto simp: mt_contains_field_def entry_index_def field_count_0_iff static_table_def mt_entries_of_list)

lemma static_status_lines:
  "mt_find_line static_table (Pseudo Status, ''200'') = Some 8"
  "mt_find_line static_table (Pseudo Status, ''204'') = Some 9"
  "mt_find_line static_table (Pseudo Status, ''206'') = Some 10"
  "mt_find_line static_table (Pseudo Status, ''304'') = Some 11"
  "mt_find_line static_table (Pseudo Status, ''400'') = Some 12"
  "mt_find_line static_table (Pseudo Status, ''404'') = Some 13"
  "mt_find_line static_table (Pseudo Status, ''500'') = Some 14"
  by (rule static_line_unique, simp add: static_table_contains static_table_list_def,
      simp add: static_table_list_def upt_conv_Cons)+

lemma status_code_numbers:
  "code_number 200 = ''200''" "code_number 204 = ''204''" "code_number 206 = ''206''"
  "code_number 304 = ''304''" "code_number 400 = ''400''" "code_number 404 = ''404''"
  "code_number 500 = ''500''"
  by code_simp+

lemma status_header_line:
  assumes "code \<in> {200, 204, 206, 304, 400, 404, 500}"
  shows "copy_status_header d code = copy_header_line d (Pseudo Status, code_number code) True"
proof -
  have "mt_contains_line static_table l" if "mt_find_line static_table l = Some i" for l i
    using that by (simp add: mt_contains_line_def mt_find_line_def)
  note contains = this [OF static_status_lines(1)] this [OF static_status_lines(2)]
    this [OF static_status_lines(3)] this [OF static_status_lines(4)] this [OF static_status_lines(5)]
    this [OF static_status_lines(6)] this [OF static_status_lines(7)]
  show ?thesis
    using assms
    by (auto simp: copy_status_header_def copy_header_line_def status_code_numbers contains
        static_status_lines index_u32_def encode_integer_small int_mask_def)
qed

lemma parse_literal_line:
  assumes line: "copy_header_line d (f, text) True = Some (out, d')"
      "\<not> mt_contains_line static_table (f, text)" "\<not> mt_contains_line (dt_table d) (f, text)"
      "mt_contains_field static_table f" "f \<noteq> Last IGNORE_THIS"
    and str: "text \<noteq> []" "coded = (if last text = NUL then butlast text else text)"
      "huffman_string_size (bytes_of coded) < min 127 (length text)"
    and got: "got = map (\<lambda>c. if c = CHR 0x05 then CHR 0x06 else c) coded"
    and n: "0 < n"
  shows "parse_header_field n (flds, e) (out @ rest) =
      Some ((fields_insert (f, got) flds, dt_insert (f, got) e), rest) \<and> d' = dt_insert (f, text) d"
proof -
  obtain i where i: "0 < i" "i < 62" "mt_find_field static_table f = Some i" "fst (mt_at static_table i) = f"
    using static_field_index [OF line(4, 5)] .
  obtain s where s: "add_header_string text = Some s" "get_header_string (s @ rest) = Some (got, rest)"
    using header_string_read_any [OF str] unfolding got by blast
  have out: "out = (0x40 + word_of_nat i) # s" "d' = dt_insert (f, text) d"
    using line s(1) i index_bytes [OF i(2)]
    by (auto simp: copy_header_line_def Let_def index_u32_def encode_integer_small)
  have "read_index 6 n ((0x40 + word_of_nat i) # s @ rest) = Some (word_of_nat i, s @ rest)"
    using read_index_encode [of 6 "0x40" "word_of_nat i" n "s @ rest"] index_bytes [OF i(2)] n
    by (simp add: int_mask_def)
  then have "read_indexed_literal 6 e n (out @ rest) = Some ((f, got), rest)"
    using s(2) header_at_static [OF i(2)] i(4) by (simp add: read_indexed_literal_def out)
  then show ?thesis
    using index_bytes [OF i(2)] i(1) by (simp add: parse_header_field_def out)
qed

text \<open>
  A line of the writer's dynamic table is written with its index in that table, without the 62 places
  of the static table before it: the reader takes it for a line of the static table.
\<close>

lemma parse_dynamic_line:
  assumes "\<not> mt_contains_line static_table (f, text)" "mt_find_line (dt_table d) (f, text) = Some i"
    and "i < 62" "text \<noteq> []" "copy_header_line d (f, text) add_index = Some (out, d')" "0 < n"
  shows "parse_header_field n (flds, e) (out @ rest) =
      Some ((fields_insert (mt_at static_table i) flds, e), rest) \<and> d' = d \<and>
    mt_at static_table i \<noteq> (f, text)"
proof -
  have "out = [0x80 + word_of_nat i]" "d' = d"
    using assms(1,2,5) index_bytes [OF assms(3)]
    by (auto simp: copy_header_line_def Let_def index_u32_def encode_integer_small mt_contains_line_def
        mt_find_line_def)
  moreover have "mt_at static_table i \<in> set static_table_list"
    using assms(3) static_table_size by (simp add: mt_at_def mt_size_def static_table_def mt_entries_of_list)
  ultimately show ?thesis
    using parse_indexed_byte [OF assms(3,6), of flds e rest] assms(1,4) by (auto simp: static_table_contains)
qed

text \<open>
  The status line of a response is one byte for each of the seven codes that have a line in
  the static table, and reading it inserts \<open>:status\<close> with the digits of the code.
\<close>

theorem status_header_roundtrip:
  assumes "code \<in> {200, 204, 206, 304, 400, 404, 500}" "0 < n"
  shows "\<exists>b. copy_status_header d code = Some ([b], d) \<and>
    parse_header_field n (flds, e) (b # rest) =
      Some ((fields_insert (Pseudo Status, code_number code) flds, e), rest)"
proof -
  have "mt_contains_line static_table (Pseudo Status, code_number code)"
    using assms(1) static_status_lines
    by (auto simp: status_code_numbers mt_contains_line_def mt_find_line_def)
  moreover obtain out d' where "copy_status_header d code = Some (out, d')"
    using assms(1) by (auto simp: copy_status_header_def)
  moreover from this have "copy_header_line d (Pseudo Status, code_number code) True = Some (out, d')"
    using status_header_line [OF assms(1)] by simp
  ultimately show ?thesis
    using parse_static_line [of "(Pseudo Status, code_number code)" d True out d' n flds e rest] assms(2)
    by (cases out) auto
qed

theorem status_header_roundtrip_witness:
  "\<exists>b. copy_status_header (new_dynamic_table 12) 404 = Some ([b], new_dynamic_table 12) \<and>
    parse_header_field 1 (Map.empty, new_dynamic_table 12) (b # []) =
      Some ((fields_insert (Pseudo Status, code_number 404) Map.empty, new_dynamic_table 12), [])"
  by (rule status_header_roundtrip) simp_all

text \<open>
  C33: what a header line written by \<open>copy_http_header_response\<close> reads back as.  A line of the static
  table is read back exactly, with both dynamic tables unchanged.  A line that is in neither table, is to
  be indexed and has a field of the static table, and whose text is not empty and has a Huffman code
  shorter than itself and than 127 bytes, is read back without its terminating NUL and with 6 for every
  byte 5, and the reader inserts it into its dynamic table as the writer did.  A line of the writer's
  dynamic table, at one of the first 62 places, is read back wrongly: the index is written as it is, and
  the reader takes the static line of that index, which is another one.
\<close>

theorem header_line_roundtrip:
  assumes "copy_header_line d (f, v) add_index = Some (out, d')" "0 < n"
    and "coded = (if last v = NUL then butlast v else v)"
    and "got = map (\<lambda>c. if c = CHR 0x05 then CHR 0x06 else c) coded"
  shows "(mt_contains_line static_table (f, v) \<longrightarrow>
      parse_header_field n (flds, e) (out @ rest) = Some ((fields_insert (f, v) flds, e), rest) \<and> d' = d) \<and>
    (\<not> mt_contains_line static_table (f, v) \<and> \<not> mt_contains_line (dt_table d) (f, v) \<and> add_index \<and>
       mt_contains_field static_table f \<and> f \<noteq> Last IGNORE_THIS \<and> v \<noteq> [] \<and>
       huffman_string_size (bytes_of coded) < min 127 (length v) \<longrightarrow>
      parse_header_field n (flds, e) (out @ rest) =
        Some ((fields_insert (f, got) flds, dt_insert (f, got) e), rest) \<and>
      d' = dt_insert (f, v) d) \<and>
    (\<forall>i < 62. \<not> mt_contains_line static_table (f, v) \<and> mt_find_line (dt_table d) (f, v) = Some i \<and> v \<noteq> [] \<longrightarrow>
      parse_header_field n (flds, e) (out @ rest) = Some ((fields_insert (mt_at static_table i) flds, e), rest) \<and>
      d' = d \<and> mt_at static_table i \<noteq> (f, v))"
proof (rule conjI [OF _ conjI]; intro allI impI)
  assume "mt_contains_line static_table (f, v)"
  from parse_static_line [OF this assms(1, 2)]
  show "parse_header_field n (flds, e) (out @ rest) = Some ((fields_insert (f, v) flds, e), rest) \<and> d' = d"
    by blast
next
  assume line: "\<not> mt_contains_line static_table (f, v) \<and> \<not> mt_contains_line (dt_table d) (f, v) \<and> add_index \<and>
       mt_contains_field static_table f \<and> f \<noteq> Last IGNORE_THIS \<and> v \<noteq> [] \<and>
       huffman_string_size (bytes_of coded) < min 127 (length v)"
  then have "copy_header_line d (f, v) True = Some (out, d')" using assms(1) by simp
  then show "parse_header_field n (flds, e) (out @ rest) =
        Some ((fields_insert (f, got) flds, dt_insert (f, got) e), rest) \<and> d' = dt_insert (f, v) d"
    using line assms(2-4) by (intro parse_literal_line) simp_all
next
  fix i :: nat
  assume "i < 62" "\<not> mt_contains_line static_table (f, v) \<and> mt_find_line (dt_table d) (f, v) = Some i \<and> v \<noteq> []"
  then show "parse_header_field n (flds, e) (out @ rest) =
        Some ((fields_insert (mt_at static_table i) flds, e), rest) \<and> d' = d \<and> mt_at static_table i \<noteq> (f, v)"
    using assms(1,2) by (intro parse_dynamic_line) simp_all
qed

theorem header_line_roundtrip_witness:
  "\<exists>out d'. copy_header_line (new_dynamic_table 12) (Response Server, ''www.iot.com'') True = Some (out, d') \<and>
    parse_header_field 9 (Map.empty, new_dynamic_table 12) (out @ []) =
      Some ((fields_insert (Response Server, ''www.iot.com'') Map.empty,
             dt_insert (Response Server, ''www.iot.com'') (new_dynamic_table 12)), [])"
proof -
  let ?d = "new_dynamic_table 12" and ?v = "''www.iot.com''" and ?f = "Response Server"
  have sz: "huffman_string_size (bytes_of ?v) = 8" by code_simp
  have 1: "\<not> mt_contains_line static_table (?f, ?v)" "mt_contains_field static_table ?f"
    by (simp_all add: static_table_contains static_table_contains_field static_table_list_def)
  have 2: "\<not> mt_contains_line (dt_table ?d) (?f, ?v)"
    by (simp add: new_dynamic_table_def empty_map_table_def mt_contains_line_def)
  obtain s where "add_header_string ?v = Some s"
    using header_string_read_back [of ?v ?v "[]"] sz by auto
  then obtain out d' where "copy_header_line ?d (?f, ?v) True = Some (out, d')"
    using 1 2 by (simp add: copy_header_line_def Let_def)
  with header_line_roundtrip [of ?d ?f ?v True out d' 9 ?v ?v Map.empty ?d "[]"] 1 2 sz
  show ?thesis by auto
qed

end
