(* ===== verification/Http2Request.thy ===== *)
theory Http2Request
  imports Http2Headers Http2Frame Errors
begin

text \<open>
  \<open>http::v2::request\<close> of httpparser/include/http2.hh: the linked list of the stream requests of a
  connection, the frame parser that fills it, its destructor, and the HTTP/2 error pages of
  deviceserver/include/iothttphelper.hh.

  The heap holds every \<open>header_request\<close> that \<open>new\<close> has returned, a pointer is its index.  The
  dynamic table and the peer's settings are references in the code, shared by the requests of a
  connection; here they are part of the state.
\<close>

record request =
  rq_heap :: "header_request list"
  rq_first :: "nat option"
  rq_last :: "nat option"
  rq_header_map :: "u32 \<rightharpoonup> nat"
  rq_dynamic_table :: dynamic_table
  rq_peer_settings :: settings_store
  rq_max_stream :: u32

definition new_request :: "dynamic_table \<Rightarrow> settings_store \<Rightarrow> request" where
  "new_request d peer =
     \<lparr>rq_heap = [], rq_first = None, rq_last = None, rq_header_map = Map.empty,
      rq_dynamic_table = d, rq_peer_settings = peer, rq_max_stream = 0\<rparr>"

subsection \<open>insert\<close>

definition alloc :: "header_request \<Rightarrow> request \<Rightarrow> nat \<times> request" where
  "alloc q rq = (length (rq_heap rq), rq\<lparr>rq_heap := rq_heap rq @ [q]\<rparr>)"

definition set_next :: "nat \<Rightarrow> nat option \<Rightarrow> request \<Rightarrow> request" where
  "set_next p nxt rq = rq\<lparr>rq_heap := (rq_heap rq)[p := (rq_heap rq ! p)\<lparr>hq_next := nxt\<rparr>]\<rparr>"

text \<open>Append at the end: after the last element, or as the first.\<close>

definition link_last :: "nat \<Rightarrow> request \<Rightarrow> request" where
  "link_last p rq =
     (case rq_last rq of Some l \<Rightarrow> set_next l (Some p) rq | None \<Rightarrow> rq\<lparr>rq_first := Some p\<rparr>)"

definition insert_request :: "nat \<Rightarrow> u32 \<Rightarrow> request \<Rightarrow> request" where
  "insert_request pheader stream_dependency rq =
     (let rq' =
        (if stream_dependency \<noteq> 0 then
           (case rq_header_map rq stream_dependency of
              None \<Rightarrow>
                let (dummy, rq1) = alloc (new_header_request stream_dependency 16) rq;
                    rq2 = rq1\<lparr>rq_header_map := map_insert (rq_header_map rq1) stream_dependency dummy\<rparr>
                in (link_last dummy (set_next dummy (Some pheader) rq2))\<lparr>rq_last := Some pheader\<rparr>
            | Some dep \<Rightarrow>
                let rq1 = set_next dep (Some pheader)
                            (set_next pheader (hq_next (rq_heap rq ! dep)) rq)
                in if rq_last rq = Some dep then rq1\<lparr>rq_last := Some pheader\<rparr> else rq1)
         else (link_last pheader rq)\<lparr>rq_last := Some pheader\<rparr>)
      in rq'\<lparr>rq_header_map := map_insert (rq_header_map rq')
                (hq_stream_identifier (rq_heap rq' ! pheader)) pheader\<rparr>)"

text \<open>The constructor from an upgraded HTTP/1.1 request.\<close>

definition upgrade_request :: "dynamic_table \<Rightarrow> settings_store \<Rightarrow> http_header_request \<Rightarrow> request" where
  "upgrade_request d peer header =
     (let (p, rq) = alloc (upgrade_header_request header) (new_request d peer)
      in insert_request p 0 rq)"

text \<open>
  The look up of a stream, with a new entry at the end (or behind its dependency) for a stream
  that is not found.
\<close>

definition find_or_insert :: "u32 \<Rightarrow> u32 \<Rightarrow> request \<Rightarrow> nat \<times> request" where
  "find_or_insert stream_identifier stream_dependency rq =
     (case rq_header_map rq stream_identifier of
        None \<Rightarrow> let (p, rq1) = alloc (new_header_request 0 16) rq
                in (p, insert_request p stream_dependency rq1)
      | Some p \<Rightarrow> (p, rq))"

subsection \<open>The destructor\<close>

text \<open>
  Walks the list and deletes every element: \<open>freed\<close> are the elements deleted so far, reading or
  deleting one of them again is \<open>None\<close>, and so is running out of fuel.
\<close>

fun free_list :: "nat \<Rightarrow> header_request list \<Rightarrow> nat option \<Rightarrow> nat list \<Rightarrow> nat list option" where
  "free_list fuel heap None freed = Some freed"
| "free_list 0 heap (Some p) freed = None"
| "free_list (Suc fuel) heap (Some p) freed =
     (if p \<in> set freed \<or> length heap \<le> p then None
      else free_list fuel heap (hq_next (heap ! p)) (freed @ [p]))"

definition delete_request :: "request \<Rightarrow> nat list option" where
  "delete_request rq = free_list (length (rq_heap rq)) (rq_heap rq) (rq_first rq) []"

subsection \<open>parse\<close>

text \<open>
  One frame: the memory \<open>buf\<close>, the position \<open>pos\<close> of its payload (behind the pad length), the end
  \<open>pend\<close> of what was received.  The first component of the result is the code to return, if the
  loop ends here.
\<close>

type_synonym parse_result = "err_t option \<times> request \<times> wbuf"

definition stop_goaway :: "request \<Rightarrow> wbuf \<Rightarrow> string \<Rightarrow> parse_result option" where
  "stop_goaway rq wb debug_data =
     do { wb' \<leftarrow> goaway_add_frame wb (rq_max_stream rq) PROTOCOL_ERROR debug_data;
          Some (Some HTTP2_INITIATE_GOAWAY, rq, wb') }"

definition read_dependency :: "u8 list \<Rightarrow> nat \<Rightarrow> u32 option" where
  "read_dependency buf pos =
     do { bs \<leftarrow> subrange buf pos 4; Some (changeEndian32 (of_le32 bs) AND 0x7fffffff) }"

text \<open>The block of a HEADERS frame goes into the request of its stream.\<close>

definition parse_headers_into :: "u32 \<Rightarrow> u32 \<Rightarrow> nat \<Rightarrow> u8 list \<Rightarrow> request \<Rightarrow> request option" where
  "parse_headers_into stream_identifier dep n buf rq =
     (let (p, rq1) = find_or_insert stream_identifier dep rq in
      do { (q, d) \<leftarrow> parse_header n buf stream_identifier (rq_heap rq1 ! p) (rq_dynamic_table rq1);
           Some (rq1\<lparr>rq_heap := (rq_heap rq1)[p := q], rq_dynamic_table := d\<rparr>) })"

definition set_stream_error :: "u32 \<Rightarrow> u32 \<Rightarrow> request \<Rightarrow> request" where
  "set_stream_error stream_identifier err rq =
     (let (p, rq1) = find_or_insert stream_identifier 0 rq in
      rq1\<lparr>rq_heap := (rq_heap rq1)[p := set_error err (rq_heap rq1 ! p)]\<rparr>)"

definition parse_headers_frame ::
    "frame \<Rightarrow> u8 list \<Rightarrow> nat \<Rightarrow> nat \<Rightarrow> request \<Rightarrow> wbuf \<Rightarrow> parse_result option" where
  "parse_headers_frame f buf pos padded_bytes rq wb =
     (let stream_identifier = get_stream_identifier f; stop = pos + unat (get_length f) in
      do { (dep, pos') \<leftarrow> (if contains_flag f PRIORITY_flag
             then do { dep \<leftarrow> read_dependency buf pos; Some (dep, pos + 4 + 1) }
             else Some (0, pos));
           if stream_identifier = 0 then
             stop_goaway rq wb ''HEADERS frame requires stream ID to be set''
           else
             do { rq' \<leftarrow> parse_headers_into stream_identifier dep (stop - padded_bytes - pos') (drop pos' buf) rq;
                  Some (None, rq', wb) } })"

definition parse_rst_stream_frame ::
    "frame \<Rightarrow> u8 list \<Rightarrow> nat \<Rightarrow> request \<Rightarrow> wbuf \<Rightarrow> parse_result option" where
  "parse_rst_stream_frame f buf pos rq wb =
     (let stream_identifier = get_stream_identifier f in
      do { bs \<leftarrow> subrange buf pos 4;
           if stream_identifier = 0 then
             stop_goaway rq wb ''RST_STREAM requires stream ID to be set''
           else Some (None, set_stream_error stream_identifier (of_le32 bs) rq, wb) })"

definition parse_settings_frame ::
    "frame \<Rightarrow> u8 list \<Rightarrow> nat \<Rightarrow> nat \<Rightarrow> request \<Rightarrow> wbuf \<Rightarrow> parse_result option" where
  "parse_settings_frame f buf pos pend rq wb =
     (if contains_flag f ACK then Some (None, rq, wb)
      else
        do { (st, _) \<leftarrow> parse_frame (rq_peer_settings rq) f buf pos pend;
             d \<leftarrow> dt_update_size (unat (st_header_table_size st)) (rq_dynamic_table rq);
             wb' \<leftarrow> put settings_add_ack_frame wb;
             Some (None, rq\<lparr>rq_peer_settings := st, rq_dynamic_table := d\<rparr>, wb') })"

definition ping_payload_size :: nat where
  "ping_payload_size = 64"

definition parse_ping_frame ::
    "frame \<Rightarrow> u8 list \<Rightarrow> nat \<Rightarrow> request \<Rightarrow> wbuf \<Rightarrow> parse_result option" where
  "parse_ping_frame f buf pos rq wb =
     (if get_stream_identifier f \<noteq> 0 then
        stop_goaway rq wb ''PING can have have stream ID zero(0)''
      else if unat (get_length f) \<noteq> ping_payload_size then
        stop_goaway rq wb ''PING frame length can only be 64''
      else
        do { wb1 \<leftarrow> put (new_frame_bytes (word_of_nat ping_payload_size) PING [ACK] 0) wb;
             payload \<leftarrow> subrange buf pos ping_payload_size;
             wb2 \<leftarrow> put payload wb1;
             Some (None, rq, wb2) })"

definition process_frame ::
    "frame \<Rightarrow> u8 list \<Rightarrow> nat \<Rightarrow> nat \<Rightarrow> nat \<Rightarrow> request \<Rightarrow> wbuf \<Rightarrow> parse_result option" where
  "process_frame f buf pos padded_bytes pend rq wb =
     (case get_type f of
        Some HEADERS \<Rightarrow> parse_headers_frame f buf pos padded_bytes rq wb
      | Some PRIORITY_frame \<Rightarrow> do { _ \<leftarrow> read_dependency buf pos; Some (None, rq, wb) }
      | Some RST_STREAM \<Rightarrow> parse_rst_stream_frame f buf pos rq wb
      | Some SETTINGS \<Rightarrow> parse_settings_frame f buf pos pend rq wb
      | Some PUSH_PROMISE \<Rightarrow> stop_goaway rq wb ''PUSH PROMISE not supported''
      | Some PING \<Rightarrow> parse_ping_frame f buf pos rq wb
      | Some GOAWAY \<Rightarrow> Some (Some HTTP2_INITIATE_GOAWAY, rq, wb)
      | Some WINDOW_UPDATE \<Rightarrow> Some (None, rq, wb)
      | Some CONTINUATION \<Rightarrow> Some (None, rq, wb)
      | _ \<Rightarrow> Some (None, rq, wb))"

text \<open>Every case that goes on moves the read pointer by the length of the frame.\<close>

function request_parse ::
    "u8 list \<Rightarrow> nat \<Rightarrow> nat \<Rightarrow> request \<Rightarrow> wbuf \<Rightarrow> (err_t \<times> request \<times> wbuf) option" where
  "request_parse buf pstart pend rq wb =
     (if pstart + frame_size \<le> pend then
        (case frame_at buf pstart of
           None \<Rightarrow> None
         | Some f \<Rightarrow>
             let rq1 = (if rq_max_stream rq < get_stream_identifier f
                        then rq\<lparr>rq_max_stream := get_stream_identifier f\<rparr> else rq) in
             (case (if contains_flag f PADDED
                    then map_option (\<lambda>b. (unat b, pstart + frame_size + 1)) (load buf (pstart + frame_size))
                    else Some (0, pstart + frame_size)) of
                None \<Rightarrow> None
              | Some (padded_bytes, pos) \<Rightarrow>
                  (case process_frame f buf pos padded_bytes pend rq1 wb of
                     None \<Rightarrow> None
                   | Some (Some err, rq2, wb2) \<Rightarrow> Some (err, rq2, wb2)
                   | Some (None, rq2, wb2) \<Rightarrow>
                       request_parse buf (pos + unat (get_length f)) pend rq2 wb2)))
      else Some (SUCCESS, rq, wb))"
  by pat_completeness auto
termination
  by (relation "measure (\<lambda>(buf, pstart, pend, rq, wb). pend - pstart)")
    (auto simp: frame_size_def split: if_splits)

declare request_parse.simps [simp del]

subsection \<open>The list of stream requests\<close>

text \<open>\<open>chain h p is e\<close>: from \<open>p\<close> the next pointers lead through the elements \<open>is\<close> to \<open>e\<close>.\<close>

fun chain :: "header_request list \<Rightarrow> nat option \<Rightarrow> nat list \<Rightarrow> nat option \<Rightarrow> bool" where
  "chain h p [] e \<longleftrightarrow> p = e"
| "chain h p (i # is) e \<longleftrightarrow> p = Some i \<and> i < length h \<and> chain h (hq_next (h ! i)) is e"

lemma chain_append: "chain h p (xs @ ys) e \<longleftrightarrow> (\<exists>m. chain h p xs m \<and> chain h m ys e)"
  by (induction xs arbitrary: p) auto

lemma chain_bound: "chain h p xs e \<Longrightarrow> i \<in> set xs \<Longrightarrow> i < length h"
  by (induction xs arbitrary: p) auto

lemma chain_grow: "chain h p xs e \<Longrightarrow> chain (h @ [q]) p xs e"
  by (induction xs arbitrary: p) (auto simp: nth_append)

lemma chain_other: "i \<notin> set xs \<Longrightarrow> chain (h[i := q]) p xs e = chain h p xs e"
  by (induction xs arbitrary: p) auto

lemma chain_same_next:
  assumes "hq_next q = hq_next (h ! i)"
  shows "chain (h[i := q]) p xs e = chain h p xs e"
proof (induction xs arbitrary: p)
  case (Cons x xs)
  have "hq_next (h[i := q] ! x) = hq_next (h ! x)" if "x < length h"
    using assms that by (cases "x = i") simp_all
  then show ?case by (simp only: chain.simps length_list_update Cons cong: conj_cong)
qed simp

text \<open>The elements in list order; the map leads to elements of the list.\<close>

definition linked :: "request \<Rightarrow> nat list \<Rightarrow> bool" where
  "linked rq is \<longleftrightarrow> chain (rq_heap rq) (rq_first rq) is None \<and> distinct is \<and>
     rq_last rq = (if is = [] then None else Some (last is)) \<and> ran (rq_header_map rq) \<subseteq> set is"

lemma linkedI:
  "chain (rq_heap rq) (rq_first rq) is None \<Longrightarrow> distinct is \<Longrightarrow>
   rq_last rq = (if is = [] then None else Some (last is)) \<Longrightarrow>
   ran (rq_header_map rq) \<subseteq> set is \<Longrightarrow> linked rq is"
  by (simp add: linked_def)

lemma linkedD:
  assumes "linked rq is"
  shows "chain (rq_heap rq) (rq_first rq) is None" "distinct is"
    "rq_last rq = (if is = [] then None else Some (last is))" "ran (rq_header_map rq) \<subseteq> set is"
  using assms by (simp_all add: linked_def)

lemma set_next_simps [simp]:
  "rq_first (set_next p x rq) = rq_first rq" "rq_last (set_next p x rq) = rq_last rq"
  "rq_header_map (set_next p x rq) = rq_header_map rq"
  "rq_heap (set_next p x rq) = (rq_heap rq)[p := (rq_heap rq ! p)\<lparr>hq_next := x\<rparr>]"
  "rq_dynamic_table (set_next p x rq) = rq_dynamic_table rq"
  by (simp_all add: set_next_def)

text \<open>Appending an element, or two that are linked already.\<close>

lemma linked_link_last:
  assumes rq: "linked rq is" and new: "chain (rq_heap rq) (Some p) (p # ps) None"
    "distinct (p # ps)" "set (p # ps) \<inter> set is = {}"
  shows "linked ((link_last p rq)\<lparr>rq_last := Some (last (p # ps))\<rparr>) (is @ p # ps)"
proof (cases "is" rule: rev_cases)
  case Nil
  note D = linkedD [OF rq, unfolded Nil]
  show ?thesis
    using D new by (intro linkedI) (simp_all add: Nil link_last_def)
next
  case (snoc is' l)
  let ?q = "(rq_heap rq ! l)\<lparr>hq_next := Some p\<rparr>" and ?h = "rq_heap rq"
  note D = linkedD [OF rq, unfolded snoc]
  have l: "rq_last rq = Some l" "l \<notin> set is'" "l \<notin> set (p # ps)"
    using D(2, 3) new(3) snoc by auto
  have "chain ?h (rq_first rq) is' (Some l)" "l < length ?h"
    using D(1) by (auto simp: chain_append)
  then have "chain (?h[l := ?q]) (rq_first rq) (is' @ [l]) (Some p)"
    using l(2) by (simp add: chain_append chain_other)
  moreover have "chain (?h[l := ?q]) (Some p) (p # ps) None"
    using new(1) chain_other [OF l(3)] by blast
  ultimately have c: "chain (?h[l := ?q]) (rq_first rq) ((is' @ [l]) @ (p # ps)) None"
    by (subst chain_append) blast
  show ?thesis
  proof (rule linkedI)
    show "distinct (is @ p # ps)" using D(2) new(2, 3) snoc by auto
    show "ran (rq_header_map (link_last p rq\<lparr>rq_last := Some (last (p # ps))\<rparr>)) \<subseteq> set (is @ p # ps)"
      using D(4) l(1) snoc by (auto simp: link_last_def)
  qed (use c l(1) snoc in \<open>simp_all add: link_last_def\<close>)
qed

text \<open>Inserting an element behind another one.\<close>

lemma linked_insert_after:
  assumes rq: "linked rq (xs @ d # ys)" and p: "p < length (rq_heap rq)" "p \<notin> set (xs @ d # ys)"
  defines "rq1 \<equiv> set_next d (Some p) (set_next p (hq_next (rq_heap rq ! d)) rq)"
  shows "linked (if rq_last rq = Some d then rq1\<lparr>rq_last := Some p\<rparr> else rq1) (xs @ d # p # ys)"
proof -
  let ?h = "rq_heap rq"
  note D = linkedD [OF rq]
  have c: "chain ?h (rq_first rq) xs (Some d)" "d < length ?h" "chain ?h (hq_next (?h ! d)) ys None"
    using D(1) by (auto simp: chain_append)
  have dist: "d \<notin> set xs" "d \<notin> set ys" "p \<notin> set xs" "p \<notin> set ys" "d \<noteq> p"
    using D(2) p by auto
  have c1: "chain (rq_heap rq1) (rq_first rq) xs (Some d)" "chain (rq_heap rq1) (hq_next (?h ! d)) ys None"
    using c dist by (simp_all add: rq1_def chain_other)
  have "chain (rq_heap rq1) (rq_first rq) (xs @ d # p # ys) None"
    unfolding chain_append using c1 c(2) p(1) dist
    by (intro exI [of _ "Some d"]) (simp add: rq1_def)
  moreover have "rq_last rq = Some d \<longleftrightarrow> ys = []"
    using D(2, 3) dist by (cases ys rule: rev_cases) auto
  moreover have "ran (rq_header_map rq) \<subseteq> set (xs @ d # p # ys)" using D(4) by auto
  moreover have "distinct (xs @ d # p # ys)" using D(2) dist by auto
  ultimately show ?thesis
    using D(3) by (cases "ys = []") (auto intro!: linkedI simp: rq1_def)
qed

lemma linked_alloc: "linked rq is \<Longrightarrow> linked (rq\<lparr>rq_heap := rq_heap rq @ [q]\<rparr>) is"
  by (simp add: linked_def chain_grow)

lemma linked_set_next_other: "linked rq is \<Longrightarrow> i \<notin> set is \<Longrightarrow> linked (set_next i x rq) is"
  by (simp add: linked_def chain_other)

lemma linked_map_insert:
  "linked rq is \<Longrightarrow> p \<in> set is \<Longrightarrow> linked (rq\<lparr>rq_header_map := map_insert (rq_header_map rq) k p\<rparr>) is"
  by (auto simp: linked_def map_insert_def ran_def)

lemma link_last_map:
  "link_last p (rq\<lparr>rq_header_map := m\<rparr>) = (link_last p rq)\<lparr>rq_header_map := m\<rparr>"
  by (cases "rq_last rq") (simp_all add: link_last_def set_next_def)

text \<open>What \<open>insert\<close> means for the list: append, append behind a new dummy, or insert behind.\<close>

definition insert_order :: "nat \<Rightarrow> u32 \<Rightarrow> request \<Rightarrow> nat list \<Rightarrow> nat list" where
  "insert_order p dep rq is =
     (if dep = 0 then is @ [p]
      else case rq_header_map rq dep of
        None \<Rightarrow> is @ [length (rq_heap rq), p]
      | Some d \<Rightarrow> takeWhile (\<lambda>i. i \<noteq> d) is @ d # p # tl (dropWhile (\<lambda>i. i \<noteq> d) is))"

lemma dropWhile_neq: "d \<in> set is \<Longrightarrow> dropWhile (\<lambda>i. i \<noteq> d) is = d # tl (dropWhile (\<lambda>i. i \<noteq> d) is)"
  by (induction "is") auto

lemma linked_insert_request:
  assumes rq: "linked rq is" and p: "p < length (rq_heap rq)" "p \<notin> set is" "hq_next (rq_heap rq ! p) = None"
  shows "linked (insert_request p dep rq) (insert_order p dep rq is)"
proof -
  consider "dep = 0" | "dep \<noteq> 0" "rq_header_map rq dep = None"
    | d where "dep \<noteq> 0" "rq_header_map rq dep = Some d" by blast
  then show ?thesis
  proof cases
    case 1
    have "linked ((link_last p rq)\<lparr>rq_last := Some p\<rparr>) (is @ [p])"
      using linked_link_last [OF rq, of p "[]"] p by simp
    then have "linked (((link_last p rq)\<lparr>rq_last := Some p\<rparr>)\<lparr>rq_header_map :=
        map_insert (rq_header_map ((link_last p rq)\<lparr>rq_last := Some p\<rparr>)) k p\<rparr>) (is @ [p])" for k
      by (rule linked_map_insert) simp
    with 1 show ?thesis by (simp add: insert_request_def insert_order_def Let_def)
  next
    case 2
    let ?n = "length (rq_heap rq)" and ?q = "new_header_request dep 16"
    define rq1 where "rq1 = set_next ?n (Some p) (rq\<lparr>rq_heap := rq_heap rq @ [?q]\<rparr>)"
    have n: "?n \<notin> set is" using chain_bound [OF linkedD(1) [OF rq]] by blast
    then have rq1: "linked rq1 is"
      unfolding rq1_def by (intro linked_set_next_other linked_alloc rq)
    have "chain (rq_heap rq1) (Some ?n) (?n # [p]) None"
      using p by (simp add: rq1_def nth_append)
    then have rq2: "linked ((link_last ?n rq1)\<lparr>rq_last := Some p\<rparr>) (is @ [?n, p])"
      using linked_link_last [OF rq1, of ?n "[p]"] p n by simp
    let ?m = "map_insert (rq_header_map rq) dep ?n"
    have same: "rq_header_map ((link_last ?n rq1)\<lparr>rq_last := Some p\<rparr>) = rq_header_map rq"
      by (cases "rq_last rq") (simp_all add: rq1_def link_last_def)
    have rq3: "linked ((link_last ?n rq1)\<lparr>rq_last := Some p, rq_header_map := ?m\<rparr>) (is @ [?n, p])"
      using linked_map_insert [OF rq2, of ?n dep] unfolding same by simp
    have "linked (((link_last ?n rq1)\<lparr>rq_last := Some p, rq_header_map := ?m\<rparr>)\<lparr>rq_header_map := map_insert ?m k p\<rparr>)
        (is @ [?n, p])" for k
      using linked_map_insert [OF rq3, of p k] by simp
    moreover have "set_next ?n (Some p) (rq\<lparr>rq_heap := rq_heap rq @ [?q], rq_header_map := ?m\<rparr>) =
        rq1\<lparr>rq_header_map := ?m\<rparr>"
      by (simp add: rq1_def set_next_def)
    ultimately show ?thesis
      using 2 by (simp add: insert_request_def insert_order_def alloc_def Let_def link_last_map)
  next
    case 3
    have d: "d \<in> set is" using linkedD(4) [OF rq] 3(2) by (auto simp: ran_def)
    define xs ys where "xs = takeWhile (\<lambda>i. i \<noteq> d) is" and "ys = tl (dropWhile (\<lambda>i. i \<noteq> d) is)"
    have split: "is = xs @ d # ys"
      using takeWhile_dropWhile_id [of "\<lambda>i. i \<noteq> d" "is"] dropWhile_neq [OF d] by (simp add: xs_def ys_def)
    let ?rq1 = "set_next d (Some p) (set_next p (hq_next (rq_heap rq ! d)) rq)"
    let ?rq2 = "if rq_last rq = Some d then ?rq1\<lparr>rq_last := Some p\<rparr> else ?rq1"
    have "linked ?rq2 (xs @ d # p # ys)"
      using linked_insert_after [of rq xs d ys p] rq p unfolding split by blast
    then have "linked (?rq2\<lparr>rq_header_map := map_insert (rq_header_map ?rq2) k p\<rparr>) (xs @ d # p # ys)" for k
      by (rule linked_map_insert) simp
    with 3 show ?thesis
      by (simp add: insert_request_def insert_order_def Let_def flip: xs_def ys_def)
  qed
qed

subsection \<open>The invariant of a connection's requests\<close>

text \<open>Every request ever allocated is in the list, once.\<close>

definition request_inv :: "request \<Rightarrow> bool" where
  "request_inv rq \<longleftrightarrow> (\<exists>is. linked rq is \<and> set is = {..<length (rq_heap rq)}) \<and>
     dt_reachable (rq_dynamic_table rq)"

lemma link_last_simps [simp]:
  "length (rq_heap (link_last p rq)) = length (rq_heap rq)"
  "rq_dynamic_table (link_last p rq) = rq_dynamic_table rq"
  by (cases "rq_last rq"; simp add: link_last_def)+

lemma length_insert_request:
  "length (rq_heap (insert_request p dep rq)) =
     length (rq_heap rq) + (if dep \<noteq> 0 \<and> rq_header_map rq dep = None then 1 else 0)"
  by (cases "rq_header_map rq dep") (simp_all add: insert_request_def Let_def alloc_def)

lemma table_insert_request [simp]:
  "rq_dynamic_table (insert_request p dep rq) = rq_dynamic_table rq"
  by (cases "rq_header_map rq dep") (simp_all add: insert_request_def Let_def alloc_def)

lemma set_insert_order:
  assumes "linked rq is"
  shows "set (insert_order p dep rq is) =
    insert p (set is) \<union> {length (rq_heap rq)..<length (rq_heap (insert_request p dep rq))}"
proof (cases "rq_header_map rq dep")
  case (Some d)
  then have d: "d \<in> set is" using linkedD(4) [OF assms] by (auto simp: ran_def)
  have "set is = set (takeWhile (\<lambda>i. i \<noteq> d) is) \<union> insert d (set (tl (dropWhile (\<lambda>i. i \<noteq> d) is)))"
    using takeWhile_dropWhile_id [of "\<lambda>i. i \<noteq> d" "is"] dropWhile_neq [OF d]
    by (metis list.simps(15) set_append)
  with Some show ?thesis by (auto simp: insert_order_def length_insert_request)
qed (auto simp: insert_order_def length_insert_request)

lemma request_inv_find_or_insert:
  assumes "request_inv rq" "find_or_insert sid dep rq = (p, rq')"
  shows "request_inv rq' \<and> p < length (rq_heap rq') \<and> rq_dynamic_table rq' = rq_dynamic_table rq"
proof (cases "rq_header_map rq sid")
  case (Some i)
  from assms(1) obtain "is" where "linked rq is" "set is = {..<length (rq_heap rq)}"
    by (auto simp: request_inv_def)
  then have "i < length (rq_heap rq)" using linkedD(4) Some by (force simp: ran_def)
  with assms Some show ?thesis by (simp add: find_or_insert_def)
next
  case None
  let ?n = "length (rq_heap rq)" and ?rq1 = "rq\<lparr>rq_heap := rq_heap rq @ [new_header_request 0 16]\<rparr>"
  from assms(1) obtain "is" where is_list: "linked rq is" "set is = {..<?n}" and dt: "dt_reachable (rq_dynamic_table rq)"
    by (auto simp: request_inv_def)
  have rq1: "linked ?rq1 is" using is_list(1) by (rule linked_alloc)
  have "linked (insert_request ?n dep ?rq1) (insert_order ?n dep ?rq1 is)"
    using is_list(2) by (intro linked_insert_request rq1) (simp_all add: new_header_request_def)
  moreover have "set (insert_order ?n dep ?rq1 is) = {..<length (rq_heap (insert_request ?n dep ?rq1))}"
    unfolding set_insert_order [OF rq1] is_list(2) by (auto simp: length_insert_request)
  moreover have "p = ?n" "rq' = insert_request ?n dep ?rq1"
    using assms(2) None by (auto simp: find_or_insert_def alloc_def)
  ultimately show ?thesis using dt by (auto simp: request_inv_def length_insert_request)
qed

lemma request_inv_update:
  assumes "request_inv rq" "hq_next q = hq_next (rq_heap rq ! p)" "dt_reachable d"
  shows "request_inv (rq\<lparr>rq_heap := (rq_heap rq)[p := q], rq_dynamic_table := d\<rparr>)"
  using assms chain_same_next [OF assms(2)] by (auto simp: request_inv_def linked_def)

lemma request_inv_same:
  "request_inv rq \<Longrightarrow> rq_heap rq' = rq_heap rq \<Longrightarrow> rq_first rq' = rq_first rq \<Longrightarrow> rq_last rq' = rq_last rq \<Longrightarrow>
   rq_header_map rq' = rq_header_map rq \<Longrightarrow> dt_reachable (rq_dynamic_table rq') \<Longrightarrow> request_inv rq'"
  by (simp add: request_inv_def linked_def)

text \<open>Reading a header block only inserts into the dynamic table and resizes it.\<close>

lemma parse_header_field_table:
  "parse_header_field n (flds, d) buf = Some ((flds', d'), rest) \<Longrightarrow> dt_reachable d \<Longrightarrow> dt_reachable d'"
  by (auto simp: parse_header_field_def bind_Some_iff intro: dt_reachable.intros
      split: list.splits if_splits)

lemma parse_header_loop_table:
  "parse_header_loop n (flds, d) buf = Some (flds', d') \<Longrightarrow> dt_reachable d \<Longrightarrow> dt_reachable d'"
proof (induction n "(flds, d)" buf arbitrary: flds d rule: parse_header_loop.induct)
  case (1 n buf flds d)
  then show ?case
    by (subst (asm) (2) parse_header_loop.simps)
      (auto split: if_splits option.splits dest: parse_header_field_table)
qed

lemma parse_header_table:
  "parse_header n buf sid q d = Some (q', d') \<Longrightarrow> dt_reachable d \<Longrightarrow> dt_reachable d' \<and> hq_next q' = hq_next q"
  by (auto simp: parse_header_def bind_Some_iff dest: parse_header_loop_table)

lemma request_inv_headers_into:
  assumes "request_inv rq" "parse_headers_into sid dep n buf rq = Some rq'"
  shows "request_inv rq'"
proof -
  obtain p rq1 where found: "find_or_insert sid dep rq = (p, rq1)" by fastforce
  then obtain q d where parsed: "parse_header n buf sid (rq_heap rq1 ! p) (rq_dynamic_table rq1) = Some (q, d)"
    and rq': "rq' = rq1\<lparr>rq_heap := (rq_heap rq1)[p := q], rq_dynamic_table := d\<rparr>"
    using assms(2) by (auto simp: parse_headers_into_def bind_Some_iff)
  have inv: "request_inv rq1" using request_inv_find_or_insert [OF assms(1) found] by simp
  then have "dt_reachable (rq_dynamic_table rq1)" by (simp add: request_inv_def)
  from parse_header_table [OF parsed this] inv show ?thesis
    unfolding rq' by (intro request_inv_update) simp_all
qed

lemma request_inv_set_stream_error:
  assumes "request_inv rq"
  shows "request_inv (set_stream_error sid err rq)"
proof -
  obtain p rq1 where found: "find_or_insert sid 0 rq = (p, rq1)" by fastforce
  have inv: "request_inv rq1" using request_inv_find_or_insert [OF assms found] by simp
  let ?q = "set_error err (rq_heap rq1 ! p)"
  have "request_inv (rq1\<lparr>rq_heap := (rq_heap rq1)[p := ?q], rq_dynamic_table := rq_dynamic_table rq1\<rparr>)"
    using inv by (intro request_inv_update) (simp_all add: set_error_def request_inv_def)
  then show ?thesis by (simp add: set_stream_error_def found)
qed

lemma stop_goaway_same: "stop_goaway rq wb s = Some (r, rq', wb') \<Longrightarrow> rq' = rq"
  by (auto simp: stop_goaway_def bind_Some_iff)

lemma parse_settings_frame_table:
  assumes "request_inv rq" "parse_settings_frame f buf pos pend rq wb = Some (r, rq', wb')"
  shows "request_inv rq'"
proof (cases "contains_flag f ACK")
  case False
  then obtain st d where d: "dt_update_size (unat (st_header_table_size st)) (rq_dynamic_table rq) = Some d"
    and rq': "rq' = rq\<lparr>rq_peer_settings := st, rq_dynamic_table := d\<rparr>"
    using assms(2) by (auto simp: parse_settings_frame_def bind_Some_iff)
  have "dt_reachable (rq_dynamic_table rq)" using assms(1) by (simp add: request_inv_def)
  then have "dt_reachable d" using d by (rule dt_upd)
  then show ?thesis unfolding rq' by (intro request_inv_same [OF assms(1)]) simp_all
qed (use assms in \<open>simp add: parse_settings_frame_def\<close>)

lemma parse_headers_frame_cases:
  assumes "parse_headers_frame f buf pos padded rq wb = Some (r, rq', wb')"
  obtains "rq' = rq" | sid dep n b where "parse_headers_into sid dep n b rq = Some rq'"
proof -
  let ?prio = "if contains_flag f PRIORITY_flag
      then do { dep \<leftarrow> read_dependency buf pos; Some (dep, pos + 4 + 1) } else Some (0, pos)"
  obtain dep pos' where prio: "?prio = Some (dep, pos')"
    using assms unfolding parse_headers_frame_def by (cases ?prio) (simp, case_tac a, simp)
  show ?thesis
  proof (cases "get_stream_identifier f = 0")
    case True
    with assms have "stop_goaway rq wb ''HEADERS frame requires stream ID to be set'' = Some (r, rq', wb')"
      unfolding parse_headers_frame_def Let_def prio by simp
    from stop_goaway_same [OF this] show ?thesis by (rule that(1))
  next
    case False
    with assms that(2) show ?thesis
      unfolding parse_headers_frame_def Let_def prio by (auto simp: bind_Some_iff)
  qed
qed

lemma parse_rst_stream_frame_cases:
  assumes "parse_rst_stream_frame f buf pos rq wb = Some (r, rq', wb')"
  obtains "rq' = rq" | sid e where "rq' = set_stream_error sid e rq"
  using assms unfolding parse_rst_stream_frame_def Let_def bind_Some_iff
  by (auto dest: stop_goaway_same split: if_splits)

lemma parse_ping_frame_same:
  "parse_ping_frame f buf pos rq wb = Some (r, rq', wb') \<Longrightarrow> rq' = rq"
  unfolding parse_ping_frame_def by (auto simp: bind_Some_iff dest: stop_goaway_same split: if_splits)

lemma request_inv_process_frame:
  assumes "request_inv rq" "process_frame f buf pos padded pend rq wb = Some (r, rq', wb')"
  shows "request_inv rq'"
proof (cases "get_type f")
  case None
  with assms show ?thesis by (simp add: process_frame_def)
next
  case (Some t)
  note step = assms(2) [unfolded process_frame_def Some option.case]
  show ?thesis
  proof (cases t)
    case HEADERS
    with step show ?thesis using assms(1) request_inv_headers_into
      by (auto elim!: parse_headers_frame_cases)
  next
    case RST_STREAM
    with step show ?thesis using assms(1) request_inv_set_stream_error
      by (auto elim!: parse_rst_stream_frame_cases)
  next
    case SETTINGS
    with step show ?thesis using parse_settings_frame_table [OF assms(1)] by simp
  qed (use step assms(1) in \<open>auto simp: bind_Some_iff dest!: parse_ping_frame_same stop_goaway_same\<close>)
qed

lemma request_inv_max_stream: "request_inv rq \<Longrightarrow> request_inv (rq\<lparr>rq_max_stream := m\<rparr>)"
  by (simp add: request_inv_def linked_def)

lemma request_inv_parse:
  "request_inv rq \<Longrightarrow> request_parse buf pstart pend rq wb = Some (err, rq', wb') \<Longrightarrow> request_inv rq'"
proof (induction buf pstart pend rq wb rule: request_parse.induct)
  case (1 buf pstart pend rq wb)
  show ?case
  proof (cases "pstart + frame_size \<le> pend")
    case True
    from 1(3) True obtain f where f: "frame_at buf pstart = Some f"
      by (auto simp: request_parse.simps [of buf pstart] split: option.splits)
    define rq1 where "rq1 = (if rq_max_stream rq < get_stream_identifier f
        then rq\<lparr>rq_max_stream := get_stream_identifier f\<rparr> else rq)"
    define pad where "pad = (if contains_flag f PADDED
        then map_option (\<lambda>b. (unat b, pstart + frame_size + 1)) (load buf (pstart + frame_size))
        else Some (0, pstart + frame_size))"
    have inv: "request_inv rq1" using "1.prems"(1) by (simp add: rq1_def request_inv_max_stream)
    from 1(3) True f obtain padded pos where p: "pad = Some (padded, pos)"
      by (cases pad) (auto simp: request_parse.simps [of buf pstart] Let_def simp flip: pad_def)
    from 1(3) True f p obtain r rq2 wb2 where
      step: "process_frame f buf pos padded pend rq1 wb = Some (r, rq2, wb2)"
      by (cases "process_frame f buf pos padded pend rq1 wb")
        (auto simp: request_parse.simps [of buf pstart] Let_def simp flip: pad_def rq1_def)
    have inv2: "request_inv rq2" using request_inv_process_frame [OF inv step] .
    show ?thesis
    proof (cases r)
      case None
      with 1(3) True f p step have
        "request_parse buf (pos + unat (get_length f)) pend rq2 wb2 = Some (err, rq', wb')"
        by (simp add: request_parse.simps [of buf pstart] Let_def flip: pad_def rq1_def)
      with "1.IH" [OF True f] p step None inv2 show ?thesis by (auto simp flip: pad_def rq1_def)
    next
      case (Some e)
      with 1(3) True f p step inv2 show ?thesis
        by (simp add: request_parse.simps [of buf pstart] Let_def flip: pad_def rq1_def)
    qed
  next
    case False
    with "1.prems" show ?thesis by (simp add: request_parse.simps [of buf pstart])
  qed
qed

subsection \<open>Connections\<close>

text \<open>
  The states of the requests of a connection: constructed empty or from an upgraded request,
  frames parsed from any memory into any write buffer, response headers written.
\<close>

inductive rq_reachable :: "request \<Rightarrow> bool" where
  rq_new: "dt_reachable d \<Longrightarrow> rq_reachable (new_request d peer)"
| rq_upgrade: "dt_reachable d \<Longrightarrow> rq_reachable (upgrade_request d peer header)"
| rq_parse: "rq_reachable rq \<Longrightarrow> request_parse buf pstart pend rq wb = Some (err, rq', wb') \<Longrightarrow>
    rq_reachable rq'"
| rq_write: "rq_reachable rq \<Longrightarrow> copy_header_line (rq_dynamic_table rq) line add_index = Some (out, d) \<Longrightarrow>
    rq_reachable (rq\<lparr>rq_dynamic_table := d\<rparr>)"

lemma linked_new_request: "linked (new_request d peer) []"
  by (simp add: new_request_def linked_def)

lemma copy_header_line_table:
  "copy_header_line d line add_index = Some (out, d') \<Longrightarrow> d' = d \<or> d' = dt_insert line d"
  by (auto simp: copy_header_line_def Let_def bind_Some_iff split: if_splits)

lemma request_inv_reachable: "rq_reachable rq \<Longrightarrow> request_inv rq"
proof (induction rule: rq_reachable.induct)
  case (rq_new d peer)
  then show ?case using linked_new_request [of d peer] by (auto simp: request_inv_def new_request_def)
next
  case (rq_upgrade d peer header)
  let ?q = "upgrade_header_request header" and ?rq = "new_request d peer"
  let ?rq1 = "?rq\<lparr>rq_heap := rq_heap ?rq @ [?q]\<rparr>"
  have rq1: "linked ?rq1 []" using linked_new_request by (rule linked_alloc)
  have heap: "rq_heap ?rq1 = [?q]" by (simp add: new_request_def)
  have "linked (insert_request 0 0 ?rq1) (insert_order 0 0 ?rq1 [])"
    by (intro linked_insert_request rq1) (simp_all add: heap upgrade_header_request_def new_request_def)
  moreover have "upgrade_request d peer header = insert_request 0 0 ?rq1"
    by (simp add: upgrade_request_def alloc_def new_request_def)
  ultimately show ?case
    using rq_upgrade by (auto simp: request_inv_def insert_order_def length_insert_request new_request_def)
next
  case (rq_parse rq buf pstart pend wb err rq' wb')
  from rq_parse.IH rq_parse.hyps(2) show ?case by (rule request_inv_parse)
next
  case (rq_write rq line add_index out d)
  have "dt_reachable d"
    using copy_header_line_table [OF rq_write.hyps(2)] rq_write.IH dt_ins [of _ line]
    unfolding request_inv_def by metis
  then show ?case by (intro request_inv_same [OF rq_write.IH]) simp_all
qed

lemma free_list_chain:
  "chain h p is None \<Longrightarrow> distinct (freed @ is) \<Longrightarrow> length is \<le> fuel \<Longrightarrow>
   free_list fuel h p freed = Some (freed @ is)"
proof (induction "is" arbitrary: p fuel freed)
  case (Cons i "is")
  then obtain fuel' where "fuel = Suc fuel'" by (cases fuel) auto
  with Cons.prems Cons.IH [of "hq_next (h ! i)" "freed @ [i]" fuel'] show ?case by auto
qed simp

text \<open>
  C11: whatever frames a peer sends, in any order and with any dependencies, the destructor of
  \<open>request\<close> terminates within as many rounds as there are requests, and deletes every request ever
  allocated exactly once: no leak, no double free, no use after free.
\<close>

theorem requests_freed_once:
  assumes "rq_reachable rq"
  shows "\<exists>freed. delete_request rq = Some freed \<and> distinct freed \<and> set freed = {..<length (rq_heap rq)}"
proof -
  from request_inv_reachable [OF assms] obtain "is" where
    is_list: "linked rq is" "set is = {..<length (rq_heap rq)}" by (auto simp: request_inv_def)
  note D = linkedD [OF is_list(1)]
  have "length is = length (rq_heap rq)"
    using distinct_card [OF D(2)] is_list(2) by simp
  then show ?thesis
    using free_list_chain [of "rq_heap rq" "rq_first rq" "is" "[]"] D is_list(2)
    by (simp add: delete_request_def)
qed

theorem requests_freed_once_witness:
  "delete_request (upgrade_request (new_dynamic_table 12) new_settings_store
     \<lparr>hr_version = VER_2, hr_method = GET, hr_fields = Map.empty\<rparr>) = Some [0]"
proof -
  let ?rq = "upgrade_request (new_dynamic_table 12) new_settings_store
     \<lparr>hr_version = VER_2, hr_method = GET, hr_fields = Map.empty\<rparr>"
  have "length (rq_heap ?rq) = 1"
    by (simp add: upgrade_request_def alloc_def length_insert_request new_request_def)
  moreover have "rq_reachable ?rq" by (intro rq_upgrade dt_new)
  ultimately obtain freed where "delete_request ?rq = Some freed" "distinct freed" "set freed = {..<1}"
    using requests_freed_once [of ?rq] by auto
  moreover from this have "length freed = 1" using distinct_card [of freed] by simp
  ultimately show ?thesis by (cases freed) auto
qed

text \<open>
  C15: \<open>insert\<close> refines insertion into a list: if the list of requests is \<open>is\<close> and \<open>p\<close> is a new
  request, then afterwards it is \<open>is\<close> with \<open>p\<close> at the end for a request without dependency, with a
  new placeholder and \<open>p\<close> at the end for an unknown dependency, and with \<open>p\<close> right behind a known one.
\<close>

theorem insert_request_refines:
  assumes "linked rq is" "p < length (rq_heap rq)" "p \<notin> set is" "hq_next (rq_heap rq ! p) = None"
  shows "linked (insert_request p dep rq) (insert_order p dep rq is)"
  using assms by (rule linked_insert_request)

theorem insert_request_refines_witness:
  "linked (insert_request 0 7 ((new_request (new_dynamic_table 12) new_settings_store)
       \<lparr>rq_heap := [new_header_request 3 16]\<rparr>)) [1, 0] \<and>
   length (rq_heap (insert_request 0 7 ((new_request (new_dynamic_table 12) new_settings_store)
       \<lparr>rq_heap := [new_header_request 3 16]\<rparr>))) = 2"
proof -
  let ?rq = "(new_request (new_dynamic_table 12) new_settings_store)\<lparr>rq_heap := [new_header_request 3 16]\<rparr>"
  have "linked ?rq []" by (simp add: new_request_def linked_def)
  then have "linked (insert_request 0 7 ?rq) (insert_order 0 7 ?rq [])"
    by (intro insert_request_refines) (simp_all add: new_header_request_def)
  moreover have "insert_order 0 7 ?rq [] = [1, 0]"
    by (simp add: insert_order_def new_request_def)
  moreover have "length (rq_heap (insert_request 0 7 ?rq)) = 2"
    by (simp add: length_insert_request new_request_def)
  ultimately show ?thesis by metis
qed

subsection \<open>The SETTINGS handshake\<close>

lemma dt_update_size_total:
  assumes "dt_reachable d"
  obtains d' where "dt_update_size n d = Some d'"
proof -
  have "mt_inv (dt_table d)"
    using assms
  proof induction
    case (dt_upd d n d')
    then show ?case using trim_table_inv [of "dt_table d" n]
      by (auto simp: dt_update_size_def split: if_splits)
  qed (auto simp: new_dynamic_table_def dt_insert_def Let_def mt_clear_def mt_inv_push_back)
  then obtain t where "trim_table n (dt_table d) = Some t" using trim_table_inv by blast
  then show ?thesis
    using that by (cases "dt_max_size d = n") (simp_all add: dt_update_size_def)
qed

text \<open>One SETTINGS frame of the peer, with any frames behind it.\<close>

lemma request_parse_settings:
  assumes "rq_reachable rq" "6 * length args < 2 ^ 24" "length pre + get_frame_len (length args) \<le> pend"
  shows "\<exists>d. dt_update_size (unat (st_header_table_size (apply_settings args (rq_peer_settings rq))))
        (rq_dynamic_table rq) = Some d \<and>
    request_parse (pre @ settings_add_frame args @ post) (length pre) pend rq wb =
      Option.bind (put settings_add_ack_frame wb)
        (request_parse (pre @ settings_add_frame args @ post) (length pre + get_frame_len (length args)) pend
          (rq\<lparr>rq_peer_settings := apply_settings args (rq_peer_settings rq), rq_dynamic_table := d\<rparr>))"
proof -
  let ?buf = "pre @ settings_add_frame args @ post"
  let ?st = "apply_settings args (rq_peer_settings rq)"
  obtain g where g: "frame_at ?buf (length pre) = Some g" "fr_flags g = 0" "get_type g = Some SETTINGS"
      "unat (get_length g) = 6 * length args"
      "parse_frame (rq_peer_settings rq) g ?buf (length pre + frame_size) pend =
        Some (?st, length pre + get_frame_len (length args))"
      "get_stream_identifier g = 0"
    using settings_frame_parsed [of args pre pend post "rq_peer_settings rq"] assms(2, 3) by auto
  have "dt_reachable (rq_dynamic_table rq)"
    using request_inv_reachable [OF assms(1)] by (simp add: request_inv_def)
  then obtain d where d: "dt_update_size (unat (st_header_table_size ?st)) (rq_dynamic_table rq) = Some d"
    by (rule dt_update_size_total)
  have flags: "\<not> contains_flag g PADDED" "\<not> contains_flag g ACK"
    by (simp_all add: contains_flag_def g(2))
  have len: "get_frame_len (length args) = 9 + 6 * length args" by (simp add: get_frame_len_def frame_size_def)
  have "process_frame g ?buf (length pre + frame_size) 0 pend rq wb = Option.bind (put settings_add_ack_frame wb)
      (\<lambda>wb'. Some (None, rq\<lparr>rq_peer_settings := ?st, rq_dynamic_table := d\<rparr>, wb'))"
    by (simp add: process_frame_def parse_settings_frame_def g flags d)
  then have "request_parse ?buf (length pre) pend rq wb = Option.bind (put settings_add_ack_frame wb)
      (request_parse ?buf (length pre + get_frame_len (length args)) pend
        (rq\<lparr>rq_peer_settings := ?st, rq_dynamic_table := d\<rparr>))"
    using g flags len assms(3)
    by (subst request_parse.simps) (cases "put settings_add_ack_frame wb"; simp add: frame_size_def add.assoc)
  then show ?thesis using d by blast
qed

lemma request_parse_end: "\<not> pstart + frame_size \<le> pend \<Longrightarrow> request_parse buf pstart pend rq wb = Some (SUCCESS, rq, wb)"
  by (simp add: request_parse.simps)

lemma put_ack: "pos + 9 \<le> length mem \<Longrightarrow> put settings_add_ack_frame (mem, pos) =
    Some (take pos mem @ settings_add_ack_frame @ drop (pos + 9) mem, pos + 9)"
  by (simp add: put_def settings_add_ack_frame_def)

text \<open>
  C35: a SETTINGS frame from the peer, alone in the read buffer, is answered with one
  acknowledgement of nine bytes, which is itself a SETTINGS frame with the ACK flag and no
  payload; its assignments reach the peer's settings in order, the dynamic table is resized to the
  announced size, and the stream list is untouched.
\<close>

theorem settings_handshake:
  assumes "rq_reachable rq" "6 * length args < 2 ^ 24" "pos + 9 \<le> length mem"
  shows "\<exists>d. dt_update_size (unat (st_header_table_size (apply_settings args (rq_peer_settings rq))))
        (rq_dynamic_table rq) = Some d \<and>
    request_parse (pre @ settings_add_frame args @ post) (length pre)
        (length pre + get_frame_len (length args)) rq (mem, pos) =
      Some (SUCCESS,
        rq\<lparr>rq_peer_settings := apply_settings args (rq_peer_settings rq), rq_dynamic_table := d\<rparr>,
        take pos mem @ settings_add_ack_frame @ drop (pos + 9) mem, pos + 9)"
proof -
  have "length pre + get_frame_len (length args) \<le> length pre + get_frame_len (length args)" by simp
  from request_parse_settings [OF assms(1, 2) this, of post "(mem, pos)"] show ?thesis
    by (auto simp: put_ack [OF assms(3)] request_parse_end frame_size_def)
qed

theorem settings_handshake_witness:
  "\<exists>d. request_parse ([] @ settings_add_frame [(SETTINGS_HEADER_TABLE_SIZE, 5)] @ []) (length ([] :: u8 list))
      (length ([] :: u8 list) + get_frame_len 1)
      (new_request (new_dynamic_table 12) new_settings_store) (replicate 9 0, 0) =
    Some (SUCCESS, (new_request d (new_settings_store\<lparr>st_header_table_size := 5\<rparr>)),
      settings_add_ack_frame, 9)"
proof -
  have "rq_reachable (new_request (new_dynamic_table 12) new_settings_store)"
    by (intro rq_new dt_new)
  from settings_handshake [OF this, of "[(SETTINGS_HEADER_TABLE_SIZE, 5)]" 0 "replicate 9 0" "[]" "[]"]
  show ?thesis by (auto simp: new_request_def apply_settings_def)
qed

end
