(* ===== verification/Http2Error.thy ===== *)
theory Http2Error
  imports Http2Request
begin

text \<open>
  deviceserver/include/iothttphelper.hh: the HTTP/2 error pages.  A page is a HEADERS frame and a
  DATA frame; the headers go through the dynamic table of the connection.
\<close>

definition with_table :: "request \<Rightarrow> (u8 list \<times> dynamic_table) option \<Rightarrow> u8 list \<Rightarrow> (u8 list \<times> request) option" where
  "with_table rq written out =
     map_option (\<lambda>(bs, d). (out @ bs, rq\<lparr>rq_dynamic_table := d\<rparr>)) written"

definition add_line :: "FIELD \<Rightarrow> string \<Rightarrow> bool \<Rightarrow> u8 list \<times> request \<Rightarrow> (u8 list \<times> request) option" where
  "add_line field text add_index b =
     (case b of (out, rq) \<Rightarrow>
        with_table rq (copy_header_line (rq_dynamic_table rq) (field, text) add_index) out)"

definition http2_error_headers ::
    "CODE \<Rightarrow> string \<Rightarrow> nat \<Rightarrow> nat \<Rightarrow> request \<Rightarrow> (u8 list \<times> request) option" where
  "http2_error_headers code date_str date_str_size content_length rq =
     do { b \<leftarrow> with_table rq (copy_status_header (rq_dynamic_table rq) code) [];
          date \<leftarrow> subrange date_str 0 date_str_size;
          b \<leftarrow> add_line (General Date) date False b;
          b \<leftarrow> add_line (Response Server) (WEB_SERVER_NAME @ [NUL]) True b;
          b \<leftarrow> add_line (Response Content_Type) (''text/html'' @ [NUL]) True b;
          b \<leftarrow> (if code = 400 \<or> code = 505
               then add_line (General Connection) (''close'' @ [NUL]) True b else Some b);
          b \<leftarrow> (if code = 405 then add_line (Response Allow) (''GET, PRI'' @ [NUL]) True b else Some b);
          add_line (Response Content_Length) (std_to_string (word_of_nat content_length)) True b }"

text \<open>
  The page always has the title of code 404.  The order of the writes differs from the code only in
  that the page, which does not depend on the headers, comes first.
\<close>

definition http2_add_error_html ::
    "CODE \<Rightarrow> string \<Rightarrow> request \<Rightarrow> u32 \<Rightarrow> ipv6_socket_addr \<Rightarrow> string \<Rightarrow> nat \<Rightarrow> (u8 list \<times> request) option" where
  "http2_add_error_html code message rq stream_identifier local_address date_str date_str_size =
     do { page \<leftarrow> http11_error_html 404 message local_address;
          if 1024 < length page then None
          else
            do { (headers, rq') \<leftarrow> http2_error_headers code date_str date_str_size (length page) rq;
                 Some (new_frame_bytes (word_of_nat (length headers)) HEADERS [END_HEADERS] stream_identifier @
                       headers @
                       new_frame_bytes (word_of_nat (length page)) DATA [END_STREAM] stream_identifier @
                       bytes_of page, rq') } }"

definition http2_add_404_Not_Found ::
    "request \<Rightarrow> u32 \<Rightarrow> ipv6_socket_addr \<Rightarrow> string \<Rightarrow> nat \<Rightarrow> (u8 list \<times> request) option" where
  "http2_add_404_Not_Found =
     http2_add_error_html 404 ''<p>The requested URL was not found on this server.</p>''"

definition http2_add_400_Bad_Request ::
    "request \<Rightarrow> u32 \<Rightarrow> ipv6_socket_addr \<Rightarrow> string \<Rightarrow> nat \<Rightarrow> (u8 list \<times> request) option" where
  "http2_add_400_Bad_Request =
     http2_add_error_html 400
       (''<p>Server was unable to parse your http request.</p>'' @
        ''<p>Are you trying to make https request on http port?</p>'')"

definition http2_add_405_Method_Not_Allowed ::
    "request \<Rightarrow> u32 \<Rightarrow> ipv6_socket_addr \<Rightarrow> string \<Rightarrow> nat \<Rightarrow> (u8 list \<times> request) option" where
  "http2_add_405_Method_Not_Allowed =
     http2_add_error_html 405 ''<p>This method is not supported by server.</p>''"

definition http2_add_505_HTTP_Version_Not_Supported ::
    "request \<Rightarrow> u32 \<Rightarrow> ipv6_socket_addr \<Rightarrow> string \<Rightarrow> nat \<Rightarrow> (u8 list \<times> request) option" where
  "http2_add_505_HTTP_Version_Not_Supported =
     http2_add_error_html 505 ''<p>This HTTP version is not supported by server.</p>''"

subsection \<open>Sizes\<close>

lemma encode_integer_loop_length:
  "0 < k \<Longrightarrow> unat v < 2 ^ (7 * k) \<Longrightarrow> length (encode_integer_loop v) \<le> k"
proof (induction k arbitrary: v)
  case (Suc k)
  show ?case
  proof (cases "128 \<le> v")
    case True
    then have "2 ^ 7 \<le> unat v" by (simp add: word_le_nat_alt)
    then have k: "0 < k" using Suc.prems(2) by (cases k) auto
    have "unat v div 2 ^ 7 < 2 ^ (7 * k)"
      using Suc.prems(2) by (simp add: less_mult_imp_div_less power_add mult.commute)
    then have "unat (drop_bit 7 v) < 2 ^ (7 * k)" by (simp add: drop_bit_eq_div unat_div_distrib)
    from Suc.IH [OF k this] True show ?thesis by (simp add: encode_integer_loop.simps [of v])
  qed (simp add: encode_integer_loop.simps [of v])
qed simp

lemma encode_integer_length: "length (encode_integer N head v) \<le> 6"
proof -
  have "unat w < 2 ^ (7 * 5)" for w :: u32
    using unsigned_less [of w] by (rule less_le_trans) simp
  then have "length (encode_integer_loop w) \<le> 5" for w by (intro encode_integer_loop_length) auto
  then show ?thesis by (simp add: encode_integer_def)
qed

lemma add_header_string_total:
  assumes "text \<noteq> []"
  shows "\<exists>out. add_header_string text = Some out \<and> length out \<le> 6 + length text"
proof -
  obtain out where "add_huffman_string (bytes_of (if last text = NUL then butlast text else text)) = Some out"
    "length out = huffman_string_size (bytes_of (if last text = NUL then butlast text else text))"
    using add_huffman_length by blast
  then show ?thesis
    using assms encode_integer_length [of 7 "0x80" "word_of_nat (length out)"]
      encode_integer_length [of 7 "0x80" "word_of_nat (length text)"]
    by (auto simp: add_header_string_def Let_def)
qed

lemma add_line_total:
  assumes "text \<noteq> []" "mt_contains_field static_table field \<or> get_field_string field \<noteq> []"
  shows "\<exists>out' rq'. add_line field text add_index (out, rq) = Some (out', rq') \<and>
    length out' \<le> length out + 20 + length (get_field_string field) + length text"
proof -
  obtain t where t: "add_header_string text = Some t" "length t \<le> 6 + length text"
    using add_header_string_total [OF assms(1)] by blast
  have e: "length (encode_integer N head v) \<le> 20 + k" for N head v k
    using encode_integer_length [of N head v] by simp
  have et: "length (encode_integer N head v) + length t \<le> 20 + (k + length text)" for N head v k
    using encode_integer_length [of N head v] t(2) by simp
  show ?thesis
  proof (cases "mt_contains_field static_table field")
    case True
    with t(1) e et show ?thesis by (auto simp: add_line_def with_table_def copy_header_line_def Let_def)
  next
    case False
    then obtain n where n: "add_header_string (get_field_string field) = Some n"
      "length n \<le> 6 + length (get_field_string field)"
      using assms(2) add_header_string_total by blast
    have "Suc (length n + length t) \<le> 20 + (length (get_field_string field) + length text)"
      using n(2) t(2) by simp
    with False t(1) n(1) e et show ?thesis
      by (auto simp: add_line_def with_table_def copy_header_line_def Let_def)
  qed
qed

lemma field_name_size: "get_field_string f \<noteq> [] \<and> length (get_field_string f) \<le> 80"
proof -
  have "list_all (\<lambda>name. name \<noteq> [] \<and> length name \<le> 80) (map snd field_list)"
    unfolding field_names by (simp add: field_lists)
  then show ?thesis using get_field_string_entry [of f] by (auto simp: list_all_iff)
qed

lemma std_to_string_length: "std_to_string n \<noteq> []" "length (std_to_string n) \<le> 20"
proof -
  show "std_to_string n \<noteq> []"
    by (simp add: std_to_string_def to_string_uint_def digits_loop.simps [of 10 lower "unat n"])
  have "unat n < 10 ^ 20" using unsigned_less [of n] by (rule less_le_trans) simp
  then show "length (std_to_string n) \<le> 20"
    by (simp add: std_to_string_def to_string_uint_def length_digits_loop_le)
qed

lemma copy_status_total:
  "\<exists>out rq'. with_table rq (copy_status_header (rq_dynamic_table rq) code) [] = Some (out, rq') \<and>
     length out \<le> 120"
proof (cases "code \<in> {200, 204, 206, 304, 400, 404, 500}")
  case True
  then show ?thesis by (auto simp: copy_status_header_def with_table_def)
next
  case False
  let ?text = "std_to_string (word_of_nat code)"
  have "mt_contains_field static_table (Pseudo Status)"
    by (simp add: static_table_contains_field static_table_list_def)
  moreover have "?text \<noteq> []" "length ?text \<le> 20"
    by (rule std_to_string_length)+
  ultimately obtain out' rq' where "add_line (Pseudo Status) ?text True ([], rq) = Some (out', rq')"
      "length out' \<le> 20 + length (get_field_string (Pseudo Status)) + 20"
    using add_line_total [of ?text "Pseudo Status" True "[]" rq] by fastforce
  moreover have "length (get_field_string (Pseudo Status)) \<le> 80" using field_name_size by blast
  ultimately show ?thesis
    using False by (auto simp: add_line_def copy_status_header_def copy_header_number_def)
qed

lemma add_page_line:
  assumes "text \<noteq> []"
  shows "\<exists>out' rq'. add_line f text add_index (out, rq) = Some (out', rq') \<and>
    length out' \<le> length out + 100 + length text"
  using add_line_total [OF assms, of f add_index out rq] field_name_size [of f] by fastforce

lemma http2_error_headers_total:
  assumes "0 < n" "n \<le> length date"
  shows "\<exists>headers rq'. http2_error_headers code date n len rq = Some (headers, rq') \<and> length headers \<le> 1000 + n"
proof -
  have date: "subrange date 0 n = Some (take n date)" "take n date \<noteq> []"
    using assms by (auto simp: subrange_def)
  obtain o1 r1 where 1: "with_table rq (copy_status_header (rq_dynamic_table rq) code) [] = Some (o1, r1)"
    "length o1 \<le> 120" using copy_status_total by blast
  obtain o2 r2 where 2: "add_line (General Date) (take n date) False (o1, r1) = Some (o2, r2)"
    "length o2 \<le> length o1 + 100 + length (take n date)" 
    using add_page_line [of "take n date" "General Date" False o1 r1] date(2) by blast
  obtain o3 r3 where 3: "add_line (Response Server) (WEB_SERVER_NAME @ [NUL]) True (o2, r2) = Some (o3, r3)"
    "length o3 \<le> length o2 + 100 + length (WEB_SERVER_NAME @ [NUL])" 
    using add_page_line [of "WEB_SERVER_NAME @ [NUL]" "Response Server" True o2 r2] by blast
  obtain o4 r4 where 4: "add_line (Response Content_Type) (''text/html'' @ [NUL]) True (o3, r3) = Some (o4, r4)"
    "length o4 \<le> length o3 + 100 + length (''text/html'' @ [NUL])" 
    using add_page_line [of "''text/html'' @ [NUL]" "Response Content_Type" True o3 r3] by blast
  obtain o5 r5 where 5: "add_line (General Connection) (''close'' @ [NUL]) True (o4, r4) = Some (o5, r5)"
    "length o5 \<le> length o4 + 100 + length (''close'' @ [NUL])" 
    using add_page_line [of "''close'' @ [NUL]" "General Connection" True o4 r4] by blast
  define b5 where "b5 = (if code = 400 \<or> code = 505 then (o5, r5) else (o4, r4))"
  have b5: "(if code = 400 \<or> code = 505 then add_line (General Connection) (''close'' @ [NUL]) True (o4, r4)
      else Some (o4, r4)) = Some b5" "length (fst b5) \<le> length o4 + 106"
    using 5 by (simp_all add: b5_def)
  obtain o6 r6 where 6: "add_line (Response Allow) (''GET, PRI'' @ [NUL]) True (fst b5, snd b5) = Some (o6, r6)"
    "length o6 \<le> length (fst b5) + 100 + length (''GET, PRI'' @ [NUL])" 
    using add_page_line [of "''GET, PRI'' @ [NUL]" "Response Allow" True "fst b5" "snd b5"] by blast
  define b6 where "b6 = (if code = 405 then (o6, r6) else b5)"
  have b6: "(if code = 405 then add_line (Response Allow) (''GET, PRI'' @ [NUL]) True b5 else Some b5) = Some b6"
    "length (fst b6) \<le> length (fst b5) + 109"
    using 6 by (simp_all add: b6_def)
  obtain o7 r7 where 7: "add_line (Response Content_Length) (std_to_string (word_of_nat len)) True (fst b6, snd b6) =
      Some (o7, r7)" "length o7 \<le> length (fst b6) + 100 + length (std_to_string (word_of_nat len :: u64))"
    using add_page_line [OF std_to_string_length(1) [of "word_of_nat len"], of "Response Content_Length" True "fst b6" "snd b6"] by blast
  have "http2_error_headers code date n len rq = Some (o7, r7)"
    unfolding http2_error_headers_def date 1(1) Option.bind.simps(2) 2(1) 3(1) 4(1) b5(1) b6(1)
    using 7(1) by simp
  moreover have "length o7 \<le> 1000 + n"
    using 1(2) 2(2) 3(2) 4(2) b5(2) b6(2) 7(2) std_to_string_length(2) [of "word_of_nat len"]
    by (simp add: WEB_SERVER_NAME_def)
  ultimately show ?thesis by blast
qed

lemma with_table_heap: "with_table rq w out = Some (out', rq') \<Longrightarrow> rq_heap rq' = rq_heap rq"
  by (auto simp: with_table_def)

lemma add_line_heap: "add_line f text add_index (out, rq) = Some (out', rq') \<Longrightarrow> rq_heap rq' = rq_heap rq"
  by (auto simp: add_line_def with_table_def)

lemma http2_error_headers_heap: "http2_error_headers code date n len rq = Some (hs, rq') \<Longrightarrow> rq_heap rq' = rq_heap rq"
  by (auto simp: http2_error_headers_def bind_Some_iff split: if_splits dest!: with_table_heap add_line_heap)

lemma http2_error_page:
  assumes "wf_ipv6 (sa_addr addr)" "0 < n" "n \<le> length date" "n \<le> 1000"
    and "respond \<in> {http2_add_404_Not_Found, http2_add_400_Bad_Request,
                    http2_add_405_Method_Not_Allowed, http2_add_505_HTTP_Version_Not_Supported}"
  obtains hs page rq' where "respond rq sid addr date n =
      Some (new_frame_bytes (word_of_nat (length hs)) HEADERS [END_HEADERS] sid @ hs @
        new_frame_bytes (word_of_nat (length page)) DATA [END_STREAM] sid @ bytes_of page, rq')"
    "length hs \<le> 2000" "length page \<le> 1024" "rq_heap rq' = rq_heap rq"
proof -
  have "\<exists>code message. respond = http2_add_error_html code message \<and> length message \<le> 200"
    using assms(5)
    by (elim insertE emptyE)
      (simp_all only: http2_add_404_Not_Found_def http2_add_400_Bad_Request_def
        http2_add_405_Method_Not_Allowed_def http2_add_505_HTTP_Version_Not_Supported_def,
       (rule exI, rule exI, rule conjI [OF refl], simp)+)
  then obtain code message where r: "respond = http2_add_error_html code message" "length message \<le> 200" by blast
  have "length (code_string_with_code 404) \<le> 30" "length (code_string_str 404) \<le> 30"
    by (auto simp: code_string_with_code_def code_string_str_def http_code_list_def
        code_number_def to_string_uint_def digits_loop.simps)
  with r(2) obtain page where page: "http11_error_html 404 message addr = Some page" "length page \<le> 1024"
    using http11_error_html_length [OF assms(1), of 404 message] by force
  obtain hs rq' where hs: "http2_error_headers code date n (length page) rq = Some (hs, rq')" "length hs \<le> 2000"
    using http2_error_headers_total [OF assms(2, 3), of code "length page" rq] assms(4) by force
  show ?thesis
    by (rule that [of hs page rq'])
      (use page hs http2_error_headers_heap [OF hs(1)] in \<open>simp_all add: r(1) http2_add_error_html_def\<close>)
qed

text \<open>
  Each of the four HTTP/2 error responses is produced for every local address, every stream and
  every state of the dynamic table, and consists of exactly two frames: HEADERS with END_HEADERS,
  whose length field is the size of its header block, and right behind it DATA with END_STREAM,
  whose length field is the size of the page that fills the rest.
\<close>

theorem http2_error_page_frames:
  assumes "wf_ipv6 (sa_addr addr)" "0 < n" "n \<le> length date" "n \<le> 1000"
    and "respond \<in> {http2_add_404_Not_Found, http2_add_400_Bad_Request,
                    http2_add_405_Method_Not_Allowed, http2_add_505_HTTP_Version_Not_Supported}"
  shows "\<exists>out rq' h b. respond rq sid addr date n = Some (out, rq') \<and>
    frame_at out 0 = Some h \<and> get_type h = Some HEADERS \<and> fr_flags h = flag_code END_HEADERS \<and>
    frame_at out (9 + unat (get_length h)) = Some b \<and> get_type b = Some DATA \<and>
    fr_flags b = flag_code END_STREAM \<and> get_stream_identifier b = get_stream_identifier h \<and>
    length out = 18 + unat (get_length h) + unat (get_length b)"
proof -
  obtain hs page rq' where r: "respond rq sid addr date n =
      Some (new_frame_bytes (word_of_nat (length hs)) HEADERS [END_HEADERS] sid @ hs @
        new_frame_bytes (word_of_nat (length page)) DATA [END_STREAM] sid @ bytes_of page, rq')"
    "length hs \<le> 2000" "length page \<le> 1024" using http2_error_page [OF assms] by blast
  let ?H = "new_frame_bytes (word_of_nat (length hs)) HEADERS [END_HEADERS] sid"
  let ?D = "new_frame_bytes (word_of_nat (length page)) DATA [END_STREAM] sid"
  have len: "unat (take_bit 24 (word_of_nat k :: u32)) = k" if "k \<le> 2000" for k
    using that by (simp add: unsigned_take_bit_eq unsigned_of_nat take_bit_nat_eq_self)
  obtain h where "frame_at (?H @ hs @ ?D @ bytes_of page) 0 = Some h"
      "get_length h = take_bit 24 (word_of_nat (length hs))" "get_type h = Some HEADERS"
      "fr_flags h = flag_code END_HEADERS" "get_stream_identifier h = sid AND NOT 0x80"
    using new_frame_bytes_at [of 0 "[]" "word_of_nat (length hs)" HEADERS "[END_HEADERS]" sid
        "hs @ ?D @ bytes_of page"] by auto
  moreover obtain b where "frame_at (?H @ hs @ ?D @ bytes_of page) (9 + length hs) = Some b"
      "get_length b = take_bit 24 (word_of_nat (length page))" "get_type b = Some DATA"
      "fr_flags b = flag_code END_STREAM" "get_stream_identifier b = sid AND NOT 0x80"
    using new_frame_bytes_at [of "9 + length hs" "?H @ hs" "word_of_nat (length page)" DATA "[END_STREAM]" sid
        "bytes_of page"] by auto
  ultimately show ?thesis
    using len [of "length hs"] len [of "length page"] r
    by (intro exI [of _ "?H @ hs @ ?D @ bytes_of page"] exI [of _ rq'] exI [of _ h] exI [of _ b]) simp
qed

theorem http2_error_page_frames_witness:
  "\<exists>out rq' h b. http2_add_404_Not_Found (new_request (new_dynamic_table 12) new_settings_store) 1
      \<lparr>sa_addr = [0, 0, 0, 0, 0, 0, 0, 0x100], sa_port = ipv6_port_of 443\<rparr> (''today'' @ [NUL]) 6 = Some (out, rq') \<and>
    frame_at out 0 = Some h \<and> get_type h = Some HEADERS \<and> fr_flags h = flag_code END_HEADERS \<and>
    frame_at out (9 + unat (get_length h)) = Some b \<and> get_type b = Some DATA \<and>
    fr_flags b = flag_code END_STREAM \<and> get_stream_identifier b = get_stream_identifier h \<and>
    length out = 18 + unat (get_length h) + unat (get_length b)"
  by (rule http2_error_page_frames) (simp_all add: wf_ipv6_def ipv6_addr16_size_def)

end
