(* ===== verification/EventExec.thy ===== *)
theory EventExec
  imports IotPrelude
begin

text \<open>
  serverlib/include/iot/states/event_distributor.hh: the protection of an event executor against
  concurrent events (\<open>enter_loop\<close>, \<open>exit_loop\<close>, \<open>execute_protector\<close>, \<open>execute_protector_noenter\<close>,
  \<open>mark_closed\<close>) as a step relation over any number of threads, with the three ways an executor
  enters the program.

  A step is one access to the shared state: the atomic counter or the flag \<open>closed\<close> (accesses are
  sequentially consistent).  \<open>execute\<close>, \<open>flush\<close> and \<open>close\<close> are the virtual functions of the
  executor; a thread inside one of them has the corresponding control state.  \<open>close\<close> is the call of
  the protector: an executor may also close itself inside its \<open>execute\<close>, and \<open>destroy_app\<close> closes
  the servers without the protector.
\<close>

subsection \<open>Threads of one executor\<close>

datatype pc =
    Idle
  | Enter_execute                 \<comment> \<open>\<open>execute_protector\<close>, before \<open>enter_loop\<close>\<close>
  | In_create                     \<comment> \<open>work of the creator before \<open>execute_protector_noenter\<close>\<close>
  | Direct_execute                \<comment> \<open>\<open>execute\<close>, called by the creator without the protector\<close>
  | Check_closed                  \<comment> \<open>head of the loop\<close>
  | In_execute
  | Exit_loop                     \<comment> \<open>before \<open>exit_loop\<close>\<close>
  | Set_closed bool               \<comment> \<open>\<open>mark_closed\<close>, before \<open>closed = true\<close>\<close>
  | Enter_close bool              \<comment> \<open>\<open>mark_closed\<close>, before \<open>enter_loop\<close>\<close>
  | In_flush
  | In_close

text \<open>
  The counter is a \<open>std::atomic<int>\<close>, which wraps.  The last four components are history: an event has
  been received that no execution has started for yet, a close has been requested that has not started
  yet, how often \<open>close\<close> has started, and how many more calls of \<open>enter_loop\<close> than of \<open>exit_loop\<close>
  there were.
\<close>

record executor =
  ex_count :: u32
  ex_closed :: bool
  ex_pc :: "nat \<Rightarrow> pc"
  ex_pending :: bool
  ex_close_pending :: bool
  ex_closes :: nat
  ex_open :: nat

definition new_executor :: executor where
  "new_executor = \<lparr>ex_count = 0, ex_closed = False, ex_pc = (\<lambda>_. Idle), ex_pending = False,
     ex_close_pending = False, ex_closes = 0, ex_open = 0\<rparr>"

definition goto :: "nat \<Rightarrow> pc \<Rightarrow> executor \<Rightarrow> executor" where
  "goto t p s = s\<lparr>ex_pc := (ex_pc s)(t := p)\<rparr>"

text \<open>\<open>enter_loop\<close> and \<open>exit_loop\<close>: the result and the new state.\<close>

definition enter_loop :: "executor \<Rightarrow> bool \<times> executor" where
  "enter_loop s = (ex_count s = 0, s\<lparr>ex_count := ex_count s + 1, ex_open := ex_open s + 1\<rparr>)"

definition exit_loop :: "executor \<Rightarrow> bool \<times> executor" where
  "exit_loop s = (ex_count s - 1 = 0, s\<lparr>ex_count := ex_count s - 1, ex_open := ex_open s - 1\<rparr>)"

text \<open>
  A new executor that is registered or given to \<open>execute_protector\<close> is \<open>new_executor\<close>.  The upgrades of
  iothttpevent.hh call \<open>enter_loop\<close> before they register the new executor, work on it, and go on with
  \<open>execute_protector_noenter\<close>.  \<open>iothttpsslevent::execute\<close> registers the new executor and calls its
  \<open>execute\<close> directly.
\<close>

definition entered_executor :: "nat \<Rightarrow> executor" where
  "entered_executor t = goto t In_create (snd (enter_loop new_executor))"


definition start_close :: "nat \<Rightarrow> executor \<Rightarrow> executor" where
  "start_close t s = (goto t In_close s)\<lparr>ex_close_pending := False, ex_closes := ex_closes s + 1\<rparr>"

text \<open>
  The step of a thread; an idle thread receives an event (\<open>Enter_execute\<close>) or a hang-up
  (\<open>Set_closed readclose\<close>).  A thread that fails the assertion of \<open>execute_protector_noenter\<close> has no
  step: the program is aborted.
\<close>

inductive ev_step :: "nat \<Rightarrow> executor \<Rightarrow> executor \<Rightarrow> bool" where
  event: "ex_pc s t = Idle \<Longrightarrow> ev_step t s (goto t Enter_execute s)"
| hangup: "ex_pc s t = Idle \<Longrightarrow> ev_step t s (goto t (Set_closed readclose) s)"
| enter_first: "ex_pc s t = Enter_execute \<Longrightarrow> enter_loop s = (True, s') \<Longrightarrow>
    ev_step t s ((goto t Check_closed s')\<lparr>ex_pending := True\<rparr>)"
| enter_other: "ex_pc s t = Enter_execute \<Longrightarrow> enter_loop s = (False, s') \<Longrightarrow>
    ev_step t s ((goto t Idle s')\<lparr>ex_pending := True\<rparr>)"
| noenter: "ex_pc s t = In_create \<Longrightarrow> 1 \<le> sint (ex_count s) \<Longrightarrow> ev_step t s (goto t Check_closed s)"
| direct_returns: "ex_pc s t = Direct_execute \<Longrightarrow> ev_step t s (goto t Idle s)"
| check_closed: "ex_pc s t = Check_closed \<Longrightarrow> ex_closed s \<Longrightarrow> ev_step t s (start_close t s)"
| check_open: "ex_pc s t = Check_closed \<Longrightarrow> \<not> ex_closed s \<Longrightarrow>
    ev_step t s ((goto t In_execute s)\<lparr>ex_pending := False\<rparr>)"
| execute_returns: "ex_pc s t = In_execute \<Longrightarrow> ev_step t s (goto t Exit_loop s)"
| exit_last: "ex_pc s t = Exit_loop \<Longrightarrow> exit_loop s = (True, s') \<Longrightarrow> ev_step t s (goto t Idle s')"
| exit_again: "ex_pc s t = Exit_loop \<Longrightarrow> exit_loop s = (False, s') \<Longrightarrow>
    ev_step t s (goto t Check_closed s')"
| set_closed: "ex_pc s t = Set_closed readclose \<Longrightarrow>
    ev_step t s ((goto t (Enter_close readclose) s)\<lparr>ex_closed := True\<rparr>)"
| close_first: "ex_pc s t = Enter_close readclose \<Longrightarrow> enter_loop s = (True, s') \<Longrightarrow>
    ev_step t s (if readclose then (goto t In_flush s')\<lparr>ex_close_pending := True\<rparr> else start_close t s')"
| close_other: "ex_pc s t = Enter_close readclose \<Longrightarrow> enter_loop s = (False, s') \<Longrightarrow>
    ev_step t s ((goto t Idle s')\<lparr>ex_close_pending := ex_closes s = 0\<rparr>)"
| flush_returns: "ex_pc s t = In_flush \<Longrightarrow> ev_step t s (start_close t s)"
| close_returns: "ex_pc s t = In_close \<Longrightarrow> ev_step t s (goto t Idle s)"

inductive_cases ev_stepE: "ev_step t s s'"

text \<open>The states a run from \<open>start\<close> comes to, all of them within \<open>ok\<close>.\<close>

inductive ev_run :: "(executor \<Rightarrow> bool) \<Rightarrow> executor \<Rightarrow> executor \<Rightarrow> bool" for ok start where
  ev_start: "ok start \<Longrightarrow> ev_run ok start start"
| ev_next: "ev_run ok start s \<Longrightarrow> ev_step t s s' \<Longrightarrow> ok s' \<Longrightarrow> ev_run ok start s'"

text \<open>Fewer calls of \<open>enter_loop\<close> are open than the counter can tell apart.\<close>

definition few_open :: "executor \<Rightarrow> bool" where
  "few_open s \<longleftrightarrow> ex_open s < 2 ^ 32"

definition protected_start :: "executor \<Rightarrow> bool" where
  "protected_start s \<longleftrightarrow> s = new_executor \<or> (\<exists>t. s = entered_executor t)"

text \<open>
  The invariant, with the holder \<open>h\<close>.  The counter is zero exactly while there is no holder and no
  close has started; a request that came in after the holder's last look at the shared state keeps
  the counter above one, so \<open>exit_loop\<close> sends the holder around the loop again.
\<close>

definition holding :: "pc \<Rightarrow> bool" where
  "holding p \<longleftrightarrow> p \<in> {In_create, Check_closed, In_execute, Exit_loop, In_flush, In_close}"

definition thread_ok :: "nat option \<Rightarrow> bool \<Rightarrow> nat \<Rightarrow> nat \<Rightarrow> pc \<Rightarrow> bool" where
  "thread_ok h closed closes t p \<longleftrightarrow>
     (holding p \<longleftrightarrow> h = Some t) \<and> (holding p \<longrightarrow> (closes = 1 \<longleftrightarrow> p = In_close)) \<and>
     (p \<in> {In_flush, Enter_close True, Enter_close False} \<longrightarrow> closed)"

definition ev_inv :: "nat option \<Rightarrow> executor \<Rightarrow> bool" where
  "ev_inv h s \<longleftrightarrow>
     (\<forall>t. thread_ok h (ex_closed s) (ex_closes s) t (ex_pc s t)) \<and>
     ex_count s = word_of_nat (ex_open s) \<and> (ex_open s = 0 \<longleftrightarrow> h = None \<and> ex_closes s = 0) \<and>
     ex_closes s \<le> 1 \<and> (ex_closes s = 1 \<or> ex_close_pending s \<longrightarrow> ex_closed s) \<and>
     (ex_closes s = 0 \<and> (ex_pending s \<or> ex_close_pending s) \<longrightarrow> h \<noteq> None \<and>
        (ex_pc s (the h) \<in> {In_execute, Exit_loop} \<longrightarrow> 2 \<le> ex_open s))"

lemma ev_invI:
  assumes "\<And>t. thread_ok h (ex_closed s) (ex_closes s) t (ex_pc s t)"
    "ex_count s = word_of_nat (ex_open s)" "ex_open s = 0 \<longleftrightarrow> h = None \<and> ex_closes s = 0"
    "ex_closes s \<le> 1" "ex_closes s = 1 \<or> ex_close_pending s \<longrightarrow> ex_closed s"
    "ex_closes s = 0 \<and> (ex_pending s \<or> ex_close_pending s) \<longrightarrow> h \<noteq> None \<and>
        (ex_pc s (the h) \<in> {In_execute, Exit_loop} \<longrightarrow> 2 \<le> ex_open s)"
  shows "ev_inv h s"
  using assms by (simp add: ev_inv_def)

lemma ev_invD:
  assumes "ev_inv h s"
  shows "thread_ok h (ex_closed s) (ex_closes s) t (ex_pc s t)"
    "ex_count s = word_of_nat (ex_open s)" "ex_open s = 0 \<longleftrightarrow> h = None \<and> ex_closes s = 0"
    "ex_closes s \<le> 1" "ex_closes s = 1 \<or> ex_close_pending s \<longrightarrow> ex_closed s"
    "ex_closes s = 0 \<Longrightarrow> ex_pending s \<or> ex_close_pending s \<Longrightarrow> h \<noteq> None \<and>
        (ex_pc s (the h) \<in> {In_execute, Exit_loop} \<longrightarrow> 2 \<le> ex_open s)"
  using assms by (simp_all add: ev_inv_def)

lemma goto_simps [simp]:
  "ex_count (goto t p s) = ex_count s" "ex_closed (goto t p s) = ex_closed s"
  "ex_pc (goto t p s) = (ex_pc s)(t := p)" "ex_pending (goto t p s) = ex_pending s"
  "ex_close_pending (goto t p s) = ex_close_pending s" "ex_closes (goto t p s) = ex_closes s"
  "ex_open (goto t p s) = ex_open s"
  by (simp_all add: goto_def)

lemma ev_inv_init: "protected_start s \<Longrightarrow> \<exists>h. ev_inv h s"
proof (unfold protected_start_def, elim disjE exE)
  assume "s = new_executor"
  then have "ev_inv None s" by (simp add: ev_inv_def new_executor_def thread_ok_def holding_def)
  then show ?thesis ..
next
  fix t
  assume "s = entered_executor t"
  then have "ev_inv (Some t) s"
    by (simp add: ev_inv_def entered_executor_def enter_loop_def new_executor_def thread_ok_def holding_def)
  then show ?thesis ..
qed

text \<open>While few calls are open, the counter tells whether none and whether one is open.\<close>

lemma count_open:
  assumes "ev_inv h s" "few_open s"
  shows "ex_count s = 0 \<longleftrightarrow> ex_open s = 0" "ex_count s = 1 \<longleftrightarrow> ex_open s = 1"
proof -
  have "unat (ex_count s) = ex_open s"
    using ev_invD(2) [OF assms(1)] assms(2) by (simp add: few_open_def unat_of_nat)
  then show "ex_count s = 0 \<longleftrightarrow> ex_open s = 0" "ex_count s = 1 \<longleftrightarrow> ex_open s = 1"
    by (simp_all add: word_unat_eq_iff)
qed

lemmas thread_rules = thread_ok_def holding_def enter_loop_def exit_loop_def start_close_def

lemma thread_ok_other:
  "thread_ok h closed closes u p \<Longrightarrow> h' = Some u \<longleftrightarrow> h = Some u \<Longrightarrow> closed \<longrightarrow> closed' \<Longrightarrow>
   h = Some u \<longrightarrow> closes' = closes \<Longrightarrow> thread_ok h' closed' closes' u p"
  by (auto simp: thread_ok_def)

text \<open>What a step does to the other threads follows from what it does to the shared state.\<close>

lemma ev_inv_step:
  assumes inv: "ev_inv h s" and few: "few_open s" and step: "ev_step t s s'"
  shows "ev_inv (if holding (ex_pc s' t) then Some t else if holding (ex_pc s t) then None else h) s'"
    (is "ev_inv ?h s'")
proof (rule ev_invI, goal_cases)
  case (1 u)
  note t_ok = ev_invD(1) [OF inv, of t] and u_ok = ev_invD(1) [OF inv, of u]
  have "thread_ok ?h (ex_closed s') (ex_closes s') t (ex_pc s' t)"
    using step
  proof cases
    case (close_first readclose s1)
    with ev_invD(3) [OF inv] count_open [OF inv few] show ?thesis
      using t_ok by (cases readclose) (auto simp: thread_rules)
  next
    case flush_returns
    with t_ok ev_invD(4) [OF inv] count_open [OF inv few] show ?thesis by (simp add: thread_rules)
  qed (use t_ok ev_invD(3-5) [OF inv] count_open [OF inv few] in \<open>simp_all add: thread_rules\<close>)
  show ?case
  proof (cases "u = t")
    case True
    show ?thesis unfolding True by fact
  next
    case False
    have "holding (ex_pc s' t) \<Longrightarrow> \<not> holding (ex_pc s t) \<Longrightarrow> h = None"
      using step ev_invD(3) [OF inv] count_open [OF inv few]
      by cases (auto simp: holding_def enter_loop_def exit_loop_def start_close_def split: if_splits)
    moreover have "holding (ex_pc s t) \<longleftrightarrow> h = Some t" using t_ok by (simp add: thread_ok_def)
    ultimately have h: "?h = Some u \<longleftrightarrow> h = Some u" using False by auto
    have same: "ex_pc s' u = ex_pc s u"
      using step False by cases (auto simp: enter_loop_def exit_loop_def start_close_def)
    have closed: "ex_closed s \<longrightarrow> ex_closed s'"
      using step by cases (auto simp: enter_loop_def exit_loop_def start_close_def)
    have closes: "h = Some u \<longrightarrow> ex_closes s' = ex_closes s"
      using step False t_ok ev_invD(3) [OF inv] count_open [OF inv few] by cases (auto simp: thread_rules)
    show ?thesis unfolding same by (rule thread_ok_other [OF u_ok h closed]) (rule closes)
  qed
next
  case 2
  show ?case
    using step ev_invD(1) [OF inv, of t] ev_invD(2, 3) [OF inv]
    by cases (auto simp: thread_rules of_nat_diff)
next
  case 3
  show ?case
    using step ev_invD(1) [OF inv, of t] ev_invD(3-) [OF inv] count_open [OF inv few]
    by cases (auto simp: thread_rules)
next
  case 4
  show ?case
    using step ev_invD(1) [OF inv, of t] ev_invD(3-) [OF inv] count_open [OF inv few]
    by cases (auto simp: thread_rules)
next
  case 5
  show ?case
    using step ev_invD(1) [OF inv, of t] ev_invD(3-) [OF inv] count_open [OF inv few]
    by cases (auto simp: thread_rules)
next
  case 6
  show ?case
    using step ev_invD(1) [OF inv, of t] ev_invD(3-) [OF inv] count_open [OF inv few]
    by cases (auto simp: thread_rules)
qed

lemma ev_run_ok: "ev_run ok start s \<Longrightarrow> ok s"
  by (induction rule: ev_run.induct)

lemma ev_inv_run: "ev_run few_open start s \<Longrightarrow> protected_start start \<Longrightarrow> \<exists>h. ev_inv h s"
proof (induction rule: ev_run.induct)
  case (ev_next s t s')
  then show ?case using ev_inv_step ev_run_ok by blast
qed (rule ev_inv_init)

text \<open>A requested close is on its way to the counter, or noted there, or has started.\<close>

definition close_noted :: "executor \<Rightarrow> bool" where
  "close_noted s \<longleftrightarrow> (ex_closed s \<and> ex_closes s = 0 \<longrightarrow>
     ex_close_pending s \<or> (\<exists>t b. ex_pc s t = Enter_close b))"

lemma close_noted_step: "ev_step t s s' \<Longrightarrow> close_noted s \<Longrightarrow> close_noted s'"
proof (induction rule: ev_step.induct)
  case (set_closed s t readclose)
  then show ?case by (auto simp: close_noted_def intro: exI [of _ t])
qed (auto simp: close_noted_def enter_loop_def exit_loop_def start_close_def split: if_splits;
    metis pc.distinct)+

lemma close_noted_run: "ev_run ok start s \<Longrightarrow> protected_start start \<Longrightarrow> close_noted s"
proof (induction rule: ev_run.induct)
  case ev_start
  then show ?case
    by (auto simp: close_noted_def protected_start_def entered_executor_def enter_loop_def new_executor_def)
next
  case (ev_next s t s')
  then show ?case using close_noted_step by blast
qed

lemma thread_holding: "ev_inv h s \<Longrightarrow> holding (ex_pc s t) \<longleftrightarrow> h = Some t"
  using ev_invD(1) [of h s t] by (simp add: thread_ok_def)

text \<open>
  C1: For an executor that starts with \<open>execute_protector\<close>, or with \<open>enter_loop\<close> and
  \<open>execute_protector_noenter\<close>, and as long as fewer than 2^32 calls of \<open>enter_loop\<close> are open: whatever
  the interleaving of any number of threads that receive events and hang-ups for it, no two of them are
  inside the protector (the creator's work, \<open>execute\<close>, \<open>flush\<close> or \<open>close\<close>) at the same time, the
  protector starts \<open>close\<close> at most once, and once it has started \<open>execute\<close> and \<open>flush\<close> are never
  entered again.
\<close>

theorem executor_exclusive:
  assumes "protected_start start" "ev_run few_open start s"
  shows "(\<forall>t u. holding (ex_pc s t) \<and> holding (ex_pc s u) \<longrightarrow> t = u) \<and> ex_closes s \<le> 1 \<and>
    (ex_closes s = 1 \<longrightarrow> (\<forall>t. ex_pc s t \<notin> {In_create, Check_closed, In_execute, Exit_loop, In_flush}))"
proof -
  obtain h where h: "ev_inv h s" using ev_inv_run [OF assms(2, 1)] by blast
  have "ex_closes s = 1 \<Longrightarrow> ex_pc s t \<notin> {In_create, Check_closed, In_execute, Exit_loop, In_flush}" for t
    using ev_invD(1) [OF h, of t] by (auto simp: thread_ok_def holding_def)
  then show ?thesis using thread_holding [OF h] ev_invD(4) [OF h] by auto
qed

text \<open>
  A run: thread 0 receives an event and executes; thread 1 hangs up meanwhile; then thread 1 leaves and
  thread 0 goes around the loop and closes.
\<close>

definition sample_executor :: executor where
  "sample_executor = \<lparr>ex_count = 1, ex_closed = True,
     ex_pc = ((\<lambda>_. Idle)(0 := Exit_loop))(1 := Enter_close False), ex_pending = False,
     ex_close_pending = False, ex_closes = 0, ex_open = 1\<rparr>"

definition closed_executor :: executor where
  "closed_executor = \<lparr>ex_count = 1, ex_closed = True, ex_pc = (\<lambda>_. Idle), ex_pending = False,
     ex_close_pending = False, ex_closes = 1, ex_open = 1\<rparr>"

lemmas run_simps = enter_loop_def exit_loop_def new_executor_def few_open_def start_close_def

lemma executing_run:
  assumes "few_open \<le> ok"
  shows "ev_run ok new_executor
    \<lparr>ex_count = 1, ex_closed = False, ex_pc = (\<lambda>_. Idle)(0 := In_execute), ex_pending = False,
     ex_close_pending = False, ex_closes = 0, ex_open = 1\<rparr>"
proof -
  have ok: "few_open s \<Longrightarrow> ok s" for s using assms by (auto simp: le_fun_def)
  let ?s0 = "goto 0 Enter_execute new_executor"
  let ?s1 = "(goto 0 Check_closed (?s0\<lparr>ex_count := 1, ex_open := 1\<rparr>))\<lparr>ex_pending := True\<rparr>"
  let ?s2 = "(goto 0 In_execute ?s1)\<lparr>ex_pending := False\<rparr>"
  have "ev_run ok new_executor new_executor" by (rule ev_start) (simp add: ok run_simps)
  then have "ev_run ok new_executor ?s0"
    by (rule ev_next [OF _ ev_step.event]) (simp_all add: ok run_simps)
  then have "ev_run ok new_executor ?s1"
    by (rule ev_next [OF _ ev_step.enter_first]) (simp_all add: ok run_simps goto_def)
  then have "ev_run ok new_executor ?s2"
    by (rule ev_next [OF _ ev_step.check_open]) (simp_all add: ok run_simps)
  then show ?thesis by (simp add: new_executor_def goto_def)
qed

lemma hangup_run: "ev_run few_open new_executor sample_executor"
proof -
  let ?s2 = "\<lparr>ex_count = 1, ex_closed = False, ex_pc = (\<lambda>_. Idle)(0 := In_execute), ex_pending = False,
     ex_close_pending = False, ex_closes = 0, ex_open = 1\<rparr>"
  let ?s3 = "goto 1 (Set_closed False) ?s2"
  let ?s4 = "(goto 1 (Enter_close False) ?s3)\<lparr>ex_closed := True\<rparr>"
  let ?s5 = "goto 0 Exit_loop ?s4"
  have "ev_run few_open new_executor ?s2" by (rule executing_run) simp
  then have "ev_run few_open new_executor ?s3"
    by (rule ev_next [OF _ ev_step.hangup]) (simp_all add: run_simps)
  then have "ev_run few_open new_executor ?s4"
    by (rule ev_next [OF _ ev_step.set_closed]) (simp_all add: run_simps)
  then have "ev_run few_open new_executor ?s5"
    by (rule ev_next [OF _ ev_step.execute_returns]) (simp_all add: run_simps)
  moreover have "?s5 = sample_executor"
    by (simp add: sample_executor_def goto_def fun_upd_twist)
  ultimately show ?thesis by simp
qed

lemma closed_run: "ev_run few_open new_executor closed_executor"
proof -
  let ?s6 = "(goto 1 Idle (sample_executor\<lparr>ex_count := 2, ex_open := 2\<rparr>))\<lparr>ex_close_pending := True\<rparr>"
  let ?s7 = "goto 0 Check_closed (?s6\<lparr>ex_count := 1, ex_open := 1\<rparr>)"
  let ?s8 = "start_close 0 ?s7"
  let ?s9 = "goto 0 Idle ?s8"
  have "ev_run few_open new_executor ?s6"
    using ev_next [OF hangup_run ev_step.close_other, of 1 False "sample_executor\<lparr>ex_count := 2, ex_open := 2\<rparr>"]
    by (simp add: run_simps sample_executor_def)
  then have "ev_run few_open new_executor ?s7"
    by (rule ev_next [OF _ ev_step.exit_again]) (simp_all add: run_simps sample_executor_def goto_def)
  then have "ev_run few_open new_executor ?s8"
    by (rule ev_next [OF _ ev_step.check_closed]) (simp_all add: run_simps sample_executor_def)
  then have "ev_run few_open new_executor ?s9"
    by (rule ev_next [OF _ ev_step.close_returns]) (simp_all add: run_simps sample_executor_def)
  moreover have "?s9 = closed_executor"
    by (auto simp: closed_executor_def sample_executor_def start_close_def goto_def fun_eq_iff)
  ultimately show ?thesis by simp
qed

theorem executor_exclusive_witness:
  "{u. holding (ex_pc sample_executor u)} = {0} \<and> ex_closes sample_executor \<le> 1"
proof -
  have "holding (ex_pc sample_executor 0)" by (simp add: sample_executor_def holding_def)
  moreover have "protected_start new_executor" by (simp add: protected_start_def)
  ultimately show ?thesis using executor_exclusive [OF _ hangup_run] by blast
qed

text \<open>
  C2: No event is lost and no close is forgotten, for an executor that starts under the protector and
  as long as fewer than 2^32 calls of \<open>enter_loop\<close> are open: when all threads are idle again, either
  \<open>close\<close> has run, or no close was requested, every event received has been followed by the start of
  an \<open>execute\<close>, and the counter is back at zero.
\<close>

theorem executor_no_lost_event:
  assumes "protected_start start" "ev_run few_open start s" "\<And>t. ex_pc s t = Idle"
  shows "ex_closes s = 1 \<or> \<not> ex_closed s \<and> \<not> ex_pending s \<and> ex_count s = 0"
proof -
  obtain h where h: "ev_inv h s" using ev_inv_run [OF assms(2, 1)] by blast
  have none: "h = None"
    using thread_holding [OF h] assms(3) by (cases h) (auto simp: holding_def)
  show ?thesis
  proof (cases "ex_closes s = 0")
    case True
    then have "\<not> ex_pending s" "\<not> ex_close_pending s" "ex_count s = 0"
      using ev_invD(2, 3, 6) [OF h] none by auto
    moreover have "\<not> ex_closed s"
      using close_noted_run [OF assms(2, 1)] True \<open>\<not> ex_close_pending s\<close> assms(3)
      by (auto simp: close_noted_def)
    ultimately show ?thesis by blast
  qed (use ev_invD(4) [OF h] in simp)
qed

text \<open>The run with a hang-up during an execution, to its end; the counter stays at one, so no thread enters again.\<close>

theorem executor_no_lost_event_witness:
  "ev_run few_open new_executor closed_executor \<and> ex_closed closed_executor \<and>
   (ex_closes closed_executor = 1 \<or>
    \<not> ex_closed closed_executor \<and> \<not> ex_pending closed_executor \<and> ex_count closed_executor = 0)"
proof -
  have "protected_start new_executor" by (simp add: protected_start_def)
  moreover have "ex_pc closed_executor t = Idle" for t by (simp add: closed_executor_def)
  ultimately show ?thesis
    using executor_no_lost_event [OF _ closed_run] closed_run by (simp add: closed_executor_def)
qed

subsection \<open>Where two threads run one executor\<close>




end
