(* ===== verification/States.thy ===== *)
theory States
  imports IotPrelude
begin

text \<open>
  serverlib/include/iot/states/statesentry.hh and states.hh: the states of threads and connections
  with their names and descriptions.
\<close>

datatype state_t =
    STATE_UNKNOWN
  | EVENT_DIST_NONE
  | EVENT_DIST_EPOLL_WAIT
  | EVENT_DIST_EPOLL_TERMINATE
  | EVENT_DIST_EPOLL_ERROR
  | EVENT_DIST_EPOLL_PROCESSING
  | EVENT_DIST_EPOLL_CLOSE
  | EVENT_DIST_EPOLL_EXECUTE
  | SOCKET_PEER_ACCEPT
  | SOCKET_PEER_EVENT
  | SOCKET_PEER_READ
  | SOCKET_PEER_WRITE
  | SOCKET_PEER_CLOSE
  | SOCKET_PEER_READ_CLOSE
  | SOCKET_PEER_CLOSED
  | HTTP2_SETTINGS_WRITE
  | HTTP2_NEXT_MAGIC
  | HTTP2_FIRST_FRAME
  | SERVEREVENT_MOVED

definition state_entry_list :: "(state_t \<times> string \<times> string) list" where
  "state_entry_list =
    [(STATE_UNKNOWN, ''STATE_UNKNOWN'', ''Unknown state''),
     (EVENT_DIST_NONE, ''EVENT_DIST_NONE'', ''Not yet started''),
     (EVENT_DIST_EPOLL_WAIT, ''EVENT_DIST_EPOLL_WAIT'', ''Epoll waiting for Event''),
     (EVENT_DIST_EPOLL_TERMINATE, ''EVENT_DIST_EPOLL_TERMINATE'', ''Epoll Terminated''),
     (EVENT_DIST_EPOLL_ERROR, ''EVENT_DIST_EPOLL_ERROR'', ''Epoll error''),
     (EVENT_DIST_EPOLL_PROCESSING, ''EVENT_DIST_EPOLL_PROCESSING'', ''Epoll processing''),
     (EVENT_DIST_EPOLL_CLOSE, ''EVENT_DIST_EPOLL_CLOSE'', ''Epoll close''),
     (EVENT_DIST_EPOLL_EXECUTE, ''EVENT_DIST_EPOLL_EXECUTE'', ''Epoll execute''),
     (SOCKET_PEER_ACCEPT, ''SOCKET_PEER_ACCEPT'', ''Accept not completed, happens with SSL''),
     (SOCKET_PEER_EVENT, ''SOCKET_PEER_EVENT'', ''Next operation is based on event type''),
     (SOCKET_PEER_READ, ''SOCKET_PEER_READ'', ''Next operation is READ''),
     (SOCKET_PEER_WRITE, ''SOCKET_PEER_WRITE'', ''Next operation is WRITE''),
     (SOCKET_PEER_CLOSE, ''SOCKET_PEER_CLOSE'', ''Next operation is CLOSE''),
     (SOCKET_PEER_READ_CLOSE, ''SOCKET_PEER_READ_CLOSE'', ''Next operation is READ CLOSE''),
     (SOCKET_PEER_CLOSED, ''SOCKET_PEER_CLOSED'', ''Socket is close no further operation must be performed on this''),
     (HTTP2_SETTINGS_WRITE, ''HTTP2_SETTINGS_WRITE'', ''HTTP2 write settings as this is first packet''),
     (HTTP2_NEXT_MAGIC, ''HTTP2_NEXT_MAGIC'', ''HTTP2 next frame is a magic frame''),
     (HTTP2_FIRST_FRAME, ''HTTP2_FIRST_FRAME'', ''HTTP2 this is first frame without connection preface''),
     (SERVEREVENT_MOVED, ''SERVEREVENT_MOVED'', ''SERVEREVENT is moved to another object'')]"

definition state_id :: "state_t \<Rightarrow> string" where
  "state_id s = fst (the (map_of state_entry_list s))"

definition state_description :: "state_t \<Rightarrow> string" where
  "state_description s = snd (the (map_of state_entry_list s))"

text \<open>\<open>to_string\<close>: the characters stored at \<open>dest\<close>; the code returns their number.\<close>

definition state_to_string :: "bool \<Rightarrow> state_t \<Rightarrow> string" where
  "state_to_string null_terminated s = state_description s @ (if null_terminated then [NUL] else [])"

text \<open>The stream operator.\<close>

definition show_state :: "state_t \<Rightarrow> string" where
  "show_state s = state_id s @ '' '' @ state_description s"

lemma state_entry_list_complete: "s \<in> set (map fst state_entry_list)"
  by (cases s) (simp_all add: state_entry_list_def)

text \<open>The printed form determines the state.\<close>

lemma state_ids_distinct: "distinct (map (\<lambda>(s, i, d). i) state_entry_list)"
  by (simp add: state_entry_list_def)

lemma state_of_id: "map_of (map (\<lambda>(s, i, d). (i, s)) state_entry_list) (state_id s) = Some s"
  by (cases s) (simp_all add: state_id_def state_entry_list_def)

lemma state_id_inj: "state_id s = state_id t \<Longrightarrow> s = t"
  using state_of_id by (metis option.inject)

end
