(* ===== verification/DelayedFree.thy ===== *)
theory DelayedFree
  imports States
begin

text \<open>
  serverlib/include/iot/states/event_distributor.hh and event_distributor.cc: the delayed release
  of closed executors (\<open>delayed_free\<close>, \<open>event_cleanup\<close>, the clean-up thread) and its detection of
  threads that hang.  The clock is an argument of every operation that reads it.
\<close>

definition event_cleanup_time_in_ns :: u64 where
  "event_cleanup_time_in_ns = 2 * 1000 * 1000000"

definition event_dist_deadlock_in_nanos :: u64 where
  "event_dist_deadlock_in_nanos = 10000 * 1000000"

subsection \<open>event_cleanup\<close>

record event_cleanup =
  ec_ptr :: nat
  ec_timestamp :: u64

definition to_free :: "u64 \<Rightarrow> event_cleanup \<Rightarrow> bool" where
  "to_free now c \<longleftrightarrow> ec_timestamp c + event_cleanup_time_in_ns \<le> now"

record distributor =
  ed_closed_received :: "nat set"
  ed_cleanup_queue :: "event_cleanup list"

definition new_distributor :: distributor where
  "new_distributor = \<lparr>ed_closed_received = {}, ed_cleanup_queue = []\<rparr>"

text \<open>The result tells whether the entry is new.\<close>

definition delayed_free :: "u64 \<Rightarrow> nat \<Rightarrow> distributor \<Rightarrow> bool \<times> distributor" where
  "delayed_free now ptr d =
     (if ptr \<notin> ed_closed_received d then
        (True, d\<lparr>ed_closed_received := insert ptr (ed_closed_received d),
                 ed_cleanup_queue := ed_cleanup_queue d @ [\<lparr>ec_ptr = ptr, ec_timestamp = now\<rparr>]\<rparr>)
      else (False, d))"

definition remove_and_free :: "event_cleanup \<Rightarrow> nat set \<Rightarrow> nat set" where
  "remove_and_free c closed_received = closed_received - {ec_ptr c}"

text \<open>
  The loop of the clean-up thread, with the times its condition reads; the loop ends at the first
  entry that is too young.  The result has the deleted executors.
\<close>

fun cleanup_loop :: "u64 list \<Rightarrow> distributor \<Rightarrow> nat list \<times> distributor" where
  "cleanup_loop [] d = ([], d)"
| "cleanup_loop (now # clocks) d =
     (case ed_cleanup_queue d of
        [] \<Rightarrow> ([], d)
      | c # cs \<Rightarrow>
          if to_free now c then
            let (freed, d') = cleanup_loop clocks
                  \<lparr>ed_closed_received = remove_and_free c (ed_closed_received d), ed_cleanup_queue = cs\<rparr>
            in (ec_ptr c # freed, d')
          else ([], d))"

text \<open>After termination the rest of the queue is deleted.\<close>

fun cleanup_rest :: "event_cleanup list \<Rightarrow> nat set \<Rightarrow> nat list \<times> nat set" where
  "cleanup_rest [] closed_received = ([], closed_received)"
| "cleanup_rest (c # cs) closed_received =
     (let (freed, rest) = cleanup_rest cs (remove_and_free c closed_received) in (ec_ptr c # freed, rest))"

definition cleanup_all :: "distributor \<Rightarrow> nat list \<times> distributor" where
  "cleanup_all d =
     (let (freed, closed_received) = cleanup_rest (ed_cleanup_queue d) (ed_closed_received d)
      in (freed, \<lparr>ed_closed_received = closed_received, ed_cleanup_queue = []\<rparr>))"

subsection \<open>Threads that hang\<close>

record event_thread_entry =
  et_pthread :: nat
  et_state :: state_t
  et_timestamp :: u64

definition new_thread_entry :: "u64 \<Rightarrow> nat \<Rightarrow> event_thread_entry" where
  "new_thread_entry now pthread =
     \<lparr>et_pthread = pthread, et_state = EVENT_DIST_NONE, et_timestamp = now\<rparr>"

definition set_state :: "u64 \<Rightarrow> state_t \<Rightarrow> event_thread_entry \<Rightarrow> event_thread_entry" where
  "set_state now s e = e\<lparr>et_state := s, et_timestamp := now\<rparr>"

text \<open>The entries the clean-up thread \<open>self\<close> reports.\<close>

definition deadlocked :: "u64 \<Rightarrow> nat \<Rightarrow> event_thread_entry list \<Rightarrow> event_thread_entry list" where
  "deadlocked current_time self entries =
     filter (\<lambda>e. et_pthread e \<noteq> self \<and> et_state e \<noteq> EVENT_DIST_EPOLL_WAIT \<and>
                 event_dist_deadlock_in_nanos \<le> current_time - et_timestamp e) entries"

subsection \<open>Every closed executor is deleted once\<close>

datatype free_op = Delayed_free u64 nat | Cleanup "u64 list" | Terminate

text \<open>An operation on a distributor and the lists of accepted and deleted executors.\<close>

fun free_step :: "free_op \<Rightarrow> distributor \<times> nat list \<times> nat list \<Rightarrow> distributor \<times> nat list \<times> nat list" where
  "free_step (Delayed_free now ptr) (d, accepted, freed) =
     (let (new, d') = delayed_free now ptr d in (d', if new then ptr # accepted else accepted, freed))"
| "free_step (Cleanup clocks) (d, accepted, freed) =
     (let (fs, d') = cleanup_loop clocks d in (d', accepted, fs @ freed))"
| "free_step Terminate (d, accepted, freed) =
     (let (fs, d') = cleanup_all d in (d', accepted, fs @ freed))"

definition run_free :: "free_op list \<Rightarrow> distributor \<times> nat list \<times> nat list" where
  "run_free ops = fold free_step ops (new_distributor, [], [])"

definition free_inv :: "distributor \<Rightarrow> bool" where
  "free_inv d \<longleftrightarrow> distinct (map ec_ptr (ed_cleanup_queue d)) \<and>
     ed_closed_received d = set (map ec_ptr (ed_cleanup_queue d))"

lemma cleanup_loop_inv:
  "free_inv d \<Longrightarrow> cleanup_loop clocks d = (fs, d') \<Longrightarrow>
   free_inv d' \<and> map ec_ptr (ed_cleanup_queue d) = fs @ map ec_ptr (ed_cleanup_queue d')"
proof (induction clocks d arbitrary: fs d' rule: cleanup_loop.induct)
  case (2 now clocks d)
  show ?case
  proof (cases "ed_cleanup_queue d")
    case (Cons c cs)
    let ?d = "\<lparr>ed_closed_received = remove_and_free c (ed_closed_received d), ed_cleanup_queue = cs\<rparr>"
    have "free_inv ?d" using "2.prems"(1) Cons by (auto simp: free_inv_def remove_and_free_def)
    with 2 Cons show ?thesis by (auto simp: Let_def split: prod.splits if_splits)
  qed (use 2 in simp)
qed simp

lemma cleanup_rest_all:
  "cleanup_rest cs closed = (fs, rest) \<Longrightarrow> fs = map ec_ptr cs \<and> rest = closed - set (map ec_ptr cs)"
  by (induction cs closed arbitrary: fs rest rule: cleanup_rest.induct)
    (auto simp: remove_and_free_def split: prod.splits)

text \<open>Accepted and not yet deleted is exactly what is in the queue.\<close>

definition free_balance :: "distributor \<times> nat list \<times> nat list \<Rightarrow> bool" where
  "free_balance s = (case s of (d, accepted, freed) \<Rightarrow> free_inv d \<and>
     (\<forall>p. count_list accepted p =
        count_list freed p + count_list (map ec_ptr (ed_cleanup_queue d)) p))"

lemma free_balance_step: "free_balance s \<Longrightarrow> free_balance (free_step op s)"
proof (cases s, cases op)
  fix d accepted freed now ptr
  assume "free_balance s" "s = (d, accepted, freed)" "op = Delayed_free now ptr"
  then show ?thesis by (auto simp: free_balance_def free_inv_def delayed_free_def)
next
  fix d accepted freed clocks
  assume a: "free_balance s" "s = (d, accepted, freed)" "op = Cleanup clocks"
  obtain fs d' where c: "cleanup_loop clocks d = (fs, d')" by fastforce
  with a cleanup_loop_inv [of d clocks fs d'] show ?thesis by (auto simp: free_balance_def)
next
  fix d accepted freed
  assume a: "free_balance s" "s = (d, accepted, freed)" "op = Terminate"
  obtain fs rest where c: "cleanup_rest (ed_cleanup_queue d) (ed_closed_received d) = (fs, rest)" by fastforce
  with a cleanup_rest_all [OF c] show ?thesis
    by (auto simp: free_balance_def free_inv_def cleanup_all_def)
qed

lemma free_balance_run: "free_balance (fold free_step ops s)" if "free_balance s"
  using that by (induction ops arbitrary: s) (auto simp: free_balance_step)

text \<open>
  C39: over any sequence of \<open>delayed_free\<close> calls and clean-up passes, an executor is deleted at most as
  often as it was accepted, one that has been accepted and not deleted is in \<open>closed_received\<close> (so
  it is not accepted twice), and termination deletes everything that was accepted.
\<close>

theorem executor_deleted_once:
  assumes "run_free ops = (d, accepted, freed)"
  shows "count_list accepted p = count_list freed p + (if p \<in> ed_closed_received d then 1 else 0) \<and>
    (\<exists>d' freed'. run_free (ops @ [Terminate]) = (d', accepted, freed') \<and>
       count_list freed' p = count_list accepted p \<and> ed_cleanup_queue d' = [])"
proof -
  have init: "free_balance (new_distributor, [], [])"
    by (simp add: free_balance_def free_inv_def new_distributor_def)
  have bal: "free_balance (d, accepted, freed)"
    using free_balance_run [OF init, of ops] assms by (simp add: run_free_def)
  have count: "count_list xs p = (if p \<in> set xs then 1 else 0)" if "distinct xs" for xs :: "nat list"
    using that by (induction xs) auto
  have first: "count_list accepted p = count_list freed p + (if p \<in> ed_closed_received d then 1 else 0)"
    using bal count [of "map ec_ptr (ed_cleanup_queue d)"] by (simp add: free_balance_def free_inv_def)
  obtain fs rest where c: "cleanup_rest (ed_cleanup_queue d) (ed_closed_received d) = (fs, rest)" by fastforce
  have "run_free (ops @ [Terminate]) =
      (\<lparr>ed_closed_received = rest, ed_cleanup_queue = []\<rparr>, accepted, fs @ freed)"
    using assms by (simp add: run_free_def cleanup_all_def c)
  moreover have "count_list (fs @ freed) p = count_list accepted p"
    using bal cleanup_rest_all [OF c] by (simp add: free_balance_def)
  ultimately show ?thesis using first by auto
qed

theorem executor_deleted_once_witness:
  "count_list [1, 2, 1 :: nat] 1 = count_list [1 :: nat] 1 + 1"
proof -
  have "run_free [Delayed_free 0 1, Delayed_free 0 1, Cleanup [2000000000, 2000000000],
      Delayed_free 5 2, Delayed_free 5 1] =
    (\<lparr>ed_closed_received = {2, 1}, ed_cleanup_queue =
        [\<lparr>ec_ptr = 2, ec_timestamp = 5\<rparr>, \<lparr>ec_ptr = 1, ec_timestamp = 5\<rparr>]\<rparr>, [1, 2, 1], [1])"
    by (simp add: run_free_def new_distributor_def delayed_free_def to_free_def
        event_cleanup_time_in_ns_def remove_and_free_def insert_commute)
  from executor_deleted_once [OF this, of 1] show ?thesis by simp
qed

end
