(* ===== verification/Message.thy ===== *)
theory Message
  imports Guid Errors
begin

text \<open>
  serverlib/include/iot/message.hh and lib/message.cc: the binary messages between a device and the
  server.  \<open>Base\<close> is the 16-bit message code; \<open>Command\<close> adds a count and a fixed array of sixteen
  packed entries, of which only the counted ones are sent.  Codes stay 16-bit words, because a
  received value need not be an enumerator.
\<close>

subsection \<open>Codes\<close>

datatype Code = UNKNOWN | REGISTER | CONNECT | KEEP_ALIVE | UNAUTHORIZED | SUCCESS_message | COMMAND
  | BAD_REQUEST

definition message_code_list :: "(Code \<times> string) list" where
  "message_code_list =
    [(UNKNOWN, ''UNKNOWN''), (REGISTER, ''REGISTER''), (CONNECT, ''CONNECT''),
     (KEEP_ALIVE, ''KEEP_ALIVE''), (UNAUTHORIZED, ''UNAUTHORIZED''), (SUCCESS_message, ''SUCCESS''),
     (COMMAND, ''COMMAND''), (BAD_REQUEST, ''BAD_REQUEST'')]"

fun code_value :: "Code \<Rightarrow> u16" where
  "code_value UNKNOWN = 0"
| "code_value REGISTER = 1"
| "code_value CONNECT = 2"
| "code_value KEEP_ALIVE = 3"
| "code_value UNAUTHORIZED = 4"
| "code_value SUCCESS_message = 5"
| "code_value COMMAND = 6"
| "code_value BAD_REQUEST = 7"

datatype operation_code = SWITCH | LEVEL | RED | GREEN | BLUE | GAMMA

definition message_operation_list :: "(operation_code \<times> string) list" where
  "message_operation_list =
    [(SWITCH, ''SWITCH''), (LEVEL, ''LEVEL''), (RED, ''RED''), (GREEN, ''GREEN''), (BLUE, ''BLUE''),
     (GAMMA, ''GAMMA'')]"

fun operation_value :: "operation_code \<Rightarrow> u16" where
  "operation_value SWITCH = 0"
| "operation_value LEVEL = 1"
| "operation_value RED = 2"
| "operation_value GREEN = 3"
| "operation_value BLUE = 4"
| "operation_value GAMMA = 5"

definition operation_to_string :: "u16 \<Rightarrow> string" where
  "operation_to_string v =
     (if unat v < length message_operation_list then snd (message_operation_list ! unat v)
      else snd (message_operation_list ! 0))"

text \<open>\<open>displayString[code]\<close>: \<open>None\<close> is the read past the table.\<close>

definition base_to_string :: "u16 \<Rightarrow> string option" where
  "base_to_string c = map_option snd (load message_code_list (unat c))"

subsection \<open>CommandEntry and Command\<close>

record command_entry =
  ce_device :: guid
  ce_component :: u32
  ce_operation :: u16
  ce_value :: u16

definition zero_guid :: guid where
  "zero_guid = replicate guid_size 0"

text \<open>The copy constructor leaves \<open>device\<close> to the constructor of \<open>guid_t\<close>, which clears it.\<close>

definition copy_command_entry :: "command_entry \<Rightarrow> command_entry" where
  "copy_command_entry e =
     \<lparr>ce_device = zero_guid, ce_component = ce_component e, ce_operation = ce_operation e,
      ce_value = ce_value e\<rparr>"

definition assign_command_entry :: "command_entry \<Rightarrow> command_entry \<Rightarrow> command_entry" where
  "assign_command_entry e rhs =
     e\<lparr>ce_device := ce_device rhs, ce_component := ce_component rhs,
       ce_operation := ce_operation rhs, ce_value := ce_value rhs\<rparr>"

record command =
  cm_code :: u16
  cm_command_count :: u32
  cm_commands :: "command_entry list"

definition MAX_COMMAND :: nat where
  "MAX_COMMAND = 16"

definition sizeof_Base :: nat where
  "sizeof_Base = 2"

definition sizeof_CommandEntry :: nat where
  "sizeof_CommandEntry = 24"

text \<open>
  The elements of the array are constructed with no initialiser for the last three members:
  \<open>junk\<close> is what they hold.
\<close>

definition new_command :: "command_entry list \<Rightarrow> command" where
  "new_command junk = \<lparr>cm_code = code_value COMMAND, cm_command_count = 0, cm_commands = junk\<rparr>"

definition add_command ::
    "guid \<Rightarrow> u32 \<Rightarrow> u16 \<Rightarrow> u16 \<Rightarrow> command \<Rightarrow> (err_t \<times> command)" where
  "add_command device component operation value c =
     (if MAX_COMMAND \<le> unat (cm_command_count c) then (MESSAGE_COMMAND_LIMIT_FAILURE, c)
      else let i = unat (cm_command_count c);
               e = \<lparr>ce_device = device, ce_component = component, ce_operation = operation,
                    ce_value = value\<rparr>
           in (SUCCESS, c\<lparr>cm_command_count := cm_command_count c + 1,
                 cm_commands := (cm_commands c)[i := assign_command_entry (cm_commands c ! i) e]\<rparr>))"

definition command_length :: "command \<Rightarrow> nat" where
  "command_length c = sizeof_Base + 4 + sizeof_CommandEntry * unat (cm_command_count c)"

definition verify_command :: "command \<Rightarrow> bool" where
  "verify_command c \<longleftrightarrow> unat (cm_command_count c) \<le> MAX_COMMAND"

text \<open>\<open>begin()\<close> to \<open>end()\<close>; the range leaves the array when the count is too large.\<close>

definition command_range :: "command \<Rightarrow> command_entry list option" where
  "command_range c = subrange (cm_commands c) 0 (unat (cm_command_count c))"

subsection \<open>The structs in memory\<close>

definition entry_bytes :: "command_entry \<Rightarrow> u8 list" where
  "entry_bytes e = ce_device e @ le32 (ce_component e) @ le16 (ce_operation e) @ le16 (ce_value e)"

definition command_bytes :: "command \<Rightarrow> u8 list" where
  "command_bytes c =
     le16 (cm_code c) @ le32 (cm_command_count c) @ concat (map entry_bytes (cm_commands c))"

text \<open>Reading through a pointer to a struct; \<open>None\<close> when the memory ends before the member.\<close>

definition read16 :: "u8 list \<Rightarrow> nat \<Rightarrow> u16 option" where
  "read16 mem i = map_option of_le16 (subrange mem i 2)"

definition read32 :: "u8 list \<Rightarrow> nat \<Rightarrow> u32 option" where
  "read32 mem i = map_option of_le32 (subrange mem i 4)"

definition read_entry :: "u8 list \<Rightarrow> nat \<Rightarrow> command_entry option" where
  "read_entry mem i =
     do { device \<leftarrow> subrange mem i guid_size;
          component \<leftarrow> read32 mem (i + 16);
          operation \<leftarrow> read16 mem (i + 20);
          val \<leftarrow> read16 mem (i + 22);
          Some \<lparr>ce_device = device, ce_component = component, ce_operation = operation, ce_value = val\<rparr> }"

fun read_entries :: "u8 list \<Rightarrow> nat \<Rightarrow> nat \<Rightarrow> command_entry list option" where
  "read_entries mem i 0 = Some []"
| "read_entries mem i (Suc n) =
     do { e \<leftarrow> read_entry mem i;
          es \<leftarrow> read_entries mem (i + sizeof_CommandEntry) n;
          Some (e # es) }"

subsection \<open>Text of a message\<close>

text \<open>\<open>std::ostream\<close> of an \<open>int\<close> and of an \<open>unsigned short\<close>.\<close>

definition ostream_int :: "int \<Rightarrow> string" where
  "ostream_int k =
     (if k < 0 then ''-'' @ to_string_uint 10 lower False (word_of_int (- k) :: u64)
      else to_string_uint 10 lower False (word_of_int k :: u64))"

abbreviation endl :: string where
  "endl \<equiv> [CHR 0x0A]"

definition show_command_entry :: "command_entry \<Rightarrow> string" where
  "show_command_entry e =
     guid_to_string lower False (ce_device e) @ '':'' @ ostream_int (sint (ce_component e)) @ '':'' @
     operation_to_string (ce_operation e) @ '':'' @ ostream_int (uint (ce_value e))"

definition show_base :: "u16 \<Rightarrow> string option" where
  "show_base code =
     (if code_value COMMAND < code then Some (''Bad message '' @ ostream_int (uint code) @ endl)
      else if code \<in> {code_value UNKNOWN, code_value SUCCESS_message}
      then map_option (\<lambda>s. s @ endl) (base_to_string code)
      else if code = code_value COMMAND then base_to_string code
      else Some [])"

definition show_command :: "command \<Rightarrow> string option" where
  "show_command c =
     do { name \<leftarrow> base_to_string (cm_code c);
          entries \<leftarrow> command_range c;
          Some (name @ endl @ concat (map (\<lambda>e. [CHR 0x09] @ show_command_entry e @ endl) entries)) }"

subsection \<open>A command as a bounded list\<close>

definition wf_command :: "command \<Rightarrow> bool" where
  "wf_command c \<longleftrightarrow> length (cm_commands c) = MAX_COMMAND \<and> unat (cm_command_count c) \<le> MAX_COMMAND \<and>
     list_all (\<lambda>e. wf_guid (ce_device e)) (cm_commands c)"

definition command_entries :: "command \<Rightarrow> command_entry list" where
  "command_entries c = take (unat (cm_command_count c)) (cm_commands c)"

definition add_entry :: "command_entry \<Rightarrow> command \<Rightarrow> err_t \<times> command" where
  "add_entry e = add_command (ce_device e) (ce_component e) (ce_operation e) (ce_value e)"

text \<open>A client that adds entries one after the other, keeping the results.\<close>

fun add_entries :: "command_entry list \<Rightarrow> command \<Rightarrow> err_t list \<times> command" where
  "add_entries [] c = ([], c)"
| "add_entries (e # es) c =
     (let (err, c1) = add_entry e c; (errs, c2) = add_entries es c1 in (err # errs, c2))"

lemma assign_command_entry_eq: "assign_command_entry e rhs = (rhs :: command_entry)"
  by (simp add: assign_command_entry_def)

lemma command_entry_eta:
  "\<lparr>ce_device = ce_device e, ce_component = ce_component e, ce_operation = ce_operation e,
    ce_value = ce_value e\<rparr> = (e :: command_entry)"
  by simp

lemma unat_count_inc: "unat (n :: u32) < MAX_COMMAND \<Longrightarrow> unat (n + 1) = unat n + 1"
  by (simp add: MAX_COMMAND_def unat_word_ariths)

lemma add_entry_room:
  assumes "wf_command c" "unat (cm_command_count c) < MAX_COMMAND" "wf_guid (ce_device e)"
  shows "\<exists>c'. add_entry e c = (SUCCESS, c') \<and> wf_command c' \<and>
    command_entries c' = command_entries c @ [e] \<and> cm_code c' = cm_code c"
proof -
  let ?i = "unat (cm_command_count c)"
  have len: "length (cm_commands c) = MAX_COMMAND" and g: "list_all (\<lambda>e. wf_guid (ce_device e)) (cm_commands c)"
    using assms(1) by (simp_all add: wf_command_def)
  have "list_all (\<lambda>e. wf_guid (ce_device e)) ((cm_commands c)[?i := e])"
    using g assms(3) set_update_subset_insert [of "cm_commands c" ?i e]
    by (auto simp: list_all_iff)
  moreover have "take (?i + 1) ((cm_commands c)[?i := e]) = take ?i (cm_commands c) @ [e]"
    using assms(2) len by (simp add: take_Suc_conv_app_nth)
  ultimately show ?thesis
    using assms(2) len unat_count_inc [OF assms(2)]
    by (simp add: add_entry_def add_command_def assign_command_entry_eq command_entry_eta wf_command_def
        command_entries_def Let_def)
qed

lemma add_entry_full:
  assumes "unat (cm_command_count c) = MAX_COMMAND"
  shows "add_entry e c = (MESSAGE_COMMAND_LIMIT_FAILURE, c)"
  using assms by (simp add: add_entry_def add_command_def)

lemma length_command_entries: "wf_command c \<Longrightarrow> length (command_entries c) = unat (cm_command_count c)"
  by (simp add: wf_command_def command_entries_def)

text \<open>
  A \<open>Command\<close> is a list of at most sixteen entries.  Adding entries appends them in order as
  long as there is room; every later \<open>add\<close> returns \<open>MESSAGE_COMMAND_LIMIT_FAILURE\<close> and changes
  nothing, and the message always passes \<open>verify\<close>.
\<close>

theorem command_add_refines:
  assumes "wf_command c" "list_all (\<lambda>e. wf_guid (ce_device e)) es"
  shows "let room = MAX_COMMAND - length (command_entries c);
             (errs, c') = add_entries es c in
    wf_command c' \<and> verify_command c' \<and> cm_code c' = cm_code c \<and>
    command_entries c' = command_entries c @ take room es \<and>
    errs = replicate (min room (length es)) SUCCESS @
      replicate (length es - room) MESSAGE_COMMAND_LIMIT_FAILURE"
  using assms
proof (induction es arbitrary: c)
  case Nil
  then show ?case by (simp add: wf_command_def verify_command_def)
next
  case (Cons e es)
  note n = length_command_entries [OF Cons.prems(1)]
  show ?case
  proof (cases "unat (cm_command_count c) < MAX_COMMAND")
    case True
    obtain c1 where c1: "add_entry e c = (SUCCESS, c1)" "wf_command c1"
      "command_entries c1 = command_entries c @ [e]" "cm_code c1 = cm_code c"
      using add_entry_room [OF Cons.prems(1) True, of e] Cons.prems(2) by auto
    obtain errs c2 where c2: "add_entries es c1 = (errs, c2)" by fastforce
    obtain k where k: "MAX_COMMAND - unat (cm_command_count c) = Suc k"
      using True by (metis Suc_diff_Suc)
    then have k': "MAX_COMMAND - Suc (unat (cm_command_count c)) = k" by simp
    show ?thesis
      using Cons.IH [OF c1(2)] Cons.prems(2) by (simp add: c1 c2 n k k' Let_def)
  next
    case False
    then have full: "unat (cm_command_count c) = MAX_COMMAND"
      using Cons.prems(1) by (simp add: wf_command_def)
    obtain errs c2 where c2: "add_entries es c = (errs, c2)" by fastforce
    show ?thesis
      using Cons.IH [OF Cons.prems(1)] Cons.prems(2) by (simp add: add_entry_full [OF full] c2 n full Let_def)
  qed
qed

definition sample_entry :: command_entry where
  "sample_entry = \<lparr>ce_device = zero_guid, ce_component = 7, ce_operation = operation_value LEVEL,
     ce_value = 300\<rparr>"

theorem command_add_refines_witness:
  "fst (add_entries (replicate 17 sample_entry) (new_command (replicate 16 sample_entry))) =
     replicate 16 SUCCESS @ [MESSAGE_COMMAND_LIMIT_FAILURE]"
  using command_add_refines [of "new_command (replicate 16 sample_entry)" "replicate 17 sample_entry"]
  by (simp add: wf_command_def new_command_def MAX_COMMAND_def list_all_iff sample_entry_def wf_guid_def
      zero_guid_def command_entries_def case_prod_beta)

subsection \<open>What is sent is what is read\<close>

lemma length_entry_bytes: "wf_guid (ce_device e) \<Longrightarrow> length (entry_bytes e) = sizeof_CommandEntry"
  by (simp add: entry_bytes_def sizeof_CommandEntry_def wf_guid_def guid_size_def)

lemma subrange_at: "length pre = i \<Longrightarrow> n = length ys \<Longrightarrow> subrange (pre @ ys @ post) i n = Some ys"
  using subrange_append_at by blast

lemma read16_at: "length pre = i \<Longrightarrow> read16 (pre @ le16 v @ post) i = Some v"
  by (simp add: read16_def subrange_at)

lemma read32_at: "length pre = i \<Longrightarrow> read32 (pre @ le32 v @ post) i = Some v"
  by (simp add: read32_def subrange_at)

lemma read_entry_at:
  assumes "wf_guid (ce_device e)" "length pre = i"
  shows "read_entry (pre @ entry_bytes e @ post) i = Some e"
proof -
  let ?d = "ce_device e" and ?c = "le32 (ce_component e)" and ?o = "le16 (ce_operation e)"
    and ?v = "le16 (ce_value e)"
  have d: "length ?d = 16" using assms(1) by (simp add: wf_guid_def guid_size_def)
  have mem: "pre @ entry_bytes e @ post = pre @ ?d @ (?c @ ?o @ ?v @ post)"
    "pre @ entry_bytes e @ post = (pre @ ?d) @ ?c @ (?o @ ?v @ post)"
    "pre @ entry_bytes e @ post = (pre @ ?d @ ?c) @ ?o @ (?v @ post)"
    "pre @ entry_bytes e @ post = (pre @ ?d @ ?c @ ?o) @ ?v @ post"
    by (simp_all add: entry_bytes_def)
  have "subrange (pre @ entry_bytes e @ post) i guid_size = Some ?d"
    unfolding mem(1) by (rule subrange_at) (simp_all add: assms d guid_size_def)
  moreover have "read32 (pre @ entry_bytes e @ post) (i + 16) = Some (ce_component e)"
    unfolding mem(2) by (rule read32_at) (simp add: assms d)
  moreover have "read16 (pre @ entry_bytes e @ post) (i + 20) = Some (ce_operation e)"
    unfolding mem(3) by (rule read16_at) (simp add: assms d)
  moreover have "read16 (pre @ entry_bytes e @ post) (i + 22) = Some (ce_value e)"
    unfolding mem(4) by (rule read16_at) (simp add: assms d)
  ultimately show ?thesis by (simp add: read_entry_def)
qed

lemma read_entries_at:
  "list_all (\<lambda>e. wf_guid (ce_device e)) es \<Longrightarrow> length pre = i \<Longrightarrow>
   read_entries (pre @ concat (map entry_bytes es) @ post) i (length es) = Some es"
proof (induction es arbitrary: pre i)
  case (Cons e es)
  have "read_entries ((pre @ entry_bytes e) @ concat (map entry_bytes es) @ post)
      (i + sizeof_CommandEntry) (length es) = Some es"
    by (rule Cons.IH) (use Cons.prems in \<open>simp_all add: length_entry_bytes\<close>)
  moreover have "read_entry (pre @ entry_bytes e @ (concat (map entry_bytes es) @ post)) i = Some e"
    by (rule read_entry_at) (use Cons.prems in simp_all)
  ultimately show ?case by simp
qed simp

lemma length_entries_bytes:
  "list_all (\<lambda>e. wf_guid (ce_device e)) es \<Longrightarrow>
   length (concat (map entry_bytes es)) = sizeof_CommandEntry * length es"
  by (induction es) (simp_all add: length_entry_bytes)

lemma sent_command_bytes:
  assumes "wf_command c"
  shows "take (command_length c) (command_bytes c) =
    le16 (cm_code c) @ le32 (cm_command_count c) @ concat (map entry_bytes (command_entries c))"
proof -
  let ?n = "unat (cm_command_count c)"
  have g: "list_all (\<lambda>e. wf_guid (ce_device e)) (command_entries c)"
    using assms by (auto simp: wf_command_def command_entries_def list_all_iff dest: in_set_takeD)
  have "concat (map entry_bytes (cm_commands c)) =
      concat (map entry_bytes (command_entries c)) @ concat (map entry_bytes (drop ?n (cm_commands c)))"
    unfolding command_entries_def by (metis append_take_drop_id concat_append map_append)
  moreover have "length (concat (map entry_bytes (command_entries c))) = sizeof_CommandEntry * ?n"
    using length_entries_bytes [OF g] length_command_entries [OF assms] by simp
  ultimately show ?thesis by (simp add: command_length_def command_bytes_def sizeof_Base_def)
qed

lemma command_sent_read:
  assumes "wf_command c"
  shows "let mem = take (command_length c) (command_bytes c) @ rest in
    read16 mem 0 = Some (cm_code c) \<and> read32 mem sizeof_Base = Some (cm_command_count c) \<and>
    read_entries mem (sizeof_Base + 4) (unat (cm_command_count c)) = Some (command_entries c)"
proof -
  let ?es = "concat (map entry_bytes (command_entries c))"
  have g: "list_all (\<lambda>e. wf_guid (ce_device e)) (command_entries c)"
    using assms by (auto simp: wf_command_def command_entries_def list_all_iff dest: in_set_takeD)
  have "read16 ([] @ le16 (cm_code c) @ (le32 (cm_command_count c) @ ?es @ rest)) 0 = Some (cm_code c)"
    by (rule read16_at) simp
  moreover have "read32 (le16 (cm_code c) @ le32 (cm_command_count c) @ (?es @ rest)) sizeof_Base =
      Some (cm_command_count c)"
    by (rule read32_at) (simp add: sizeof_Base_def)
  moreover have "read_entries ((le16 (cm_code c) @ le32 (cm_command_count c)) @ ?es @ rest) (sizeof_Base + 4)
      (length (command_entries c)) = Some (command_entries c)"
    by (rule read_entries_at [OF g]) (simp add: sizeof_Base_def)
  ultimately show ?thesis
    by (simp add: sent_command_bytes [OF assms] length_command_entries [OF assms] Let_def)
qed

text \<open>
  C40: \<open>length()\<close> is exactly what the receiver needs.  The first \<open>length()\<close> bytes of a \<open>Command\<close>,
  followed by anything, hold the code, the count and every entry that was added.
\<close>

theorem command_sent_roundtrip:
  assumes "wf_command c"
  shows "let mem = take (command_length c) (command_bytes c) @ rest in
    read16 mem 0 = Some (cm_code c) \<and> read32 mem sizeof_Base = Some (cm_command_count c) \<and>
    read_entries mem (sizeof_Base + 4) (unat (cm_command_count c)) = Some (command_entries c)"
  using command_sent_read [OF assms] .

theorem command_sent_roundtrip_witness:
  "let c = snd (add_entry sample_entry (new_command (replicate 16 sample_entry))) in
   read_entries (take (command_length c) (command_bytes c) @ [1, 2]) (sizeof_Base + 4)
     (unat (cm_command_count c)) = Some (command_entries c)"
proof -
  let ?c = "snd (add_entry sample_entry (new_command (replicate 16 sample_entry)))"
  have "wf_command ?c"
    using add_entry_room [of "new_command (replicate 16 sample_entry)" sample_entry]
    by (auto simp: wf_command_def new_command_def MAX_COMMAND_def list_all_iff sample_entry_def wf_guid_def
        zero_guid_def)
  from command_sent_roundtrip [OF this, of "[1, 2]"] show ?thesis by (simp add: Let_def)
qed

text \<open>
  The copy made by \<open>for (auto command : *base)\<close> has lost the device, and a \<open>BadRequest\<close> is printed as
  a bad message although its code is in the table.
\<close>

lemma copy_command_entry_device: "ce_device (copy_command_entry e) = zero_guid"
  by (simp add: copy_command_entry_def)

lemma show_bad_request:
  "show_base (code_value BAD_REQUEST) = Some (''Bad message 7'' @ endl)"
  "base_to_string (code_value BAD_REQUEST) = Some ''BAD_REQUEST''"
  by (code_simp, code_simp)

end
