(* ===== verification/Sockets.thy ===== *)
theory Sockets
  imports Errors
begin

text \<open>
  serverlib/include/iot/net/socket.hh and lib/net/socket.cc: plain and TLS sockets.  What the kernel
  and OpenSSL return is an argument of each operation; a result of type \<open>int\<close> is an integer, and a
  length that is written through a reference is passed in with its old value and returned.
  A result of a function that is called in a loop is an argument that depends on the number of the
  call.  \<open>None\<close> is a failed assertion or undefined behaviour.
\<close>

subsection \<open>socket\_t\<close>

definition socket_close :: "int \<Rightarrow> int \<Rightarrow> err_t \<times> int" where
  "socket_close ret socket_id =
     (let last_socket_id = socket_id in
      (if last_socket_id \<noteq> 0 then (if ret = -1 then CLOSE_FAILURE else SUCCESS) else SUCCESS, 0))"

definition socket_read :: "int \<Rightarrow> u64 \<Rightarrow> err_t \<times> u64" where
  "socket_read ret read_len =
     (if ret = -1 then (RECEIVE_FAILURE, read_len) else (SUCCESS, word_of_int ret))"

definition socket_write :: "int \<Rightarrow> u64 \<Rightarrow> u64 \<Rightarrow> err_t \<times> u64" where
  "socket_write ret send_len actual_sent =
     (if ret = -1 then (SEND_FAILURE, actual_sent)
      else let actual_sent = word_of_int ret in
           if actual_sent < send_len then (SOCKET_RETRY, actual_sent) else (SUCCESS, actual_sent))"

text \<open>The outcome of a loop: the error, the length, and the number of attempts counted.\<close>

type_synonym attempts = "err_t \<times> u64 \<times> int"

definition after_attempts :: "int \<Rightarrow> err_t \<Rightarrow> int \<Rightarrow> u64 \<Rightarrow> attempts" where
  "after_attempts write_attempt zero attempt len =
     (if attempt = write_attempt then (zero, len, attempt) else (SUCCESS, len, attempt))"

function write_wait_loop :: "(int \<Rightarrow> int) \<Rightarrow> int \<Rightarrow> int \<Rightarrow> u64 \<Rightarrow> attempts" where
  "write_wait_loop ret write_attempt attempt actual_sent =
     (if attempt < write_attempt
      then if 0 < ret attempt
           then after_attempts write_attempt SOCKET_WRITE_ZERO attempt (word_of_int (ret attempt))
           else if ret attempt < 0 then (SEND_FAILURE, actual_sent, attempt)
           else write_wait_loop ret write_attempt (attempt + 1) actual_sent
      else after_attempts write_attempt SOCKET_WRITE_ZERO attempt actual_sent)"
  by pat_completeness auto
termination
  by (relation "measure (\<lambda>(_, w, a, _). nat (w - a))") auto

declare write_wait_loop.simps [simp del]

definition write_wait :: "(int \<Rightarrow> int) \<Rightarrow> int \<Rightarrow> u64 \<Rightarrow> attempts" where
  "write_wait ret write_attempt = write_wait_loop ret write_attempt 0"

text \<open>The two results are of \<open>fcntl\<close> with \<open>F_GETFL\<close> and with \<open>F_SETFL\<close>.\<close>

definition set_non_blocking :: "int \<Rightarrow> int \<Rightarrow> bool" where
  "set_non_blocking getfl setfl =
     (let flags = getfl; flags = (if flags \<noteq> -1 then setfl else flags) in flags \<noteq> -1)"

definition is_null :: "int \<Rightarrow> bool" where
  "is_null socket_id = (socket_id = 0)"

subsection \<open>socket\_ssl\_t\<close>

text \<open>A session pointer that is not null is the number of the session.\<close>

record socket_ssl =
  ss_socket_id :: int
  ss_ssl :: "nat option"

definition wants_io :: "int \<Rightarrow> bool" where
  "wants_io ssl_error \<longleftrightarrow> ssl_error = SSL_ERROR_WANT_WRITE \<or> ssl_error = SSL_ERROR_WANT_READ"

definition ssl_accept :: "int \<Rightarrow> int \<Rightarrow> socket_ssl \<Rightarrow> err_t" where
  "ssl_accept ssl_ret ssl_error s =
     (if ss_ssl s = None then CLOSE_FAILURE
      else if ssl_ret \<le> 0 then ssl_error_ret ssl_error
      else SUCCESS)"

definition ssl_read :: "int \<Rightarrow> int \<Rightarrow> u64 \<Rightarrow> err_t \<times> u64" where
  "ssl_read ret ssl_error read_len =
     (if ret = -1 then (ssl_error_ret ssl_error, read_len) else (SUCCESS, word_of_int ret))"

definition ssl_write :: "int \<Rightarrow> int \<Rightarrow> u64 \<Rightarrow> (err_t \<times> u64) option" where
  "ssl_write ret ssl_error send_len =
     (if ret \<le> 0 then Some (ssl_error_ret ssl_error, 0)
      else let actual_sent = word_of_int ret in
           if actual_sent = send_len then Some (SUCCESS, actual_sent) else None)"

function ssl_read_wait_loop :: "(int \<Rightarrow> int \<times> int) \<Rightarrow> int \<Rightarrow> int \<Rightarrow> u64 \<Rightarrow> attempts" where
  "ssl_read_wait_loop result write_attempt attempt read_len =
     (if attempt < write_attempt
      then let (ret, ssl_error) = result attempt in
           if 0 < ret then after_attempts write_attempt SOCKET_WRITE_ZERO attempt (word_of_int ret)
           else if \<not> wants_io ssl_error then (ssl_error_ret ssl_error, 0, attempt)
           else ssl_read_wait_loop result write_attempt (attempt + 1) read_len
      else after_attempts write_attempt SOCKET_WRITE_ZERO attempt
             (if attempt = write_attempt then 0 else read_len))"
  by pat_completeness auto
termination
  by (relation "measure (\<lambda>(_, w, a, _). nat (w - a))") auto

declare ssl_read_wait_loop.simps [simp del]

function ssl_write_wait_loop :: "(int \<Rightarrow> int \<times> int) \<Rightarrow> int \<Rightarrow> int \<Rightarrow> u64 \<Rightarrow> attempts" where
  "ssl_write_wait_loop result write_attempt attempt actual_sent =
     (if attempt < write_attempt
      then let (ret, ssl_error) = result attempt in
           if 0 < ret then after_attempts write_attempt SOCKET_WRITE_ZERO attempt (word_of_int ret)
           else if \<not> wants_io ssl_error then (ssl_error_ret ssl_error, actual_sent, attempt)
           else ssl_write_wait_loop result write_attempt (attempt + 1) actual_sent
      else after_attempts write_attempt SOCKET_WRITE_ZERO attempt actual_sent)"
  by pat_completeness auto
termination
  by (relation "measure (\<lambda>(_, w, a, _). nat (w - a))") auto

declare ssl_write_wait_loop.simps [simp del]

definition ssl_read_wait :: "(int \<Rightarrow> int \<times> int) \<Rightarrow> int \<Rightarrow> u64 \<Rightarrow> attempts" where
  "ssl_read_wait result write_attempt = ssl_read_wait_loop result write_attempt 0"

definition ssl_write_wait :: "(int \<Rightarrow> int \<times> int) \<Rightarrow> int \<Rightarrow> u64 \<Rightarrow> attempts" where
  "ssl_write_wait result write_attempt = ssl_write_wait_loop result write_attempt 0"

text \<open>\<open>ret\<close> is of \<open>SSL_shutdown\<close>, \<open>close_ret\<close> of \<open>close\<close>; \<open>SSL_free\<close> ends the session.\<close>

definition ssl_close :: "int \<Rightarrow> int \<Rightarrow> int \<Rightarrow> socket_ssl \<Rightarrow> err_t \<times> socket_ssl" where
  "ssl_close ret ssl_error close_ret s =
     (if ret \<le> 0 \<and> (ssl_error = SSL_ERROR_WANT_WRITE \<or> ssl_error = SSL_ERROR_WANT_READ)
      then (ssl_error_ret ssl_error, s)
      else let (err, socket_id) = socket_close close_ret (ss_socket_id s)
           in (err, \<lparr>ss_socket_id = socket_id, ss_ssl = None\<rparr>))"

definition move_socket_ssl :: "socket_ssl \<Rightarrow> socket_ssl \<times> socket_ssl" where
  "move_socket_ssl s = (s, \<lparr>ss_socket_id = 0, ss_ssl = None\<rparr>)"

definition isSSLInitialized :: "socket_ssl \<Rightarrow> bool" where
  "isSSLInitialized s \<longleftrightarrow> ss_ssl s \<noteq> None"

subsection \<open>The shared TLS context\<close>

record openssl =
  os_initialize_ssl_count :: int
  os_ctx :: "nat option"

text \<open>\<open>created\<close> is the context made by OpenSSL, or \<open>None\<close> where \<open>create_context\<close> throws.\<close>

definition init_openssl :: "nat option \<Rightarrow> openssl \<Rightarrow> err_t + openssl" where
  "init_openssl created g =
     (if os_initialize_ssl_count g = 0
      then case created of
             None \<Rightarrow> Inl SOCKET_SSL_CONTEXT_FAILED
           | Some c \<Rightarrow> Inr \<lparr>os_initialize_ssl_count = os_initialize_ssl_count g + 1, os_ctx = Some c\<rparr>
      else Inr (g\<lparr>os_initialize_ssl_count := os_initialize_ssl_count g + 1\<rparr>))"

definition cleanup_openssl :: "openssl \<Rightarrow> openssl option" where
  "cleanup_openssl g =
     (let n = os_initialize_ssl_count g - 1;
          g = (if n = 0 then \<lparr>os_initialize_ssl_count = n, os_ctx = None\<rparr>
               else g\<lparr>os_initialize_ssl_count := n\<rparr>)
      in if 0 \<le> n then Some g else None)"

subsection \<open>Server and client sockets\<close>

definition create_socket :: "int \<Rightarrow> int \<Rightarrow> err_t + int" where
  "create_socket socket_id errno =
     (if socket_id < 0 then Inl (socket_create_ret errno) else Inr socket_id)"

text \<open>
  The constructor of \<open>server_socket_t\<close> on a created socket.  \<open>errno\<close> is read after \<open>close\<close>.  The
  second component is the socket identifier in the object, which \<open>close\<close> sets to zero.
\<close>

definition server_socket_new :: "int \<Rightarrow> int \<Rightarrow> int \<Rightarrow> int \<Rightarrow> int \<Rightarrow> int \<Rightarrow> err_t + int" where
  "server_socket_new setsockopt_ret bind_ret listen_ret close_ret errno socket_id =
     (if setsockopt_ret < 0 then (let _ = socket_close close_ret socket_id in Inl (sockopt_ret errno))
      else if bind_ret < 0 then (let _ = socket_close close_ret socket_id in Inl BIND_FAILURE)
      else if listen_ret < 0 then (let _ = socket_close close_ret socket_id in Inl LISTEN_FAILURE)
      else Inr socket_id)"

definition server_accept :: "int \<Rightarrow> int \<Rightarrow> err_t + int" where
  "server_accept client_id errno =
     (if client_id = -1 then (if errno = EAGAIN then Inr 0 else Inl ACCEPT_FAILURE) else Inr client_id)"

text \<open>
  The TLS server: its constructor takes the context \<^emph>\<open>before\<close> \<open>init_openssl\<close>, so that a null context
  is used (\<open>None\<close>) unless \<open>init_iot\<close> has run.  \<open>SSL_new\<close> gives the session of an accepted client.
\<close>

definition server_socket_ssl_new ::
    "nat option \<Rightarrow> bool \<Rightarrow> int \<Rightarrow> int \<Rightarrow> openssl \<Rightarrow> (err_t + openssl) option" where
  "server_socket_ssl_new created cert_exists cert_ret prikey_ret g =
     (let ctx = os_ctx g in
      case init_openssl created g of
        Inl e \<Rightarrow> Some (Inl e)
      | Inr g \<Rightarrow>
          if ctx = None then None
          else if \<not> cert_exists then Some (Inl SOCKET_SSL_CERTIFICATE_FILE_NOT_FOUND)
          else if cert_ret \<le> 0 then Some (Inl SOCKET_SSL_CERTIFICATE_FAILED)
          else if prikey_ret \<le> 0 then Some (Inl SOCKET_SSL_PRIKEY_FAILED)
          else Some (Inr g))"

definition server_ssl_accept :: "int \<Rightarrow> int \<Rightarrow> nat \<Rightarrow> err_t + socket_ssl" where
  "server_ssl_accept client_id errno session =
     (if client_id = -1
      then if errno = EAGAIN then Inr \<lparr>ss_socket_id = 0, ss_ssl = None\<rparr> else Inl ACCEPT_FAILURE
      else Inr \<lparr>ss_socket_id = client_id, ss_ssl = Some session\<rparr>)"

definition client_connect :: "int \<Rightarrow> int \<Rightarrow> err_t" where
  "client_connect ret errno = (if ret = 0 then SUCCESS else socket_connect_ret errno)"

definition client_socket_new :: "int \<Rightarrow> int \<Rightarrow> int \<Rightarrow> err_t + int" where
  "client_socket_new ret errno socket_id =
     (let err = client_connect ret errno in if isFailure err then Inl err else Inr socket_id)"

definition client_socket_ssl_new ::
    "nat option \<Rightarrow> int \<Rightarrow> int \<Rightarrow> nat \<Rightarrow> int \<Rightarrow> int \<Rightarrow> openssl \<Rightarrow> err_t + socket_ssl \<times> openssl" where
  "client_socket_ssl_new created ret errno session ssl_connect_ret socket_id g =
     (case init_openssl created g of
        Inl e \<Rightarrow> Inl e
      | Inr g \<Rightarrow>
          let err = client_connect ret errno in
          if isFailure err then Inl err
          else if ssl_connect_ret < 0 then Inl SSL_CONNECT_FAILED
          else Inr (\<lparr>ss_socket_id = socket_id, ss_ssl = Some session\<rparr>, g))"

subsection \<open>The waiting loops\<close>

text \<open>
  What the loops should do: take the result of the first attempt below the limit that does not ask
  for another one.
\<close>

definition first_answer :: "('r \<Rightarrow> bool) \<Rightarrow> (int \<Rightarrow> 'r) \<Rightarrow> int \<Rightarrow> int \<Rightarrow> int option" where
  "first_answer again result attempt write_attempt =
     List.find (\<lambda>i. \<not> again (result i)) [attempt..write_attempt - 1]"

lemma first_answer_step:
  "first_answer again result a w =
     (if a < w then if again (result a) then first_answer again result (a + 1) w else Some a else None)"
  by (simp add: first_answer_def upto_rec1)

lemma write_wait_loop_first:
  "a \<le> w \<Longrightarrow> write_wait_loop ret w a n =
     (case first_answer (\<lambda>r. r = 0) ret a w of
        None \<Rightarrow> (SOCKET_WRITE_ZERO, n, w)
      | Some k \<Rightarrow> if 0 < ret k then (SUCCESS, word_of_int (ret k), k) else (SEND_FAILURE, n, k))"
proof (induction ret w a n rule: write_wait_loop.induct)
  case (1 ret w a n)
  show ?case
    using 1
    by (subst write_wait_loop.simps, subst first_answer_step) (auto simp: after_attempts_def)
qed

definition ssl_again :: "int \<times> int \<Rightarrow> bool" where
  "ssl_again r \<longleftrightarrow> fst r \<le> 0 \<and> wants_io (snd r)"

lemma ssl_again_pair: "ssl_again (ret, e) \<longleftrightarrow> ret \<le> 0 \<and> wants_io e"
  by (simp add: ssl_again_def)

lemma ssl_write_wait_loop_first:
  "a \<le> w \<Longrightarrow> ssl_write_wait_loop res w a n =
     (case first_answer ssl_again res a w of
        None \<Rightarrow> (SOCKET_WRITE_ZERO, n, w)
      | Some k \<Rightarrow> if 0 < fst (res k) then (SUCCESS, word_of_int (fst (res k)), k)
                  else (ssl_error_ret (snd (res k)), n, k))"
proof (induction res w a n rule: ssl_write_wait_loop.induct)
  case (1 res w a n)
  show ?case
    using 1
    by (cases "res a"; subst ssl_write_wait_loop.simps, subst first_answer_step)
      (simp add: after_attempts_def ssl_again_pair)
qed

lemma ssl_read_wait_loop_first:
  "a \<le> w \<Longrightarrow> ssl_read_wait_loop res w a n =
     (case first_answer ssl_again res a w of
        None \<Rightarrow> (SOCKET_WRITE_ZERO, 0, w)
      | Some k \<Rightarrow> if 0 < fst (res k) then (SUCCESS, word_of_int (fst (res k)), k)
                  else (ssl_error_ret (snd (res k)), 0, k))"
proof (induction res w a n rule: ssl_read_wait_loop.induct)
  case (1 res w a n)
  show ?case
    using 1
    by (cases "res a"; subst ssl_read_wait_loop.simps, subst first_answer_step)
      (simp add: after_attempts_def ssl_again_pair)
qed

text \<open>
  C38: \<open>write_wait\<close> and the TLS versions of \<open>read_wait\<close> and \<open>write_wait\<close> end after at most
  \<open>write_attempt\<close> calls, with the result of the first call that does not ask to be repeated, and
  with \<open>SOCKET_WRITE_ZERO\<close> when there is none.
\<close>

theorem wait_loops_equiv:
  assumes "0 \<le> w"
  shows "write_wait ret w n =
      (case first_answer (\<lambda>r. r = 0) ret 0 w of
         None \<Rightarrow> (SOCKET_WRITE_ZERO, n, w)
       | Some k \<Rightarrow> if 0 < ret k then (SUCCESS, word_of_int (ret k), k) else (SEND_FAILURE, n, k)) \<and>
    ssl_write_wait res w n =
      (case first_answer ssl_again res 0 w of
         None \<Rightarrow> (SOCKET_WRITE_ZERO, n, w)
       | Some k \<Rightarrow> if 0 < fst (res k) then (SUCCESS, word_of_int (fst (res k)), k)
                   else (ssl_error_ret (snd (res k)), n, k)) \<and>
    ssl_read_wait res w n =
      (case first_answer ssl_again res 0 w of
         None \<Rightarrow> (SOCKET_WRITE_ZERO, 0, w)
       | Some k \<Rightarrow> if 0 < fst (res k) then (SUCCESS, word_of_int (fst (res k)), k)
                   else (ssl_error_ret (snd (res k)), 0, k))"
  by (simp add: write_wait_def write_wait_loop_first [OF assms] ssl_write_wait_def
      ssl_write_wait_loop_first [OF assms] ssl_read_wait_def ssl_read_wait_loop_first [OF assms])

text \<open>The third attempt writes nine bytes.\<close>

theorem wait_loops_equiv_witness:
  "write_wait (\<lambda>i. if i = 2 then 9 else 0) 20 0 = (SUCCESS, 9, 2)"
proof -
  have "first_answer (\<lambda>r. r = 0) (\<lambda>i. if i = 2 then 9 else 0 :: int) 0 20 = Some 2"
    by (simp add: first_answer_def upto_rec1)
  with wait_loops_equiv [of 20 "\<lambda>i. if i = 2 then 9 else 0" 0] show ?thesis by simp
qed

text \<open>With a negative limit nothing is sent, and the result is \<open>SUCCESS\<close>.\<close>

lemma write_wait_negative: "w < 0 \<Longrightarrow> write_wait ret w n = (SUCCESS, n, 0)"
  by (simp add: write_wait_def write_wait_loop.simps after_attempts_def)

subsection \<open>Life of the TLS context\<close>

datatype openssl_call = Init "nat option" | Cleanup

fun openssl_run :: "openssl_call list \<Rightarrow> openssl \<Rightarrow> openssl option" where
  "openssl_run [] g = Some g"
| "openssl_run (Init created # calls) g =
     (case init_openssl created g of Inl _ \<Rightarrow> openssl_run calls g | Inr g' \<Rightarrow> openssl_run calls g')"
| "openssl_run (Cleanup # calls) g =
     (case cleanup_openssl g of None \<Rightarrow> None | Some g' \<Rightarrow> openssl_run calls g')"

definition openssl_start :: openssl where
  "openssl_start = \<lparr>os_initialize_ssl_count = 0, os_ctx = None\<rparr>"

definition openssl_inv :: "openssl \<Rightarrow> bool" where
  "openssl_inv g \<longleftrightarrow> 0 \<le> os_initialize_ssl_count g \<and> (os_ctx g \<noteq> None \<longleftrightarrow> 0 < os_initialize_ssl_count g)"

lemma init_openssl_inv:
  "openssl_inv g \<Longrightarrow> init_openssl created g = Inr g' \<Longrightarrow>
   openssl_inv g' \<and> os_initialize_ssl_count g' = os_initialize_ssl_count g + 1"
  by (auto simp: init_openssl_def openssl_inv_def split: if_splits option.splits)

lemma cleanup_openssl_inv:
  "openssl_inv g \<Longrightarrow> cleanup_openssl g = Some g' \<Longrightarrow>
   openssl_inv g' \<and> os_initialize_ssl_count g' = os_initialize_ssl_count g - 1"
  by (auto simp: cleanup_openssl_def openssl_inv_def Let_def split: if_splits)

lemma openssl_run_inv:
  "openssl_inv g \<Longrightarrow> openssl_run calls g = Some g' \<Longrightarrow> openssl_inv g'"
proof (induction calls g rule: openssl_run.induct)
  case (2 created calls g)
  then show ?case by (cases "init_openssl created g") (auto dest: init_openssl_inv)
next
  case (3 calls g)
  then show ?case by (cases "cleanup_openssl g") (auto dest: cleanup_openssl_inv)
qed simp

text \<open>A server or client socket made after \<open>init_iot\<close>, and the first one without it.\<close>

lemma server_socket_ssl_new_first:
  "server_socket_ssl_new (Some c) True 1 1 openssl_start = None"
  by (simp add: server_socket_ssl_new_def openssl_start_def init_openssl_def)

text \<open>
  Over any sequence of \<open>init_openssl\<close> and \<open>cleanup_openssl\<close> that passes the assertion, the
  context exists exactly while the counter is positive, so a TLS server constructed while somebody
  else holds the context does not use a null context.
\<close>

theorem openssl_context_lifetime:
  assumes "openssl_run calls openssl_start = Some g"
  shows "0 \<le> os_initialize_ssl_count g \<and> (os_ctx g = None \<longleftrightarrow> os_initialize_ssl_count g = 0) \<and>
    (server_socket_ssl_new created cert_exists cert_ret prikey_ret g = None \<longleftrightarrow>
       os_initialize_ssl_count g = 0 \<and> created \<noteq> None)"
proof -
  have inv: "openssl_inv g"
    using openssl_run_inv [OF _ assms] by (simp add: openssl_inv_def openssl_start_def)
  then have "server_socket_ssl_new created cert_exists cert_ret prikey_ret g = None \<longleftrightarrow>
      os_initialize_ssl_count g = 0 \<and> created \<noteq> None"
    by (auto simp: server_socket_ssl_new_def openssl_inv_def init_openssl_def split: option.splits)
  with inv show ?thesis by (auto simp: openssl_inv_def)
qed

theorem openssl_context_lifetime_witness:
  "openssl_run [Init (Some 5), Init None, Cleanup] openssl_start =
     Some \<lparr>os_initialize_ssl_count = 1, os_ctx = Some 5\<rparr> \<and>
   server_socket_ssl_new (Some 6) True 1 1 \<lparr>os_initialize_ssl_count = 1, os_ctx = Some 5\<rparr> \<noteq> None"
proof -
  have run: "openssl_run [Init (Some 5), Init None, Cleanup] openssl_start =
      Some \<lparr>os_initialize_ssl_count = 1, os_ctx = Some 5\<rparr>"
    by (simp add: openssl_start_def init_openssl_def cleanup_openssl_def)
  with openssl_context_lifetime [OF run, of "Some 6" True 1 1] show ?thesis by simp
qed

end
