(* ===== verification/WriteQueue.thy ===== *)
theory WriteQueue
  imports Sockets States "HOL-Library.Sublist"
begin

text \<open>
  serverlib/include/iot/net/serverevent.hh: the write queue of a connection
  (\<open>serverpeerevent_base\<close>), \<open>serverpeerevent\<close> and the accept loop of \<open>serverevent\<close>.

  The socket a connection writes to is a state \<open>'w\<close> and a function \<open>transmit\<close>; the locale
  \<open>peer_socket\<close> states what the queue relies on, and both kinds of sockets are shown to provide it.
  Lists carry their length, so a pointer with a size is a list and a size that must not exceed it.
\<close>

subsection \<open>The write queue\<close>

text \<open>\<open>we_heap\<close> tells whether the buffer was made by \<open>new[]\<close>, which \<open>delete[]\<close> requires.\<close>

record write_entry =
  we_buffer :: "u8 list"
  we_heap :: bool
  we_written :: u64
  we_size :: u64

record 'w peer =
  pe_write_queue :: "write_entry list"
  pe_peer_id :: 'w
  pe_client_state :: state_t
  pe_log :: "err_t list"

definition push_write :: "u8 list \<Rightarrow> bool \<Rightarrow> u64 \<Rightarrow> 'w peer \<Rightarrow> 'w peer" where
  "push_write buffer heap buffer_size p =
     p\<lparr>pe_write_queue := pe_write_queue p @
         [\<lparr>we_buffer = buffer, we_heap = heap, we_written = 0, we_size = buffer_size\<rparr>]\<rparr>"

definition is_write_left :: "'w peer \<Rightarrow> bool" where
  "is_write_left p \<longleftrightarrow> pe_write_queue p \<noteq> []"

definition clear_queue :: "'w peer \<Rightarrow> 'w peer" where
  "clear_queue p = p\<lparr>pe_write_queue := []\<rparr>"

text \<open>
  The loop of \<open>write_all\<close>.  \<open>transmit\<close> is \<open>peer_id.write\<close> on the bytes it is given.  The entry is read
  once more by \<open>delete[]\<close> after \<open>pop\<close> (a reference to a popped element); the model uses its old value.
  \<open>isFailure\<close> holds of every code that is left in the last branch.
\<close>

fun write_all_loop ::
    "('w \<Rightarrow> u8 list \<Rightarrow> (err_t \<times> u64 \<times> 'w) option) \<Rightarrow> write_entry list \<Rightarrow> 'w \<Rightarrow> state_t \<Rightarrow> err_t list \<Rightarrow>
     (write_entry list \<times> 'w \<times> state_t \<times> err_t list) option" where
  "write_all_loop transmit [] peer_id client_state logged = Some ([], peer_id, client_state, logged)"
| "write_all_loop transmit (e # queue) peer_id client_state logged =
     (let write_size = we_size e - we_written e in
      case subrange (we_buffer e) (unat (we_written e)) (unat write_size) of
        None \<Rightarrow> None
      | Some data \<Rightarrow>
      case transmit peer_id data of
        None \<Rightarrow> None
      | Some (err, written_length, peer_id) \<Rightarrow>
          if err = SUCCESS
          then if written_length = write_size \<and> we_heap e
               then write_all_loop transmit queue peer_id client_state logged else None
          else if err = SOCKET_RETRY
          then if written_length \<le> write_size
               then Some (e\<lparr>we_written := we_written e + written_length\<rparr> # queue, peer_id,
                          SOCKET_PEER_WRITE, logged)
               else None
          else if we_heap e
               then write_all_loop transmit queue peer_id client_state (logged @ [err]) else None)"

definition write_all ::
    "('w \<Rightarrow> u8 list \<Rightarrow> (err_t \<times> u64 \<times> 'w) option) \<Rightarrow> 'w peer \<Rightarrow> 'w peer option" where
  "write_all transmit p =
     (case write_all_loop transmit (pe_write_queue p) (pe_peer_id p) SOCKET_PEER_EVENT (pe_log p) of
        None \<Rightarrow> None
      | Some (queue, peer_id, client_state, logged) \<Rightarrow>
          Some (p\<lparr>pe_write_queue := queue, pe_peer_id := peer_id, pe_client_state := client_state,
                 pe_log := logged\<rparr>))"

definition flush :: "('w \<Rightarrow> u8 list \<Rightarrow> (err_t \<times> u64 \<times> 'w) option) \<Rightarrow> 'w peer \<Rightarrow> 'w peer option" where
  "flush transmit p = map_option clear_queue (write_all transmit p)"

text \<open>
  \<open>close\<close>, with the result of closing the socket; the second component tells whether
  \<open>delayed_free\<close> is called.
\<close>

definition close_peer :: "int \<Rightarrow> err_t \<Rightarrow> 'w peer \<Rightarrow> 'w peer \<times> bool" where
  "close_peer last_peer_id ret p =
     (if last_peer_id \<noteq> 0
      then if ret \<noteq> SOCKET_RETRY then (p\<lparr>pe_client_state := SOCKET_PEER_CLOSED\<rparr>, True)
           else (p\<lparr>pe_client_state := SOCKET_PEER_CLOSE\<rparr>, False)
      else (p, False))"

definition new_peer :: "bool \<Rightarrow> 'w \<Rightarrow> 'w peer" where
  "new_peer use_ssl peer_id =
     \<lparr>pe_write_queue = [], pe_peer_id = peer_id,
      pe_client_state = (if use_ssl then SOCKET_PEER_ACCEPT else SOCKET_PEER_READ), pe_log = []\<rparr>"

text \<open>The move constructor: the new object and the old one; \<open>null\<close> is the moved-from socket.\<close>

definition move_peer :: "'w \<Rightarrow> 'w peer \<Rightarrow> 'w peer \<times> 'w peer" where
  "move_peer null old =
     (old, old\<lparr>pe_write_queue := [], pe_peer_id := null, pe_client_state := SERVEREVENT_MOVED\<rparr>)"

text \<open>
  The accept loop of a listening socket: \<open>results\<close> are the results of \<open>accept\<close> with their \<open>errno\<close>
  (no more results: nothing is waiting), \<open>client_state\<close> the state in which a new connection is left by
  \<open>execute_protector\<close>.  The result is the list of connections created and of those added to the
  event distributor; the exception of a failed accept ends the loop.
\<close>

fun server_execute :: "bool \<Rightarrow> (int \<Rightarrow> state_t) \<Rightarrow> (int \<times> int) list \<Rightarrow> int list \<times> int list" where
  "server_execute movable client_state [] = ([], [])"
| "server_execute movable client_state ((client_id, errno) # results) =
     (case server_accept client_id errno of
        Inl _ \<Rightarrow> ([], [])
      | Inr peer_id \<Rightarrow>
          if is_null peer_id then ([], [])
          else let (created, added) = server_execute movable client_state results in
               (peer_id # created,
                if movable \<and> client_state peer_id = SERVEREVENT_MOVED then added else peer_id # added))"

lemma server_execute_added:
  "snd (server_execute movable client_state results) =
     filter (\<lambda>c. \<not> (movable \<and> client_state c = SERVEREVENT_MOVED)) (fst (server_execute movable client_state results))"
  by (induction movable client_state results rule: server_execute.induct) (auto split: sum.splits prod.splits)

subsection \<open>The bytes still to be sent\<close>

definition unsent_entry :: "write_entry \<Rightarrow> u8 list" where
  "unsent_entry e = take (unat (we_size e - we_written e)) (drop (unat (we_written e)) (we_buffer e))"

abbreviation unsent :: "write_entry list \<Rightarrow> u8 list" where
  "unsent queue \<equiv> concat (map unsent_entry queue)"

definition wf_entry :: "write_entry \<Rightarrow> bool" where
  "wf_entry e \<longleftrightarrow> we_written e \<le> we_size e \<and> unat (we_size e) \<le> length (we_buffer e) \<and> we_heap e"

lemma wf_entry_sizes:
  assumes "wf_entry e"
  shows "unat (we_written e) + unat (we_size e - we_written e) = unat (we_size e)"
    "length (unsent_entry e) = unat (we_size e - we_written e)"
    "subrange (we_buffer e) (unat (we_written e)) (unat (we_size e - we_written e)) = Some (unsent_entry e)"
proof -
  show *: "unat (we_written e) + unat (we_size e - we_written e) = unat (we_size e)"
    using assms by (simp add: wf_entry_def unat_sub word_le_nat_alt)
  then show "length (unsent_entry e) = unat (we_size e - we_written e)"
    using assms by (simp add: wf_entry_def unsent_entry_def) arith
  show "subrange (we_buffer e) (unat (we_written e)) (unat (we_size e - we_written e)) = Some (unsent_entry e)"
    using assms * by (simp add: wf_entry_def unsent_entry_def subrange_def)
qed

lemma wf_entry_advance:
  assumes "wf_entry e" "n \<le> we_size e - we_written e"
  shows "wf_entry (e\<lparr>we_written := we_written e + n\<rparr>)"
    "take (unat n) (unsent_entry e) @ unsent_entry (e\<lparr>we_written := we_written e + n\<rparr>) = unsent_entry e"
proof -
  have "unat (we_size e) < 2 ^ 64" using unsigned_less [of "we_size e"] by simp
  then have sum: "unat (we_written e + n) = unat (we_written e) + unat n"
    using wf_entry_sizes(1) [OF assms(1)] assms(2)
    by (subst unat_add_lem [THEN iffD1]) (simp_all add: word_le_nat_alt)
  have le: "we_written e + n \<le> we_size e"
    using wf_entry_sizes(1) [OF assms(1)] assms(2) by (simp add: word_le_nat_alt sum)
  with assms(1) show "wf_entry (e\<lparr>we_written := we_written e + n\<rparr>)" by (simp add: wf_entry_def)
  have rest: "unat (we_size e - (we_written e + n)) = unat (we_size e - we_written e) - unat n"
    using le wf_entry_sizes(1) [OF assms(1)] assms(2) by (simp add: unat_sub sum word_le_nat_alt)
  have "unsent_entry (e\<lparr>we_written := we_written e + n\<rparr>) = drop (unat n) (unsent_entry e)"
    by (simp add: unsent_entry_def rest sum drop_take, simp add: add.commute)
  then show "take (unat n) (unsent_entry e) @ unsent_entry (e\<lparr>we_written := we_written e + n\<rparr>) = unsent_entry e"
    by simp
qed

lemma subseq_same_prefix: "subseq (ps @ xs) (ps @ ys) \<longleftrightarrow> subseq xs ys"
  by (induction ps) simp_all

subsection \<open>What the queue relies on\<close>

text \<open>\<open>sent w\<close>: the bytes the other side will receive from the socket \<open>w\<close>.\<close>

locale peer_socket =
  fixes transmit :: "'w \<Rightarrow> u8 list \<Rightarrow> (err_t \<times> u64 \<times> 'w) option"
    and sent :: "'w \<Rightarrow> u8 list"
  assumes write_success:
      "length bs < 2 ^ 64 \<Longrightarrow> transmit w bs = Some (SUCCESS, n, w') \<Longrightarrow> sent w' = sent w @ bs"
    and write_retry:
      "length bs < 2 ^ 64 \<Longrightarrow> transmit w bs = Some (SOCKET_RETRY, n, w') \<Longrightarrow> sent w' = sent w @ take (unat n) bs"
    and write_failure:
      "transmit w bs = Some (err, n, w') \<Longrightarrow> err \<noteq> SUCCESS \<Longrightarrow> err \<noteq> SOCKET_RETRY \<Longrightarrow> sent w' = sent w"
begin

lemma write_all_loop_sent:
  "write_all_loop transmit q w st lg = Some (q', w', st', lg') \<Longrightarrow> list_all wf_entry q \<Longrightarrow>
   \<exists>out failures. sent w' = sent w @ out \<and> lg' = lg @ failures \<and> list_all wf_entry q' \<and>
     subseq (out @ unsent q') (unsent q) \<and> (failures = [] \<longrightarrow> out @ unsent q' = unsent q) \<and>
     st' = (if q' = [] then st else SOCKET_PEER_WRITE)"
proof (induction q arbitrary: w lg)
  case Nil
  then show ?case by simp
next
  case (Cons e q)
  have wf: "wf_entry e" "list_all wf_entry q" using Cons.prems(2) by simp_all
  note sizes = wf_entry_sizes [OF wf(1)]
  let ?bs = "unsent_entry e"
  have short: "length ?bs < 2 ^ 64" using unsigned_less [of "we_size e - we_written e"] sizes(2) by simp
  obtain err n w1 where transmit: "transmit w ?bs = Some (err, n, w1)"
    using Cons.prems(1) sizes(3) by (fastforce simp: Let_def split: option.splits)
  consider "err = SUCCESS" | "err = SOCKET_RETRY" | "err \<noteq> SUCCESS" "err \<noteq> SOCKET_RETRY" by blast
  then show ?case
  proof cases
    case 1
    then have "write_all_loop transmit q w1 st lg = Some (q', w', st', lg')"
      using Cons.prems(1) sizes(3) transmit by (simp add: Let_def split: if_splits)
    from Cons.IH [OF this wf(2)] obtain out failures where
      "sent w' = sent w1 @ out" "lg' = lg @ failures" "list_all wf_entry q'"
      "subseq (out @ unsent q') (unsent q)" "failures = [] \<longrightarrow> out @ unsent q' = unsent q"
      "st' = (if q' = [] then st else SOCKET_PEER_WRITE)" by blast
    with write_success [OF short] transmit 1 show ?thesis
      by (intro exI [of _ "?bs @ out"] exI [of _ failures]) (simp add: subseq_same_prefix)
  next
    case 2
    let ?e = "e\<lparr>we_written := we_written e + n\<rparr>"
    have n: "n \<le> we_size e - we_written e" and
      res: "q' = ?e # q" "w' = w1" "st' = SOCKET_PEER_WRITE" "lg' = lg"
      using Cons.prems(1) sizes(3) transmit 2 by (auto simp: Let_def split: if_splits)
    note adv = wf_entry_advance [OF wf(1) n]
    have "take (unat n) ?bs @ unsent_entry ?e @ unsent q = ?bs @ unsent q"
      and "subseq (take (unat n) ?bs @ unsent_entry ?e @ unsent q) (?bs @ unsent q)"
      by (simp_all only: append_assoc [symmetric] adv(2) subseq_order.order_refl)
    moreover have "sent w' = sent w @ take (unat n) ?bs"
      using write_retry [OF short] transmit 2 res(2) by simp
    ultimately show ?thesis
      using adv(1) wf(2)
      by (intro exI [of _ "take (unat n) ?bs"] exI [of _ "[]"]) (simp add: res)
  next
    case 3
    then have "write_all_loop transmit q w1 st (lg @ [err]) = Some (q', w', st', lg')"
      using Cons.prems(1) sizes(3) transmit by (simp add: Let_def split: if_splits)
    from Cons.IH [OF this wf(2)] obtain out failures where
      "sent w' = sent w1 @ out" "lg' = (lg @ [err]) @ failures" "list_all wf_entry q'"
      "subseq (out @ unsent q') (unsent q)" "st' = (if q' = [] then st else SOCKET_PEER_WRITE)" by blast
    with write_failure [OF transmit 3] show ?thesis
      by (intro exI [of _ out] exI [of _ "err # failures"]) (simp add: list_emb_append2)
  qed
qed

text \<open>A connection that is written to: buffers are pushed, and the queue is drained again and again.\<close>

lemma write_all_sent:
  assumes "write_all transmit p = Some p'" "list_all wf_entry (pe_write_queue p)"
  shows "\<exists>out failures. sent (pe_peer_id p') = sent (pe_peer_id p) @ out \<and>
    pe_log p' = pe_log p @ failures \<and> list_all wf_entry (pe_write_queue p') \<and>
    subseq (out @ unsent (pe_write_queue p')) (unsent (pe_write_queue p)) \<and>
    (failures = [] \<longrightarrow> out @ unsent (pe_write_queue p') = unsent (pe_write_queue p)) \<and>
    pe_client_state p' = (if is_write_left p' then SOCKET_PEER_WRITE else SOCKET_PEER_EVENT)"
proof -
  obtain q w st lg where
    "write_all_loop transmit (pe_write_queue p) (pe_peer_id p) SOCKET_PEER_EVENT (pe_log p) =
       Some (q, w, st, lg)" and
    "p' = p\<lparr>pe_write_queue := q, pe_peer_id := w, pe_client_state := st, pe_log := lg\<rparr>"
    using assms(1) by (auto simp: write_all_def split: option.splits)
  with write_all_loop_sent [OF _ assms(2)] show ?thesis by (fastforce simp: is_write_left_def)
qed

end

subsection \<open>A connection over time\<close>

datatype peer_call = Push "u8 list" | Write_all

fun peer_run ::
    "('w \<Rightarrow> u8 list \<Rightarrow> (err_t \<times> u64 \<times> 'w) option) \<Rightarrow> peer_call list \<Rightarrow> 'w peer \<Rightarrow> 'w peer option" where
  "peer_run transmit [] p = Some p"
| "peer_run transmit (Push bs # calls) p =
     peer_run transmit calls (push_write bs True (word_of_nat (length bs)) p)"
| "peer_run transmit (Write_all # calls) p =
     (case write_all transmit p of None \<Rightarrow> None | Some p' \<Rightarrow> peer_run transmit calls p')"

fun pushed :: "peer_call list \<Rightarrow> u8 list" where
  "pushed [] = []"
| "pushed (Push bs # calls) = bs @ pushed calls"
| "pushed (Write_all # calls) = pushed calls"

definition small_calls :: "peer_call list \<Rightarrow> bool" where
  "small_calls = list_all (\<lambda>c. case c of Push bs \<Rightarrow> length bs < 2 ^ 64 | Write_all \<Rightarrow> True)"

lemma wf_entry_new:
  "length bs < 2 ^ 64 \<Longrightarrow>
   wf_entry \<lparr>we_buffer = bs, we_heap = True, we_written = 0, we_size = word_of_nat (length bs)\<rparr>"
  and unsent_entry_new:
  "length bs < 2 ^ 64 \<Longrightarrow>
   unsent_entry \<lparr>we_buffer = bs, we_heap = True, we_written = 0, we_size = word_of_nat (length bs)\<rparr> = bs"
  by (simp_all add: wf_entry_def unsent_entry_def unat_of_nat)

context peer_socket
begin

lemma peer_run_sent:
  "peer_run transmit calls p = Some p' \<Longrightarrow> list_all wf_entry (pe_write_queue p) \<Longrightarrow> small_calls calls \<Longrightarrow>
   \<exists>out failures. sent (pe_peer_id p') = sent (pe_peer_id p) @ out \<and>
     pe_log p' = pe_log p @ failures \<and> list_all wf_entry (pe_write_queue p') \<and>
     subseq (out @ unsent (pe_write_queue p')) (unsent (pe_write_queue p) @ pushed calls) \<and>
     (failures = [] \<longrightarrow> out @ unsent (pe_write_queue p') = unsent (pe_write_queue p) @ pushed calls)"
proof (induction calls arbitrary: p)
  case Nil
  then show ?case by auto
next
  case (Cons c calls)
  show ?case
  proof (cases c)
    case (Push bs)
    with Cons.prems(3) have "length bs < 2 ^ 64" "small_calls calls" by (simp_all add: small_calls_def)
    then show ?thesis
      using Cons.IH [of "push_write bs True (word_of_nat (length bs)) p"] Cons.prems Push
      by (simp add: push_write_def wf_entry_new unsent_entry_new)
  next
    case Write_all
    then obtain p1 where p1: "write_all transmit p = Some p1" and rest: "peer_run transmit calls p1 = Some p'"
      using Cons.prems(1) by (auto split: option.splits)
    from write_all_sent [OF p1 Cons.prems(2)] obtain o1 f1 where
      1: "sent (pe_peer_id p1) = sent (pe_peer_id p) @ o1" "pe_log p1 = pe_log p @ f1"
        "list_all wf_entry (pe_write_queue p1)"
        "subseq (o1 @ unsent (pe_write_queue p1)) (unsent (pe_write_queue p))"
        "f1 = [] \<longrightarrow> o1 @ unsent (pe_write_queue p1) = unsent (pe_write_queue p)" by blast
    have "small_calls calls" using Cons.prems(3) by (simp add: small_calls_def)
    from Cons.IH [OF rest 1(3) this] obtain o2 f2 where
      2: "sent (pe_peer_id p') = sent (pe_peer_id p1) @ o2" "pe_log p' = pe_log p1 @ f2"
        "list_all wf_entry (pe_write_queue p')"
        "subseq (o2 @ unsent (pe_write_queue p')) (unsent (pe_write_queue p1) @ pushed calls)"
        "f2 = [] \<longrightarrow> o2 @ unsent (pe_write_queue p') = unsent (pe_write_queue p1) @ pushed calls" by blast
    have "subseq (o1 @ o2 @ unsent (pe_write_queue p')) (o1 @ unsent (pe_write_queue p1) @ pushed calls)"
      using 2(4) by (simp add: subseq_same_prefix)
    moreover have "subseq ((o1 @ unsent (pe_write_queue p1)) @ pushed calls)
        (unsent (pe_write_queue p) @ pushed calls)"
      using 1(4) by (simp only: subseq_append)
    ultimately have "subseq ((o1 @ o2) @ unsent (pe_write_queue p')) (unsent (pe_write_queue p) @ pushed calls)"
      using subseq_order.trans by (simp only: append_assoc)
    moreover have "(o1 @ o2) @ unsent (pe_write_queue p') = unsent (pe_write_queue p) @ pushed calls"
      if "f1 = []" "f2 = []"
      using 1(5) 2(5) that by (metis append_assoc)
    ultimately show ?thesis
      using 1(1, 2) 2(1 - 3)
      by (intro exI [of _ "o1 @ o2"] exI [of _ "f1 @ f2"]) (simp add: Write_all)
  qed
qed

end

text \<open>
  A socket whose calls always return, with lengths that pass the assertions of \<open>write_all\<close>.
\<close>

locale live_socket = peer_socket transmit sent
  for transmit :: "'w \<Rightarrow> u8 list \<Rightarrow> (err_t \<times> u64 \<times> 'w) option" and sent :: "'w \<Rightarrow> u8 list" +
  assumes transmit_returns:
    "length bs < 2 ^ 64 \<Longrightarrow> \<exists>err n w'. transmit w bs = Some (err, n, w') \<and>
       (err = SUCCESS \<longrightarrow> unat n = length bs) \<and> (err = SOCKET_RETRY \<longrightarrow> unat n \<le> length bs)"
begin

lemma write_all_loop_returns:
  "list_all wf_entry q \<Longrightarrow> write_all_loop transmit q w st lg \<noteq> None"
proof (induction q arbitrary: w lg)
  case (Cons e q)
  then have wf: "wf_entry e" by simp
  note sizes = wf_entry_sizes [OF wf]
  have "length (unsent_entry e) < 2 ^ 64"
    using unsigned_less [of "we_size e - we_written e"] sizes(2) by simp
  from transmit_returns [OF this] obtain err n w1 where
    "transmit w (unsent_entry e) = Some (err, n, w1)"
    "err = SUCCESS \<longrightarrow> n = we_size e - we_written e" "err = SOCKET_RETRY \<longrightarrow> n \<le> we_size e - we_written e"
    unfolding sizes(2) word_le_nat_alt by (metis unsigned_word_eqI)
  then show ?case
    using Cons sizes(3) wf by (simp add: Let_def wf_entry_def)
qed simp

lemma peer_run_returns:
  "list_all wf_entry (pe_write_queue p) \<Longrightarrow> small_calls calls \<Longrightarrow> peer_run transmit calls p \<noteq> None"
proof (induction calls arbitrary: p)
  case (Cons c calls)
  show ?case
  proof (cases c)
    case (Push bs)
    with Cons show ?thesis by (simp add: small_calls_def push_write_def wf_entry_new)
  next
    case Write_all
    have "write_all transmit p \<noteq> None"
      using write_all_loop_returns [OF Cons.prems(1)] by (auto simp: write_all_def split: option.splits)
    then obtain p1 where p1: "write_all transmit p = Some p1" by blast
    with write_all_sent [OF p1 Cons.prems(1)] Cons Write_all show ?thesis
      by (auto simp: small_calls_def)
  qed
qed simp

end

subsection \<open>Both kinds of sockets\<close>

text \<open>
  A socket as the other side sees it: the bytes accepted so far and the results of the calls to
  come.  \<open>write\<close> accepts a prefix of the bytes, never more than 2147479552 of them, or fails with -1;
  a negative choice stands for a failure, any other for the space in the send buffer.  \<open>SSL_write\<close>
  takes an \<open>int\<close> length and, without partial writes, accepts all or nothing; the choice is positive
  or the negated result of \<open>SSL_get_error\<close>.  Its behaviour for no bytes is undefined.
\<close>

record wire =
  wi_sent :: "u8 list"
  wi_choices :: "int list"

definition next_choice :: "wire \<Rightarrow> int \<times> wire" where
  "next_choice w =
     (case wi_choices w of [] \<Rightarrow> (-2, w) | c # cs \<Rightarrow> (c, w\<lparr>wi_choices := cs\<rparr>))"

definition os_write :: "wire \<Rightarrow> u8 list \<Rightarrow> int \<times> wire" where
  "os_write w bs =
     (let (c, w) = next_choice w in
      if c < 0 then (-1, w)
      else let n = min (min (nat c) 2147479552) (length bs)
           in (int n, w\<lparr>wi_sent := wi_sent w @ take n bs\<rparr>))"

definition os_ssl_write :: "wire \<Rightarrow> u8 list \<Rightarrow> (int \<times> int \<times> wire) option" where
  "os_ssl_write w bs =
     (let (c, w) = next_choice w in
      if bs = [] \<or> 2 ^ 31 \<le> length bs then None
      else if c \<le> 0 then Some (-1, - c, w)
      else Some (int (length bs), 0, w\<lparr>wi_sent := wi_sent w @ bs\<rparr>))"

text \<open>\<open>peer_id.write\<close>; the length is not set, and not read, when a plain write fails.\<close>

definition plain_write :: "wire \<Rightarrow> u8 list \<Rightarrow> (err_t \<times> u64 \<times> wire) option" where
  "plain_write w bs =
     (let (ret, w') = os_write w bs; (err, n) = socket_write ret (word_of_nat (length bs)) 0
      in Some (err, n, w'))"

definition tls_write :: "wire \<Rightarrow> u8 list \<Rightarrow> (err_t \<times> u64 \<times> wire) option" where
  "tls_write w bs =
     (case os_ssl_write w bs of
        None \<Rightarrow> None
      | Some (ret, ssl_error, w') \<Rightarrow>
          map_option (\<lambda>(err, n). (err, n, w')) (ssl_write ret ssl_error (word_of_nat (length bs))))"

lemma wi_sent_next_choice [simp]: "next_choice w = (c, w') \<Longrightarrow> wi_sent w' = wi_sent w"
  by (auto simp: next_choice_def split: list.splits)

lemma unat_word_of_nat_small: "n < 2 ^ 64 \<Longrightarrow> unat (word_of_nat n :: u64) = n"
  by (simp add: unat_of_nat)

lemma plain_write_cases:
  assumes "plain_write w bs = Some (err, n, w')"
  shows "(err = SEND_FAILURE \<and> wi_sent w' = wi_sent w) \<or>
    (\<exists>k. k \<le> length bs \<and> unat n = k \<and> wi_sent w' = wi_sent w @ take k bs \<and>
       (err = SUCCESS \<and> (length bs < 2 ^ 64 \<longrightarrow> k = length bs) \<or> err = SOCKET_RETRY))"
proof -
  obtain c w1 where c: "next_choice w = (c, w1)" by fastforce
  let ?k = "min (min (nat c) 2147479552) (length bs)"
  have k: "unat (word_of_int (int ?k) :: u64) = ?k" by (simp add: unat_word_of_nat_small)
  show ?thesis
  proof (cases "c < 0")
    case True
    then show ?thesis using assms c by (simp add: plain_write_def os_write_def socket_write_def)
  next
    case False
    let ?n = "word_of_nat ?k :: u64"
    have n: "unat ?n = ?k" by (simp add: unat_word_of_nat_small)
    have "?k = length bs" if "\<not> ?n < word_of_nat (length bs)" "length bs < 2 ^ 64"
      using that n by (simp add: word_less_nat_alt unat_word_of_nat_small)
    moreover have "err = (if ?n < word_of_nat (length bs) then SOCKET_RETRY else SUCCESS)" "n = ?n"
      "w' = w1\<lparr>wi_sent := wi_sent w1 @ take ?k bs\<rparr>"
      using assms c False by (auto simp: plain_write_def os_write_def socket_write_def Let_def split: if_splits)
    ultimately show ?thesis using c n by (intro disjI2 exI [of _ ?k]) auto
  qed
qed

lemma ssl_error_ret_not_success: "ssl_error_ret e \<noteq> SUCCESS"
  by (simp add: ssl_error_ret_def)

lemma tls_write_cases:
  assumes "tls_write w bs = Some (err, n, w')"
  shows "(err \<noteq> SUCCESS \<and> n = 0 \<and> wi_sent w' = wi_sent w) \<or>
    (err = SUCCESS \<and> unat n = length bs \<and> wi_sent w' = wi_sent w @ bs)"
proof -
  obtain c w1 where c: "next_choice w = (c, w1)" by fastforce
  have len: "length bs < 2 ^ 31" and ne: "bs \<noteq> []"
    using assms c by (auto simp: tls_write_def os_ssl_write_def split: if_splits)
  show ?thesis
  proof (cases "c \<le> 0")
    case True
    then show ?thesis
      using assms c len ne by (auto simp: tls_write_def os_ssl_write_def ssl_write_def ssl_error_ret_not_success)
  next
    case False
    then show ?thesis
      using assms c len ne
      by (auto simp: tls_write_def os_ssl_write_def ssl_write_def Let_def unat_word_of_nat_small)
  qed
qed

interpretation plain: live_socket plain_write wi_sent
proof
  fix w bs n w' err
  show "length bs < 2 ^ 64 \<Longrightarrow> plain_write w bs = Some (SUCCESS, n, w') \<Longrightarrow> wi_sent w' = wi_sent w @ bs"
    by (drule plain_write_cases) auto
  show "length bs < 2 ^ 64 \<Longrightarrow> plain_write w bs = Some (SOCKET_RETRY, n, w') \<Longrightarrow>
      wi_sent w' = wi_sent w @ take (unat n) bs"
    by (drule plain_write_cases) auto
  show "plain_write w bs = Some (err, n, w') \<Longrightarrow> err \<noteq> SUCCESS \<Longrightarrow> err \<noteq> SOCKET_RETRY \<Longrightarrow> wi_sent w' = wi_sent w"
    by (drule plain_write_cases) auto
  show "\<exists>err n w'. plain_write w bs = Some (err, n, w') \<and> (err = SUCCESS \<longrightarrow> unat n = length bs) \<and>
      (err = SOCKET_RETRY \<longrightarrow> unat n \<le> length bs)" if "length bs < 2 ^ 64"
  proof -
    obtain err n w' where w': "plain_write w bs = Some (err, n, w')"
      by (fastforce simp: plain_write_def Let_def split: prod.splits)
    from plain_write_cases [OF w'] that show ?thesis by (auto simp: w')
  qed
qed

interpretation tls: peer_socket tls_write wi_sent
proof
  fix w bs n w' err
  show "length bs < 2 ^ 64 \<Longrightarrow> tls_write w bs = Some (SUCCESS, n, w') \<Longrightarrow> wi_sent w' = wi_sent w @ bs"
    by (drule tls_write_cases) auto
  show "length bs < 2 ^ 64 \<Longrightarrow> tls_write w bs = Some (SOCKET_RETRY, n, w') \<Longrightarrow>
      wi_sent w' = wi_sent w @ take (unat n) bs"
    by (drule tls_write_cases) auto
  show "tls_write w bs = Some (err, n, w') \<Longrightarrow> err \<noteq> SUCCESS \<Longrightarrow> err \<noteq> SOCKET_RETRY \<Longrightarrow> wi_sent w' = wi_sent w"
    by (drule tls_write_cases) auto
qed

text \<open>
  C6: on a new connection over a plain or a TLS socket, whatever the kernel or OpenSSL accepts, the
  bytes on the wire followed by the bytes still queued are a subsequence of the bytes pushed, in
  order; they are exactly the bytes pushed as long as no write has failed.  Over a plain socket no
  assertion fails and no buffer is read out of bounds.
\<close>

theorem connection_sends_in_order:
  assumes "transmit \<in> {plain_write, tls_write}" "small_calls calls"
    "start = new_peer use_ssl \<lparr>wi_sent = [], wi_choices = cs\<rparr>"
  shows "case peer_run transmit calls start of
      None \<Rightarrow> transmit = tls_write
    | Some p \<Rightarrow>
        subseq (wi_sent (pe_peer_id p) @ unsent (pe_write_queue p)) (pushed calls) \<and>
        (pe_log p = [] \<longrightarrow> wi_sent (pe_peer_id p) @ unsent (pe_write_queue p) = pushed calls)"
proof -
  have wf: "list_all wf_entry (pe_write_queue start)" and start: "pe_write_queue start = []"
    "pe_log start = []" "wi_sent (pe_peer_id start) = []" by (simp_all add: assms(3) new_peer_def)
  show ?thesis
  proof (cases "peer_run transmit calls start")
    case None
    with plain.peer_run_returns [OF wf assms(2)] assms(1) show ?thesis by auto
  next
    case (Some p)
    with plain.peer_run_sent [of calls start p] tls.peer_run_sent [of calls start p] wf assms(1, 2) start
    show ?thesis by auto
  qed
qed

text \<open>Two buffers over a plain socket that takes two bytes, then none, then the rest.\<close>

theorem connection_sends_in_order_witness:
  "let p = \<lparr>pe_write_queue = [], pe_peer_id = \<lparr>wi_sent = [1, 2, 3, 4], wi_choices = []\<rparr>,
            pe_client_state = SOCKET_PEER_EVENT, pe_log = []\<rparr> in
   peer_run plain_write [Push [1, 2, 3], Write_all, Push [4], Write_all]
     (new_peer False \<lparr>wi_sent = [], wi_choices = [2, 9, 9]\<rparr>) = Some p \<and>
   wi_sent (pe_peer_id p) @ unsent (pe_write_queue p) = [1, 2, 3, 4]"
proof -
  let ?calls = "[Push [1, 2, 3], Write_all, Push [4], Write_all]"
  let ?p = "\<lparr>pe_write_queue = [], pe_peer_id = \<lparr>wi_sent = [1, 2, 3, 4], wi_choices = []\<rparr>,
            pe_client_state = SOCKET_PEER_EVENT, pe_log = []\<rparr> :: wire peer"
  have run: "peer_run plain_write ?calls (new_peer False \<lparr>wi_sent = [], wi_choices = [2, 9, 9]\<rparr>) = Some ?p"
    by (simp add: new_peer_def push_write_def write_all_def subrange_def plain_write_def os_write_def
        next_choice_def socket_write_def)
  have "small_calls ?calls" by (simp add: small_calls_def)
  from connection_sends_in_order [OF _ this refl, of plain_write False "[2, 9, 9]"] run
  show ?thesis by (simp add: Let_def)
qed

end
