(* ===== verification/IotServer.thy ===== *)
theory IotServer
  imports WriteQueue Message
begin

text \<open>
  deviceserver/include/iotserverevent.hh and lib/iotserverevent.cc: the server side of the device
  protocol.  A message is read into a buffer of 1024 bytes on the stack and interpreted in place; the
  bytes after the received ones are whatever the buffer held.  Replies are the static objects
  \<open>success_request\<close> and \<open>bad_request\<close>, pushed on the write queue.
\<close>

subsection \<open>Replies\<close>

datatype reply = Success_reply | Bad_request_reply

fun reply_bytes :: "reply \<Rightarrow> u8 list" where
  "reply_bytes Success_reply = le16 (code_value SUCCESS_message)"
| "reply_bytes Bad_request_reply = le16 (code_value BAD_REQUEST)"

text \<open>Through a pointer to the buffer seen as a \<open>Command\<close>.\<close>

definition read_command :: "u8 list \<Rightarrow> reply list option" where
  "read_command mem =
     (case read32 mem sizeof_Base of
        None \<Rightarrow> None
      | Some command_count \<Rightarrow>
          if unat command_count \<le> MAX_COMMAND
          then case read_entries mem (sizeof_Base + 4) (unat command_count) of
                 None \<Rightarrow> None
               | Some entries \<Rightarrow>
                   Some (concat (map (\<lambda>e. let command = copy_command_entry e in
                     if ce_operation command = operation_value SWITCH then [Success_reply]
                     else if ce_operation command = operation_value LEVEL then [Success_reply]
                     else []) entries))
          else Some [Bad_request_reply])"

definition read_register :: "reply list" where
  "read_register = [Success_reply]"

definition read_connect :: "reply list" where
  "read_connect = [Success_reply]"

definition read_keep_alive :: "reply list" where
  "read_keep_alive = [Success_reply]"

text \<open>The switch over the message code.\<close>

definition handle_message :: "u8 list \<Rightarrow> reply list option" where
  "handle_message mem =
     (case read16 mem 0 of
        None \<Rightarrow> None
      | Some code \<Rightarrow>
          if code = code_value COMMAND then read_command mem
          else if code = code_value CONNECT then Some read_connect
          else if code = code_value REGISTER then Some read_register
          else if code = code_value KEEP_ALIVE then Some read_keep_alive
          else Some [Bad_request_reply])"

subsection \<open>Connections\<close>

definition read_buffer_size :: nat where
  "read_buffer_size = 1024"

text \<open>A read stores \<open>data\<close> at the start of a buffer that held \<open>stale\<close>.\<close>

definition read_buffer :: "u8 list \<Rightarrow> u8 list \<Rightarrow> u8 list" where
  "read_buffer data stale = data @ drop (length data) stale"

definition push_reply :: "'w peer \<Rightarrow> reply \<Rightarrow> 'w peer" where
  "push_reply p r = push_write (reply_bytes r) False 2 p"

text \<open>
  \<open>read_helper\<close> calls itself until a read gives nothing; \<open>reads\<close> are the results of the calls, the
  data received and the old contents of the buffer.  When they end the socket asks to retry.
\<close>

fun read_helper ::
    "('w \<Rightarrow> u8 list \<Rightarrow> (err_t \<times> u64 \<times> 'w) option) \<Rightarrow> (err_t \<times> u8 list \<times> u8 list) list \<Rightarrow> 'w peer \<Rightarrow>
     'w peer option" where
  "read_helper transmit [] p = Some p"
| "read_helper transmit ((err, data, stale) # reads) p =
     (if err = SOCKET_RETRY then Some p
      else if isFailure err then Some p
      else if data = [] then Some p
      else case handle_message (read_buffer data stale) of
             None \<Rightarrow> None
           | Some replies \<Rightarrow>
               case write_all transmit (foldl push_reply p replies) of
                 None \<Rightarrow> None
               | Some p' \<Rightarrow> read_helper transmit reads p')"

text \<open>
  \<open>execute\<close>, with the results of \<open>accept\<close> and of closing the socket.  The second component tells
  whether \<open>delayed_free\<close> is called.
\<close>

definition iot_execute ::
    "('w \<Rightarrow> u8 list \<Rightarrow> (err_t \<times> u64 \<times> 'w) option) \<Rightarrow> err_t \<Rightarrow> int \<Rightarrow> err_t \<Rightarrow>
     (err_t \<times> u8 list \<times> u8 list) list \<Rightarrow> 'w peer \<Rightarrow> ('w peer \<times> bool) option" where
  "iot_execute transmit accepted last_peer_id close_ret reads p =
     (if pe_client_state p = SOCKET_PEER_ACCEPT
      then if accepted = SUCCESS then Some (p\<lparr>pe_client_state := SOCKET_PEER_EVENT\<rparr>, False)
           else Some (close_peer last_peer_id close_ret p)
      else if pe_client_state p = SOCKET_PEER_CLOSE then Some (close_peer last_peer_id close_ret p)
      else if pe_client_state p \<in> {SOCKET_PEER_EVENT, SOCKET_PEER_READ}
      then map_option (\<lambda>p. (p, False)) (read_helper transmit reads p)
      else if pe_client_state p = SOCKET_PEER_WRITE
      then case write_all transmit p of
             None \<Rightarrow> None
           | Some p \<Rightarrow> map_option (\<lambda>p. (p, False)) (read_helper transmit reads p)
      else Some (p, False))"

subsection \<open>The buffer is never left\<close>

lemma read16_in_bounds: "i + 2 \<le> length mem \<Longrightarrow> \<exists>v. read16 mem i = Some v"
  by (simp add: read16_def subrange_def)

lemma read32_in_bounds: "i + 4 \<le> length mem \<Longrightarrow> \<exists>v. read32 mem i = Some v"
  by (simp add: read32_def subrange_def)

lemma read_entry_in_bounds: "i + sizeof_CommandEntry \<le> length mem \<Longrightarrow> \<exists>e. read_entry mem i = Some e"
  using read32_in_bounds [of "i + 16" mem] read16_in_bounds [of "i + 20" mem] read16_in_bounds [of "i + 22" mem]
  by (auto simp: read_entry_def sizeof_CommandEntry_def guid_size_def subrange_def)

lemma read_entries_in_bounds:
  "i + sizeof_CommandEntry * n \<le> length mem \<Longrightarrow> \<exists>es. read_entries mem i n = Some es \<and> length es = n"
proof (induction n arbitrary: i)
  case (Suc n)
  then have "i + sizeof_CommandEntry \<le> length mem"
    "(i + sizeof_CommandEntry) + sizeof_CommandEntry * n \<le> length mem" by simp_all
  with Suc.IH read_entry_in_bounds obtain e es where "read_entry mem i = Some e"
    "read_entries mem (i + sizeof_CommandEntry) n = Some es" "length es = n" by blast
  then show ?case by simp
qed simp

lemma length_replies_le:
  "length (concat (map (\<lambda>e. if P e then [x] else if Q e then [x] else []) es)) \<le> length es"
  by (induction es) auto

lemma read_command_in_bounds:
  assumes "length mem = read_buffer_size"
  shows "\<exists>replies. read_command mem = Some replies \<and> length replies \<le> MAX_COMMAND"
proof -
  obtain n where n: "read32 mem sizeof_Base = Some n"
    using read32_in_bounds [of sizeof_Base mem] assms by (auto simp: sizeof_Base_def read_buffer_size_def)
  show ?thesis
  proof (cases "unat n \<le> MAX_COMMAND")
    case True
    then obtain es where "read_entries mem (sizeof_Base + 4) (unat n) = Some es" "length es = unat n"
      using read_entries_in_bounds [of "sizeof_Base + 4" "unat n" mem] assms
      by (auto simp: sizeof_Base_def read_buffer_size_def sizeof_CommandEntry_def MAX_COMMAND_def)
    with n True length_replies_le [of "\<lambda>e. ce_operation (copy_command_entry e) = operation_value SWITCH"
        Success_reply "\<lambda>e. ce_operation (copy_command_entry e) = operation_value LEVEL" es]
    show ?thesis by (simp add: read_command_def Let_def)
  next
    case False
    then show ?thesis by (simp add: read_command_def n MAX_COMMAND_def)
  qed
qed

text \<open>
  C37: whatever bytes arrive and whatever the buffer held, the server reads inside its buffer, and
  answers with at most sixteen replies; a message that is no command gets exactly one.
\<close>

theorem message_handled_in_bounds:
  assumes "length data \<le> read_buffer_size" "length stale = read_buffer_size"
  shows "\<exists>replies. handle_message (read_buffer data stale) = Some replies \<and> length replies \<le> MAX_COMMAND \<and>
    (read16 (read_buffer data stale) 0 \<noteq> Some (code_value COMMAND) \<longrightarrow> length replies = 1)"
proof -
  have len: "length (read_buffer data stale) = read_buffer_size" using assms by (simp add: read_buffer_def)
  obtain code where code: "read16 (read_buffer data stale) 0 = Some code"
    using read16_in_bounds [of 0 "read_buffer data stale"] len by (auto simp: read_buffer_size_def)
  show ?thesis
    using read_command_in_bounds [OF len]
    by (auto simp: handle_message_def code read_connect_def read_register_def read_keep_alive_def MAX_COMMAND_def)
qed

text \<open>A command with a count of one in a message of two bytes: the rest of the buffer is used.\<close>

theorem message_handled_in_bounds_witness:
  "\<exists>replies. handle_message (read_buffer [6, 0] ([0, 0, 1, 0, 0, 0] @ replicate 1018 0)) = Some replies \<and>
     length replies \<le> MAX_COMMAND"
  using message_handled_in_bounds [of "[6, 0]" "[0, 0, 1, 0, 0, 0] @ replicate 1018 0"]
  by (fastforce simp: read_buffer_size_def)

subsection \<open>A command is answered\<close>

lemma concat_replies:
  "concat (map (\<lambda>e. if P e then [x] else if Q e then [x] else []) es) =
   replicate (length (filter (\<lambda>e. P e \<or> Q e) es)) x"
  by (induction es) auto

text \<open>
  C31: a \<open>Command\<close> sent as its first \<open>length()\<close> bytes is answered with one success for every \<open>SWITCH\<close>
  or \<open>LEVEL\<close> entry that was added to it, whatever the buffer held before; entries with another
  operation, and a command with no entry, get no answer.
\<close>

theorem command_answered:
  assumes "wf_command c" "cm_code c = code_value COMMAND"
  shows "handle_message (read_buffer (take (command_length c) (command_bytes c)) stale) =
    Some (replicate (length (filter (\<lambda>e. ce_operation e = operation_value SWITCH \<or>
      ce_operation e = operation_value LEVEL) (command_entries c))) Success_reply)"
proof -
  let ?sent = "take (command_length c) (command_bytes c)"
  let ?mem = "read_buffer ?sent stale"
  have "read16 ?mem 0 = Some (code_value COMMAND)" "read32 ?mem sizeof_Base = Some (cm_command_count c)"
    "read_entries ?mem (sizeof_Base + 4) (unat (cm_command_count c)) = Some (command_entries c)"
    using command_sent_read [OF assms(1), of "drop (length ?sent) stale"] assms(2)
    unfolding read_buffer_def Let_def by simp_all
  moreover have "unat (cm_command_count c) \<le> MAX_COMMAND" using assms(1) by (simp add: wf_command_def)
  ultimately show ?thesis
    by (simp add: handle_message_def read_command_def copy_command_entry_def Let_def concat_replies
        del: code_value.simps operation_value.simps)
qed

theorem command_answered_witness:
  "handle_message (read_buffer (take 30 (command_bytes (snd (add_entry sample_entry
     (new_command (replicate 16 sample_entry)))))) (replicate 1024 7)) = Some [Success_reply]"
proof -
  let ?c0 = "new_command (replicate 16 sample_entry)"
  obtain c where c: "add_entry sample_entry ?c0 = (SUCCESS, c)" "wf_command c"
    "command_entries c = command_entries ?c0 @ [sample_entry]" "cm_code c = cm_code ?c0"
    using add_entry_room [of ?c0 sample_entry]
    by (auto simp: wf_command_def new_command_def MAX_COMMAND_def list_all_iff sample_entry_def wf_guid_def
        zero_guid_def)
  have entries: "command_entries c = [sample_entry]" using c(3) by (simp add: command_entries_def new_command_def)
  then have "command_length c = 30"
    using length_command_entries [OF c(2)] by (simp add: command_length_def sizeof_Base_def sizeof_CommandEntry_def)
  with command_answered [OF c(2), of "replicate 1024 7"] c(1, 4) entries show ?thesis
    by (simp add: new_command_def sample_entry_def)
qed

subsection \<open>Replies are not heap buffers\<close>

text \<open>
  A reply that the socket takes at once makes \<open>write_all\<close> call \<open>delete[]\<close> on the static object
  that holds it, so a connection never survives its first complete answer.
\<close>

theorem static_reply_deleted:
  assumes "data \<noteq> []" "handle_message (read_buffer data stale) = Some (r # replies)"
    "pe_write_queue p = []" "transmit (pe_peer_id p) (reply_bytes r) = Some (SUCCESS, n, w)"
  shows "read_helper transmit ((SUCCESS, data, stale) # reads) p = None"
proof -
  have queue: "pe_write_queue (foldl push_reply p (r # replies)) =
      \<lparr>we_buffer = reply_bytes r, we_heap = False, we_written = 0, we_size = 2\<rparr> # q \<and>
      pe_peer_id (foldl push_reply p (r # replies)) = pe_peer_id p"
    if "q = map (\<lambda>r. \<lparr>we_buffer = reply_bytes r, we_heap = False, we_written = 0, we_size = 2\<rparr>) replies" for q
  proof -
    have "pe_write_queue (foldl push_reply p rs) = pe_write_queue p @
        map (\<lambda>r. \<lparr>we_buffer = reply_bytes r, we_heap = False, we_written = 0, we_size = 2\<rparr>) rs \<and>
        pe_peer_id (foldl push_reply p rs) = pe_peer_id p" for rs
      by (induction rs rule: rev_induct) (simp_all add: push_reply_def push_write_def)
    from this [of "r # replies"] show ?thesis by (simp add: assms(3) that)
  qed
  have "subrange (reply_bytes r) 0 2 = Some (reply_bytes r)" by (cases r) (simp_all add: subrange_def)
  then have "write_all transmit (foldl push_reply p (r # replies)) = None"
    using assms(4) queue [OF refl] by (simp add: write_all_def)
  then show ?thesis by (simp add: assms(1, 2) isFailure_def)
qed

theorem static_reply_deleted_witness:
  "read_helper plain_write [(SUCCESS, [3, 0], replicate 1024 0)]
     (new_peer False \<lparr>wi_sent = [], wi_choices = [9]\<rparr>) = None"
proof (rule static_reply_deleted)
  show "handle_message (read_buffer [3, 0] (replicate 1024 0)) = Some [Success_reply]"
    by (simp add: handle_message_def read_buffer_def read16_def subrange_def of_le16_def read_keep_alive_def)
  show "plain_write (pe_peer_id (new_peer False \<lparr>wi_sent = [], wi_choices = [9]\<rparr>)) (reply_bytes Success_reply) =
      Some (SUCCESS, 2, \<lparr>wi_sent = reply_bytes Success_reply, wi_choices = []\<rparr>)"
    by (simp add: plain_write_def os_write_def next_choice_def socket_write_def new_peer_def le16_def)
qed (simp_all add: new_peer_def)

end
