(* ===== verification/LogTable.thy ===== *)
theory LogTable
  imports IotPrelude
begin

text \<open>
  serverlib/include/iot/core/log_entry.hh and the first part of log.hh: log levels, modules, the
  table of all log messages, and \<open>active_module\<close> with its functions of lib/log.cc.

  A log identifier is the position of its message in \<open>logger_log_list\<close>, as the enumeration
  \<open>log_t\<close> makes it.
\<close>

subsection \<open>Levels and modules\<close>

datatype logger_level = Level_IGNORE | Level_DEBUG | Level_VERBOSE | Level_INFO | Level_WARNING
  | Level_ERROR | Level_ALERT

datatype module_t = Module_SYSTEM | Module_SOCKET | Module_EVENT_DISTRIBUTOR | Module_EVENT_EXECUTOR
  | Module_EVENT_SERVER | Module_CONFIG_SERVER | Module_IOT_EVENT_SERVER | Module_IOT_HTTPSERVER
  | Module_IOT_HTTP2SERVER | Module_TEST | Module_MAX_MODULE | Module_UNKNOWN

definition logger_level_list :: "(logger_level \<times> string) list" where
  "logger_level_list =
    [(Level_IGNORE, ''IGNORE''), (Level_DEBUG, ''DEBUG''), (Level_VERBOSE, ''VERBOSE''),
     (Level_INFO, ''INFO''), (Level_WARNING, ''WARNING''), (Level_ERROR, ''ERROR''),
     (Level_ALERT, ''ALERT'')]"

definition logger_module_list :: "(module_t \<times> string) list" where
  "logger_module_list =
    [(Module_SYSTEM, ''SYSTEM''), (Module_SOCKET, ''SOCKET''),
     (Module_EVENT_DISTRIBUTOR, ''EVENT_DISTRIBUTOR''), (Module_EVENT_EXECUTOR, ''EVENT_EXECUTOR''),
     (Module_EVENT_SERVER, ''EVENT_SERVER''), (Module_CONFIG_SERVER, ''CONFIG_SERVER''),
     (Module_IOT_EVENT_SERVER, ''IOT_EVENT_SERVER''), (Module_IOT_HTTPSERVER, ''IOT_HTTPSERVER''),
     (Module_IOT_HTTP2SERVER, ''IOT_HTTP2SERVER''), (Module_TEST, ''TEST''),
     (Module_MAX_MODULE, ''MAX_MODULE''), (Module_UNKNOWN, ''UNKNOWN'')]"

text \<open>The underlying value of an enumerator is its position.\<close>

definition level_value :: "logger_level \<Rightarrow> u8" where
  "level_value l = word_of_nat (length (takeWhile (\<lambda>e. fst e \<noteq> l) logger_level_list))"

definition module_value :: "module_t \<Rightarrow> nat" where
  "module_value m = length (takeWhile (\<lambda>e. fst e \<noteq> m) logger_module_list)"

text \<open>A name that is not found: the level 0xff, the module \<open>UNKNOWN\<close>.\<close>

definition to_logger_level :: "string \<Rightarrow> u8" where
  "to_logger_level level_name =
     (case List.find (\<lambda>e. snd e = level_name) logger_level_list of
        None \<Rightarrow> 0xff
      | Some e \<Rightarrow> level_value (fst e))"

definition to_module_t :: "string \<Rightarrow> module_t" where
  "to_module_t module_name =
     (case List.find (\<lambda>e. snd e = module_name) logger_module_list of
        None \<Rightarrow> Module_UNKNOWN
      | Some e \<Rightarrow> fst e)"

text \<open>
  \<open>to_string\<close> of a stored value: the default label stands before the first case, so a value that is
  no enumerator gets the first name.
\<close>

definition logger_level_to_string :: "bool \<Rightarrow> u8 \<Rightarrow> string" where
  "logger_level_to_string null_terminated v =
     snd (logger_level_list ! (if unat v < length logger_level_list then unat v else 0)) @
     (if null_terminated then [NUL] else [])"

definition module_to_string :: "bool \<Rightarrow> u32 \<Rightarrow> string" where
  "module_to_string null_terminated v =
     snd (logger_module_list ! (if unat v < length logger_module_list then unat v else 0)) @
     (if null_terminated then [NUL] else [])"

subsection \<open>The messages\<close>

type_synonym log_entry = "string \<times> logger_level \<times> module_t \<times> string"

definition logger_log_list :: "log_entry list" where
  "logger_log_list = [
     (''BADLOG_ERROR'', Level_ALERT, Module_SYSTEM, ''Your log is corrupted, delete it, restart server and use latest log reader !!!!!!!!!!!!!!''),
     (''SEGMENTATION_FAULT'', Level_ALERT, Module_SYSTEM, ''Segmentation fault occurred !!!!!!!!!!!!!!''),
     (''APPLICATION_STARTING'', Level_ALERT, Module_SYSTEM, ''Application is starting''),
     (''APPLICATION_STARTED_SUCCESSFULLY'', Level_ALERT, Module_SYSTEM, ''Application started successfully''),
     (''PTHREAD_CREATE_FAILED'', Level_ERROR, Module_SYSTEM, ''Unable to create pthread with error %ve''),
     (''PTHREAD_JOIN_FAILED'', Level_WARNING, Module_SYSTEM, ''Unable to join pthread with error %ve''),
     (''SOCKET_CREATE_SUCCESS'', Level_DEBUG, Module_SOCKET, ''Socket %i created''),
     (''SOCKET_CREATE_FAILED'', Level_INFO, Module_SOCKET, ''Socket creation failed with error %ve''),
     (''SOCKET_CLOSE_SUCCESS'', Level_DEBUG, Module_SOCKET, ''Socket %i closed''),
     (''SOCKET_CLOSE_FAILED'', Level_INFO, Module_SOCKET, ''Socket %i close failed with error %ve''),
     (''SOCKET_BIND_SUCCESS'', Level_DEBUG, Module_SOCKET, ''Socket %i, port %i bind success''),
     (''SOCKET_LISTEN_SUCCESS'', Level_DEBUG, Module_SOCKET, ''Socket %i, port %i listen success''),
     (''SOCKET_ACCEPT_SUCCESS'', Level_DEBUG, Module_SOCKET, ''Socket %i accept success, new socket created %i''),
     (''SOCKET_SET_NONBLOCKING_FAILED'', Level_ERROR, Module_SOCKET, ''Socket %i setting non blocking failed''),
     (''SYSTEM_ERROR'', Level_ERROR, Module_SYSTEM, ''System Error '' @ CHR 0x27 # ''%ve'' @ CHR 0x27 # ''''),
     (''IOT_ERROR'', Level_ERROR, Module_SYSTEM, ''IOT Error '' @ CHR 0x27 # ''%vE'' @ CHR 0x27 # ''''),
     (''SETTING_LOG_LEVEL_FAILED'', Level_ALERT, Module_SYSTEM, ''FAILED: Setting Log level %vl for module %vm''),
     (''SETTING_LOG_LEVEL'', Level_ALERT, Module_SYSTEM, ''Setting Log level %vl for module %vm''),
     (''SETTING_LOG_LEVEL_ALL'', Level_ALERT, Module_SYSTEM, ''Setting Log level %vl for all modules''),
     (''CONFIG_SERVER_INIT_SUCCESS'', Level_ALERT, Module_EVENT_SERVER, ''Config Server: Started Successfully. Number of Message: %li, Message Size: %li''),
     (''CONFIG_SERVER_INIT_FAILED_RETRY'', Level_WARNING, Module_EVENT_SERVER, ''Config Server: initialize failed, retrying... Error: %ve''),
     (''CONFIG_SERVER_INIT_FAILED'', Level_ERROR, Module_EVENT_SERVER, ''Config Server: initialize failed with error: %ve''),
     (''CONFIG_SERVER_READ_FAILED'', Level_ERROR, Module_EVENT_SERVER, ''Config Server: read failed, stopping server. Error: %ve''),
     (''CONFIG_SERVER_LOG_LEVEL'', Level_INFO, Module_CONFIG_SERVER, ''Config Server: Setting Log level %vl for module %vm''),
     (''CONFIG_SERVER_LOG_LEVEL_ALL'', Level_ALERT, Module_SYSTEM, ''Config Server: Setting Log level %vl for all modules''),
     (''CONFIG_SERVER_TERMINATE'', Level_ALERT, Module_CONFIG_SERVER, ''Config Server: Terminating...''),
     (''SOCKET_SSL_INITIALIZE'', Level_INFO, Module_SOCKET, ''Socket initialize SSL''),
     (''SOCKET_SSL_INITIALIZE_ATTEMPT'', Level_DEBUG, Module_SOCKET, ''Socket initialize SSL attempt  %i''),
     (''SOCKET_SSL_CERT_LOAD_SUCCESS'', Level_INFO, Module_SOCKET, ''FD %i: Loaded SSL certificate''),
     (''SOCKET_SSL_CERT_LOAD_FAILED'', Level_ERROR, Module_SOCKET, ''FD %i: Unable to load SSL certificate, exiting''),
     (''SOCKET_SSL_CERT_LOAD_FAILED_FILE_NOT_FOUND'', Level_ERROR, Module_SOCKET, ''FD %i: Unable to load SSL certificate as file not found, exiting''),
     (''SOCKET_SSL_PRIKEY_LOAD_SUCCESS'', Level_INFO, Module_SOCKET, ''FD %i: Loaded Primary Key''),
     (''SOCKET_SSL_PRIKEY_LOAD_FAILED'', Level_ERROR, Module_SOCKET, ''FD %i: Unable to load Primary Key, exiting''),
     (''SOCKET_SSL_CLEANUP'', Level_INFO, Module_SOCKET, ''Socket cleanup SSL''),
     (''SOCKET_SSL_CLEANUP_ATTEMPT'', Level_DEBUG, Module_SOCKET, ''Socket cleanup SSL left %i''),
     (''SOCKET_SSL_ACCEPT_RETRY'', Level_DEBUG, Module_SOCKET, ''FD %i: SSL Socket accept retry SSL Accept''),
     (''SOCKET_SSL_ACCEPT_SUCCESS'', Level_VERBOSE, Module_SOCKET, ''FD %i: SSL Socket accept success''),
     (''SOCKET_SSL_ACCEPT_FAILED'', Level_ERROR, Module_SOCKET, ''FD %i: SSL Socket accept failed, with %vc''),
     (''EVENT_DIST_CREATING_THREAD'', Level_DEBUG, Module_EVENT_DISTRIBUTOR, ''Event distributor creating %llu threads''),
     (''EVENT_DIST_LOOP_CREATED'', Level_DEBUG, Module_EVENT_DISTRIBUTOR, ''Event distributor thread loop created''),
     (''EVENT_DIST_CREATE_FAILED'', Level_ERROR, Module_EVENT_DISTRIBUTOR, ''Event distributor creation failed with error %ve, terminating application''),
     (''EVENT_DIST_CREATE_NO_THREAD'', Level_ERROR, Module_EVENT_DISTRIBUTOR, ''Event distributor failed to create any thread, terminating application''),
     (''EVENT_DIST_LOOP_WAIT_INTERRUPTED'', Level_WARNING, Module_EVENT_DISTRIBUTOR, ''Event distributor loop interrupted with error %ve,  waiting for a second and retry''),
     (''EVENT_DIST_TOO_MANY_THREAD'', Level_WARNING, Module_EVENT_DISTRIBUTOR, ''Event distributor created with threads more than CPUs''),
     (''EVENT_DIST_EXIT_EPOLL_CLOSE_FAILED'', Level_WARNING, Module_EVENT_DISTRIBUTOR, ''Event distributor unable to close epoll with error %ve''),
     (''EVENT_DIST_EXIT_THREAD_JOIN_FAILED'', Level_WARNING, Module_EVENT_DISTRIBUTOR, ''Event distributor unable to join thread with error %ve''),
     (''EVENT_DIST_EXIT_THREAD_JOIN_SUCCESS'', Level_VERBOSE, Module_EVENT_DISTRIBUTOR, ''Event distributor join thread success''),
     (''EVENT_DIST_CREATE_SUCCESS'', Level_INFO, Module_EVENT_DISTRIBUTOR, ''Event distributor creation succeeded''),
     (''EVENT_DIST_TERMINATING'', Level_INFO, Module_EVENT_DISTRIBUTOR, ''Event distributor TERMINATING''),
     (''EVENT_DIST_EVENT_RECEIVED'', Level_DEBUG, Module_EVENT_DISTRIBUTOR, ''Event distributor event %vv receive''),
     (''EVENT_DIST_DEADLOCK_DETECTED'', Level_ALERT, Module_EVENT_DISTRIBUTOR, ''Event distributor deadlock detected in thread %llu, state %vs''),
     (''EVENT_DIST_PAUSED_THREAD'', Level_DEBUG, Module_EVENT_DISTRIBUTOR, ''Event distributor pausing thread %llu''),
     (''EVENT_DIST_RESUMED_THREAD'', Level_DEBUG, Module_EVENT_DISTRIBUTOR, ''Event distributor resumed thread %llu''),
     (''EVENT_DIST_PAUSED_THREAD_FAILED'', Level_ERROR, Module_EVENT_DISTRIBUTOR, ''Event distributor failed to pause''),
     (''EVENT_CREATE_FAILED'', Level_ERROR, Module_EVENT_EXECUTOR, ''FD %i: Event creation failed with error %ve''),
     (''EVENT_CREATE_SUCCESS'', Level_DEBUG, Module_EVENT_EXECUTOR, ''FD %i: Event creation succeeded''),
     (''EVENT_REMOVE_SUCCESS'', Level_DEBUG, Module_EVENT_EXECUTOR, ''FD %i: Event removal succeeded''),
     (''EVENT_REMOVE_FAILED'', Level_INFO, Module_EVENT_EXECUTOR, ''FD %i: Event removal failed with error %ve''),
     (''EVENT_SERVER_RECEIVED_EVENT'', Level_DEBUG, Module_EVENT_SERVER, ''FD %i: Event server received event''),
     (''EVENT_SERVER_SSL_RECEIVED_EVENT'', Level_DEBUG, Module_EVENT_SERVER, ''FD %i: SSL Event server received event %vv''),
     (''EVENT_SERVER_ACCEPT_FAILED'', Level_ERROR, Module_EVENT_SERVER, ''FD %i: Event server failed to accept connection with error %ve''),
     (''EVENT_SERVER_SSL_ACCEPT_FAILED'', Level_ERROR, Module_EVENT_SERVER, ''SSL Event server failed to accept connection with error %ve''),
     (''EVENT_SERVER_PEER_CREATED'', Level_VERBOSE, Module_EVENT_SERVER, ''FD %i: Event server new peer %i created from remote %vN''),
     (''EVENT_SERVER_HELPER_WRITE_FAILED'', Level_WARNING, Module_EVENT_SERVER, ''Event server helper event write failed with error %ve''),
     (''EVENT_SERVER_HELPER_READ_FAILED'', Level_WARNING, Module_EVENT_SERVER, ''Event server helper event read failed with error %ve''),
     (''EVENT_SERVER_HELPER_UNKNOWN'', Level_WARNING, Module_EVENT_SERVER, ''Event server helper unknown message''),
     (''EVENT_SERVER_MOVED_ENTERED'', Level_WARNING, Module_EVENT_SERVER, ''FD %i: Entered event server after move, must not happen''),
     (''EVENT_SERVER_SSL_CLOSED_WRITE'', Level_INFO, Module_EVENT_SERVER, ''FD %i: SSL Event failed to write as socket is closed''),
     (''EVENT_SERVER_UNKNOWN_STATE'', Level_WARNING, Module_EVENT_SERVER, ''FD %i: Entered event server for unknown state %vs''),
     (''EVENT_SERVER_CONNECTION_CLOSED'', Level_INFO, Module_IOT_EVENT_SERVER, ''FD %i: Event Server connection closed''),
     (''IOT_EVENT_SERVER_READ_FAILED'', Level_DEBUG, Module_IOT_EVENT_SERVER, ''IOT Event Server peer read failed with error %vE''),
     (''IOT_EVENT_SERVER_WRITE_FAILED'', Level_ERROR, Module_IOT_EVENT_SERVER, ''IOT Event Server peer write failed with error %vE''),
     (''FILEWATCHER_EVENT_CREATE_FAILED'', Level_ERROR, Module_IOT_HTTPSERVER, ''FILEWATCHER event create failed''),
     (''FILEWATCHER_ADD_FOLDER_FAILED'', Level_WARNING, Module_IOT_HTTPSERVER, ''FILEWATCHER failed to add folder for watch with error %ve''),
     (''FILEWATCHER_EVENT_READ_FAILED'', Level_INFO, Module_IOT_HTTPSERVER, ''FILEWATCHER event read failed with error %ve''),
     (''HTTP_EVENT_SERVER_READ_FAILED'', Level_DEBUG, Module_IOT_HTTPSERVER, ''HTTP Event Server peer read failed with error %vE''),
     (''HTTP2_EVENT_SERVER_READ_FAILED'', Level_DEBUG, Module_IOT_HTTP2SERVER, ''Socket %i: HTTP2 Event Server peer read failed with error %vE''),
     (''TEST_STATE_LOG'', Level_INFO, Module_TEST, ''State '' @ CHR 0x27 # ''%vs'' @ CHR 0x27 # ''''),
     (''TEST_GUID_LOG'', Level_INFO, Module_TEST, ''IOT Error '' @ CHR 0x27 # ''%vg'' @ CHR 0x27 # '' caps '' @ CHR 0x27 # ''%vG'' @ CHR 0x27 # ''''),
     (''TEST_FLOAT_LOGS'', Level_INFO, Module_TEST, ''Test float %%%hf, double %f''),
     (''TEST_INTEGER_LOGS'', Level_INFO, Module_TEST, ''Test %%, Integer %i, long %li, long long %lli, Short %hi, Short Short %hhi, Unsigned %u, long %lu, long long %llu, Short %hu, Short Short %hhu''),
     (''TEST_IPV6ADDR_LOGS'', Level_INFO, Module_TEST, ''Test char %c, ipv6_socket_addr_t %vn caps: %vN; ipv6_addr_t %vi caps: %vI ipv6_port_t %vp''),
     (''WEB_SERVER_NO_EXTENSION'', Level_DEBUG, Module_SYSTEM, ''Web Server, file without extension is not supported, ignoring''),
     (''WEB_SERVER_UNSUPPORTED_EXTENSION'', Level_DEBUG, Module_SYSTEM, ''Web Server, unsupported file extension, ignoring''),
     (''MAX_LOG'', Level_VERBOSE, Module_TEST, ''Max log no entry must be made beyond this'')]"

definition log_id_str :: "log_entry \<Rightarrow> string" where
  "log_id_str e = fst e"

definition log_level :: "log_entry \<Rightarrow> logger_level" where
  "log_level e = fst (snd e)"

definition log_module :: "log_entry \<Rightarrow> module_t" where
  "log_module e = fst (snd (snd e))"

definition log_text :: "log_entry \<Rightarrow> string" where
  "log_text e = snd (snd (snd e))"

text \<open>The switches over an identifier, where the default is the first message.\<close>

definition get_log_entry :: "u16 \<Rightarrow> log_entry" where
  "get_log_entry v =
     logger_log_list ! (if unat v < length logger_log_list then unat v else 0)"

definition get_log_description :: "u16 \<Rightarrow> string" where
  "get_log_description v = log_text (get_log_entry v)"

definition get_log_id_string :: "u16 \<Rightarrow> string" where
  "get_log_id_string v = log_id_str (get_log_entry v)"

definition log_t_count :: nat where
  "log_t_count = length logger_log_list"

subsection \<open>active\_module\<close>

text \<open>
  \<open>module_level\<close> has one element per module below \<open>MAX_MODULE\<close>.  The initialiser \<open>{ ERROR }\<close> sets the
  first one; the others are zero, which is \<open>IGNORE\<close>.
\<close>

definition max_module :: nat where
  "max_module = module_value Module_MAX_MODULE"

definition new_active_module :: "u8 list" where
  "new_active_module = level_value Level_ERROR # replicate (max_module - 1) 0"

definition set_module :: "module_t \<Rightarrow> u8 \<Rightarrow> u8 list \<Rightarrow> u8 list" where
  "set_module m level module_level =
     (if max_module \<le> module_value m then module_level else module_level[module_value m := level])"

definition enable_all :: "u8 \<Rightarrow> u8 list \<Rightarrow> u8 list" where
  "enable_all level module_level = replicate (length module_level) level"

definition clear_all :: "u8 list \<Rightarrow> u8 list" where
  "clear_all = enable_all (level_value Level_ERROR)"

text \<open>\<open>is_enabled\<close>, and the test that \<open>log\<close> makes before it writes.\<close>

definition is_enabled :: "log_entry \<Rightarrow> u8 list \<Rightarrow> bool option" where
  "is_enabled e module_level =
     map_option (\<lambda>l. l \<le> level_value (log_level e)) (load module_level (module_value (log_module e)))"

definition is_logged :: "log_entry \<Rightarrow> u8 list \<Rightarrow> bool option" where
  "is_logged e module_level =
     (if level_value (log_level e) < level_value Level_ERROR then is_enabled e module_level else Some True)"

subsection \<open>Names\<close>

lemma level_value_simps [simp]:
  "level_value Level_IGNORE = 0" "level_value Level_DEBUG = 1" "level_value Level_VERBOSE = 2"
  "level_value Level_INFO = 3" "level_value Level_WARNING = 4" "level_value Level_ERROR = 5"
  "level_value Level_ALERT = 6"
  by (simp_all add: level_value_def logger_level_list_def)

lemma module_value_simps [simp]:
  "module_value Module_SYSTEM = 0" "module_value Module_SOCKET = 1"
  "module_value Module_EVENT_DISTRIBUTOR = 2" "module_value Module_EVENT_EXECUTOR = 3"
  "module_value Module_EVENT_SERVER = 4" "module_value Module_CONFIG_SERVER = 5"
  "module_value Module_IOT_EVENT_SERVER = 6" "module_value Module_IOT_HTTPSERVER = 7"
  "module_value Module_IOT_HTTP2SERVER = 8" "module_value Module_TEST = 9"
  "module_value Module_MAX_MODULE = 10" "module_value Module_UNKNOWN = 11"
  by (simp_all add: module_value_def logger_module_list_def)

lemma max_module_eq [simp]: "max_module = 10"
  by (simp add: max_module_def)

text \<open>Reading a name gives the level or the module that is printed with it.\<close>

lemma to_logger_level_name:
  "to_logger_level (logger_level_to_string False (level_value l)) = level_value l"
  by (cases l) (simp_all add: to_logger_level_def logger_level_to_string_def logger_level_list_def)

lemma to_module_name:
  "to_module_t (module_to_string False (word_of_nat (module_value m))) = m"
  by (cases m) (simp_all add: to_module_t_def module_to_string_def logger_module_list_def)

subsection \<open>What is logged\<close>

definition wf_levels :: "u8 list \<Rightarrow> bool" where
  "wf_levels module_level \<longleftrightarrow> length module_level = max_module"

lemma wf_levels_operations:
  "wf_levels new_active_module" "wf_levels ls \<Longrightarrow> wf_levels (set_module m l ls)"
  "wf_levels ls \<Longrightarrow> wf_levels (enable_all l ls)"
  by (simp_all add: wf_levels_def new_active_module_def set_module_def enable_all_def)

text \<open>Every message of the table belongs to a module that has a level.\<close>

lemma log_modules_in_range: "list_all (\<lambda>e. module_value (log_module e) < max_module) logger_log_list"
  by (simp add: logger_log_list_def log_module_def)

text \<open>
  At start only the first module is set to \<open>ERROR\<close>: a debug message of another module is logged,
  while after \<open>clear_all\<close> no message below \<open>ERROR\<close> is.
\<close>

lemma debug_logged_at_start:
  "is_logged (''SOCKET_CREATE_SUCCESS'', Level_DEBUG, Module_SOCKET, ''Socket %i created'') new_active_module =
     Some True"
  "is_logged (''SOCKET_CREATE_SUCCESS'', Level_DEBUG, Module_SOCKET, ''Socket %i created'')
     (clear_all new_active_module) = Some False"
  by (simp_all add: is_logged_def is_enabled_def new_active_module_def log_level_def log_module_def clear_all_def
      enable_all_def load_def word_le_nat_alt)

text \<open>Setting the level of one module changes what is logged of that module only.\<close>

lemma is_enabled_set_module:
  assumes "wf_levels ls" "module_value (log_module e) < max_module"
  shows "is_enabled e (set_module m l ls) =
    (if m = log_module e then Some (l \<le> level_value (log_level e)) else is_enabled e ls)"
proof -
  have "module_value m = module_value (log_module e) \<longleftrightarrow> m = log_module e"
    by (cases m; cases "log_module e") simp_all
  then show ?thesis
    using assms by (auto simp: is_enabled_def set_module_def wf_levels_def load_def nth_list_update)
qed

end
