(* ===== verification/FormatStr.thy ===== *)
theory FormatStr
  imports LogTable
begin

text \<open>
  serverlib/include/iot/core/varadic.hh and the type identifiers of types.hh: the three state machines
  over a format string that the compiler runs for every log message.  \<open>formatstring_count\<close> counts the
  specifiers, \<open>formatstring_type_list\<close> computes the types and the size of the stored arguments, and
  \<open>check_formatstring_helper\<close> compares the specifiers with the types of the actual arguments.

  A format string is a character array that ends with a null character, which the loops visit too.
\<close>

subsection \<open>Type identifiers\<close>

datatype type_identifier = T_bool | T_int8 | T_int16 | T_int32 | T_int64 | T_uint8 | T_uint16
  | T_uint32 | T_uint64 | T_float | T_double | T_longdouble | T_string | T_err | T_state | T_guid
  | T_ipv6_addr | T_ipv6_port | T_ipv6_socket_addr | T_filepath | T_stdstring | T_module
  | T_logger_level | T_bad_type | T_the_end

fun type_length :: "type_identifier \<Rightarrow> nat" where
  "type_length T_bool = 1"
| "type_length T_int8 = 1"
| "type_length T_int16 = 2"
| "type_length T_int32 = 4"
| "type_length T_int64 = 8"
| "type_length T_uint8 = 1"
| "type_length T_uint16 = 2"
| "type_length T_uint32 = 4"
| "type_length T_uint64 = 8"
| "type_length T_float = 4"
| "type_length T_double = 8"
| "type_length T_longdouble = 16"
| "type_length T_string = 8"
| "type_length T_err = 2"
| "type_length T_state = 2"
| "type_length T_guid = 16"
| "type_length T_ipv6_addr = 16"
| "type_length T_ipv6_port = 2"
| "type_length T_ipv6_socket_addr = 18"
| "type_length T_filepath = 40"
| "type_length T_stdstring = 32"
| "type_length T_module = 4"
| "type_length T_logger_level = 1"
| "type_length T_bad_type = 0"
| "type_length T_the_end = 0"

definition sizeofvaradic :: "type_identifier list \<Rightarrow> nat" where
  "sizeofvaradic ts = sum_list (map type_length ts)"

subsection \<open>formatstring\_count\<close>

datatype formatstring_state = FS_COPY | FS_SPECIFIER | FS_SPECIFIER_CUSTOM

datatype formatstring_modifier = FM_NONE | FM_h | FM_hh | FM_l | FM_ll | FM_L

fun count_step :: "formatstring_state \<times> nat \<Rightarrow> char \<Rightarrow> formatstring_state \<times> nat" where
  "count_step (FS_COPY, count) c = (if c = CHR ''%'' then (FS_SPECIFIER, count) else (FS_COPY, count))"
| "count_step (FS_SPECIFIER, count) c =
     (if c = CHR ''%'' then (FS_COPY, count)
      else if c \<in> set ''cdiuoxXfF'' then (FS_COPY, count + 1)
      else if c = CHR ''v'' then (FS_SPECIFIER_CUSTOM, count)
      else (FS_SPECIFIER, count))"
| "count_step (FS_SPECIFIER_CUSTOM, count) c =
     (if c \<in> set ''nNiIpeEgGvscml'' then (FS_COPY, count + 1) else (FS_SPECIFIER_CUSTOM, count))"

definition formatstring_count :: "string \<Rightarrow> nat" where
  "formatstring_count fmtstr = snd (foldl count_step (FS_COPY, 0) (fmtstr @ [NUL]))"

subsection \<open>formatstring\_type\_list\<close>

text \<open>The type a specifier stands for under a modifier; \<open>None\<close> is the default of the inner switch.\<close>

fun char_type :: "formatstring_modifier \<Rightarrow> type_identifier option" where
  "char_type FM_NONE = Some T_int8"
| "char_type FM_l = Some T_uint16"
| "char_type _ = None"

fun signed_type :: "formatstring_modifier \<Rightarrow> type_identifier option" where
  "signed_type FM_NONE = Some T_int32"
| "signed_type FM_h = Some T_int16"
| "signed_type FM_hh = Some T_int8"
| "signed_type FM_l = Some T_int64"
| "signed_type FM_ll = Some T_int64"
| "signed_type FM_L = None"

fun unsigned_type :: "formatstring_modifier \<Rightarrow> type_identifier option" where
  "unsigned_type FM_NONE = Some T_uint32"
| "unsigned_type FM_h = Some T_uint16"
| "unsigned_type FM_hh = Some T_uint8"
| "unsigned_type FM_l = Some T_uint64"
| "unsigned_type FM_ll = Some T_uint64"
| "unsigned_type FM_L = None"

fun float_type :: "formatstring_modifier \<Rightarrow> type_identifier option" where
  "float_type FM_h = Some T_float"
| "float_type FM_NONE = Some T_double"
| "float_type FM_L = Some T_longdouble"
| "float_type _ = None"

definition custom_type :: "char \<Rightarrow> type_identifier option" where
  "custom_type c =
     (if c \<in> set ''nN'' then Some T_ipv6_socket_addr
      else if c \<in> set ''iI'' then Some T_ipv6_addr
      else if c = CHR ''p'' then Some T_ipv6_port
      else if c = CHR ''e'' then Some T_int32
      else if c = CHR ''E'' then Some T_err
      else if c \<in> set ''gG'' then Some T_guid
      else if c = CHR ''v'' then Some T_uint32
      else if c = CHR ''s'' then Some T_state
      else if c = CHR ''c'' then Some T_int32
      else if c = CHR ''m'' then Some T_module
      else if c = CHR ''l'' then Some T_logger_level
      else None)"

definition pushed_type :: "type_identifier option \<Rightarrow> type_identifier list" where
  "pushed_type t = (case t of None \<Rightarrow> [] | Some ty \<Rightarrow> [ty])"

text \<open>One character: the next state and modifier, and what is appended to \<open>type_list\<close>.\<close>

definition type_list_specifier ::
    "char \<Rightarrow> formatstring_modifier \<Rightarrow> formatstring_state \<times> formatstring_modifier \<times> type_identifier list" where
  "type_list_specifier c modifier =
     (if c = CHR ''%'' then (FS_COPY, modifier, [])
      else if c = CHR ''c'' then (FS_COPY, modifier, pushed_type (char_type modifier))
      else if c \<in> set ''di'' then (FS_COPY, modifier, pushed_type (signed_type modifier))
      else if c \<in> set ''uoxX'' then (FS_COPY, modifier, pushed_type (unsigned_type modifier))
      else if c \<in> set ''fF'' then
        (FS_COPY, modifier, [case float_type modifier of None \<Rightarrow> T_bad_type | Some t \<Rightarrow> t])
      else if c = CHR ''v'' then
        (if modifier \<noteq> FM_NONE then (FS_SPECIFIER, modifier, [T_bad_type])
         else (FS_SPECIFIER_CUSTOM, modifier, []))
      else if c = CHR ''h'' then
        (if modifier \<noteq> FM_NONE \<and> modifier \<noteq> FM_h then (FS_SPECIFIER, modifier, [T_bad_type])
         else (FS_SPECIFIER, if modifier = FM_h then FM_hh else FM_h, []))
      else if c = CHR ''l'' then
        (if modifier \<noteq> FM_NONE \<and> modifier \<noteq> FM_l then (FS_SPECIFIER, modifier, [T_bad_type])
         else (FS_SPECIFIER, if modifier = FM_l then FM_ll else FM_l, []))
      else (FS_SPECIFIER, modifier, [T_bad_type]))"

fun type_list_step ::
    "formatstring_state \<Rightarrow> formatstring_modifier \<Rightarrow> char \<Rightarrow>
     formatstring_state \<times> formatstring_modifier \<times> type_identifier list" where
  "type_list_step FS_COPY modifier c =
     (if c = CHR ''%'' then (FS_SPECIFIER, FM_NONE, []) else (FS_COPY, modifier, []))"
| "type_list_step FS_SPECIFIER modifier c = type_list_specifier c modifier"
| "type_list_step FS_SPECIFIER_CUSTOM modifier c =
     (FS_COPY, modifier, [case custom_type c of None \<Rightarrow> T_bad_type | Some t \<Rightarrow> t])"

text \<open>The loop: the last state, the types appended and the sum of their lengths.\<close>

fun type_list_run ::
    "formatstring_state \<Rightarrow> formatstring_modifier \<Rightarrow> string \<Rightarrow>
     formatstring_state \<times> type_identifier list \<times> nat" where
  "type_list_run state modifier [] = (state, [], 0)"
| "type_list_run state modifier (c # fmtstr) =
     (let (state', modifier', types) = type_list_step state modifier c;
          (last_state, rest, len) = type_list_run state' modifier' fmtstr
      in (last_state, types @ rest, sum_list (map type_length types) + len))"

text \<open>
  The constructor for an array of \<open>COUNT\<close> elements; writing past its end is no constant expression,
  so the program does not compile (\<open>None\<close>).  Elements never written are zero, which is \<open>bool_t\<close>.
\<close>

definition formatstring_type_list :: "nat \<Rightarrow> string \<Rightarrow> (type_identifier list \<times> nat) option" where
  "formatstring_type_list COUNT fmtstr =
     (if COUNT = 0 then Some ([], 0)
      else let (state, types, len) = type_list_run FS_COPY FM_NONE (fmtstr @ [NUL]);
               types = (if state \<noteq> FS_COPY then types @ [T_bad_type] else types)
           in if length types \<le> COUNT then Some (types @ replicate (COUNT - length types) T_bool, len)
              else None)"

definition type_list_check :: "type_identifier list \<Rightarrow> bool" where
  "type_list_check type_list = list_all (\<lambda>t. t \<noteq> T_bad_type) type_list"

definition SIZE_MAX :: nat where
  "SIZE_MAX = 2 ^ 64 - 1"

text \<open>The first index where the list and the argument types differ.\<close>

fun check_args_internal :: "nat \<Rightarrow> type_identifier list \<Rightarrow> type_identifier list \<Rightarrow> nat" where
  "check_args_internal index (t # fmt_list) (a # args) =
     (if t \<noteq> a then index else check_args_internal (index + 1) fmt_list args)"
| "check_args_internal index fmt_list args = SIZE_MAX"

definition check_formatstring_args :: "type_identifier list \<Rightarrow> type_identifier list \<Rightarrow> nat" where
  "check_formatstring_args fmt_list args =
     (if length fmt_list \<noteq> length args then 0
      else if args \<noteq> [] then check_args_internal 0 fmt_list args
      else SIZE_MAX)"

subsection \<open>check\_formatstring\_helper\<close>

definition check_success :: nat where
  "check_success = 0"

definition check_args_error :: nat where
  "check_args_error = 0x10000"

definition check_fmtstr_error :: nat where
  "check_fmtstr_error = 0x20000"

text \<open>
  A specifier against the type of the next argument: an error, or the next state and modifier and
  whether the argument is used up.
\<close>

definition check_arg ::
    "type_identifier option \<Rightarrow> type_identifier \<Rightarrow> nat + formatstring_state \<times> formatstring_modifier \<times> bool" where
  "check_arg expected t =
     (case expected of
        None \<Rightarrow> Inl check_fmtstr_error
      | Some ty \<Rightarrow> if t \<noteq> ty then Inl check_args_error else Inr (FS_COPY, FM_NONE, True))"

definition check_specifier ::
    "char \<Rightarrow> formatstring_modifier \<Rightarrow> type_identifier \<Rightarrow>
     nat + formatstring_state \<times> formatstring_modifier \<times> bool" where
  "check_specifier c modifier t =
     (if c = CHR ''%'' then
        (if modifier \<noteq> FM_NONE then Inl check_fmtstr_error else Inr (FS_COPY, modifier, False))
      else if c = CHR ''c'' then check_arg (char_type modifier) t
      else if c \<in> set ''di'' then check_arg (signed_type modifier) t
      else if c \<in> set ''uoxX'' then check_arg (unsigned_type modifier) t
      else if c \<in> set ''fF'' then check_arg (float_type modifier) t
      else if c = CHR ''v'' then
        (if modifier \<noteq> FM_NONE then Inl check_fmtstr_error else Inr (FS_SPECIFIER_CUSTOM, modifier, False))
      else if c = CHR ''h'' then
        (if modifier = FM_NONE then Inr (FS_SPECIFIER, FM_h, False)
         else if modifier = FM_h then Inr (FS_SPECIFIER, FM_hh, False)
         else Inl check_fmtstr_error)
      else if c = CHR ''l'' then
        (if modifier = FM_NONE then Inr (FS_SPECIFIER, FM_l, False)
         else if modifier = FM_l then Inr (FS_SPECIFIER, FM_ll, False)
         else Inl check_fmtstr_error)
      else if c = CHR ''L'' then
        (if modifier = FM_NONE then Inr (FS_SPECIFIER, FM_L, False) else Inl check_fmtstr_error)
      else Inl check_fmtstr_error)"

text \<open>
  The loop, over the types of the remaining arguments; in \<open>SPECIFIER_CUSTOM\<close> there is one, or the
  iterator would be read at its end (no constant expression, an error of its own).
\<close>

fun check_loop ::
    "type_identifier list \<Rightarrow> formatstring_state \<Rightarrow> formatstring_modifier \<Rightarrow> nat \<Rightarrow> string \<Rightarrow> nat option" where
  "check_loop types state modifier count [] = Some check_success"
| "check_loop types FS_COPY modifier count (c # fmtstr) =
     (if c = CHR ''%'' then check_loop types FS_SPECIFIER FM_NONE count fmtstr
      else check_loop types FS_COPY modifier count fmtstr)"
| "check_loop types FS_SPECIFIER modifier count (c # fmtstr) =
     (case types of
        [] \<Rightarrow> Some (check_args_error + count)
      | t # rest \<Rightarrow>
          (case check_specifier c modifier t of
             Inl e \<Rightarrow> Some (e + count)
           | Inr (state', modifier', used) \<Rightarrow>
               if used then check_loop rest state' modifier' (count + 1) fmtstr
               else check_loop types state' modifier' count fmtstr))"
| "check_loop types FS_SPECIFIER_CUSTOM modifier count (c # fmtstr) =
     (case types of
        [] \<Rightarrow> None
      | t # rest \<Rightarrow>
          (case custom_type c of
             None \<Rightarrow> Some (check_fmtstr_error + count)
           | Some ty \<Rightarrow>
               if t \<noteq> ty then Some (check_args_error + count)
               else check_loop rest FS_COPY modifier (count + 1) fmtstr))"

definition check_formatstring_helper :: "type_identifier list \<Rightarrow> string \<Rightarrow> nat option" where
  "check_formatstring_helper types fmtstr = check_loop types FS_COPY FM_NONE 0 (fmtstr @ [NUL])"

text \<open>The static assertions over the result.\<close>

definition check_formatstring_assert :: "type_identifier list \<Rightarrow> string \<Rightarrow> bool" where
  "check_formatstring_assert types fmtstr =
     (case check_formatstring_helper types fmtstr of
        None \<Rightarrow> False
      | Some ret \<Rightarrow>
          list_all (\<lambda>i. ret \<noteq> check_args_error + i) [0..<16] \<and>
          (ret \<le> check_args_error + 15 \<or> check_fmtstr_error \<le> ret) \<and>
          list_all (\<lambda>i. ret \<noteq> check_fmtstr_error + i) [0..<16] \<and>
          ret \<le> check_fmtstr_error + 15)"

subsection \<open>The checks agree\<close>

lemma check_loop_result:
  "check_loop ts st m n s = Some r \<Longrightarrow> r = check_success \<or> check_args_error \<le> r"
proof (induction ts st m n s rule: check_loop.induct)
  case (3 types modifier count c fmtstr)
  show ?case
  proof (cases types)
    case (Cons t rest)
    show ?thesis
    proof (cases "check_specifier c modifier t")
      case (Inl e)
      then have "e \<in> {check_args_error, check_fmtstr_error}"
        by (auto simp: check_specifier_def check_arg_def split: if_splits option.splits)
      then show ?thesis using 3(3) Cons Inl by (auto simp: check_args_error_def check_fmtstr_error_def)
    next
      case (Inr x)
      obtain st' m' used where x: "x = (st', m', used)" by (cases x)
      show ?thesis using 3 Cons Inr x by (cases used) simp_all
    qed
  qed (use 3(3) in simp)
next
  case (4 types modifier count c fmtstr)
  then show ?case
    by (auto simp: check_args_error_def check_fmtstr_error_def split: list.splits option.splits if_splits)
qed (simp_all split: if_splits)

lemma check_formatstring_assert_iff:
  "check_formatstring_assert types fmtstr \<longleftrightarrow> check_formatstring_helper types fmtstr = Some check_success"
proof
  assume a: "check_formatstring_assert types fmtstr"
  then obtain r where r: "check_formatstring_helper types fmtstr = Some r"
    by (auto simp: check_formatstring_assert_def split: option.splits)
  with a have "\<not> (check_args_error \<le> r \<and> r < check_args_error + 16)"
    "r \<le> check_args_error + 15 \<or> check_fmtstr_error \<le> r" "r \<le> check_fmtstr_error + 15"
    "\<not> (check_fmtstr_error \<le> r \<and> r < check_fmtstr_error + 16)"
    by (auto simp: check_formatstring_assert_def list_all_iff le_iff_add)
  then have "r < check_args_error" by linarith
  with check_loop_result [of types FS_COPY FM_NONE 0 "fmtstr @ [NUL]" r] r
  show "check_formatstring_helper types fmtstr = Some check_success"
    by (simp add: check_formatstring_helper_def)
qed (simp add: check_formatstring_assert_def list_all_iff check_success_def check_args_error_def check_fmtstr_error_def)

lemma specifier_agrees:
  assumes "check_specifier c m t = Inr (st, m', used)" "type_list_specifier c m = (st', m'', ps)"
    "T_bad_type \<notin> set ps"
  shows "st' = st \<and> ps = (if used then [t] else []) \<and> (st = FS_SPECIFIER \<longrightarrow> m'' = m')"
  using assms
  by (auto simp: check_specifier_def type_list_specifier_def check_arg_def pushed_type_def
      split: if_splits option.splits)

lemma type_list_run_len: "type_list_run st m s = (st', ps, len) \<Longrightarrow> len = sizeofvaradic ps"
  by (induction s arbitrary: st m ps len)
    (fastforce simp: sizeofvaradic_def split: prod.splits)+

lemma count_agrees:
  assumes "check_specifier c m t = Inr (st, m', used)"
  shows "count_step (FS_SPECIFIER, k) c = (st, if used then k + 1 else k)"
  using assms
  by (auto simp: check_specifier_def check_arg_def split: if_splits option.splits)

lemma count_custom:
  assumes "custom_type c = Some t"
  shows "count_step (FS_SPECIFIER_CUSTOM, k) c = (FS_COPY, k + 1)"
  using assms by (auto simp: custom_type_def split: if_splits)

lemma check_loop_types:
  "check_loop ts st m n s = Some check_success \<Longrightarrow> (st = FS_SPECIFIER \<longrightarrow> m' = m) \<Longrightarrow>
   type_list_run st m' s = (st', ps, len) \<Longrightarrow> T_bad_type \<notin> set ps \<Longrightarrow>
   ps = take (length ps) ts \<and> snd (foldl count_step (st, n) s) = n + length ps"
proof (induction s arbitrary: ts st m m' n st' ps len)
  case (Cons c s)
  obtain st1 m1 qs where step: "type_list_step st m' c = (st1, m1, qs)" by (cases "type_list_step st m' c")
  obtain st2 rs len2 where run: "type_list_run st1 m1 s = (st2, rs, len2)" by (cases "type_list_run st1 m1 s")
  have ps: "ps = qs @ rs" using Cons.prems(3) step run by simp
  then have no_bad: "T_bad_type \<notin> set qs" "T_bad_type \<notin> set rs" using Cons.prems(4) by simp_all
  note IH = Cons.IH [OF _ _ run no_bad(2)]
  show ?case
  proof (cases st)
    case FS_COPY
    then show ?thesis
      using Cons.prems(1) step ps IH [of ts FM_NONE n] IH [of ts m n] by (auto split: if_splits)
  next
    case FS_SPECIFIER
    then obtain t rest where ts: "ts = t # rest"
      using Cons.prems(1) by (cases ts) (simp_all add: check_args_error_def check_success_def)
    obtain st3 m3 used where spec: "check_specifier c m t = Inr (st3, m3, used)"
    proof (cases "check_specifier c m t")
      case (Inl e)
      then have "e \<in> {check_args_error, check_fmtstr_error}"
        by (auto simp: check_specifier_def check_arg_def split: if_splits option.splits)
      then show ?thesis
        using Cons.prems(1) FS_SPECIFIER ts Inl
        by (auto simp: check_args_error_def check_fmtstr_error_def check_success_def)
    qed (metis prod_cases3 that)
    have agree: "st1 = st3 \<and> qs = (if used then [t] else []) \<and> (st3 = FS_SPECIFIER \<longrightarrow> m1 = m3)"
      using specifier_agrees [OF spec _ no_bad(1)] step FS_SPECIFIER Cons.prems(2) by simp
    show ?thesis
      using Cons.prems(1) FS_SPECIFIER ts spec agree ps
        IH [of rest m3 "n + 1"] IH [of ts m3 n] count_agrees [OF spec, of n] by (cases used) simp_all
  next
    case FS_SPECIFIER_CUSTOM
    then obtain t rest where ts: "ts = t # rest" using Cons.prems(1) by (cases ts) simp_all
    have "custom_type c = Some t" "check_loop rest FS_COPY m (n + 1) s = Some check_success"
      using Cons.prems(1) FS_SPECIFIER_CUSTOM ts
      by (auto simp: check_args_error_def check_fmtstr_error_def check_success_def split: option.splits if_splits)
    then show ?thesis
      using step FS_SPECIFIER_CUSTOM ps ts IH [of rest m "n + 1"] count_custom [of c t n] by auto
  qed
qed simp

text \<open>
  C25: a log message that compiles is described exactly.  When the format string passes the check
  against the types of the arguments, the counted specifiers are as many as the arguments and the
  constructed type list has no bad type, then the type list is the list of the argument types and its
  length the number of bytes that the arguments occupy.
\<close>

theorem format_checks_agree:
  assumes "check_formatstring_assert types fmtstr" "formatstring_count fmtstr = length types"
    "formatstring_type_list (length types) fmtstr = Some (type_list, len)" "type_list_check type_list"
  shows "type_list = types \<and> len = sizeofvaradic types"
proof (cases "types = []")
  case True
  then show ?thesis using assms(3) by (simp add: formatstring_type_list_def sizeofvaradic_def)
next
  case False
  obtain st ps n where run: "type_list_run FS_COPY FM_NONE (fmtstr @ [NUL]) = (st, ps, n)"
    by (cases "type_list_run FS_COPY FM_NONE (fmtstr @ [NUL])")
  let ?ps = "if st \<noteq> FS_COPY then ps @ [T_bad_type] else ps"
  have list: "type_list = ?ps @ replicate (length types - length ?ps) T_bool" "len = n"
    using assms(3) False run
    by (auto simp: formatstring_type_list_def Let_def simp del: replicate.simps split: if_splits)
  then have "set ?ps \<subseteq> set type_list" by (simp del: if_split)
  then have no_bad: "T_bad_type \<notin> set ps" "st = FS_COPY"
    using assms(4) by (auto simp: type_list_check_def list_all_iff split: if_splits)
  have "ps = take (length ps) types \<and> snd (foldl count_step (FS_COPY, 0) (fmtstr @ [NUL])) = 0 + length ps"
    by (rule check_loop_types [OF _ _ run no_bad(1)])
      (use assms(1) in \<open>simp_all add: check_formatstring_assert_iff check_formatstring_helper_def\<close>)
  then have "ps = types" using assms(2) by (simp add: formatstring_count_def)
  then show ?thesis using list no_bad(2) type_list_run_len [OF run] by simp
qed

theorem format_checks_agree_witness:
  "formatstring_type_list 2 ''FD %i: closed with %vE'' = Some ([T_int32, T_err], 6) \<and>
   sizeofvaradic [T_int32, T_err] = 6"
proof -
  have tl: "formatstring_type_list (length [T_int32, T_err]) ''FD %i: closed with %vE'' =
      Some ([T_int32, T_err], 6)" by code_simp
  moreover have "check_formatstring_assert [T_int32, T_err] ''FD %i: closed with %vE''"
    unfolding check_formatstring_assert_iff by code_simp
  moreover have "formatstring_count ''FD %i: closed with %vE'' = length [T_int32, T_err]" by code_simp
  moreover have "type_list_check [T_int32, T_err]" by (simp add: type_list_check_def)
  ultimately show ?thesis using format_checks_agree [of "[T_int32, T_err]"] by (simp add: numeral_2_eq_2)
qed

end
