(* ===== verification/LogText.thy ===== *)
theory LogText
  imports FormatStr Guid Ipv6 Errors States
begin

text \<open>
  The second part of serverlib/lib/log.cc: \<open>createLogsString\<close> and its helpers, which print a stored
  log entry.  A third state machine walks over the format string and takes the arguments, one after
  the other, from the bytes behind the entry; these are exactly \<open>get_log_length\<close> bytes of heap memory.

  What the C library and OpenSSL print (times, error texts, floating point numbers) is a parameter.
\<close>

subsection \<open>Results\<close>

datatype read_fault = Overread | Undefined

text \<open>\<open>Overread\<close>: arguments are read past their end; \<open>Undefined\<close>: another undefined operation.\<close>

type_synonym 'a reading = "read_fault + 'a"

definition andthen :: "'a reading \<Rightarrow> ('a \<Rightarrow> 'b reading) \<Rightarrow> 'b reading" where
  "andthen r f = (case r of Inl e \<Rightarrow> Inl e | Inr x \<Rightarrow> f x)"

definition or_undefined :: "'a option \<Rightarrow> 'a reading" where
  "or_undefined x = (case x of None \<Rightarrow> Inl Undefined | Some y \<Rightarrow> Inr y)"

record log_env =
  le_time :: "u64 \<Rightarrow> string"
  le_strerror :: "int \<Rightarrow> string"
  le_ssl_error :: "int \<Rightarrow> string"
  le_float :: "u8 list \<Rightarrow> string"

text \<open>\<open>*(T *)data_args\<close> with the pointer moved by \<open>sizeof(T)\<close>: the bytes and the rest.\<close>

definition take_arg :: "nat \<Rightarrow> u8 list \<Rightarrow> (u8 list \<times> u8 list) reading" where
  "take_arg n args = (if n \<le> length args then Inr (take n args, drop n args) else Inl Overread)"

definition le_word :: "u8 list \<Rightarrow> 'a::len word" where
  "le_word bs = foldr (\<lambda>b acc. acc * 256 + ucast b) bs 0"

subsection \<open>Helpers\<close>

text \<open>The text of an argument of \<open>n\<close> bytes and the bytes behind it.\<close>

type_synonym printed = "(string \<times> u8 list) reading"

definition print_arg :: "nat \<Rightarrow> (u8 list \<Rightarrow> string option) \<Rightarrow> u8 list \<Rightarrow> printed" where
  "print_arg n render args =
     andthen (take_arg n args) (\<lambda>(bs, rest). andthen (or_undefined (render bs)) (\<lambda>s. Inr (s, rest)))"

definition signed_text :: "nat \<Rightarrow> u8 list \<Rightarrow> string option" where
  "signed_text n bs =
     (if n = 1 then to_string_int False (le_word bs :: u8)
      else if n = 2 then to_string_int False (le_word bs :: u16)
      else if n = 4 then to_string_int False (le_word bs :: u32)
      else to_string_int False (le_word bs :: u64))"

definition integerToStringHelper_signed :: "nat \<Rightarrow> u8 list \<Rightarrow> printed" where
  "integerToStringHelper_signed n = print_arg n (signed_text n)"

definition integerToStringHelper :: "nat \<Rightarrow> number_case \<Rightarrow> nat \<Rightarrow> u8 list \<Rightarrow> printed" where
  "integerToStringHelper radix nc n =
     print_arg n (\<lambda>bs. Some (to_string_uint radix nc False (le_word bs :: u64)))"

definition floatToStringHelper :: "log_env \<Rightarrow> nat \<Rightarrow> u8 list \<Rightarrow> printed" where
  "floatToStringHelper env n = print_arg n (\<lambda>bs. Some (le_float env bs))"

text \<open>An address in memory: eight 16-bit groups; a port follows in a socket address.\<close>

definition addr_at :: "u8 list \<Rightarrow> ipv6_addr" where
  "addr_at bs = map (\<lambda>i. of_le16 (drop (2 * i) bs)) [0..<8]"

definition ipv6_socket_helper :: "number_case \<Rightarrow> u8 list \<Rightarrow> printed" where
  "ipv6_socket_helper nc =
     print_arg 18 (\<lambda>bs. ipv6_socket_to_string nc False
       \<lparr>sa_addr = addr_at bs, sa_port = \<lparr>port_value = of_le16 (drop 16 bs)\<rparr>\<rparr>)"

definition ipv6_addr_helper :: "number_case \<Rightarrow> u8 list \<Rightarrow> printed" where
  "ipv6_addr_helper nc = print_arg 16 (\<lambda>bs. ipv6_to_string nc False (addr_at bs))"

definition ipv6_port_helper :: "u8 list \<Rightarrow> printed" where
  "ipv6_port_helper =
     print_arg 2 (\<lambda>bs. Some (to_string_uint 10 lower False (port_to_uint16 \<lparr>port_value = of_le16 bs\<rparr>)))"

definition errno_helper :: "log_env \<Rightarrow> u8 list \<Rightarrow> printed" where
  "errno_helper env =
     print_arg 4 (\<lambda>bs. let errnum = (le_word bs :: u32) in
       map_option (\<lambda>s. ''('' @ s @ '','' @ le_strerror env (sint errnum) @ '')'') (to_string_int False errnum))"

definition err_t_helper :: "u8 list \<Rightarrow> printed" where
  "err_t_helper = print_arg 2 (\<lambda>bs. map_option (err_to_string False) (load err_t_list (unat (of_le16 bs))))"

definition guid_helper :: "number_case \<Rightarrow> u8 list \<Rightarrow> printed" where
  "guid_helper nc = print_arg 16 (\<lambda>bs. Some (guid_to_string nc False bs))"

text \<open>A value that is no state is printed as the first one.\<close>

definition state_helper :: "u8 list \<Rightarrow> printed" where
  "state_helper =
     print_arg 2 (\<lambda>bs. let v = unat (of_le16 bs) in
       Some (state_to_string False
         (fst (state_entry_list ! (if v < length state_entry_list then v else 0)))))"

definition ssl_error_helper :: "log_env \<Rightarrow> u8 list \<Rightarrow> printed" where
  "ssl_error_helper env = print_arg 4 (\<lambda>bs. Some (le_ssl_error env (sint (le_word bs :: u32))))"

definition module_helper :: "u8 list \<Rightarrow> printed" where
  "module_helper = print_arg 4 (\<lambda>bs. Some (module_to_string False (le_word bs)))"

definition logger_level_helper :: "u8 list \<Rightarrow> printed" where
  "logger_level_helper = print_arg 1 (\<lambda>bs. Some (logger_level_to_string False (le_word bs)))"

definition evt_contains :: "u32 \<Rightarrow> u32 \<Rightarrow> bool" where
  "evt_contains event check_event \<longleftrightarrow> event AND check_event = check_event"

definition epoll_names :: "(u32 \<times> string) list" where
  "epoll_names =
    [(0x001, '' EPOLLIN''), (0x002, '' EPOLLPRI''), (0x004, '' EPOLLOUT''), (0x040, '' EPOLLRDNORM''),
     (0x080, '' EPOLLRDBAND''), (0x100, '' EPOLLWRNORM''), (0x200, '' EPOLLWRBAND''), (0x400, '' EPOLLMSG''),
     (0x008, '' EPOLLERR''), (0x010, '' EPOLLHUP''), (0x2000, '' EPOLLRDHUP''),
     (0x10000000, '' EPOLLEXCLUSIVE''), (0x20000000, '' EPOLLWAKEUP''), (0x40000000, '' EPOLLONESHOT''),
     (0x80000000, '' EPOLLET'')]"

definition epoll_event_helper :: "u8 list \<Rightarrow> printed" where
  "epoll_event_helper =
     print_arg 4 (\<lambda>bs. let event = (le_word bs :: u32) in
       map_option (\<lambda>s. ''('' @ s @ '','' @
         concat (map (\<lambda>(e, name). if evt_contains event e then name else []) epoll_names) @ '')'')
         (to_string_int False event))"

subsection \<open>createLogsString\<close>

fun integer_size :: "formatstring_modifier \<Rightarrow> nat" where
  "integer_size FM_NONE = 4"
| "integer_size FM_h = 2"
| "integer_size FM_hh = 1"
| "integer_size FM_l = 8"
| "integer_size FM_ll = 8"
| "integer_size FM_L = 0"

text \<open>The state behind a printed argument; with \<open>L\<close> an integer specifier prints nothing.\<close>

type_synonym read_state = "formatstring_state \<times> formatstring_modifier \<times> string \<times> u8 list"

definition printed_to :: "formatstring_state \<Rightarrow> formatstring_modifier \<Rightarrow> printed \<Rightarrow> read_state reading" where
  "printed_to state modifier p = andthen p (\<lambda>(s, rest). Inr (state, modifier, s, rest))"

definition read_specifier ::
    "log_env \<Rightarrow> char \<Rightarrow> formatstring_modifier \<Rightarrow> u8 list \<Rightarrow> read_state reading" where
  "read_specifier env c modifier args =
     (let n = integer_size modifier;
          integer = (\<lambda>print. if n = 0 then Inr (FS_COPY, modifier, [], args)
                             else printed_to FS_COPY modifier (print n args)) in
      if c = CHR ''%'' then Inr (FS_COPY, modifier, [c], args)
      else if c \<in> set ''di'' then integer integerToStringHelper_signed
      else if c = CHR ''u'' then integer (integerToStringHelper 10 lower)
      else if c = CHR ''o'' then integer (integerToStringHelper 8 lower)
      else if c = CHR ''x'' then integer (integerToStringHelper 16 lower)
      else if c = CHR ''X'' then integer (integerToStringHelper 16 upper)
      else if c = CHR ''f'' then
        printed_to FS_COPY modifier (floatToStringHelper env (if modifier = FM_l then 8 else 4) args)
      else if c = CHR ''c'' then
        printed_to FS_SPECIFIER modifier (print_arg 1 (\<lambda>bs. Some (chars_of bs)) args)
      else if c = CHR ''v'' then Inr (FS_SPECIFIER_CUSTOM, modifier, [], args)
      else if c = CHR ''h'' then Inr (FS_SPECIFIER, if modifier = FM_h then FM_hh else FM_h, [], args)
      else if c = CHR ''l'' then Inr (FS_SPECIFIER, if modifier = FM_l then FM_ll else FM_l, [], args)
      else Inr (FS_COPY, modifier, [], args))"

definition read_custom :: "log_env \<Rightarrow> char \<Rightarrow> u8 list \<Rightarrow> printed" where
  "read_custom env c args =
     (if c = CHR ''n'' then ipv6_socket_helper lower args
      else if c = CHR ''N'' then ipv6_socket_helper upper args
      else if c = CHR ''i'' then ipv6_addr_helper lower args
      else if c = CHR ''I'' then ipv6_addr_helper upper args
      else if c = CHR ''p'' then ipv6_port_helper args
      else if c = CHR ''e'' then errno_helper env args
      else if c = CHR ''E'' then err_t_helper args
      else if c = CHR ''g'' then guid_helper lower args
      else if c = CHR ''G'' then guid_helper upper args
      else if c = CHR ''v'' then epoll_event_helper args
      else if c = CHR ''s'' then state_helper args
      else if c = CHR ''c'' then ssl_error_helper env args
      else if c = CHR ''m'' then module_helper args
      else if c = CHR ''l'' then logger_level_helper args
      else Inr (''Unknown message, client may required to be upgraded'', args))"

fun read_step ::
    "log_env \<Rightarrow> formatstring_state \<Rightarrow> formatstring_modifier \<Rightarrow> char \<Rightarrow> u8 list \<Rightarrow> read_state reading" where
  "read_step env FS_COPY modifier c args =
     (if c = CHR ''%'' then Inr (FS_SPECIFIER, FM_NONE, [], args) else Inr (FS_COPY, modifier, [c], args))"
| "read_step env FS_SPECIFIER modifier c args = read_specifier env c modifier args"
| "read_step env FS_SPECIFIER_CUSTOM modifier c args = printed_to FS_COPY modifier (read_custom env c args)"

text \<open>The loop up to the end of the description: the text and the bytes left.\<close>

fun read_loop ::
    "log_env \<Rightarrow> formatstring_state \<Rightarrow> formatstring_modifier \<Rightarrow> string \<Rightarrow> u8 list \<Rightarrow> printed" where
  "read_loop env state modifier [] args = Inr ([], args)"
| "read_loop env state modifier (c # desc) args =
     andthen (read_step env state modifier c args) (\<lambda>(state', modifier', out, args').
       andthen (read_loop env state' modifier' desc args') (\<lambda>(text, rest). Inr (out @ text, rest)))"

definition level_text :: "log_entry \<Rightarrow> string" where
  "level_text e = logger_level_to_string False (level_value (log_level e))"

definition createLogsString :: "log_env \<Rightarrow> u64 \<Rightarrow> u16 \<Rightarrow> u8 list \<Rightarrow> printed" where
  "createLogsString env timestamp log_id args =
     andthen (read_loop env FS_COPY FM_NONE (get_log_description log_id) args) (\<lambda>(text, rest).
       Inr (le_time env timestamp @ '':'' @ level_text (get_log_entry log_id) @ '':'' @
            get_log_id_string log_id @ '':'' @ text, rest))"

text \<open>\<open>log_description<ID>::length\<close> and \<open>type_list\<close>; \<open>None\<close> if it does not compile.\<close>

definition log_type_list :: "log_entry \<Rightarrow> (type_identifier list \<times> nat) option" where
  "log_type_list e = formatstring_type_list (formatstring_count (log_text e)) (log_text e)"

definition get_log_length :: "u16 \<Rightarrow> nat" where
  "get_log_length log_id =
     (case log_type_list (get_log_entry log_id) of None \<Rightarrow> 0 | Some (types, len) \<Rightarrow> len)"

subsection \<open>The arguments are taken exactly\<close>

text \<open>The bytes the reader takes at one character, and its next state.\<close>

definition specifier_size :: "formatstring_modifier \<Rightarrow> char \<Rightarrow> nat" where
  "specifier_size m c =
     (if c \<in> set ''diuoxX'' then integer_size m
      else if c = CHR ''f'' then (if m = FM_l then 8 else 4)
      else if c = CHR ''c'' then 1
      else 0)"

definition specifier_next ::
    "formatstring_modifier \<Rightarrow> char \<Rightarrow> formatstring_state \<times> formatstring_modifier" where
  "specifier_next m c =
     (if c = CHR ''c'' then (FS_SPECIFIER, m)
      else if c = CHR ''v'' then (FS_SPECIFIER_CUSTOM, m)
      else if c = CHR ''h'' then (FS_SPECIFIER, if m = FM_h then FM_hh else FM_h)
      else if c = CHR ''l'' then (FS_SPECIFIER, if m = FM_l then FM_ll else FM_l)
      else (FS_COPY, m))"

definition custom_size :: "char \<Rightarrow> nat" where
  "custom_size c = (case custom_type c of None \<Rightarrow> 0 | Some t \<Rightarrow> type_length t)"

fun taken :: "formatstring_state \<Rightarrow> formatstring_modifier \<Rightarrow> string \<Rightarrow> nat" where
  "taken st m [] = 0"
| "taken FS_COPY m (c # s) = (if c = CHR ''%'' then taken FS_SPECIFIER FM_NONE s else taken FS_COPY m s)"
| "taken FS_SPECIFIER m (c # s) =
     specifier_size m c + (case specifier_next m c of (st, m') \<Rightarrow> taken st m' s)"
| "taken FS_SPECIFIER_CUSTOM m (c # s) = custom_size c + taken FS_COPY m s"

text \<open>A result that stays in bounds and leaves \<open>rest\<close>.\<close>

definition takes_to :: "u8 list \<Rightarrow> printed \<Rightarrow> bool" where
  "takes_to rest p \<longleftrightarrow> (case p of Inl f \<Rightarrow> f = Undefined | Inr (s, r) \<Rightarrow> r = rest)"

lemma takes_to_print_arg: "n \<le> length args \<Longrightarrow> takes_to (drop n args) (print_arg n render args)"
  by (simp add: takes_to_def print_arg_def take_arg_def andthen_def or_undefined_def split: option.split)

lemmas custom_helper_defs = ipv6_socket_helper_def ipv6_addr_helper_def ipv6_port_helper_def
  errno_helper_def err_t_helper_def guid_helper_def epoll_event_helper_def state_helper_def
  ssl_error_helper_def module_helper_def logger_level_helper_def

lemma custom_sizes:
  "custom_size CHR ''n'' = 18" "custom_size CHR ''N'' = 18" "custom_size CHR ''i'' = 16"
  "custom_size CHR ''I'' = 16" "custom_size CHR ''p'' = 2" "custom_size CHR ''e'' = 4"
  "custom_size CHR ''E'' = 2" "custom_size CHR ''g'' = 16" "custom_size CHR ''G'' = 16"
  "custom_size CHR ''v'' = 4" "custom_size CHR ''s'' = 2" "custom_size CHR ''c'' = 4"
  "custom_size CHR ''m'' = 4" "custom_size CHR ''l'' = 1"
  by (simp_all add: custom_size_def custom_type_def)

lemma custom_other:
  assumes "c \<notin> set ''nNiIpeEgGvscml''"
  shows "custom_size c = 0"
    "read_custom env c args = Inr (''Unknown message, client may required to be upgraded'', args)"
  using assms by (auto simp: custom_size_def custom_type_def read_custom_def)

lemma read_custom_takes:
  assumes "custom_size c \<le> length args"
  shows "takes_to (drop (custom_size c) args) (read_custom env c args)"
proof (cases "c \<in> set ''nNiIpeEgGvscml''")
  case True
  then show ?thesis
    unfolding list.set insert_iff empty_iff
    by (elim disjE FalseE)
      (use assms in \<open>simp_all add: custom_sizes read_custom_def custom_helper_defs takes_to_print_arg\<close>)
next
  case False
  then show ?thesis by (simp add: custom_other takes_to_def)
qed

definition step_to :: "formatstring_state \<times> formatstring_modifier \<Rightarrow> u8 list \<Rightarrow> read_state reading \<Rightarrow> bool" where
  "step_to next_state rest r \<longleftrightarrow>
     (case r of Inl f \<Rightarrow> f = Undefined | Inr (st, m, s, rest') \<Rightarrow> (st, m) = next_state \<and> rest' = rest)"

lemma step_to_printed: "takes_to rest p \<Longrightarrow> step_to (st, m) rest (printed_to st m p)"
  by (auto simp: takes_to_def step_to_def printed_to_def andthen_def split: sum.splits prod.splits)

lemma step_to_Inr: "step_to (st, m) rest (Inr (st, m, s, rest))"
  by (simp add: step_to_def)

lemmas specifier_defs = specifier_size_def specifier_next_def read_specifier_def Let_def

lemma read_specifier_takes:
  assumes "specifier_size m c \<le> length args"
  shows "step_to (specifier_next m c) (drop (specifier_size m c) args) (read_specifier env c m args)"
proof (cases "c \<in> set ''diuoxXfc''")
  case True
  then show ?thesis
    unfolding list.set insert_iff empty_iff
    by (elim disjE FalseE)
      (use assms in \<open>simp_all add: specifier_defs integerToStringHelper_signed_def integerToStringHelper_def
        floatToStringHelper_def step_to_Inr step_to_printed takes_to_print_arg\<close>)
next
  case False
  then have "specifier_size m c = 0" by (simp add: specifier_size_def)
  moreover have "\<exists>s. read_specifier env c m args = Inr (fst (specifier_next m c), snd (specifier_next m c), s, args)"
    using False by (simp add: specifier_next_def read_specifier_def Let_def)
  ultimately show ?thesis by (auto simp: step_to_def)
qed

lemma takes_to_andthen:
  assumes "step_to (st, m) rest r" "\<And>st' m'. st' = st \<Longrightarrow> m' = m \<Longrightarrow> takes_to end_rest (f st' m' rest)"
  shows "takes_to end_rest (andthen r (\<lambda>(st', m', out, args').
    andthen (f st' m' args') (\<lambda>(text, rest). Inr (out @ text, rest))))"
  using assms
  by (auto simp: step_to_def takes_to_def andthen_def split: sum.splits prod.splits)

lemma read_loop_takes:
  "taken st m s \<le> length args \<Longrightarrow> takes_to (drop (taken st m s) args) (read_loop env st m s args)"
proof (induction st m s arbitrary: args rule: taken.induct)
  case (1 st m)
  then show ?case by (simp add: takes_to_def)
next
  case (2 m c s)
  let ?next = "if c = CHR ''%'' then (FS_SPECIFIER, FM_NONE) else (FS_COPY, m)"
  have "step_to ?next args (read_step env FS_COPY m c args)" by (simp add: step_to_def)
  then show ?case
    using 2 by (cases "c = CHR ''%''") (auto intro: takes_to_andthen)
next
  case (3 m c s)
  obtain st' m' where nxt: "specifier_next m c = (st', m')" by fastforce
  have "step_to (st', m') (drop (specifier_size m c) args) (read_step env FS_SPECIFIER m c args)"
    using read_specifier_takes [of m c args env] 3(2) nxt by simp
  moreover have "takes_to (drop (taken FS_SPECIFIER m (c # s)) args)
      (read_loop env st' m' s (drop (specifier_size m c) args))"
    using 3(1) [OF nxt [symmetric], of "drop (specifier_size m c) args"] 3(2) nxt by (simp add: add.commute)
  ultimately show ?case by (auto intro: takes_to_andthen)
next
  case (4 m c s)
  have "step_to (FS_COPY, m) (drop (custom_size c) args) (read_step env FS_SPECIFIER_CUSTOM m c args)"
    using read_custom_takes [of c args env] 4(2) by (simp add: step_to_printed)
  moreover have "takes_to (drop (taken FS_SPECIFIER_CUSTOM m (c # s)) args)
      (read_loop env FS_COPY m s (drop (custom_size c) args))"
    using 4(1) [of "drop (custom_size c) args"] 4(2) by (simp add: add.commute)
  ultimately show ?case by (auto intro: takes_to_andthen)
qed

text \<open>What the tables say about every message of the program.\<close>

definition takes_stored :: "log_entry \<Rightarrow> bool" where
  "takes_stored e =
     (case log_type_list e of
        None \<Rightarrow> False
      | Some (types, len) \<Rightarrow> type_list_check types \<and> taken FS_COPY FM_NONE (log_text e) = len)"

lemma all_messages_described:
  "list_all (\<lambda>e. takes_stored e \<or> log_id_str e = ''TEST_FLOAT_LOGS'') logger_log_list"
  by code_simp

lemma all_messages_compile:
  "list_all (\<lambda>e. case log_type_list e of None \<Rightarrow> False | Some (types, len) \<Rightarrow> type_list_check types \<and> len \<le> 230)
     logger_log_list"
  by code_simp

lemma get_log_entry_mem: "get_log_entry v \<in> set logger_log_list"
proof -
  have "0 < length logger_log_list" by (simp add: logger_log_list_def)
  then show ?thesis unfolding get_log_entry_def by (intro nth_mem) simp
qed

text \<open>
  C27: printing any log entry of the program but \<open>TEST_FLOAT_LOGS\<close> takes exactly the argument bytes
  that were stored with it: no byte behind them is read, and none is left over.
\<close>

theorem log_text_takes_stored:
  assumes "length args = get_log_length log_id" "get_log_id_string log_id \<noteq> ''TEST_FLOAT_LOGS''"
  shows "case createLogsString env timestamp log_id args of
      Inl f \<Rightarrow> f = Undefined
    | Inr (text, rest) \<Rightarrow> rest = []"
proof -
  let ?e = "get_log_entry log_id"
  have "takes_stored ?e"
    using all_messages_described get_log_entry_mem [of log_id] assms(2) by (auto simp: list_all_iff get_log_id_string_def)
  then have "taken FS_COPY FM_NONE (get_log_description log_id) = length args"
    using assms(1) by (auto simp: takes_stored_def get_log_length_def get_log_description_def split: option.splits)
  with read_loop_takes [of FS_COPY FM_NONE "get_log_description log_id" args env]
  show ?thesis by (auto simp: takes_to_def createLogsString_def andthen_def split: sum.splits)
qed

lemmas reader_eval = andthen_def or_undefined_def print_arg_def take_arg_def printed_to_def
  read_specifier_def read_custom_def Let_def integerToStringHelper_signed_def signed_text_def errno_helper_def
  le_word_def to_string_int_def digits_loop.simps lower_case_numbers_def

definition sample_env :: log_env where
  "sample_env = \<lparr>le_time = (\<lambda>_. ''T''), le_strerror = (\<lambda>_. ''E''), le_ssl_error = (\<lambda>_. ''S''),
     le_float = (\<lambda>_. ''F'')\<rparr>"

theorem log_text_takes_stored_witness:
  "createLogsString sample_env 0 9 [5, 0, 0, 0, 9, 0, 0, 0] =
     Inr (''T:INFO:SOCKET_CLOSE_FAILED:Socket 5 close failed with error (9,E)'', []) \<and>
   (case createLogsString sample_env 0 9 [5, 0, 0, 0, 9, 0, 0, 0] of
      Inl f \<Rightarrow> f = Undefined | Inr (text, rest) \<Rightarrow> rest = [])"
proof
  show "createLogsString sample_env 0 9 [5, 0, 0, 0, 9, 0, 0, 0] =
     Inr (''T:INFO:SOCKET_CLOSE_FAILED:Socket 5 close failed with error (9,E)'', [])"
    by (simp add: createLogsString_def get_log_description_def get_log_id_string_def get_log_entry_def
        level_text_def logger_log_list_def log_text_def log_id_str_def log_level_def logger_level_to_string_def
        logger_level_list_def sample_env_def reader_eval)
  have "length [5, 0, 0, 0, 9, 0, 0, 0 :: u8] = get_log_length 9" by code_simp
  moreover have "get_log_id_string 9 \<noteq> ''TEST_FLOAT_LOGS''" by code_simp
  ultimately show "case createLogsString sample_env 0 9 [5, 0, 0, 0, 9, 0, 0, 0] of
      Inl f \<Rightarrow> f = Undefined | Inr (text, rest) \<Rightarrow> rest = []"
    by (rule log_text_takes_stored)
qed

text \<open>
  The exception: a \<open>double\<close> is stored with eight bytes but read as a \<open>float\<close>, so four of the twelve
  bytes of \<open>TEST_FLOAT_LOGS\<close> are left.  After \<open>%c\<close> the reader stays among the specifiers and swallows
  the next character; \<open>%F\<close> is counted and stored, but the reader ignores it.
\<close>

lemma double_read_as_float:
  "formatstring_type_list 2 ''Test float %%%hf, double %f'' = Some ([T_float, T_double], 12)"
  "taken FS_COPY FM_NONE ''Test float %%%hf, double %f'' = 8"
  by (code_simp, code_simp)

lemma character_swallows:
  "read_loop sample_env FS_COPY FM_NONE ''%c, x'' (bytes_of ''A'') = Inr (''A x'', [])"
  by (simp add: reader_eval)

lemma upper_float_ignored:
  "formatstring_type_list 1 ''%F'' = Some ([T_double], 8)" "taken FS_COPY FM_NONE ''%F'' = 0"
  by (code_simp, code_simp)

end
