(* ===== verification/LogFile.thy ===== *)
theory LogFile
  imports LogText "HOL-Library.Multiset"
begin

text \<open>
  The logger of serverlib/include/iot/core/log.hh and lib/log.cc between the two texts: the buffer of a
  thread (\<open>logger\<close>), the log file, and \<open>logreader\<close>, which sorts the entries by time.

  A pointer into the buffer is an offset; the file is the list of its bytes.
\<close>

subsection \<open>Entries\<close>

record log_record =
  lr_timestamp :: u64
  lr_id :: u16
  lr_arguments :: "u8 list"

definition le64 :: "u64 \<Rightarrow> u8 list" where
  "le64 v = map (\<lambda>i. ucast (drop_bit (8 * i) v)) [0..<8]"

definition sizeof_entry_common :: nat where
  "sizeof_entry_common = 10"

text \<open>A packed \<open>logger_logs_entry\<close>.\<close>

definition record_bytes :: "log_record \<Rightarrow> u8 list" where
  "record_bytes e = le64 (lr_timestamp e) @ le16 (lr_id e) @ lr_arguments e"

subsection \<open>logger\<close>

record logger =
  lg_buffer :: "u8 list option"
  lg_next_write :: nat
  lg_next_read :: nat
  lg_file :: "u8 list"

definition init_log_memory :: nat where
  "init_log_memory = 1024 * 1024"

definition new_logger :: logger where
  "new_logger = \<lparr>lg_buffer = None, lg_next_write = 0, lg_next_read = 0, lg_file = []\<rparr>"

definition pending :: "logger \<Rightarrow> u8 list" where
  "pending lg = (case lg_buffer lg of None \<Rightarrow> []
     | Some buffer \<Rightarrow> take (lg_next_write lg - lg_next_read lg) (drop (lg_next_read lg) buffer))"

text \<open>
  \<open>flush\<close>: \<open>accepted\<close> is the number of bytes that \<open>write\<close> takes; the read pointer moves over all of
  them in any case.
\<close>

definition flush_logger :: "nat \<Rightarrow> logger \<Rightarrow> logger option" where
  "flush_logger accepted lg =
     (if lg_next_write lg < lg_next_read lg then None
      else if lg_next_read lg = lg_next_write lg then Some lg
      else Some (lg\<lparr>lg_file := lg_file lg @ take accepted (pending lg), lg_next_read := lg_next_write lg\<rparr>))"

text \<open>\<open>replinish\<close>: \<open>junk\<close> is the content of new memory.\<close>

definition replinish :: "nat \<Rightarrow> u8 list \<Rightarrow> logger \<Rightarrow> logger option" where
  "replinish accepted junk lg =
     (case lg_buffer lg of
        None \<Rightarrow> Some (lg\<lparr>lg_buffer := Some junk, lg_next_read := 0, lg_next_write := 0\<rparr>)
      | Some buffer \<Rightarrow>
          (case flush_logger accepted lg of
             None \<Rightarrow> None
           | Some lg \<Rightarrow>
               if lg_next_read lg = lg_next_write lg
               then Some (lg\<lparr>lg_next_read := 0, lg_next_write := 0\<rparr>) else None))"

definition store_entry :: "u8 list \<Rightarrow> logger \<Rightarrow> logger option" where
  "store_entry bs lg =
     (case lg_buffer lg of
        None \<Rightarrow> None
      | Some buffer \<Rightarrow>
          if lg_next_write lg + length bs \<le> length buffer
          then Some (lg\<lparr>lg_buffer := Some (take (lg_next_write lg) buffer @ bs @
                          drop (lg_next_write lg + length bs) buffer),
                        lg_next_write := lg_next_write lg + length bs\<rparr>)
          else None)"

text \<open>\<open>log\<close>, for an entry that is enabled; the end of no buffer is the null pointer.\<close>

definition log_entry_bytes :: "nat \<Rightarrow> u8 list \<Rightarrow> u8 list \<Rightarrow> logger \<Rightarrow> logger option" where
  "log_entry_bytes accepted junk bs lg =
     (let new_next_write = lg_next_write lg + length bs;
          buffer_end = (case lg_buffer lg of None \<Rightarrow> 0 | Some buffer \<Rightarrow> length buffer) in
      case (if buffer_end \<le> new_next_write then replinish accepted junk lg else Some lg) of
        None \<Rightarrow> None
      | Some lg \<Rightarrow> store_entry bs lg)"

subsection \<open>logreader\<close>

datatype next_entry = No_entry | Entry log_record "u8 list" | Read_failed | Read_waits

text \<open>
  \<open>readnext\<close>: the header without waiting, then the arguments.  A short read is an error; when the
  arguments are not there yet the call waits.
\<close>

definition readnext :: "u8 list \<Rightarrow> next_entry" where
  "readnext file =
     (if file = [] then No_entry
      else if length file < sizeof_entry_common then Read_failed
      else let common = take sizeof_entry_common file;
               rest = drop sizeof_entry_common file;
               log_id = of_le16 (drop 8 common);
               n = get_log_length log_id;
               e = \<lparr>lr_timestamp = le_word (take 8 common), lr_id = log_id, lr_arguments = take n rest\<rparr>
           in if n \<noteq> 0 \<and> rest = [] then Read_waits
              else if length rest < n then Read_failed
              else Entry e (drop n rest))"

definition buffer_time_in_nanos :: int where
  "buffer_time_in_nanos = 50 * 4 * 1000000"

definition record_time :: "log_record \<Rightarrow> int" where
  "record_time e = sint (lr_timestamp e)"

text \<open>\<open>std::abs\<close> of a difference of two \<open>int64_t\<close>; overflow is undefined.\<close>

definition time_gap :: "log_record \<Rightarrow> log_record \<Rightarrow> int option" where
  "time_gap a b =
     (let d = record_time a - record_time b in if \<bar>d\<bar> < 2 ^ 63 then Some \<bar>d\<bar> else None)"

text \<open>
  The priority queue, as the list of its elements: \<open>top\<close> is one with the least time.
\<close>

definition queue_top :: "log_record list \<Rightarrow> log_record" where
  "queue_top q = arg_min_list record_time q"

definition queue_pop :: "log_record list \<Rightarrow> log_record list" where
  "queue_pop q = remove1 (queue_top q) q"

datatype line = No_line | Line log_record "u8 list" "log_record list" | Line_failed | Line_undefined

lemma readnext_shorter: "readnext file = Entry e rest \<Longrightarrow> length rest < length file"
  by (auto simp: readnext_def Let_def sizeof_entry_common_def split: if_splits)

text \<open>
  \<open>readnextstring\<close> of a file that nobody writes to (\<open>live\<close> is false): the entry to print, the rest of
  the file and the queue.  A wait for arguments, which never come, counts as a failure.
\<close>

function readnextstring :: "u8 list \<Rightarrow> log_record list \<Rightarrow> line" where
  "readnextstring file q =
     (case readnext file of
        Read_failed \<Rightarrow> Line_failed
      | Read_waits \<Rightarrow> Line_failed
      | No_entry \<Rightarrow> if q = [] then No_line else Line (queue_top q) file (queue_pop q)
      | Entry e rest \<Rightarrow>
          if q = [] then readnextstring rest [e]
          else (case time_gap (queue_top q) e of
                  None \<Rightarrow> Line_undefined
                | Some gap \<Rightarrow>
                    if gap < buffer_time_in_nanos then readnextstring rest (q @ [e])
                    else Line (queue_top (q @ [e])) rest (queue_pop (q @ [e]))))"
  by pat_completeness auto
termination
  by (relation "measure (\<lambda>(file, q). length file)") (auto dest: readnext_shorter)

declare readnextstring.simps [simp del]

text \<open>
  One round of the loop of a live reader that finds no entry: the queue is drained when the last
  entry came long enough ago.
\<close>

definition live_idle :: "int \<Rightarrow> int \<Rightarrow> log_record list \<Rightarrow> (log_record \<times> log_record list) option" where
  "live_idle current_time last_read_time q =
     (if q \<noteq> [] \<and> buffer_time_in_nanos * 3 \<le> current_time - last_read_time
      then Some (queue_top q, queue_pop q) else None)"

subsection \<open>Nothing logged is lost\<close>

datatype log_call = Log "u8 list" | Flush_log

text \<open>A run in which every \<open>write\<close> takes all bytes; \<open>junk\<close> is the content of the new buffer.\<close>

fun logger_run :: "u8 list \<Rightarrow> log_call list \<Rightarrow> logger \<Rightarrow> logger option" where
  "logger_run junk [] lg = Some lg"
| "logger_run junk (Log bs # calls) lg =
     (case log_entry_bytes init_log_memory junk bs lg of None \<Rightarrow> None | Some lg' \<Rightarrow> logger_run junk calls lg')"
| "logger_run junk (Flush_log # calls) lg =
     (case flush_logger init_log_memory lg of None \<Rightarrow> None | Some lg' \<Rightarrow> logger_run junk calls lg')"

fun logged :: "log_call list \<Rightarrow> u8 list" where
  "logged [] = []"
| "logged (Log bs # calls) = bs @ logged calls"
| "logged (Flush_log # calls) = logged calls"

definition logger_ok :: "logger \<Rightarrow> bool" where
  "logger_ok lg \<longleftrightarrow> lg_next_read lg \<le> lg_next_write lg \<and>
     (case lg_buffer lg of None \<Rightarrow> lg_next_write lg = 0
      | Some buffer \<Rightarrow> length buffer = init_log_memory \<and> lg_next_write lg \<le> init_log_memory)"

lemma flush_logger_ok:
  assumes "logger_ok lg"
  shows "\<exists>lg'. flush_logger init_log_memory lg = Some lg' \<and> logger_ok lg' \<and> pending lg' = [] \<and>
    lg_file lg' = lg_file lg @ pending lg \<and> lg_next_read lg' = lg_next_write lg' \<and>
    lg_buffer lg' = lg_buffer lg"
proof -
  have "length (pending lg) \<le> init_log_memory"
    using assms by (auto simp: pending_def logger_ok_def split: option.splits)
  then show ?thesis
    using assms by (auto simp: flush_logger_def logger_ok_def pending_def split: option.splits)
qed

lemma store_entry_ok:
  assumes "logger_ok lg" "lg_buffer lg \<noteq> None" "lg_next_write lg + length bs \<le> init_log_memory"
  shows "\<exists>lg'. store_entry bs lg = Some lg' \<and> logger_ok lg' \<and> pending lg' = pending lg @ bs \<and>
    lg_file lg' = lg_file lg"
proof -
  obtain buffer where buffer: "lg_buffer lg = Some buffer" using assms(2) by blast
  let ?w = "lg_next_write lg" and ?r = "lg_next_read lg"
  have len: "length buffer = init_log_memory" and le: "?r \<le> ?w"
    using assms(1) buffer by (simp_all add: logger_ok_def)
  let ?new = "take ?w buffer @ bs @ drop (?w + length bs) buffer"
  have "drop ?r ?new = drop ?r (take ?w buffer) @ bs @ drop (?w + length bs) buffer"
    using le len assms(3) by simp
  moreover have "length (drop ?r (take ?w buffer)) = ?w - ?r" using len assms(3) by simp
  ultimately have "take (?w + length bs - ?r) (drop ?r ?new) = drop ?r (take ?w buffer) @ bs"
    using le by simp
  moreover have "drop ?r (take ?w buffer) = take (?w - ?r) (drop ?r buffer)" by (simp add: drop_take)
  ultimately show ?thesis
    using buffer len le assms(3) by (simp add: store_entry_def logger_ok_def pending_def)
qed

lemma log_entry_ok:
  assumes "logger_ok lg" "length junk = init_log_memory" "length bs \<le> init_log_memory"
  shows "\<exists>lg'. log_entry_bytes init_log_memory junk bs lg = Some lg' \<and> logger_ok lg' \<and>
    lg_file lg' @ pending lg' = lg_file lg @ pending lg @ bs"
proof -
  let ?limit = "case lg_buffer lg of None \<Rightarrow> 0 | Some buffer \<Rightarrow> length buffer"
  obtain lg1 where lg1:
    "(if ?limit \<le> lg_next_write lg + length bs then replinish init_log_memory junk lg else Some lg) = Some lg1"
    "logger_ok lg1" "lg_buffer lg1 \<noteq> None" "lg_next_write lg1 + length bs \<le> init_log_memory"
    "lg_file lg1 @ pending lg1 = lg_file lg @ pending lg"
  proof (cases "lg_buffer lg")
    case None
    then show ?thesis
      using assms that [of "lg\<lparr>lg_buffer := Some junk, lg_next_read := 0, lg_next_write := 0\<rparr>"]
      by (simp add: replinish_def logger_ok_def pending_def)
  next
    case (Some buffer)
    show ?thesis
    proof (cases "length buffer \<le> lg_next_write lg + length bs")
      case True
      obtain lg2 where lg2: "flush_logger init_log_memory lg = Some lg2" "logger_ok lg2" "pending lg2 = []"
        "lg_file lg2 = lg_file lg @ pending lg" "lg_next_read lg2 = lg_next_write lg2" "lg_buffer lg2 = lg_buffer lg"
        using flush_logger_ok [OF assms(1)] by blast
      then show ?thesis
        using assms Some True that [of "lg2\<lparr>lg_next_read := 0, lg_next_write := 0\<rparr>"]
        by (simp add: replinish_def logger_ok_def pending_def)
    next
      case False
      then show ?thesis using assms(1) Some that [of lg] by (simp add: logger_ok_def)
    qed
  qed
  then show ?thesis
    using store_entry_ok [OF lg1(2, 3, 4)] by (auto simp: log_entry_bytes_def Let_def)
qed

lemma logger_run_ok:
  "logger_ok lg \<Longrightarrow> length junk = init_log_memory \<Longrightarrow>
   list_all (\<lambda>c. case c of Log bs \<Rightarrow> length bs \<le> init_log_memory | Flush_log \<Rightarrow> True) calls \<Longrightarrow>
   \<exists>lg'. logger_run junk calls lg = Some lg' \<and> logger_ok lg' \<and>
     lg_file lg' @ pending lg' = lg_file lg @ pending lg @ logged calls"
proof (induction calls arbitrary: lg)
  case (Cons c calls)
  show ?case
  proof (cases c)
    case (Log bs)
    obtain lg1 where 1: "log_entry_bytes init_log_memory junk bs lg = Some lg1" "logger_ok lg1"
      "lg_file lg1 @ pending lg1 = lg_file lg @ pending lg @ bs"
      using log_entry_ok [OF Cons.prems(1, 2), of bs] Cons.prems(3) Log by auto
    obtain lg2 where "logger_run junk calls lg1 = Some lg2" "logger_ok lg2"
      "lg_file lg2 @ pending lg2 = lg_file lg1 @ pending lg1 @ logged calls"
      using Cons.IH [OF 1(2) Cons.prems(2)] Cons.prems(3) by auto
    with 1 show ?thesis by (simp add: Log)
  next
    case Flush_log
    obtain lg1 where 1: "flush_logger init_log_memory lg = Some lg1" "logger_ok lg1" "pending lg1 = []"
      "lg_file lg1 = lg_file lg @ pending lg"
      using flush_logger_ok [OF Cons.prems(1)] by blast
    then show ?thesis using Cons.IH [OF 1(2) Cons.prems(2)] Cons.prems(3) by (simp add: Flush_log)
  qed
qed simp

text \<open>
  C32: a thread's log is a stream.  For entries that fit the buffer and writes that take everything,
  no entry is stored outside the buffer, no assertion fails, and after any calls of \<open>log\<close> and \<open>flush\<close>
  the file followed by the unwritten part of the buffer is exactly what was logged, in order.
\<close>

theorem logger_stream:
  assumes "length junk = init_log_memory"
    "list_all (\<lambda>c. case c of Log bs \<Rightarrow> length bs \<le> init_log_memory | Flush_log \<Rightarrow> True) calls"
  shows "case logger_run junk calls new_logger of
      None \<Rightarrow> False
    | Some lg \<Rightarrow> lg_file lg @ pending lg = logged calls \<and> logger_ok lg"
proof -
  have "logger_ok new_logger" by (simp add: logger_ok_def new_logger_def)
  from logger_run_ok [OF this assms] show ?thesis by (auto simp: new_logger_def pending_def)
qed

theorem logger_stream_witness:
  "case logger_run (replicate init_log_memory 0) [Log [1, 2], Flush_log, Log [3]] new_logger of
     None \<Rightarrow> False
   | Some lg \<Rightarrow> lg_file lg @ pending lg = [1, 2, 3] \<and> logger_ok lg"
proof -
  have "case logger_run (replicate init_log_memory 0) [Log [1, 2], Flush_log, Log [3]] new_logger of
      None \<Rightarrow> False
    | Some lg \<Rightarrow> lg_file lg @ pending lg = logged [Log [1, 2], Flush_log, Log [3]] \<and> logger_ok lg"
    by (rule logger_stream) (simp_all add: init_log_memory_def)
  then show ?thesis by (simp only: logged.simps append.simps)
qed

subsection \<open>The queue\<close>

lemma queue_top_in: "q \<noteq> [] \<Longrightarrow> queue_top q \<in> set q"
  by (simp add: queue_top_def arg_min_list_in)

lemma queue_top_least: "x \<in> set q \<Longrightarrow> record_time (queue_top q) \<le> record_time x"
proof -
  assume x: "x \<in> set q"
  then have "q \<noteq> []" by auto
  then have "record_time (queue_top q) = Min (record_time ` set q)"
    by (simp add: queue_top_def f_arg_min_list_f)
  with x show ?thesis by simp
qed

lemma mset_queue: "q \<noteq> [] \<Longrightarrow> mset q = add_mset (queue_top q) (mset (queue_pop q))"
  by (simp add: queue_pop_def queue_top_in)

text \<open>The reader on entries instead of bytes: the next entry, the rest and the queue.\<close>

fun next_line :: "log_record list \<Rightarrow> log_record list \<Rightarrow> (log_record \<times> log_record list \<times> log_record list) option" where
  "next_line [] q = (if q = [] then None else Some (queue_top q, [], queue_pop q))"
| "next_line (e # es) q =
     (if q = [] then next_line es [e]
      else if \<bar>record_time (queue_top q) - record_time e\<bar> < buffer_time_in_nanos then next_line es (q @ [e])
      else Some (queue_top (q @ [e]), es, queue_pop (q @ [e])))"

text \<open>Entries that the writer made, at a time after 1970.\<close>

definition wf_record :: "log_record \<Rightarrow> bool" where
  "wf_record e \<longleftrightarrow> length (lr_arguments e) = get_log_length (lr_id e) \<and> 0 \<le> record_time e"

lemma length_le64 [simp]: "length (le64 v) = 8"
  by (simp add: le64_def)

lemma le64_not_Nil [simp]: "le64 v \<noteq> []"
  using length_le64 [of v] by fastforce

lemma le_word_le64 [simp]: "le_word (le64 v) = v"
proof (rule bit_word_eqI)
  have *: "bit (le_word bs :: u64) n \<longleftrightarrow> n < 8 * length bs \<and> n < 64 \<and> bit (bs ! (n div 8)) (n mod 8)" for bs n
  proof (induction bs arbitrary: n)
    case (Cons b bs)
    have "le_word (b # bs) = push_bit 8 (le_word bs) OR (ucast b :: u64)"
    proof -
      have "push_bit 8 (le_word bs) AND (ucast b :: u64) = 0"
        by (rule bit_word_eqI) (simp add: bit_simps)
      then show ?thesis by (simp add: le_word_def push_bit_eq_mult disjoint_add)
    qed
    then show ?case
      using Cons.IH [of "n - 8"]
      by (auto simp: bit_simps nth_Cons' le_div_geq le_mod_geq)
  qed (simp add: le_word_def)
  fix n :: nat assume "n < LENGTH(64)"
  then have "n div 8 < 8" by simp
  then have "le64 v ! (n div 8) = ucast (drop_bit (8 * (n div 8)) v)" by (simp add: le64_def del: upt_Suc)
  then show "bit (le_word (le64 v) :: u64) n = bit v n"
    using \<open>n < LENGTH(64)\<close> * [of "le64 v" n] by (simp add: bit_simps mod_less_divisor)
qed

lemma readnext_record:
  assumes "length (lr_arguments e) = get_log_length (lr_id e)"
  shows "readnext (record_bytes e @ rest) = Entry e rest"
  using assms
  by (auto simp: readnext_def record_bytes_def sizeof_entry_common_def Let_def)

lemma time_gap_defined:
  "0 \<le> record_time a \<Longrightarrow> 0 \<le> record_time b \<Longrightarrow> time_gap a b = Some \<bar>record_time a - record_time b\<bar>"
  using sint_lt [of "lr_timestamp a"] sint_lt [of "lr_timestamp b"]
  by (simp add: time_gap_def record_time_def Let_def)

lemma readnextstring_entries:
  "list_all wf_record es \<Longrightarrow> list_all wf_record q \<Longrightarrow>
   readnextstring (concat (map record_bytes es)) q =
     (case next_line es q of None \<Rightarrow> No_line
      | Some (e, es', q') \<Rightarrow> Line e (concat (map record_bytes es')) q')"
proof (induction es q rule: next_line.induct)
  case (1 q)
  then show ?case by (simp add: readnextstring.simps [of "[]"] readnext_def)
next
  case (2 e es q)
  have next_entry: "readnext (concat (map record_bytes (e # es))) = Entry e (concat (map record_bytes es))"
    using 2(3) by (simp add: readnext_record wf_record_def)
  have top: "q \<noteq> [] \<Longrightarrow> wf_record (queue_top q)"
    using 2(4) queue_top_in [of q] by (auto simp: list_all_iff)
  show ?case
    unfolding readnextstring.simps [of "concat (map record_bytes (e # es))"] next_entry
    using 2 top by (auto simp: wf_record_def time_gap_defined)
qed

subsection \<open>Lines in order\<close>

lemma queue_pop_shorter: "q \<noteq> [] \<Longrightarrow> length (queue_pop q) < length q"
  by (simp add: queue_pop_def queue_top_in length_remove1)

lemma readnextstring_measure:
  "readnextstring file q = Line e file' q' \<Longrightarrow> length file' + length q' < length file + length q"
proof (induction "file" q rule: readnextstring.induct)
  case (1 "file" q)
  have "readnextstring file q = Line e file' q'" by (rule 1(3))
  then show ?case
    unfolding readnextstring.simps [of "file" q]
  proof (cases "readnext file")
    case No_entry
    then show ?thesis using 1(3) queue_pop_shorter [of q] by (simp add: readnextstring.simps [of "file" q] split: if_splits)
  next
    case (Entry x rest)
    note shorter = readnext_shorter [OF Entry]
    show ?thesis
    proof (cases "q = []")
      case True
      with 1(1) [OF Entry True] 1(3) Entry shorter show ?thesis by (simp add: readnextstring.simps [of "file" "[]"])
    next
      case False
      then obtain gap where gap: "time_gap (queue_top q) x = Some gap"
        using 1(3) Entry by (auto simp: readnextstring.simps [of "file" q] split: option.splits)
      show ?thesis
      proof (cases "gap < buffer_time_in_nanos")
        case True
        with 1(2) [OF Entry False gap True] 1(3) Entry False gap shorter
        show ?thesis by (simp add: readnextstring.simps [of "file" q])
      next
        case False
        with 1(3) Entry \<open>q \<noteq> []\<close> gap shorter queue_pop_shorter [of "q @ [x]"]
        show ?thesis by (simp add: readnextstring.simps [of "file" q])
      qed
    qed
  qed (use 1(3) in \<open>simp_all add: readnextstring.simps [of "file" q]\<close>)
qed

text \<open>The log reader program: line after line until there is none.\<close>

function log_lines :: "u8 list \<Rightarrow> log_record list \<Rightarrow> log_record list option" where
  "log_lines file q =
     (case readnextstring file q of
        No_line \<Rightarrow> Some []
      | Line e file' q' \<Rightarrow> map_option ((#) e) (log_lines file' q')
      | _ \<Rightarrow> None)"
  by pat_completeness auto
termination
  by (relation "measure (\<lambda>(file, q). length file + length q)") (auto dest: readnextstring_measure)

declare log_lines.simps [simp del]

text \<open>No entry is more than the buffer time older than an entry before it.\<close>

abbreviation not_late :: "log_record \<Rightarrow> log_record \<Rightarrow> bool" where
  "not_late x e \<equiv> record_time x - buffer_time_in_nanos \<le> record_time e"

definition in_window :: "log_record list \<Rightarrow> log_record list \<Rightarrow> bool" where
  "in_window es q \<longleftrightarrow> sorted_wrt not_late es \<and> (\<forall>x \<in> set q. \<forall>e \<in> set es. not_late x e)"

lemma set_queue_pop: "set (queue_pop q) \<subseteq> set q"
  by (simp add: queue_pop_def set_remove1_subset)

lemma next_line_least:
  "next_line es q = Some (e, es', q') \<Longrightarrow> in_window es q \<Longrightarrow>
   mset es + mset q = add_mset e (mset es' + mset q') \<and> in_window es' q' \<and>
   (\<forall>x \<in> set es' \<union> set q'. record_time e \<le> record_time x) \<and> length es' + length q' < length es + length q"
proof (induction es q rule: next_line.induct)
  case (1 q)
  then show ?case
    using set_queue_pop [of q] queue_top_least [of _ q] mset_queue [of q] queue_pop_shorter [of q]
    by (auto simp: in_window_def split: if_splits)
next
  case (2 x es q)
  have window: "in_window es (q @ [x])" using 2(4) by (auto simp: in_window_def)
  consider "q = []" | "q \<noteq> []" "\<bar>record_time (queue_top q) - record_time x\<bar> < buffer_time_in_nanos"
    | "q \<noteq> []" "buffer_time_in_nanos \<le> \<bar>record_time (queue_top q) - record_time x\<bar>" by linarith
  then show ?case
  proof cases
    case 1
    with 2(1) 2(3) window show ?thesis by simp
  next
    case case2: 2
    with 2(2) 2(3) window show ?thesis by (simp add: add.commute)
  next
    case 3
    let ?q = "q @ [x]"
    have res: "e = queue_top ?q" "es' = es" "q' = queue_pop ?q" using 2(3) 3 by simp_all
    have "record_time e \<le> record_time y" if "y \<in> set es" for y
    proof -
      have late: "not_late (queue_top q) x" "not_late x y" "not_late (queue_top q) y"
        using 2(4) queue_top_in [OF 3(1)] that by (auto simp: in_window_def)
      have "record_time e \<le> record_time (queue_top q)" "record_time e \<le> record_time x"
        using queue_top_least [of _ ?q] queue_top_in [OF 3(1)] by (simp_all add: res)
      with late 3(2) show ?thesis by linarith
    qed
    moreover have "\<forall>y \<in> set q'. record_time e \<le> record_time y"
      using queue_top_least [of _ ?q] set_queue_pop [of ?q] by (auto simp: res)
    moreover have "in_window es q'" using window set_queue_pop [of ?q] by (auto simp: in_window_def res)
    ultimately show ?thesis
      using mset_queue [of ?q] queue_pop_shorter [of ?q] by (auto simp: res)
  qed
qed

lemma next_line_None: "next_line es q = None \<Longrightarrow> es = [] \<and> q = []"
  by (induction es q rule: next_line.induct) (auto split: if_splits)

lemma log_lines_sorted:
  "list_all wf_record es \<Longrightarrow> list_all wf_record q \<Longrightarrow> in_window es q \<Longrightarrow>
   \<exists>out. log_lines (concat (map record_bytes es)) q = Some out \<and> mset out = mset es + mset q \<and>
     sorted (map record_time out)"
proof (induction "length es + length q" arbitrary: es q rule: less_induct)
  case less
  note read = readnextstring_entries [OF less.prems(1, 2)]
  show ?case
  proof (cases "next_line es q")
    case None
    then show ?thesis
      using next_line_None [OF None] read by (simp add: log_lines.simps [of "[]"])
  next
    case (Some r)
    obtain e es' q' where r: "r = (e, es', q')" by (cases r)
    note next_line = next_line_least [OF Some [unfolded r] less.prems(3)]
    have sub: "set es' \<union> set q' \<subseteq> set es \<union> set q"
      using next_line by (metis UnCI set_mset_add_mset_insert set_mset_mset set_mset_union subset_insertI)
    then have wf: "list_all wf_record es'" "list_all wf_record q'"
      using less.prems(1, 2) by (auto simp: list_all_iff)
    obtain out where out: "log_lines (concat (map record_bytes es')) q' = Some out"
      "mset out = mset es' + mset q'" "sorted (map record_time out)"
      using less.hyps [of es' q'] wf next_line by blast
    have "set out = set es' \<union> set q'" using out(2) by (metis set_mset_mset set_mset_union)
    then have "sorted (map record_time (e # out))" using out(3) next_line by auto
    moreover have "log_lines (concat (map record_bytes es)) q = Some (e # out)"
      using read Some r out(1) by (simp add: log_lines.simps [of "concat (map record_bytes es)" q])
    ultimately show ?thesis using out(2) next_line by (intro exI [of _ "e # out"]) simp
  qed
qed

text \<open>
  C18: the log reader prints every entry of a log file exactly once and in the order of time, provided
  no entry was written more than 200 milliseconds after a later one.
\<close>

theorem log_lines_in_order:
  assumes "list_all wf_record es" "sorted_wrt not_late es"
  shows "\<exists>out. log_lines (concat (map record_bytes es)) [] = Some out \<and> mset out = mset es \<and>
    sorted (map record_time out)"
  using log_lines_sorted [OF assms(1), of "[]"] assms(2) by (simp add: in_window_def)

text \<open>Two threads, the second one flushing 100 milliseconds late.\<close>

definition sample_records :: "log_record list" where
  "sample_records =
     [\<lparr>lr_timestamp = 900000000, lr_id = 2, lr_arguments = []\<rparr>,
      \<lparr>lr_timestamp = 800000000, lr_id = 2, lr_arguments = []\<rparr>]"

theorem log_lines_in_order_witness:
  "\<exists>out. log_lines (concat (map record_bytes sample_records)) [] = Some out \<and> mset out = mset sample_records \<and>
     sorted (map record_time out)"
proof (rule log_lines_in_order)
  have "get_log_length 2 = 0" by code_simp
  then show "list_all wf_record sample_records"
    by (simp add: sample_records_def wf_record_def record_time_def)
  show "sorted_wrt not_late sample_records"
    by (simp add: sample_records_def record_time_def buffer_time_in_nanos_def)
qed

end
