(* ===== verification/FileMap.thy ===== *)
theory FileMap
  imports Base64 Errors Ipv6
begin

text \<open>
  deviceserver/include/iotfilemapping.hh and deviceserver/lib/iotfilemapping.cc: the cache of the
  files a web folder serves (filemap) and the table from ports and folders to caches (webmaps).
  What is on the disk is an argument of the operations that read it.
\<close>

subsection \<open>The disk\<close>

text \<open>
  What \<open>opendir\<close> and \<open>readdir\<close> give for a folder, with the names \<open>.\<close> and \<open>..\<close> still in: a folder
  that cannot be opened is \<open>Unreadable\<close>, the flag tells whether \<open>closedir\<close> succeeds, and a
  regular file that cannot be opened has no content.
\<close>

record regular_file =
  rf_data :: "u8 list"
  rf_mtime_sec :: u64
  rf_mtime_nsec :: u64

datatype dirent =
    DT_DIR string folder
  | DT_REG string "regular_file option"
  | DT_OTHER string
and folder =
    Unreadable
  | Folder "dirent list" bool

fun d_name :: "dirent \<Rightarrow> string" where
  "d_name (DT_DIR name sub) = name"
| "d_name (DT_REG name data) = name"
| "d_name (DT_OTHER name) = name"

definition special_name :: "string \<Rightarrow> bool" where
  "special_name name \<longleftrightarrow> name = ''.'' \<or> name = ''..''"

subsection \<open>file_info and filemap\<close>

record file_info =
  content :: "u8 list"
  content_type :: string
  etags :: string

text \<open>
  The iteration order of \<open>folder_mappings\<close> is not specified by the library, so it is a list of pairs
  with distinct keys, in some order; the other tables are only looked up.
\<close>

record filemap =
  folder_mappings :: "(string \<times> string) list"
  folder_reverse_mappings :: "string \<Rightarrow> string list option"
  content_type_map :: "string \<Rightarrow> string option"
  webfolder :: string
  cache :: "string \<Rightarrow> file_info option"

definition new_filemap :: "string \<Rightarrow> filemap" where
  "new_filemap folder = \<lparr>folder_mappings = [], folder_reverse_mappings = (\<lambda>_. None),
     content_type_map = (\<lambda>_. None), webfolder = folder, cache = (\<lambda>_. None)\<rparr>"

text \<open>\<open>insert\<close> of a map of the standard library leaves a key that is there as it is.\<close>

definition table_insert :: "'k \<Rightarrow> 'v \<Rightarrow> ('k \<Rightarrow> 'v option) \<Rightarrow> 'k \<Rightarrow> 'v option" where
  "table_insert k v m = (if m k = None then m(k \<mapsto> v) else m)"

definition list_insert :: "'k \<Rightarrow> 'v \<Rightarrow> ('k \<times> 'v) list \<Rightarrow> ('k \<times> 'v) list" where
  "list_insert k v kvs = (if map_of kvs k = None then kvs @ [(k, v)] else kvs)"

subsection \<open>add_file\<close>

fun rfind :: "char \<Rightarrow> string \<Rightarrow> nat option" where
  "rfind c [] = None"
| "rfind c (x # xs) = (case rfind c xs of Some i \<Rightarrow> Some (Suc i) | None \<Rightarrow> if x = c then Some 0 else None)"

text \<open>\<open>get_etags\<close>: the time of the last change in nanoseconds without its lowest 20 bits, plus the size.\<close>

definition get_etags :: "regular_file \<Rightarrow> u64" where
  "get_etags file =
     ((rf_mtime_sec file * 1000000000 + rf_mtime_nsec file) AND NOT 0xfffff) + word_of_nat (length (rf_data file))"

text \<open>
  The size is an \<open>int\<close>: \<open>new char[size]\<close> throws for a negative one, which is \<open>None\<close>.  The code does not look
  at the results of \<open>fstat\<close> and \<open>read\<close>; here the first gives the length of the file and the second that
  many bytes of it, which is what a regular file that does not change meanwhile gives.
\<close>

definition new_file_info :: "string \<Rightarrow> regular_file \<Rightarrow> file_info option" where
  "new_file_info content_type_str file =
     (let size = sint (word_of_nat (length (rf_data file)) :: u32) in
      if size < 0 then None
      else Some \<lparr>content = take (nat size) (rf_data file), content_type = content_type_str @ [NUL],
                 etags = to_string64_hash True (get_etags file)\<rparr>)"

definition add_file :: "string \<Rightarrow> regular_file option \<Rightarrow> filemap \<Rightarrow> filemap option" where
  "add_file relativepath disk fm =
     (case rfind CHR ''.'' relativepath of
        None \<Rightarrow> Some fm
      | Some period_pos \<Rightarrow>
          (case content_type_map fm (drop (period_pos + 1) relativepath) of
             None \<Rightarrow> Some fm
           | Some content_type_str \<Rightarrow>
               (case disk of
                  None \<Rightarrow> Some fm
                | Some file \<Rightarrow>
                    map_option (\<lambda>info. fm\<lparr>cache := table_insert relativepath info (cache fm)\<rparr>)
                      (new_file_info content_type_str file))))"

subsection \<open>add_folder, update_folder, flush_cache\<close>

text \<open>An exception leaves all the loops, which is \<open>None\<close>; the error of a subfolder is dropped.\<close>

fun add_folder :: "string \<Rightarrow> folder \<Rightarrow> filemap \<Rightarrow> (err_t \<times> filemap) option"
  and add_children :: "string \<Rightarrow> dirent list \<Rightarrow> filemap \<Rightarrow> filemap option"
where
  "add_folder path Unreadable fm = Some (GENERAL_FAILURE, fm)"
| "add_folder path (Folder children closed) fm =
     map_option (\<lambda>fm'. (if closed then SUCCESS else GENERAL_FAILURE, fm')) (add_children path children fm)"
| "add_children path [] fm = Some fm"
| "add_children path (child # children) fm =
     (if special_name (d_name child) then add_children path children fm
      else case child of
        DT_DIR name sub \<Rightarrow>
          Option.bind (add_folder (path @ name @ ''/'') sub fm) (\<lambda>(err, fm'). add_children path children fm')
      | DT_REG name data \<Rightarrow>
          Option.bind (add_file (path @ name) data fm) (add_children path children)
      | DT_OTHER name \<Rightarrow> add_children path children fm)"

definition flush_cache :: "filemap \<Rightarrow> filemap" where
  "flush_cache fm = fm\<lparr>cache := (\<lambda>_. None)\<rparr>"

definition insert_folder_mapping :: "string \<Rightarrow> string \<Rightarrow> filemap \<Rightarrow> filemap" where
  "insert_folder_mapping source destination fm =
     fm\<lparr>folder_mappings := list_insert source destination (folder_mappings fm),
        folder_reverse_mappings := (folder_reverse_mappings fm)(destination \<mapsto>
          (case folder_reverse_mappings fm destination of
             None \<Rightarrow> [source] | Some sources \<Rightarrow> sources @ [source]))\<rparr>"

definition update_mapping_step :: "string \<times> string \<Rightarrow> (string \<Rightarrow> file_info option) \<Rightarrow> string \<Rightarrow> file_info option" where
  "update_mapping_step map_pair cache_map =
     (case cache_map (snd map_pair) of
        None \<Rightarrow> cache_map
      | Some info \<Rightarrow> table_insert (fst map_pair) info cache_map)"

definition update_folder_mapping :: "filemap \<Rightarrow> filemap" where
  "update_folder_mapping fm = fm\<lparr>cache := fold update_mapping_step (folder_mappings fm) (cache fm)\<rparr>"

definition update_folder :: "(string \<Rightarrow> folder) \<Rightarrow> filemap \<Rightarrow> filemap option" where
  "update_folder disk fm =
     map_option (\<lambda>(err, fm'). update_folder_mapping fm') (add_folder ''/'' (disk (webfolder fm @ ''/'')) fm)"

definition insert_content_type :: "string \<Rightarrow> string \<Rightarrow> filemap \<Rightarrow> filemap" where
  "insert_content_type extension ctype fm =
     fm\<lparr>content_type_map := table_insert extension ctype (content_type_map fm)\<rparr>"

subsection \<open>webmaps\<close>

text \<open>The objects are in a list; a pointer is its index.\<close>

record webmaps =
  webportmaps :: "ipv6_port \<Rightarrow> nat option"
  webfoldermaps :: "(string \<times> nat) list"
  filemaps :: "filemap list"

definition new_webmaps :: webmaps where
  "new_webmaps = \<lparr>webportmaps = (\<lambda>_. None), webfoldermaps = [], filemaps = []\<rparr>"

definition web_add_folder :: "ipv6_port \<Rightarrow> string \<Rightarrow> webmaps \<Rightarrow> webmaps" where
  "web_add_folder port folder w =
     (let (maps, w') =
        (case map_of (webfoldermaps w) folder of
           None \<Rightarrow> (length (filemaps w),
                     w\<lparr>filemaps := filemaps w @ [new_filemap folder],
                       webfoldermaps := list_insert folder (length (filemaps w)) (webfoldermaps w)\<rparr>)
         | Some maps \<Rightarrow> (maps, w))
      in w'\<lparr>webportmaps := (webportmaps w')(port \<mapsto> maps)\<rparr>)"

text \<open>A method called through a pointer; a null or dangling pointer and an exception are \<open>None\<close>.\<close>

definition on_filemap :: "(filemap \<Rightarrow> filemap option) \<Rightarrow> nat \<Rightarrow> webmaps \<Rightarrow> webmaps option" where
  "on_filemap f p w =
     (if p < length (filemaps w)
      then map_option (\<lambda>fm. w\<lparr>filemaps := (filemaps w)[p := fm]\<rparr>) (f (filemaps w ! p)) else None)"

fun for_filemaps :: "(filemap \<Rightarrow> filemap option) \<Rightarrow> (string \<times> nat) list \<Rightarrow> webmaps \<Rightarrow> webmaps option" where
  "for_filemaps f [] w = Some w"
| "for_filemaps f (folder_pair # folder_pairs) w =
     Option.bind (on_filemap f (snd folder_pair) w) (for_filemaps f folder_pairs)"

definition update_twice :: "(string \<Rightarrow> folder) \<Rightarrow> filemap \<Rightarrow> filemap option" where
  "update_twice disk fm = map_option update_folder_mapping (update_folder disk fm)"

definition web_update_folder :: "(string \<Rightarrow> folder) \<Rightarrow> webmaps \<Rightarrow> webmaps option" where
  "web_update_folder disk w = for_filemaps (update_twice disk) (webfoldermaps w) w"

definition web_flush_cache :: "webmaps \<Rightarrow> webmaps option" where
  "web_flush_cache w = for_filemaps (Some \<circ> flush_cache) (webfoldermaps w) w"

definition on_folder :: "(filemap \<Rightarrow> filemap option) \<Rightarrow> string \<Rightarrow> webmaps \<Rightarrow> (err_t \<times> webmaps) option" where
  "on_folder f folder w =
     (case map_of (webfoldermaps w) folder of
        None \<Rightarrow> Some (HTTP_FILEMAP_NOT_FOUND, w)
      | Some pfilemap \<Rightarrow> map_option (\<lambda>w'. (SUCCESS, w')) (on_filemap f pfilemap w))"

definition web_update_folder_at :: "(string \<Rightarrow> folder) \<Rightarrow> string \<Rightarrow> webmaps \<Rightarrow> (err_t \<times> webmaps) option" where
  "web_update_folder_at disk folder w = on_folder (update_twice disk) folder w"

definition web_flush_cache_at :: "string \<Rightarrow> webmaps \<Rightarrow> (err_t \<times> webmaps) option" where
  "web_flush_cache_at folder w = on_folder (Some \<circ> flush_cache) folder w"

definition add_folder_mapping :: "string \<Rightarrow> string \<Rightarrow> string \<Rightarrow> webmaps \<Rightarrow> (err_t \<times> webmaps) option" where
  "add_folder_mapping folder source destination w =
     (if folder = ''*'' then
        map_option (\<lambda>w'. (SUCCESS, w'))
          (for_filemaps (Some \<circ> insert_folder_mapping source destination) (webfoldermaps w) w)
      else on_folder (Some \<circ> insert_folder_mapping source destination) folder w)"

definition add_content_type_mapping :: "string \<Rightarrow> string \<Rightarrow> string \<Rightarrow> webmaps \<Rightarrow> (err_t \<times> webmaps) option" where
  "add_content_type_mapping folder extension ctype w =
     (if folder = ''*'' then
        map_option (\<lambda>w'. (SUCCESS, w'))
          (for_filemaps (Some \<circ> insert_content_type extension ctype) (webfoldermaps w) w)
      else on_folder (Some \<circ> insert_content_type extension ctype) folder w)"

text \<open>\<open>getfilemap\<close>: the exception is \<open>Inl\<close>, a pointer to no object \<open>None\<close>.\<close>

definition getfilemap :: "ipv6_port \<Rightarrow> webmaps \<Rightarrow> (err_t + filemap) option" where
  "getfilemap port w =
     (case webportmaps w port of
        None \<Rightarrow> Some (Inl HTTP_FILEMAP_NOT_FOUND)
      | Some p \<Rightarrow> map_option Inr (load (filemaps w) p))"

subsection \<open>What the cache holds\<close>

lemma table_insert_add: "table_insert k v m = [k \<mapsto> v] ++ m"
  by (auto simp: table_insert_def map_add_def fun_eq_iff split: option.splits)

text \<open>Specification: the regular files below a folder that can be read, with their paths.\<close>

fun readable_files :: "string \<Rightarrow> folder \<Rightarrow> (string \<times> regular_file) list"
  and child_files :: "string \<Rightarrow> dirent list \<Rightarrow> (string \<times> regular_file) list"
where
  "readable_files path Unreadable = []"
| "readable_files path (Folder children closed) = child_files path children"
| "child_files path [] = []"
| "child_files path (child # children) =
     (if special_name (d_name child) then []
      else case child of
        DT_DIR name sub \<Rightarrow> readable_files (path @ name @ ''/'') sub
      | DT_REG name (Some file) \<Rightarrow> [(path @ name, file)]
      | _ \<Rightarrow> []) @ child_files path children"

text \<open>The type of a file by the text after the last period of its path, and its entry in the cache.\<close>

definition type_of_path :: "(string \<Rightarrow> string option) \<Rightarrow> string \<Rightarrow> string option" where
  "type_of_path types path = Option.bind (rfind CHR ''.'' path) (\<lambda>i. types (drop (i + 1) path))"

definition servable :: "(string \<Rightarrow> string option) \<Rightarrow> (string \<times> regular_file) list \<Rightarrow> (string \<times> regular_file) list" where
  "servable types files = List.filter (\<lambda>(path, file). type_of_path types path \<noteq> None) files"

definition file_entry :: "(string \<Rightarrow> string option) \<Rightarrow> string \<times> regular_file \<Rightarrow> string \<times> file_info" where
  "file_entry types pf =
     (fst pf, \<lparr>content = rf_data (snd pf), content_type = the (type_of_path types (fst pf)) @ [NUL],
               etags = to_string64_hash True (get_etags (snd pf))\<rparr>)"

definition file_entries :: "(string \<Rightarrow> string option) \<Rightarrow> (string \<times> regular_file) list \<Rightarrow> (string \<times> file_info) list" where
  "file_entries types files = List.map (file_entry types) (servable types files)"

definition small_file :: "string \<times> regular_file \<Rightarrow> bool" where
  "small_file pf \<longleftrightarrow> length (rf_data (snd pf)) < 2 ^ 31"

lemma file_entries_simps [simp]:
  "file_entries types [] = []"
  "file_entries types (xs @ ys) = file_entries types xs @ file_entries types ys"
  by (auto simp: file_entries_def servable_def)

lemma sint_of_small: "n < 2 ^ 31 \<Longrightarrow> sint (word_of_nat n :: u32) = int n"
  by (simp add: signed_of_nat signed_take_bit_int_eq_self)

lemma new_file_info_small:
  "length (rf_data file) < 2 ^ 31 \<Longrightarrow>
   new_file_info t file = Some \<lparr>content = rf_data file, content_type = t @ [NUL],
     etags = to_string64_hash True (get_etags file)\<rparr>"
  by (simp add: new_file_info_def sint_of_small)

lemma add_file_unreadable [simp]: "add_file path None fm = Some fm"
  by (simp add: add_file_def split: option.split)

lemma add_file_small:
  assumes "small_file (path, file)"
  shows "add_file path (Some file) fm =
    Some (fm\<lparr>cache := map_of (file_entries (content_type_map fm) [(path, file)]) ++ cache fm\<rparr>)"
proof (cases "type_of_path (content_type_map fm) path")
  case None
  then show ?thesis
    by (auto simp: add_file_def type_of_path_def file_entries_def servable_def split: option.splits)
next
  case (Some t)
  then show ?thesis
    using assms
    by (auto simp: add_file_def type_of_path_def file_entries_def servable_def file_entry_def small_file_def
          new_file_info_small table_insert_add split: option.splits bind_splits)
qed

lemma add_folder_files:
  "list_all small_file (readable_files path f) \<Longrightarrow>
   \<exists>err. add_folder path f fm =
     Some (err, fm\<lparr>cache := map_of (file_entries (content_type_map fm) (readable_files path f)) ++ cache fm\<rparr>)"
  "list_all small_file (child_files path children) \<Longrightarrow>
   add_children path children fm =
     Some (fm\<lparr>cache := map_of (file_entries (content_type_map fm) (child_files path children)) ++ cache fm\<rparr>)"
proof (induction path f fm and path children fm rule: add_folder_add_children.induct)
  case (4 path child children fm)
  show ?case
  proof (cases "special_name (d_name child)")
    case True
    then show ?thesis using 4 by simp
  next
    case False
    show ?thesis
    proof (cases child)
      case (DT_DIR name sub)
      then obtain err where "add_folder (path @ name @ ''/'') sub fm = Some (err, fm\<lparr>cache :=
          map_of (file_entries (content_type_map fm) (readable_files (path @ name @ ''/'') sub)) ++ cache fm\<rparr>)"
        using 4(2) [OF False DT_DIR] 4(6) False by auto
      then show ?thesis
        using 4(3) [OF False DT_DIR, of "(err, fm\<lparr>cache :=
          map_of (file_entries (content_type_map fm) (readable_files (path @ name @ ''/'') sub)) ++ cache fm\<rparr>)"]
          4(6) False DT_DIR by simp
    next
      case (DT_REG name data)
      then show ?thesis
        using 4(4) [OF False DT_REG] 4(6) False
          file_entries_simps(2) [of "content_type_map fm" "[(path @ name, the data)]" "child_files path children"]
        by (cases data) (auto simp: add_file_small)
    next
      case (DT_OTHER name)
      then show ?thesis using 4 False by simp
    qed
  qed
qed auto

subsection \<open>Folder mappings\<close>

lemma update_mapping_step_at:
  "update_mapping_step kv m path =
     (case m path of Some info \<Rightarrow> Some info | None \<Rightarrow> if path = fst kv then m (snd kv) else None)"
  by (auto simp: update_mapping_step_def table_insert_def split: option.split)

lemma mapping_fold_keeps: "m path = Some info \<Longrightarrow> fold update_mapping_step kvs m path = Some info"
proof (induction kvs arbitrary: m)
  case (Cons kv kvs)
  then show ?case using Cons.IH [of "update_mapping_step kv m"] update_mapping_step_at [of kv m path] by simp
qed simp

lemma mapping_fold_other: "path \<notin> fst ` set kvs \<Longrightarrow> fold update_mapping_step kvs m path = m path"
proof (induction kvs arbitrary: m)
  case (Cons kv kvs)
  then show ?case
    using update_mapping_step_at [of kv m path] by (simp split: option.splits)
qed simp

lemma mapping_fold_source:
  assumes "distinct (List.map fst kvs)" "(source, dest) \<in> set kvs" "dest \<notin> fst ` set kvs"
  shows "fold update_mapping_step kvs m source = (case m source of Some info \<Rightarrow> Some info | None \<Rightarrow> m dest)"
  using assms
proof (induction kvs arbitrary: m)
  case (Cons kv kvs)
  note step = update_mapping_step_at [of kv m source] update_mapping_step_at [of kv m dest]
  show ?case
  proof (cases "kv = (source, dest)")
    case True
    then have "source \<notin> fst ` set kvs" using Cons.prems(1) by simp
    then show ?thesis using True step by (simp add: mapping_fold_other split: option.splits)
  next
    case False
    then have "(source, dest) \<in> set kvs" "source \<noteq> fst kv" "dest \<noteq> fst kv"
      using Cons.prems by (auto simp: image_iff)
    then show ?thesis
      using Cons.IH [of "update_mapping_step kv m"] Cons.prems step by (simp split: option.splits)
  qed
qed simp

text \<open>A mapping whose destination is the source of another one depends on the order of the table.\<close>

definition unchained :: "(string \<times> string) list \<Rightarrow> bool" where
  "unchained kvs \<longleftrightarrow> list_all (\<lambda>(source, dest). dest \<notin> fst ` set kvs) kvs"

definition mapped :: "(string \<times> string) list \<Rightarrow> (string \<Rightarrow> 'a option) \<Rightarrow> string \<Rightarrow> 'a option" where
  "mapped kvs m path =
     (case m path of Some info \<Rightarrow> Some info | None \<Rightarrow> Option.bind (map_of kvs path) m)"

lemma mapping_fold:
  assumes "distinct (List.map fst kvs)" "unchained kvs"
  shows "fold update_mapping_step kvs m = mapped kvs m"
proof
  fix path
  show "fold update_mapping_step kvs m path = mapped kvs m path"
  proof (cases "map_of kvs path")
    case None
    then have "path \<notin> fst ` set kvs" by (simp add: map_of_eq_None_iff)
    then show ?thesis using None by (auto simp: mapping_fold_other mapped_def split: option.split)
  next
    case (Some dest)
    then have "(path, dest) \<in> set kvs" by (simp add: map_of_SomeD)
    moreover from this have "dest \<notin> fst ` set kvs" using assms(2) by (auto simp: unchained_def list_all_iff)
    ultimately show ?thesis
      using assms(1) Some by (auto simp: mapping_fold_source mapped_def split: option.split)
  qed
qed

lemma mapped_dest: "unchained kvs \<Longrightarrow> map_of kvs path = Some dest \<Longrightarrow> mapped kvs m dest = m dest"
  by (auto simp: unchained_def list_all_iff mapped_def map_of_eq_None_iff [symmetric] split: option.splits
      dest!: map_of_SomeD)

lemma mapped_mapped:
  assumes "unchained kvs"
  shows "mapped kvs (mapped kvs m) = mapped kvs m"
proof
  fix path
  show "mapped kvs (mapped kvs m) path = mapped kvs m path"
    using mapped_dest [OF assms, of path _ m]
    by (cases "m path"; cases "map_of kvs path")
      (simp_all add: mapped_def [of kvs "mapped kvs m" path] mapped_def [of kvs m path] split: option.split)
qed

text \<open>A cached file: the entity tag and the content type end in NUL, the size fits an \<open>int\<close>.\<close>

definition etags_size :: nat where
  "etags_size = to_string64_hash_size 64 True"

definition info_ok :: "file_info \<Rightarrow> bool" where
  "info_ok info \<longleftrightarrow> length (content info) < 2 ^ 31 \<and> (\<exists>t. content_type info = t @ [NUL]) \<and>
     (\<exists>tag. length tag = 11 \<and> etags info = tag @ [NUL])"

definition cache_ok :: "(string \<Rightarrow> file_info option) \<Rightarrow> bool" where
  "cache_ok m \<longleftrightarrow> (\<forall>path info. m path = Some info \<longrightarrow> info_ok info)"

definition filemap_ok :: "filemap \<Rightarrow> bool" where
  "filemap_ok fm \<longleftrightarrow> distinct (List.map fst (folder_mappings fm)) \<and> cache_ok (cache fm)"

lemma new_file_info_ok: "new_file_info t file = Some info \<Longrightarrow> info_ok info"
proof -
  assume a: "new_file_info t file = Some info"
  let ?size = "sint (word_of_nat (length (rf_data file)) :: u32)"
  have "?size < 2 ^ 31" using sint_lt [of "word_of_nat (length (rf_data file)) :: u32"] by simp
  then have "nat ?size < 2 ^ 31" by simp
  then have "length (take (nat ?size) (rf_data file)) < 2 ^ 31" by simp
  moreover have "length (to_string64_hash True (get_etags file)) = 12"
    by (simp add: length_to_string64_hash to_string64_hash_size_def)
  moreover have "\<exists>tag. to_string64_hash True (get_etags file) = tag @ [NUL]" by (simp add: to_string64_hash_def)
  ultimately show ?thesis using a by (auto simp: new_file_info_def info_ok_def Let_def split: if_splits)
qed

lemma cache_ok_insert: "cache_ok m \<Longrightarrow> info_ok info \<Longrightarrow> cache_ok (table_insert path info m)"
  by (auto simp: cache_ok_def table_insert_def)

lemma cache_ok_add_file: "add_file path data fm = Some fm' \<Longrightarrow> cache_ok (cache fm) \<Longrightarrow> cache_ok (cache fm')"
  using cache_ok_insert new_file_info_ok by (fastforce simp: add_file_def split: option.splits)

lemma cache_ok_add_folder:
  "add_folder path f fm = Some (err, fm') \<Longrightarrow> cache_ok (cache fm) \<Longrightarrow> cache_ok (cache fm')"
  "add_children path children fm = Some fm' \<Longrightarrow> cache_ok (cache fm) \<Longrightarrow> cache_ok (cache fm')"
proof (induction path f fm and path children fm arbitrary: err fm' and fm' rule: add_folder_add_children.induct)
  case (4 path child children fm)
  show ?case
  proof (cases "special_name (d_name child)")
    case True
    then show ?thesis using 4 by simp
  next
    case False
    show ?thesis
    proof (cases child)
      case (DT_DIR name sub)
      then obtain err fm1 where 1: "add_folder (path @ name @ ''/'') sub fm = Some (err, fm1)"
          "add_children path children fm1 = Some fm'"
        using 4(6) False by (auto simp: bind_Some_iff)
      show ?thesis by (rule 4(3) [OF False DT_DIR 1(1) refl 1(2) 4(2) [OF False DT_DIR 1(1) 4(7)]])
    next
      case (DT_REG name data)
      then obtain fm1 where 1: "add_file (path @ name) data fm = Some fm1" "add_children path children fm1 = Some fm'"
        using 4(6) False by (auto simp: bind_Some_iff)
      show ?thesis by (rule 4(4) [OF False DT_REG 1 cache_ok_add_file [OF 1(1) 4(7)]])
    next
      case (DT_OTHER name)
      then show ?thesis using 4 False by simp
    qed
  qed
qed auto

lemma cache_ok_mapping: "cache_ok m \<Longrightarrow> cache_ok (fold update_mapping_step kvs m)"
proof (induction kvs arbitrary: m)
  case (Cons kv kvs)
  have "cache_ok (update_mapping_step kv m)"
    using Cons.prems by (auto simp: update_mapping_step_def cache_ok_def table_insert_def split: option.splits)
  then show ?case using Cons.IH by simp
qed simp

definition disk_files :: "(string \<Rightarrow> folder) \<Rightarrow> filemap \<Rightarrow> (string \<times> regular_file) list" where
  "disk_files disk fm = readable_files ''/'' (disk (webfolder fm @ ''/''))"

lemma update_twice_files:
  assumes "list_all small_file (disk_files disk fm)"
  shows "update_twice disk fm = Some (update_folder_mapping (update_folder_mapping
    (fm\<lparr>cache := map_of (file_entries (content_type_map fm) (disk_files disk fm)) ++ cache fm\<rparr>)))"
  using add_folder_files(1) [OF assms [unfolded disk_files_def], of fm]
  by (auto simp: update_twice_def update_folder_def disk_files_def)

lemma update_twice_unchained:
  assumes "list_all small_file (disk_files disk fm)" "filemap_ok fm" "unchained (folder_mappings fm)"
  shows "update_twice disk fm = Some (fm\<lparr>cache := mapped (folder_mappings fm)
    (map_of (file_entries (content_type_map fm) (disk_files disk fm)) ++ cache fm)\<rparr>)"
  using assms
  by (simp add: update_twice_files update_folder_mapping_def mapping_fold filemap_ok_def mapped_mapped)

lemma list_insert_distinct: "distinct (List.map fst kvs) \<Longrightarrow> distinct (List.map fst (list_insert k v kvs))"
  by (auto simp: list_insert_def map_of_eq_None_iff)

subsection \<open>The table of the web folders\<close>

text \<open>Every folder has one object of its own, every port leads to the object of a folder.\<close>

definition webmaps_ok :: "webmaps \<Rightarrow> bool" where
  "webmaps_ok w \<longleftrightarrow>
     List.map snd (webfoldermaps w) = [0..<length (filemaps w)] \<and>
     List.map fst (webfoldermaps w) = List.map webfolder (filemaps w) \<and>
     distinct (List.map webfolder (filemaps w)) \<and>
     list_all filemap_ok (filemaps w) \<and>
     (\<forall>port p. webportmaps w port = Some p \<longrightarrow> p < length (filemaps w))"

text \<open>An operation on one object that keeps its folder and the keys of its mappings distinct.\<close>

definition keeps_folder :: "(filemap \<Rightarrow> filemap option) \<Rightarrow> bool" where
  "keeps_folder f \<longleftrightarrow>
     (\<forall>fm fm'. f fm = Some fm' \<longrightarrow> webfolder fm' = webfolder fm \<and> (filemap_ok fm \<longrightarrow> filemap_ok fm'))"

lemma only_cache_trans:
  "fm1 = fm\<lparr>cache := cache fm1\<rparr> \<Longrightarrow> fm' = fm1\<lparr>cache := cache fm'\<rparr> \<Longrightarrow> fm' = fm\<lparr>cache := cache fm'\<rparr>"
  by (cases fm; cases fm1; cases fm') simp

lemma add_file_same: "add_file path data fm = Some fm' \<Longrightarrow> fm' = fm\<lparr>cache := cache fm'\<rparr>"
  by (auto simp: add_file_def split: option.splits)

lemma add_folder_same:
  "add_folder path f fm = Some (err, fm') \<Longrightarrow> fm' = fm\<lparr>cache := cache fm'\<rparr>"
  "add_children path children fm = Some fm' \<Longrightarrow> fm' = fm\<lparr>cache := cache fm'\<rparr>"
proof (induction path f fm and path children fm arbitrary: err fm' and fm' rule: add_folder_add_children.induct)
  case (4 path child children fm)
  show ?case
  proof (cases "special_name (d_name child)")
    case True
    then show ?thesis using 4 by simp
  next
    case False
    show ?thesis
    proof (cases child)
      case (DT_DIR name sub)
      then obtain err fm1 where 1: "add_folder (path @ name @ ''/'') sub fm = Some (err, fm1)"
          "add_children path children fm1 = Some fm'"
        using 4(6) False by (auto simp: bind_Some_iff)
      then show ?thesis
        using only_cache_trans [OF 4(2) [OF False DT_DIR 1(1)] 4(3) [OF False DT_DIR 1(1) refl 1(2)]] by simp
    next
      case (DT_REG name data)
      then obtain fm1 where 1: "add_file (path @ name) data fm = Some fm1" "add_children path children fm1 = Some fm'"
        using 4(6) False by (auto simp: bind_Some_iff)
      then show ?thesis using only_cache_trans [OF add_file_same [OF 1(1)] 4(4) [OF False DT_REG 1]] by simp
    next
      case (DT_OTHER name)
      then show ?thesis using 4 False by simp
    qed
  qed
qed auto

lemma update_twice_same: "update_twice disk fm = Some fm' \<Longrightarrow> fm' = fm\<lparr>cache := cache fm'\<rparr>"
  by (auto simp: update_twice_def update_folder_def update_folder_mapping_def dest!: add_folder_same(1))
    (metis filemap.surjective filemap.update_convs(5))+

lemma keeps_folder_update [intro]: "keeps_folder (update_twice disk)"
  unfolding keeps_folder_def
proof (intro allI impI)
  fix fm fm'
  assume "update_twice disk fm = Some fm'"
  then have "fm' = fm\<lparr>cache := cache fm'\<rparr>" by (rule update_twice_same)
  then have "webfolder fm' = webfolder fm" "folder_mappings fm' = folder_mappings fm"
    by (metis filemap.select_convs filemap.surjective filemap.update_convs(5))+
  moreover have "cache_ok (cache fm')" if "cache_ok (cache fm)"
    using \<open>update_twice disk fm = Some fm'\<close> cache_ok_add_folder(1) [OF _ that]
    by (auto simp: update_twice_def update_folder_def update_folder_mapping_def cache_ok_mapping)
  ultimately show "webfolder fm' = webfolder fm \<and> (filemap_ok fm \<longrightarrow> filemap_ok fm')" by (simp add: filemap_ok_def)
qed

lemma keeps_folder_other [intro]:
  "keeps_folder (Some \<circ> flush_cache)" "keeps_folder (Some \<circ> insert_folder_mapping source dest)"
  "keeps_folder (Some \<circ> insert_content_type extension ctype)"
  by (auto simp: keeps_folder_def flush_cache_def insert_folder_mapping_def insert_content_type_def
      filemap_ok_def cache_ok_def list_insert_distinct)

lemma webmaps_ok_on_filemap:
  assumes "webmaps_ok w" "keeps_folder f" "on_filemap f p w = Some w'"
  shows "webmaps_ok w'"
proof -
  obtain fm where fm: "p < length (filemaps w)" "f (filemaps w ! p) = Some fm"
      "w' = w\<lparr>filemaps := (filemaps w)[p := fm]\<rparr>"
    using assms(3) by (auto simp: on_filemap_def split: if_splits)
  then have fm_ok: "webfolder fm = webfolder (filemaps w ! p)" "filemap_ok fm"
    using assms(1, 2) by (auto simp: keeps_folder_def webmaps_ok_def list_all_length)
  have "List.map webfolder ((filemaps w)[p := fm]) = List.map webfolder (filemaps w)"
    using fm(1) fm_ok(1) by (simp add: map_update list_update_same_conv)
  moreover have "list_all filemap_ok ((filemaps w)[p := fm])"
    using assms(1) fm(1) fm_ok(2) by (auto simp: webmaps_ok_def list_all_length nth_list_update)
  ultimately show ?thesis
    using assms(1) fm(3) by (auto simp: webmaps_ok_def)
qed

lemma webmaps_ok_for_filemaps:
  "webmaps_ok w \<Longrightarrow> keeps_folder f \<Longrightarrow> for_filemaps f kvs w = Some w' \<Longrightarrow> webmaps_ok w'"
  by (induction kvs arbitrary: w) (auto simp: bind_Some_iff intro: webmaps_ok_on_filemap)

lemma webmaps_ok_on_folder:
  "webmaps_ok w \<Longrightarrow> keeps_folder f \<Longrightarrow> on_folder f folder w = Some (err, w') \<Longrightarrow> webmaps_ok w'"
  by (auto simp: on_folder_def split: option.splits intro: webmaps_ok_on_filemap)

lemma webmaps_ok_add_folder:
  assumes "webmaps_ok w"
  shows "webmaps_ok (web_add_folder port folder w)"
proof (cases "map_of (webfoldermaps w) folder")
  case None
  then have "folder \<notin> set (List.map webfolder (filemaps w))"
    using assms by (metis webmaps_ok_def map_of_eq_None_iff set_map)
  then show ?thesis
    using assms None
    by (auto simp: web_add_folder_def webmaps_ok_def Let_def list_insert_def new_filemap_def filemap_ok_def cache_ok_def less_Suc_eq)
next
  case (Some p)
  then have "p \<in> set (List.map snd (webfoldermaps w))" by (force dest: map_of_SomeD)
  then have "p < length (filemaps w)" using assms by (simp only: webmaps_ok_def set_upt) simp
  then show ?thesis using assms Some by (auto simp: web_add_folder_def webmaps_ok_def Let_def)
qed

subsection \<open>The states the server can reach\<close>

text \<open>
  \<open>receive_event_finalize\<close> of deviceserver/include/httpfilewatcher.hh: after an event in a watched
  folder all caches are emptied and filled again.
\<close>

definition receive_event_finalize :: "(string \<Rightarrow> folder) \<Rightarrow> webmaps \<Rightarrow> webmaps option" where
  "receive_event_finalize disk w = Option.bind (web_flush_cache w) (web_update_folder disk)"

inductive web_reachable :: "webmaps \<Rightarrow> bool" where
  start: "web_reachable new_webmaps"
| folder: "web_reachable w \<Longrightarrow> web_reachable (web_add_folder port path w)"
| mapping: "web_reachable w \<Longrightarrow> add_folder_mapping path source dest w = Some (err, w') \<Longrightarrow> web_reachable w'"
| ctype: "web_reachable w \<Longrightarrow> add_content_type_mapping path extension ctype w = Some (err, w') \<Longrightarrow> web_reachable w'"
| update: "web_reachable w \<Longrightarrow> web_update_folder disk w = Some w' \<Longrightarrow> web_reachable w'"
| update_at: "web_reachable w \<Longrightarrow> web_update_folder_at disk path w = Some (err, w') \<Longrightarrow> web_reachable w'"
| flush: "web_reachable w \<Longrightarrow> web_flush_cache w = Some w' \<Longrightarrow> web_reachable w'"
| flush_at: "web_reachable w \<Longrightarrow> web_flush_cache_at path w = Some (err, w') \<Longrightarrow> web_reachable w'"

lemma web_reachable_ok: "web_reachable w \<Longrightarrow> webmaps_ok w"
proof (induction rule: web_reachable.induct)
  case start
  show ?case by (simp add: new_webmaps_def webmaps_ok_def)
next
  case (folder w port path)
  then show ?case by (simp add: webmaps_ok_add_folder)
qed (auto simp: add_folder_mapping_def add_content_type_mapping_def web_update_folder_def web_update_folder_at_def
      web_flush_cache_def web_flush_cache_at_def split: if_splits
      intro: webmaps_ok_on_folder webmaps_ok_for_filemaps)

lemma getfilemap_cache_ok:
  "web_reachable w \<Longrightarrow> getfilemap port w = Some (Inr fm) \<Longrightarrow> cache_ok (cache fm)"
  using web_reachable_ok [of w]
  by (auto simp: getfilemap_def load_Some_iff webmaps_ok_def list_all_length filemap_ok_def split: option.splits)

lemma for_filemaps_from:
  assumes "List.map snd kvs = [k..<length (filemaps w)]" "list_all (\<lambda>fm. f fm \<noteq> None) (drop k (filemaps w))"
  shows "for_filemaps f kvs w =
    Some (w\<lparr>filemaps := take k (filemaps w) @ List.map (the \<circ> f) (drop k (filemaps w))\<rparr>)"
  using assms
proof (induction kvs arbitrary: k w)
  case Nil
  then have "[k..<length (filemaps w)] = []" by simp
  then have "length (filemaps w) \<le> k" by (auto simp: upt_eq_Nil_conv)
  then show ?case by simp
next
  case (Cons kv kvs)
  have "List.map snd (kv # kvs) \<noteq> []" by simp
  then have k: "k < length (filemaps w)"
    using Cons.prems(1) by (metis upt_eq_Nil_conv not_le_imp_less)
  from Cons.prems(1) k have kv: "snd kv = k" "List.map snd kvs = [Suc k..<length (filemaps w)]"
    by (simp_all add: upt_conv_Cons)
  obtain fm where fm: "f (filemaps w ! k) = Some fm"
    using Cons.prems(2) k by (auto simp: Cons_nth_drop_Suc [symmetric])
  let ?w = "w\<lparr>filemaps := (filemaps w)[k := fm]\<rparr>"
  have "for_filemaps f kvs ?w =
      Some (?w\<lparr>filemaps := take (Suc k) (filemaps ?w) @ List.map (the \<circ> f) (drop (Suc k) (filemaps ?w))\<rparr>)"
    using Cons.IH [of "Suc k" ?w] kv(2) Cons.prems(2) k
    by (simp add: drop_update_cancel) (simp add: Cons_nth_drop_Suc [symmetric])
  then show ?case
    using k kv(1) fm
    by (simp add: on_filemap_def take_Suc_conv_app_nth Cons_nth_drop_Suc [symmetric] drop_update_cancel)
qed

lemma for_filemaps_all:
  assumes "webmaps_ok w" "list_all (\<lambda>fm. f fm \<noteq> None) (filemaps w)"
  shows "for_filemaps f (webfoldermaps w) w = Some (w\<lparr>filemaps := List.map (the \<circ> f) (filemaps w)\<rparr>)"
  using for_filemaps_from [of "webfoldermaps w" 0 w f] assms by (simp add: webmaps_ok_def)

definition files_small :: "(string \<Rightarrow> folder) \<Rightarrow> webmaps \<Rightarrow> bool" where
  "files_small disk w \<longleftrightarrow> list_all (\<lambda>fm. list_all small_file (disk_files disk fm)) (filemaps w)"

lemma receive_event_finalize_all:
  assumes "webmaps_ok w" "files_small disk w"
  shows "receive_event_finalize disk w =
    Some (w\<lparr>filemaps := List.map (\<lambda>fm. the (update_twice disk (flush_cache fm))) (filemaps w)\<rparr>)"
proof -
  have flush: "web_flush_cache w = Some (w\<lparr>filemaps := List.map flush_cache (filemaps w)\<rparr>)" (is "_ = Some ?w")
    using for_filemaps_all [OF assms(1), of "Some \<circ> flush_cache"] by (simp add: web_flush_cache_def o_def list_all_iff)
  have "webmaps_ok ?w"
    using webmaps_ok_for_filemaps [OF assms(1) keeps_folder_other(1)] flush by (simp add: web_flush_cache_def)
  moreover have "list_all (\<lambda>fm. update_twice disk fm \<noteq> None) (filemaps ?w)"
    using assms(2)
    by (auto simp: files_small_def list_all_iff update_twice_files disk_files_def flush_cache_def)
  ultimately have "web_update_folder disk ?w = Some (?w\<lparr>filemaps := List.map (the \<circ> update_twice disk) (filemaps ?w)\<rparr>)"
    unfolding web_update_folder_def by (rule for_filemaps_all)
  then show ?thesis using flush by (simp add: receive_event_finalize_def o_def)
qed

text \<open>
  C13: Whatever the server was told about its folders, types and mappings before, after an event of
  the watcher the cache of every port holds the readable files of its folder that have a known type,
  with their present content, and the sources of the mappings with the file they stand for, and
  nothing else (provided no destination is the source of another mapping and no file has 2 GB).
\<close>

theorem watched_folder_served:
  assumes "web_reachable w" "files_small disk w"
    and "getfilemap port w = Some (Inr fm)" "unchained (folder_mappings fm)"
  shows "\<exists>w' fm'. receive_event_finalize disk w = Some w' \<and> getfilemap port w' = Some (Inr fm') \<and>
    cache fm' = mapped (folder_mappings fm)
      (map_of (file_entries (content_type_map fm) (readable_files ''/'' (disk (webfolder fm @ ''/'')))))"
proof -
  have ok: "webmaps_ok w" using assms(1) by (rule web_reachable_ok)
  obtain p where p: "webportmaps w port = Some p" "p < length (filemaps w)" "filemaps w ! p = fm"
    using assms(3) by (auto simp: getfilemap_def load_Some_iff split: option.splits)
  have "list_all small_file (disk_files disk (flush_cache fm))" "filemap_ok (flush_cache fm)"
    using assms(2) ok p(2, 3)
    by (auto simp: files_small_def webmaps_ok_def list_all_length disk_files_def flush_cache_def filemap_ok_def cache_ok_def)
  then have "update_twice disk (flush_cache fm) = Some (fm\<lparr>cache := mapped (folder_mappings fm)
      (map_of (file_entries (content_type_map fm) (disk_files disk fm)))\<rparr>)"
    using update_twice_unchained [of disk "flush_cache fm"] assms(4) by (simp add: flush_cache_def disk_files_def)
  then show ?thesis
    using receive_event_finalize_all [OF ok assms(2)] p
    by (simp add: getfilemap_def load_def disk_files_def)
qed

definition demo_file :: regular_file where
  "demo_file = \<lparr>rf_data = [104, 105], rf_mtime_sec = 1, rf_mtime_nsec = 0\<rparr>"

definition demo_disk :: "string \<Rightarrow> folder" where
  "demo_disk path = Folder [DT_DIR ''.'' Unreadable, DT_REG ''a.html'' (Some demo_file)] True"

definition demo_webmaps :: "webmaps option" where
  "demo_webmaps =
     Option.bind (add_content_type_mapping ''*'' ''html'' ''text/html'' (web_add_folder (ipv6_port_of 80) ''/www'' new_webmaps))
       (\<lambda>(_, w). map_option snd (add_folder_mapping ''/www'' ''/'' ''/a.html'' w))"

lemmas demo_eval = demo_webmaps_def add_content_type_mapping_def web_add_folder_def new_webmaps_def
  list_insert_def on_filemap_def new_filemap_def insert_content_type_def table_insert_def
  add_folder_mapping_def on_folder_def insert_folder_mapping_def

lemma demo_webmaps: "demo_webmaps = Some
    \<lparr>webportmaps = [ipv6_port_of 80 \<mapsto> 0], webfoldermaps = [(''/www'', 0)],
     filemaps = [\<lparr>folder_mappings = [(''/'', ''/a.html'')], folder_reverse_mappings = [''/a.html'' \<mapsto> [''/'']],
       content_type_map = [''html'' \<mapsto> ''text/html''], webfolder = ''/www'', cache = (\<lambda>_. None)\<rparr>]\<rparr>"
  by (simp add: demo_eval)

lemma demo_reachable: "web_reachable (the demo_webmaps)"
proof (cases "add_content_type_mapping ''*'' ''html'' ''text/html'' (web_add_folder (ipv6_port_of 80) ''/www'' new_webmaps)")
  case None
  then show ?thesis using demo_webmaps unfolding demo_webmaps_def by (simp only: bind.simps option.distinct)
next
  case (Some r1)
  obtain err w1 where r1: "r1 = (err, w1)" by (cases r1)
  show ?thesis
  proof (cases "add_folder_mapping ''/www'' ''/'' ''/a.html'' w1")
    case None
    then show ?thesis
      using demo_webmaps unfolding demo_webmaps_def Some r1
      by (simp only: bind.simps prod.case option.map option.distinct)
  next
    case (Some r2)
    obtain err' w2 where r2: "r2 = (err', w2)" by (cases r2)
    have "web_reachable w2"
      using web_reachable.mapping [OF web_reachable.ctype [OF web_reachable.folder [OF web_reachable.start]]]
        \<open>_ = Some r1\<close> Some unfolding r1 r2 by blast
    then show ?thesis
      unfolding demo_webmaps_def \<open>_ = Some r1\<close> r1
      by (simp only: bind.simps prod.case Some r2 option.map option.sel snd_conv)
  qed
qed

theorem watched_folder_served_witness:
  "\<exists>w' fm'. receive_event_finalize demo_disk (the demo_webmaps) = Some w' \<and>
     getfilemap (ipv6_port_of 80) w' = Some (Inr fm') \<and>
     cache fm' ''/'' = Some \<lparr>content = [104, 105], content_type = ''text/html'' @ [NUL],
       etags = to_string64_hash True (get_etags demo_file)\<rparr> \<and>
     cache fm' ''/b.html'' = None"
proof -
  obtain fm where fm: "getfilemap (ipv6_port_of 80) (the demo_webmaps) = Some (Inr fm)"
      "folder_mappings fm = [(''/'', ''/a.html'')]" "content_type_map fm = [''html'' \<mapsto> ''text/html'']"
    by (simp add: demo_webmaps getfilemap_def)
  let ?info = "\<lparr>content = [104, 105], content_type = ''text/html'' @ [NUL],
    etags = to_string64_hash True (get_etags demo_file)\<rparr>"
  have small: "files_small demo_disk (the demo_webmaps)"
    by (simp add: files_small_def demo_webmaps disk_files_def demo_disk_def special_name_def small_file_def demo_file_def)
  have unchained: "unchained (folder_mappings fm)" by (simp add: fm unchained_def)
  have files: "readable_files ''/'' (demo_disk path) = [(''/a.html'', demo_file)]" for path
    by (simp add: demo_disk_def special_name_def)
  have entries: "file_entries (content_type_map fm) [(''/a.html'', demo_file)] = [(''/a.html'', ?info)]"
    by (simp add: fm file_entries_def servable_def file_entry_def type_of_path_def demo_file_def)
  have cached: "mapped (folder_mappings fm) (map_of [(''/a.html'', ?info)]) ''/'' = Some ?info"
      "mapped (folder_mappings fm) (map_of [(''/a.html'', ?info)]) ''/b.html'' = None"
    by (simp_all add: fm mapped_def)
  obtain w' fm' where new: "receive_event_finalize demo_disk (the demo_webmaps) = Some w'"
      "getfilemap (ipv6_port_of 80) w' = Some (Inr fm')"
      "cache fm' = mapped (folder_mappings fm) (map_of [(''/a.html'', ?info)])"
    using watched_folder_served [OF demo_reachable small fm(1) unchained, unfolded files entries] by (elim exE conjE)
  show ?thesis
    by (rule exI [of _ w'], rule exI [of _ fm'], intro conjI, rule new(1), rule new(2))
      (simp_all only: new(3) cached)
qed

text \<open>Without emptying the cache first, a file that has changed keeps its old content.\<close>

lemma update_keeps_stale:
  assumes "list_all small_file (disk_files disk fm)" "cache fm path = Some info" "update_twice disk fm = Some fm'"
  shows "cache fm' path = Some info"
  using assms(2, 3) by (auto simp: update_twice_files [OF assms(1)] update_folder_mapping_def mapping_fold_keeps)

text \<open>Two mappings in a chain: what the first one gives depends on the order of the hash table.\<close>

lemma chained_mapping_order:
  assumes "m ''/c'' = Some info" "m ''/a'' = None" "m ''/b'' = None"
  shows "fold update_mapping_step [(''/a'', ''/b''), (''/b'', ''/c'')] m ''/a'' = None"
    and "fold update_mapping_step [(''/b'', ''/c''), (''/a'', ''/b'')] m ''/a'' = Some info"
  using assms by (simp_all add: update_mapping_step_def table_insert_def)

end
