(* ===== verification/Watcher.thy ===== *)
theory Watcher
  imports FileMap
begin

text \<open>
  serverlib/include/iot/watcher/filewatcherevent.hh with deviceserver/include/httpfilewatcher.hh: the
  watcher of the web folders.  The events inotify delivers, the watch descriptors it gives and the
  folders on the disk are arguments.
\<close>

subsection \<open>The state and add_folder\<close>

record filewatcher =
  folderlist :: "string list"
  foldermap :: "(int \<times> string) list"

definition new_filewatcher :: filewatcher where
  "new_filewatcher = \<lparr>folderlist = [], foldermap = []\<rparr>"

text \<open>
  \<open>add_watch\<close> is \<open>inotify_add_watch\<close> on a path, \<open>None\<close> when it fails.  The result of a subfolder is
  not used.
\<close>

fun watch_folder :: "(string \<Rightarrow> int option) \<Rightarrow> string \<Rightarrow> folder \<Rightarrow> filewatcher \<Rightarrow> err_t \<times> filewatcher"
  and watch_children :: "(string \<Rightarrow> int option) \<Rightarrow> string \<Rightarrow> dirent list \<Rightarrow> filewatcher \<Rightarrow> filewatcher"
where
  "watch_folder add_watch path Unreadable fw =
     (if path \<in> set (folderlist fw) then (SUCCESS, fw) else (GENERAL_FAILURE, fw))"
| "watch_folder add_watch path (Folder children closed) fw =
     (if path \<in> set (folderlist fw) then (SUCCESS, fw)
      else case add_watch path of
        None \<Rightarrow> (FILEWATCHER_ADD_FOLDER_FAILED, fw)
      | Some watch_fd \<Rightarrow>
          (if closed then SUCCESS else GENERAL_FAILURE,
           watch_children add_watch path children
             (fw\<lparr>folderlist := path # folderlist fw, foldermap := list_insert watch_fd path (foldermap fw)\<rparr>)))"
| "watch_children add_watch path [] fw = fw"
| "watch_children add_watch path (child # children) fw =
     (if special_name (d_name child) then watch_children add_watch path children fw
      else case child of
        DT_DIR name sub \<Rightarrow>
          watch_children add_watch path children (snd (watch_folder add_watch (path @ ''/'' @ name) sub fw))
      | _ \<Rightarrow> watch_children add_watch path children fw)"

subsection \<open>execute\<close>

text \<open>
  An event; \<open>ev_name\<close> is what is read at \<open>event->name\<close> (for an event without a name, the bytes
  behind it), \<open>ev_tree\<close> the folder of that name on the disk.
\<close>

record inotify_event =
  ev_wd :: int
  ev_isdir :: bool
  ev_create_or_moved_to :: bool
  ev_delete_or_moved_from :: bool
  ev_name :: string
  ev_tree :: folder

record event_batch =
  bt_watcher :: filewatcher
  bt_finalize :: "string list"
  bt_received :: "string list"
  bt_remove :: "int list"

definition starts_with :: "string \<Rightarrow> string \<Rightarrow> bool" where
  "starts_with path start \<longleftrightarrow> take (length start) path = start"

text \<open>\<open>foldermap[wd]\<close> makes an empty entry for a descriptor it does not know.\<close>

definition watch_event :: "(string \<Rightarrow> int option) \<Rightarrow> inotify_event \<Rightarrow> event_batch \<Rightarrow> event_batch" where
  "watch_event add_watch ev bt =
     (let fw = (bt_watcher bt)\<lparr>foldermap := list_insert (ev_wd ev) '''' (foldermap (bt_watcher bt))\<rparr>;
          watchfolder = the (map_of (foldermap fw) (ev_wd ev));
          bt' = bt\<lparr>bt_watcher := fw, bt_finalize := bt_finalize bt @ [watchfolder]\<rparr>;
          childfolder = watchfolder @ ''/'' @ ev_name ev
      in if ev_isdir ev then
           if ev_create_or_moved_to ev then
             bt'\<lparr>bt_watcher := snd (watch_folder add_watch childfolder (ev_tree ev) fw)\<rparr>
           else if ev_delete_or_moved_from ev then
             bt'\<lparr>bt_remove := bt_remove bt @
               List.map fst (List.filter (\<lambda>folder. starts_with (snd folder) childfolder) (foldermap fw))\<rparr>
           else bt'
         else bt'\<lparr>bt_received := bt_received bt @ [childfolder]\<rparr>)"

text \<open>The reads of the descriptor until it has no more events or fails.\<close>

datatype inotify_read = Events "inotify_event list" | Again | Read_Error

fun watch_reads :: "(string \<Rightarrow> int option) \<Rightarrow> inotify_read list \<Rightarrow> event_batch \<Rightarrow> event_batch option" where
  "watch_reads add_watch [] bt = None"
| "watch_reads add_watch (Events evs # reads) bt = watch_reads add_watch reads (fold (watch_event add_watch) evs bt)"
| "watch_reads add_watch (Again # reads) bt = Some bt"
| "watch_reads add_watch (Read_Error # reads) bt = Some bt"

text \<open>The result: the watcher, the arguments of \<open>receive_event_finalize\<close> and the watches taken away.\<close>

definition watcher_execute ::
  "(string \<Rightarrow> int option) \<Rightarrow> bool \<Rightarrow> inotify_read list \<Rightarrow> filewatcher \<Rightarrow> (filewatcher \<times> string list \<times> int list) option"
where
  "watcher_execute add_watch paused reads fw =
     (if \<not> paused then Some (fw, [], [])
      else map_option (\<lambda>bt.
          ((bt_watcher bt)\<lparr>foldermap := List.filter (\<lambda>folder. fst folder \<notin> set (bt_remove bt)) (foldermap (bt_watcher bt))\<rparr>,
           bt_finalize bt, bt_remove bt))
        (watch_reads add_watch reads \<lparr>bt_watcher = fw, bt_finalize = [], bt_received = [], bt_remove = []\<rparr>))"

text \<open>\<open>receive_event_finalize\<close> is called once for every event and does not look at its argument.\<close>

fun finalize_all :: "(string \<Rightarrow> folder) \<Rightarrow> string list \<Rightarrow> webmaps \<Rightarrow> webmaps option" where
  "finalize_all disk [] w = Some w"
| "finalize_all disk (watchfolder # watchfolder_list) w =
     Option.bind (receive_event_finalize disk w) (finalize_all disk watchfolder_list)"

subsection \<open>All folders below are watched\<close>

text \<open>Specification: the folders at and below a path that can be opened.\<close>

fun subfolders :: "string \<Rightarrow> folder \<Rightarrow> string list"
  and child_folders :: "string \<Rightarrow> dirent list \<Rightarrow> string list"
where
  "subfolders path Unreadable = []"
| "subfolders path (Folder children closed) = path # child_folders path children"
| "child_folders path [] = []"
| "child_folders path (child # children) =
     (if special_name (d_name child) then []
      else case child of
        DT_DIR name sub \<Rightarrow> subfolders (path @ ''/'' @ name) sub
      | _ \<Rightarrow> []) @ child_folders path children"

text \<open>What the kernel promises of the descriptors: different folders have different ones.\<close>

definition inotify_ok :: "(string \<Rightarrow> int option) \<Rightarrow> bool" where
  "inotify_ok add_watch \<longleftrightarrow> (\<forall>p q wd. add_watch p = Some wd \<longrightarrow> add_watch q = Some wd \<longrightarrow> p = q)"

definition watches_ok :: "(string \<Rightarrow> int option) \<Rightarrow> filewatcher \<Rightarrow> bool" where
  "watches_ok add_watch fw \<longleftrightarrow>
     List.map snd (foldermap fw) = rev (folderlist fw) \<and>
     list_all (\<lambda>(wd, path). add_watch path = Some wd) (foldermap fw)"

definition is_watched :: "filewatcher \<Rightarrow> (string \<Rightarrow> int option) \<Rightarrow> string \<Rightarrow> bool" where
  "is_watched fw add_watch path \<longleftrightarrow> (\<exists>wd. add_watch path = Some wd \<and> map_of (foldermap fw) wd = Some path)"

lemma watches_ok_add:
  assumes "inotify_ok add_watch" "watches_ok add_watch fw" "path \<notin> set (folderlist fw)" "add_watch path = Some wd"
  shows "list_insert wd path (foldermap fw) = foldermap fw @ [(wd, path)]"
    and "watches_ok add_watch (fw\<lparr>folderlist := path # folderlist fw, foldermap := foldermap fw @ [(wd, path)]\<rparr>)"
proof -
  have "map_of (foldermap fw) wd = None"
  proof (rule ccontr)
    assume "map_of (foldermap fw) wd \<noteq> None"
    then obtain q where q: "(wd, q) \<in> set (foldermap fw)" by (auto dest: map_of_SomeD)
    then have "q = path" using assms(1, 2, 4) by (auto simp: inotify_ok_def watches_ok_def list_all_iff)
    moreover have "q \<in> set (List.map snd (foldermap fw))" using q by force
    ultimately show False using assms(2, 3) by (simp only: watches_ok_def set_rev)
  qed
  then show "list_insert wd path (foldermap fw) = foldermap fw @ [(wd, path)]" by (simp add: list_insert_def)
  show "watches_ok add_watch (fw\<lparr>folderlist := path # folderlist fw, foldermap := foldermap fw @ [(wd, path)]\<rparr>)"
    using assms by (simp add: watches_ok_def)
qed

lemma watch_folder_adds:
  "inotify_ok add_watch \<Longrightarrow> watches_ok add_watch fw \<Longrightarrow> distinct (subfolders path f) \<Longrightarrow>
    set (subfolders path f) \<inter> set (folderlist fw) = {} \<Longrightarrow>
    list_all (\<lambda>p. add_watch p \<noteq> None) (subfolders path f) \<Longrightarrow>
    watches_ok add_watch (snd (watch_folder add_watch path f fw)) \<and>
    folderlist (snd (watch_folder add_watch path f fw)) = rev (subfolders path f) @ folderlist fw"
  "inotify_ok add_watch \<Longrightarrow> watches_ok add_watch fw \<Longrightarrow> distinct (child_folders path children) \<Longrightarrow>
    set (child_folders path children) \<inter> set (folderlist fw) = {} \<Longrightarrow>
    list_all (\<lambda>p. add_watch p \<noteq> None) (child_folders path children) \<Longrightarrow>
    watches_ok add_watch (watch_children add_watch path children fw) \<and>
    folderlist (watch_children add_watch path children fw) = rev (child_folders path children) @ folderlist fw"
proof (induction add_watch path f fw and add_watch path children fw rule: watch_folder_watch_children.induct)
  case (2 add_watch path children closed fw)
  then obtain wd where wd: "add_watch path = Some wd" by auto
  have new: "path \<notin> set (folderlist fw)" using 2 by simp
  show ?case
    using 2 wd new watches_ok_add [OF 2(2, 3) new wd] by simp
next
  case (4 add_watch path child children fw)
  show ?case
  proof (cases "\<not> special_name (d_name child) \<and> (\<exists>name sub. child = DT_DIR name sub)")
    case True
    then obtain name sub where child: "\<not> special_name (d_name child)" "child = DT_DIR name sub" by blast
    let ?fw = "snd (watch_folder add_watch (path @ ''/'' @ name) sub fw)"
    have "watches_ok add_watch ?fw \<and> folderlist ?fw = rev (subfolders (path @ ''/'' @ name) sub) @ folderlist fw"
      using 4(2) [OF child] 4(6-10) child by auto
    then show ?thesis
      using 4(3) [OF child] 4(6-10) child by auto
  next
    case False
    then show ?thesis using 4 by (cases child) auto
  qed
qed simp_all

lemma watches_ok_watched:
  assumes "inotify_ok add_watch" "watches_ok add_watch fw" "path \<in> set (folderlist fw)"
  shows "is_watched fw add_watch path"
proof -
  have "path \<in> set (List.map snd (foldermap fw))"
    using assms(2, 3) unfolding watches_ok_def by simp
  then obtain wd where wd: "(wd, path) \<in> set (foldermap fw)" by auto
  then have "add_watch path = Some wd" using assms(2) by (auto simp: watches_ok_def list_all_iff)
  moreover obtain q where q: "map_of (foldermap fw) wd = Some q"
    using wd by (cases "map_of (foldermap fw) wd") (auto simp: map_of_eq_None_iff image_iff)
  moreover have "add_watch q = Some wd"
    using assms(2) map_of_SomeD [OF q] by (auto simp: watches_ok_def list_all_iff)
  ultimately show ?thesis using assms(1) by (auto simp: is_watched_def inotify_ok_def)
qed

text \<open>
  When a web folder is added to the watcher at the start of the server, the folder and every
  folder below it that can be opened has a watch descriptor that leads back to its path.
\<close>

theorem web_folder_watched:
  assumes "inotify_ok add_watch" "distinct (subfolders path f)"
    and "list_all (\<lambda>p. add_watch p \<noteq> None) (subfolders path f)"
  shows "list_all (is_watched (snd (watch_folder add_watch path f new_filewatcher)) add_watch) (subfolders path f)"
proof -
  have "watches_ok add_watch new_filewatcher" by (simp add: watches_ok_def new_filewatcher_def)
  from watch_folder_adds(1) [OF assms(1) this assms(2) _ assms(3)]
  have "watches_ok add_watch (snd (watch_folder add_watch path f new_filewatcher))"
    "set (folderlist (snd (watch_folder add_watch path f new_filewatcher))) = set (subfolders path f)"
    by (simp_all add: new_filewatcher_def)
  then show ?thesis using watches_ok_watched [OF assms(1)] by (simp add: list_all_iff)
qed

definition demo_tree :: folder where
  "demo_tree = Folder [DT_DIR ''..'' Unreadable, DT_DIR ''a'' (Folder [DT_DIR ''c'' (Folder [] True)] True),
     DT_OTHER ''x'', DT_DIR ''ab'' (Folder [] True), DT_DIR ''z'' Unreadable] True"

definition demo_watch :: "string \<Rightarrow> int option" where
  "demo_watch = map_of [(''/w'', 1), (''/w/a'', 2), (''/w/a/c'', 3), (''/w/ab'', 4)]"

lemma demo_watch_ok: "inotify_ok demo_watch"
  by (simp add: inotify_ok_def demo_watch_def split: if_split)

lemma demo_subfolders: "subfolders ''/w'' demo_tree = [''/w'', ''/w/a'', ''/w/a/c'', ''/w/ab'']"
  by (simp add: demo_tree_def special_name_def)

definition demo_watcher :: filewatcher where
  "demo_watcher = snd (watch_folder demo_watch ''/w'' demo_tree new_filewatcher)"

lemma demo_watcher: "demo_watcher =
    \<lparr>folderlist = [''/w/ab'', ''/w/a/c'', ''/w/a'', ''/w''],
     foldermap = [(1, ''/w''), (2, ''/w/a''), (3, ''/w/a/c''), (4, ''/w/ab'')]\<rparr>"
  by (simp add: demo_watcher_def demo_tree_def demo_watch_def special_name_def new_filewatcher_def list_insert_def)

theorem web_folder_watched_witness:
  "is_watched (snd (watch_folder demo_watch ''/w'' demo_tree new_filewatcher)) demo_watch ''/w/a/c''"
proof -
  have "list_all (is_watched (snd (watch_folder demo_watch ''/w'' demo_tree new_filewatcher)) demo_watch)
      (subfolders ''/w'' demo_tree)"
    by (rule web_folder_watched [OF demo_watch_ok]) (simp_all add: demo_subfolders demo_watch_def)
  then show ?thesis by (simp add: demo_subfolders)
qed

subsection \<open>One event or many\<close>

lemma update_twice_flush_cache: "update_twice disk (flush_cache (fm\<lparr>cache := c\<rparr>)) = update_twice disk (flush_cache fm)"
  by (simp add: flush_cache_def)

lemma refresh_again:
  assumes "update_twice disk (flush_cache fm) = Some fm'"
  shows "update_twice disk (flush_cache fm') = Some fm'"
proof -
  have "fm' = fm\<lparr>cache := cache fm'\<rparr>"
    using update_twice_same [OF assms] by (simp add: flush_cache_def)
  then show ?thesis using update_twice_flush_cache [where fm = fm and c = "cache fm'"] assms by metis
qed

lemma disk_files_cache [simp]:
  "disk_files disk (fm\<lparr>cache := c\<rparr>) = disk_files disk fm" "disk_files disk (flush_cache fm) = disk_files disk fm"
  by (simp_all add: disk_files_def flush_cache_def)

lemma files_small_refreshed:
  assumes "files_small disk w" "receive_event_finalize disk w = Some w'" "webmaps_ok w"
  shows "files_small disk w' \<and> webmaps_ok w' \<and> receive_event_finalize disk w' = Some w'"
proof -
  have w': "w' = w\<lparr>filemaps := List.map (\<lambda>fm. the (update_twice disk (flush_cache fm))) (filemaps w)\<rparr>"
    using receive_event_finalize_all [OF assms(3, 1)] assms(2) by simp
  have ok: "webmaps_ok w'"
    using assms(2, 3) unfolding receive_event_finalize_def web_flush_cache_def web_update_folder_def bind_Some_iff
    by (blast intro: webmaps_ok_for_filemaps)
  have some: "\<exists>fm'. update_twice disk (flush_cache fm) = Some fm' \<and> list_all small_file (disk_files disk fm')"
    if fm: "fm \<in> set (filemaps w)" for fm
  proof -
    have small: "list_all small_file (disk_files disk fm)"
      using assms(1) fm by (simp add: files_small_def list_all_iff)
    then obtain fm' where fm': "update_twice disk (flush_cache fm) = Some fm'"
      using update_twice_files [of disk "flush_cache fm"] by simp
    then have "disk_files disk fm' = disk_files disk fm"
      using update_twice_same [OF fm'] disk_files_cache by metis
    then show ?thesis using small fm' by simp
  qed
  have "files_small disk w'"
    unfolding files_small_def list_all_iff
  proof
    fix fm'
    assume "fm' \<in> set (filemaps w')"
    then obtain fm where fm: "fm \<in> set (filemaps w)" "fm' = the (update_twice disk (flush_cache fm))"
      by (auto simp: w')
    then show "\<forall>x\<in>set (disk_files disk fm'). small_file x" using some [OF fm(1)] by (auto simp: list_all_iff)
  qed
  moreover from this ok have "receive_event_finalize disk w' =
      Some (w'\<lparr>filemaps := List.map (\<lambda>fm. the (update_twice disk (flush_cache fm))) (filemaps w')\<rparr>)"
    by (intro receive_event_finalize_all)
  moreover have "List.map (\<lambda>fm. the (update_twice disk (flush_cache fm))) (filemaps w') = filemaps w'"
    using some refresh_again by (fastforce simp: w')
  ultimately show ?thesis using ok by simp
qed

lemma finalize_all_fixed: "receive_event_finalize disk w = Some w \<Longrightarrow> finalize_all disk watchfolders w = Some w"
  by (induction watchfolders) simp_all

lemma length_watch_event: "length (bt_finalize (watch_event add_watch ev bt)) = Suc (length (bt_finalize bt))"
  by (simp add: watch_event_def Let_def)

lemma length_watch_events:
  "length (bt_finalize (fold (watch_event add_watch) evs bt)) = length evs + length (bt_finalize bt)"
  by (induction evs arbitrary: bt) (simp_all add: length_watch_event)

text \<open>
  When the threads are paused, the watcher calls the refresh once for every event it reads, which on an
  unchanged disk is the same as one refresh.  When they are not, which is so at every call after the start
  of the distributor (theory PauseHelper), it reads nothing and refreshes nothing.
\<close>

lemma paused_events_refresh:
  assumes "web_reachable w" "files_small disk w" "evs \<noteq> []"
  shows "\<exists>fw' watchfolders removed.
    watcher_execute add_watch True [Events evs, Again] fw = Some (fw', watchfolders, removed) \<and>
    length watchfolders = length evs \<and>
    finalize_all disk watchfolders w = receive_event_finalize disk w"
proof -
  let ?bt = "fold (watch_event add_watch) evs \<lparr>bt_watcher = fw, bt_finalize = [], bt_received = [], bt_remove = []\<rparr>"
  have ok: "webmaps_ok w" using assms(1) by (rule web_reachable_ok)
  obtain w' where w': "receive_event_finalize disk w = Some w'"
    using receive_event_finalize_all [OF ok assms(2)] by blast
  have len: "length (bt_finalize ?bt) = length evs" by (simp add: length_watch_events)
  then obtain x xs where "bt_finalize ?bt = x # xs" using assms(3) by (cases "bt_finalize ?bt") auto
  then have "finalize_all disk (bt_finalize ?bt) w = Some w'"
    using w' files_small_refreshed [OF assms(2) w' ok] by (simp add: finalize_all_fixed)
  then show ?thesis using w' len by (simp add: watcher_execute_def)
qed

text \<open>
  Removing a folder takes away the watch of every folder whose path starts with the same characters:
  with \<open>/w/a\<close> removed, \<open>/w/ab\<close> is not watched any more; and a folder that has been removed and is
  made again, like \<open>/w/ab\<close> after the next \<open>add_folder\<close>, stays without a watch, since \<open>folderlist\<close>
  still has it.
\<close>

lemma sibling_loses_watch:
  "watcher_execute demo_watch True
     [Events [\<lparr>ev_wd = 1, ev_isdir = True, ev_create_or_moved_to = False, ev_delete_or_moved_from = True,
        ev_name = ''a'', ev_tree = Unreadable\<rparr>], Again] demo_watcher =
   Some (demo_watcher\<lparr>foldermap := [(1, ''/w'')]\<rparr>, [''/w''], [2, 3, 4])"
  by (simp add: watcher_execute_def watch_event_def demo_watcher starts_with_def list_insert_def Let_def)

lemma made_again_not_watched:
  "watch_folder demo_watch ''/w/ab'' (Folder [] True) (demo_watcher\<lparr>foldermap := [(1, ''/w'')]\<rparr>) =
   (SUCCESS, demo_watcher\<lparr>foldermap := [(1, ''/w'')]\<rparr>)"
  by (simp add: demo_watcher)

end
