(* ===== verification/Http1Event.thy ===== *)
theory Http1Event
  imports Http2Error FileMap WriteQueue
begin

text \<open>
  deviceserver/include/iothttpevent.hh, first part: \<open>iothttpevent\<close>, the HTTP/1.1 side of a connection,
  and deviceserver/lib/iothttpevent.cc, the connection before the protocol is chosen.

  \<open>parse\<close> is what the scanner and the parser (theories HttpScanner and HttpDriver) give for a
  text.  The date, the address of the server and the results of the reads are arguments.
\<close>

subsection \<open>The buffers of a thread\<close>

definition buffer_size :: nat where
  "buffer_size = 16384"

text \<open>Text written at the start of the write buffer: what the buffer holds then, and the size.\<close>

definition store_page :: "u8 list \<Rightarrow> string \<Rightarrow> (u8 list \<times> nat) option" where
  "store_page mem page =
     (if length mem < length page then None
      else Some (bytes_of page @ drop (length page) mem, length page))"

record http_env =
  he_local_address :: ipv6_socket_addr
  he_date :: string
  he_date_size :: nat
  he_webmaps :: webmaps

subsection \<open>GET\<close>

definition http1_not_modified :: "http_env \<Rightarrow> file_info \<Rightarrow> string option" where
  "http1_not_modified env file_details =
     do { head \<leftarrow> copy_http_header_response VER_1_1 304
            [\<lparr>hl_field = General Date, hl_value = he_date env, hl_size = he_date_size env\<rparr>,
             header_line_of (Response Server) WEB_SERVER_NAME,
             \<lparr>hl_field = Response ETag, hl_value = etags file_details, hl_size = etags_size\<rparr>];
          Some (head @ [CHR 0x0A]) }"

definition http1_file_header :: "http_env \<Rightarrow> file_info \<Rightarrow> string option" where
  "http1_file_header env file_details =
     do { head \<leftarrow> copy_http_header_response VER_1_1 200
            [\<lparr>hl_field = General Date, hl_value = he_date env, hl_size = he_date_size env\<rparr>,
             header_line_of (Response Server) WEB_SERVER_NAME,
             header_line_of (General Cache_Control) ''private, max-age=2592000'',
             \<lparr>hl_field = Response ETag, hl_value = etags file_details, hl_size = etags_size\<rparr>,
             \<lparr>hl_field = Response Content_Type, hl_value = content_type file_details,
              hl_size = length (content_type file_details)\<rparr>];
          len \<leftarrow> copy_http_response_content_length (word_of_nat (length (content file_details)));
          Some (head @ len) }"

text \<open>
  The buffers pushed, the write buffer and \<open>write_size\<close>.  A page in the write buffer is pushed later;
  a file is pushed at once and leaves \<open>write_size\<close> as it was.
\<close>

definition http1_get ::
    "http_env \<Rightarrow> http_header_request \<Rightarrow> u8 list \<Rightarrow> nat \<Rightarrow> (err_t + u8 list list \<times> u8 list \<times> nat) option" where
  "http1_get env header mem write_size =
     (case getfilemap (sa_port (he_local_address env)) (he_webmaps env) of
        None \<Rightarrow> None
      | Some (Inl err) \<Rightarrow> Some (Inl err)
      | Some (Inr filemap_obj) \<Rightarrow>
          (case cache filemap_obj (get_path header) of
             None \<Rightarrow>
               do { page \<leftarrow> http_add_404_Not_Found (he_local_address env) (he_date env) (he_date_size env);
                    (mem, n) \<leftarrow> store_page mem page;
                    Some (Inr ([], mem, n)) }
           | Some file_details \<Rightarrow>
               do { same \<leftarrow> match_etag header (etags file_details) etags_size;
                    if same then
                      do { page \<leftarrow> http1_not_modified env file_details;
                           (mem, n) \<leftarrow> store_page mem page;
                           Some (Inr ([], mem, n)) }
                    else
                      do { head \<leftarrow> http1_file_header env file_details;
                           (mem, n) \<leftarrow> store_page mem head;
                           Some (Inr ([take n mem @ bytes_of CRLF @ content file_details], mem, write_size)) } }))"

subsection \<open>read_helper\<close>

text \<open>
  What becomes of the data of one read: buffers to push, the move to HTTP/2 with prior knowledge or
  by an upgrade, or an exception.  After a failure of the parser the code goes on: there is no
  \<open>else\<close> between the two tests.
\<close>

datatype http1_result =
    Answered "u8 list list" "u8 list"
  | Prior_knowledge
  | Upgraded http_header_request
  | Exception err_t

definition push_page :: "u8 list list \<Rightarrow> u8 list \<Rightarrow> nat \<Rightarrow> http1_result" where
  "push_page bufs mem write_size =
     Answered (if write_size \<noteq> 0 then bufs @ [take write_size mem] else bufs) mem"

definition wants_upgrade :: "bool \<Rightarrow> http_header_request \<Rightarrow> bool" where
  "wants_upgrade use_ssl header \<longleftrightarrow>
     \<not> use_ssl \<and> upgrade_version header = VER_2 \<and> hr_fields header (Request HTTP2_Settings) \<noteq> None"

definition http1_request ::
    "bool \<Rightarrow> http_env \<Rightarrow> err_t \<times> http_header_request \<Rightarrow> u8 list \<Rightarrow> http1_result option" where
  "http1_request use_ssl env parsed mem =
     (let (parserret, header) = parsed; addr = he_local_address env;
          date = he_date env; date_size = he_date_size env in
      do { (mem, write_size) \<leftarrow> (if parserret \<noteq> SUCCESS
             then Option.bind (http_add_400_Bad_Request addr date date_size) (store_page mem)
             else Some (mem, 0));
           if hr_method header = PRI then
             (if use_ssl then
                do { page \<leftarrow> http_add_400_Bad_Request addr date date_size;
                     (mem, n) \<leftarrow> store_page mem page;
                     Some (push_page [] mem n) }
              else if hr_version header = VER_2 then Some Prior_knowledge
              else
                do { page \<leftarrow> http_add_505_HTTP_Version_Not_Supported addr date date_size;
                     (mem, n) \<leftarrow> store_page mem page;
                     Some (push_page [] mem n) })
           else if wants_upgrade use_ssl header then Some (Upgraded header)
           else if hr_method header = GET then
             do { r \<leftarrow> http1_get env header mem write_size;
                  Some (case r of Inl err \<Rightarrow> Exception err | Inr (bufs, mem, n) \<Rightarrow> push_page bufs mem n) }
           else
             do { page \<leftarrow> http_add_405_Method_Not_Allowed addr date date_size;
                  (mem, n) \<leftarrow> store_page mem page;
                  Some (push_page [] mem n) } })"

text \<open>
  \<open>read_helper\<close> calls itself until a read gives nothing.  \<open>reads\<close> are the results of the reads; when
  they end the socket asks to retry.  The result tells how the call ends: the connection goes on,
  moves to HTTP/2 with the data of the last read, or an exception leaves the handler.
\<close>

datatype 'w http1_end =
    Stays "'w peer" "u8 list"
  | Moves "'w peer" "u8 list" "http_header_request option" "u8 list"
  | Throws err_t

definition push_buffers :: "u8 list list \<Rightarrow> 'w peer \<Rightarrow> 'w peer" where
  "push_buffers bufs p = foldl (\<lambda>p bs. push_write bs True (word_of_nat (length bs)) p) p bufs"

fun http1_read_helper ::
    "('w \<Rightarrow> u8 list \<Rightarrow> (err_t \<times> u64 \<times> 'w) option) \<Rightarrow> bool \<Rightarrow> http_env \<Rightarrow>
     (u8 list \<Rightarrow> err_t \<times> http_header_request) \<Rightarrow> (err_t \<times> u8 list) list \<Rightarrow> u8 list \<Rightarrow> 'w peer \<Rightarrow>
     'w http1_end option" where
  "http1_read_helper transmit use_ssl env parse [] mem p = Some (Stays p mem)"
| "http1_read_helper transmit use_ssl env parse ((err, data) # reads) mem p =
     (if err = SOCKET_RETRY \<or> isFailure err \<or> data = [] then Some (Stays p mem)
      else case http1_request use_ssl env (parse data) mem of
        None \<Rightarrow> None
      | Some (Answered bufs mem') \<Rightarrow>
          (case write_all transmit (push_buffers bufs p) of
             None \<Rightarrow> None
           | Some p' \<Rightarrow> http1_read_helper transmit use_ssl env parse reads mem' p')
      | Some Prior_knowledge \<Rightarrow> Some (Moves p data None mem)
      | Some (Upgraded header) \<Rightarrow> Some (Moves p data (Some header) mem)
      | Some (Exception e) \<Rightarrow> Some (Throws e))"

subsection \<open>execute\<close>

definition http1_execute ::
    "('w \<Rightarrow> u8 list \<Rightarrow> (err_t \<times> u64 \<times> 'w) option) \<Rightarrow> bool \<Rightarrow> http_env \<Rightarrow>
     (u8 list \<Rightarrow> err_t \<times> http_header_request) \<Rightarrow> int \<Rightarrow> err_t \<Rightarrow> (err_t \<times> u8 list) list \<Rightarrow> u8 list \<Rightarrow> 'w peer \<Rightarrow>
     ('w http1_end \<times> bool) option" where
  "http1_execute transmit use_ssl env parse last_peer_id close_ret reads mem p =
     (if pe_client_state p = SOCKET_PEER_CLOSE then
        (case close_peer last_peer_id close_ret p of (p', freed) \<Rightarrow> Some (Stays p' mem, freed))
      else if pe_client_state p \<in> {SOCKET_PEER_EVENT, SOCKET_PEER_READ} then
        map_option (\<lambda>e. (e, False)) (http1_read_helper transmit use_ssl env parse reads mem p)
      else if pe_client_state p = SOCKET_PEER_WRITE then
        (case write_all transmit p of
           None \<Rightarrow> None
         | Some p' \<Rightarrow> map_option (\<lambda>e. (e, False)) (http1_read_helper transmit use_ssl env parse reads mem p'))
      else Some (Stays p mem, False))"

text \<open>
  The TLS connection before its protocol is known.  \<open>protocol\<close> is what \<open>get_protocol\<close> gives: no
  protocol is the null pointer, on which \<open>strncmp\<close> is undefined.  The result: what becomes of the
  connection (a new executor before its \<open>execute\<close>), and the calls on the distributor and on the new
  executor, in their order.  \<open>Ssl_execute_new\<close> is the call of \<open>execute\<close> of the new executor without
  \<open>enter_loop\<close>, while \<open>epoll\<close> may report its events (theory EventExec, \<open>direct_executor\<close>); what that
  call does is \<open>http1_execute\<close> and \<open>execute\<close> of the theory Http2Event.
\<close>

datatype 'w ssl_end =
    Ssl_stays "'w peer" bool
  | Ssl_http2 "'w peer"
  | Ssl_http11 "'w peer"

datatype ssl_call = Ssl_remove_event | Ssl_add_event u32 | Ssl_execute_new | Ssl_delayed_free

definition ssl_upgrade_calls :: "ssl_call list" where
  "ssl_upgrade_calls = [Ssl_remove_event, Ssl_add_event (0x001 OR 0x004), Ssl_execute_new, Ssl_delayed_free]"

definition ssl_execute ::
    "('w \<Rightarrow> u8 list \<Rightarrow> (err_t \<times> u64 \<times> 'w) option) \<Rightarrow> err_t \<Rightarrow> string option \<Rightarrow> int \<Rightarrow> err_t \<Rightarrow> 'w peer \<Rightarrow>
     ('w ssl_end \<times> ssl_call list) option" where
  "ssl_execute transmit accepted protocol last_peer_id close_ret p =
     (if pe_client_state p = SOCKET_PEER_ACCEPT then
        (if accepted = SUCCESS then
           (case protocol of
              None \<Rightarrow> None
            | Some name \<Rightarrow>
                if take 2 name = ''h2'' then
                  Some (Ssl_http2 (p\<lparr>pe_client_state := HTTP2_NEXT_MAGIC\<rparr>), ssl_upgrade_calls)
                else if take 8 name = ''http/1.1'' then
                  Some (Ssl_http11 (p\<lparr>pe_client_state := SOCKET_PEER_READ\<rparr>), ssl_upgrade_calls)
                else (case close_peer last_peer_id close_ret p of (p', freed) \<Rightarrow>
                  Some (Ssl_stays p' freed, [Ssl_remove_event])))
         else if accepted \<noteq> SOCKET_RETRY then
           (case close_peer last_peer_id close_ret p of (p', freed) \<Rightarrow> Some (Ssl_stays p' freed, []))
         else Some (Ssl_stays p False, []))
      else if pe_client_state p = SOCKET_PEER_CLOSE then
        (case close_peer last_peer_id close_ret p of (p', freed) \<Rightarrow> Some (Ssl_stays p' freed, []))
      else if pe_client_state p = SOCKET_PEER_WRITE then
        map_option (\<lambda>p'. (Ssl_stays p' False, [])) (write_all transmit p)
      else Some (Ssl_stays p False, []))"

subsection \<open>Sizes of the pages\<close>

definition env_ok :: "http_env \<Rightarrow> bool" where
  "env_ok env \<longleftrightarrow> wf_ipv6 (sa_addr (he_local_address env)) \<and> 0 < he_date_size env \<and> he_date_size env \<le> 92 \<and>
     he_date_size env \<le> length (he_date env)"

lemma hl_size_header_line_of [simp]: "hl_size (header_line_of field s) = length s + 1"
  by (simp add: header_line_of_def)

lemma header_text_length: "length (header_text line) \<le> 84 + hl_size line"
proof -
  have "length (get_field_string (hl_field line)) \<le> 80" using field_name_size by blast
  moreover have "length (take (hl_size line - 1) (hl_value line)) \<le> hl_size line" by simp
  ultimately show ?thesis by (simp add: header_text_def)
qed

lemma header_texts_length:
  "length (concat (map header_text lines)) \<le> sum_list (map (\<lambda>line. 84 + hl_size line) lines)"
proof (induction lines)
  case (Cons line lines)
  then show ?case using header_text_length [of line] by simp
qed simp

lemma decimal_length: "length (decimal n) \<le> 20"
  using std_to_string_length(2) [of n] by (simp add: std_to_string_def)

lemma error_page_fits:
  assumes "env_ok env"
    and "respond \<in> {http_add_404_Not_Found, http_add_400_Bad_Request,
      http_add_405_Method_Not_Allowed, http_add_505_HTTP_Version_Not_Supported}"
  shows "\<exists>page. respond (he_local_address env) (he_date env) (he_date_size env) = Some page \<and>
    0 < length page \<and> length page \<le> buffer_size"
proof -
  have small: "length (code_string_with_code code) \<le> 30 \<and> length (code_string_str code) \<le> 30 \<and>
      length (get_code_string code) \<le> 40"
    if "code \<in> {404, 400, 405, 505}" for code :: CODE
    using that by (auto simp: code_string_with_code_def code_string_str_def http_code_list_def get_code_string_def
        code_number_def to_string_uint_def digits_loop.simps)
  have "\<exists>code extra message. respond = http_add_error code extra message \<and>
      code \<in> {404, 400, 405, 505} \<and> list_all wf_header_line extra \<and> length message \<le> 200 \<and>
      sum_list (map (\<lambda>line. 84 + hl_size line) extra) \<le> 100"
    using assms(2)
    by (elim insertE emptyE)
      (simp_all only: http_add_404_Not_Found_def http_add_400_Bad_Request_def
        http_add_405_Method_Not_Allowed_def http_add_505_HTTP_Version_Not_Supported_def,
       (rule exI, rule exI, rule exI, rule conjI [OF refl], simp)+)
  then obtain code extra message where r: "respond = http_add_error code extra message"
    "code \<in> {404, 400, 405, 505}" "list_all wf_header_line extra" "length message \<le> 200"
    "sum_list (map (\<lambda>line. 84 + hl_size line) extra) \<le> 100" by blast
  let ?lines = "[\<lparr>hl_field = General Date, hl_value = he_date env, hl_size = he_date_size env\<rparr>,
      header_line_of (Response Server) WEB_SERVER_NAME, header_line_of (Response Content_Type) ''text/html''] @ extra"
  have "length (concat (map header_text ?lines)) \<le> sum_list (map (\<lambda>line. 84 + hl_size line) ?lines)"
    by (rule header_texts_length)
  also have "\<dots> \<le> 600"
    using r(5) assms(1) by (simp add: env_ok_def WEB_SERVER_NAME_def)
  finally have lines: "length (concat (map header_text ?lines)) \<le> 600" .
  obtain page where page: "http11_error_html code message (he_local_address env) = Some page" "length page \<le> 1024"
    using http11_error_html_length [of "he_local_address env" code message] small [OF r(2)] r(4) assms(1)
    by (force simp: env_ok_def)
  then have n: "unat (word_of_nat (length page) :: u64) = length page"
    by (simp add: unsigned_of_nat take_bit_nat_eq_self)
  have "respond (he_local_address env) (he_date env) (he_date_size env) =
      Some ((get_version_string VER_1_1 @ '' '' @ get_code_string code @ CRLF @ concat (map header_text ?lines)) @
        (''Content-Length: '' @ decimal (word_of_nat (length page)) @ CRLF) @ CRLF @ page)"
    using page n r(1, 3) assms(1)
    by (simp add: http_add_error_def copy_http_header_response_wf content_length_line_wf env_ok_def
        wf_header_line_def [of "\<lparr>hl_field = f, hl_value = v, hl_size = n\<rparr>" for f v n])
  then show ?thesis
    using lines page(2) small [OF r(2)] decimal_length [of "word_of_nat (length page)"]
    by (simp add: buffer_size_def)
qed

lemma store_page_fits:
  "length mem = buffer_size \<Longrightarrow> length page \<le> buffer_size \<Longrightarrow>
   \<exists>mem'. store_page mem page = Some (mem', length page) \<and> length mem' = buffer_size \<and>
     take (length page) mem' = bytes_of page"
  by (simp add: store_page_def)

subsection \<open>What a GET is answered with\<close>

lemma field_strings [simp]:
  "get_field_string (General Date) = ''Date''" "get_field_string (Response Server) = ''Server''"
  "get_field_string (General Cache_Control) = ''Cache-Control''"
  "get_field_string (Response ETag) = ''ETag''" "get_field_string (Response Content_Type) = ''Content-Type''"
  by (simp_all add: get_field_string_def field_list_def field_lists)

text \<open>Specification: the text of one header line, and the answers to a request for a cached file.\<close>

definition line_text :: "string \<Rightarrow> string \<Rightarrow> string" where
  "line_text name value = name @ '': '' @ value @ CRLF"

definition date_text :: "http_env \<Rightarrow> string" where
  "date_text env = take (he_date_size env - 1) (he_date env)"

definition not_modified_text :: "http_env \<Rightarrow> file_info \<Rightarrow> string" where
  "not_modified_text env info =
     ''HTTP/1.1 304 Not Modified'' @ CRLF @ line_text ''Date'' (date_text env) @
     line_text ''Server'' WEB_SERVER_NAME @ line_text ''ETag'' (butlast (etags info)) @ [CHR 0x0A]"

definition file_header_text :: "http_env \<Rightarrow> file_info \<Rightarrow> string" where
  "file_header_text env info =
     ''HTTP/1.1 200 OK'' @ CRLF @ line_text ''Date'' (date_text env) @
     line_text ''Server'' WEB_SERVER_NAME @ line_text ''Cache-Control'' ''private, max-age=2592000'' @
     line_text ''ETag'' (butlast (etags info)) @ line_text ''Content-Type'' (butlast (content_type info)) @
     line_text ''Content-Length'' (decimal (word_of_nat (length (content info))))"

definition has_tag :: "http_header_request \<Rightarrow> file_info \<Rightarrow> bool" where
  "has_tag header info \<longleftrightarrow>
     (case hr_fields header (Request If_None_Match) of
        None \<Rightarrow> False
      | Some value \<Rightarrow> butlast (etags info) \<in> set (etag_tags value))"

lemma match_etag_info:
  assumes "info_ok info"
  shows "match_etag header (etags info) etags_size = Some (has_tag header info)"
proof -
  obtain tag where tag: "etags info = tag @ [NUL]" "length tag = 11" using assms by (auto simp: info_ok_def)
  then show ?thesis
    using match_etag_loop_tags [of 11 "tag @ [NUL]" False "[]" 0]
    by (auto simp: match_etag_def has_tag_def load_def etags_size_def to_string64_hash_size_def nth_append
        split: option.splits)
qed

lemma date_text_length: "env_ok env \<Longrightarrow> length (date_text env) \<le> 92"
  by (auto simp: env_ok_def date_text_def)

lemma not_modified_page:
  assumes "info_ok info" "env_ok env"
  shows "http1_not_modified env info = Some (not_modified_text env info)"
    "length (not_modified_text env info) \<le> buffer_size"
proof -
  obtain tag where tag: "etags info = tag @ [NUL]" "length tag = 11" using assms(1) by (auto simp: info_ok_def)
  have "get_version_string VER_1_1 @ '' '' @ get_code_string 304 @ CRLF = ''HTTP/1.1 304 Not Modified'' @ CRLF"
    by (simp add: get_code_string_def http_code_list_def code_number_def to_string_uint_def digits_loop.simps
        lower_case_numbers_def)
  then show "http1_not_modified env info = Some (not_modified_text env info)"
    using assms(2) tag
    by (simp add: http1_not_modified_def not_modified_text_def copy_http_header_response_wf env_ok_def wf_header_line_def
        header_text_def header_line_of_def line_text_def date_text_def etags_size_def to_string64_hash_size_def)
  show "length (not_modified_text env info) \<le> buffer_size"
    using date_text_length [OF assms(2)] tag
    by (simp add: not_modified_text_def line_text_def WEB_SERVER_NAME_def buffer_size_def)
qed

lemma file_header_page:
  assumes "info_ok info" "env_ok env" "length (content info) < 10 ^ 9"
  shows "http1_file_header env info = Some (file_header_text env info)"
proof -
  obtain tag where tag: "etags info = tag @ [NUL]" "length tag = 11" using assms(1) by (auto simp: info_ok_def)
  obtain t where t: "content_type info = t @ [NUL]" using assms(1) by (auto simp: info_ok_def)
  have "get_version_string VER_1_1 @ '' '' @ get_code_string 200 @ CRLF = ''HTTP/1.1 200 OK'' @ CRLF"
    by (simp add: get_code_string_def http_code_list_def code_number_def to_string_uint_def digits_loop.simps
        lower_case_numbers_def)
  moreover have "unat (word_of_nat (length (content info)) :: u64) = length (content info)"
    using assms(3) by (simp add: unsigned_of_nat take_bit_nat_eq_self)
  ultimately show ?thesis
    using assms(2, 3) tag t
    by (simp add: http1_file_header_def file_header_text_def copy_http_header_response_wf env_ok_def wf_header_line_def
        header_text_def header_line_of_def line_text_def date_text_def etags_size_def to_string64_hash_size_def
        copy_http_response_content_length_def content_length_line_wf)
qed

definition http1_reply :: "http_env \<Rightarrow> http_header_request \<Rightarrow> filemap \<Rightarrow> u8 list" where
  "http1_reply env header fm =
     (case cache fm (get_path header) of
        None \<Rightarrow> bytes_of (the (http_add_404_Not_Found (he_local_address env) (he_date env) (he_date_size env)))
      | Some info \<Rightarrow>
          if has_tag header info then bytes_of (not_modified_text env info)
          else bytes_of (file_header_text env info @ CRLF) @ content info)"

text \<open>A file whose header goes into the write buffer and whose length has at most nine digits.\<close>

definition servable_file :: "http_env \<Rightarrow> file_info \<Rightarrow> bool" where
  "servable_file env info \<longleftrightarrow> length (content info) < 10 ^ 9 \<and> length (file_header_text env info) \<le> buffer_size"

lemma http1_request_get:
  assumes "web_reachable (he_webmaps env)" "env_ok env" "length mem = buffer_size"
    and "hr_method header = GET" "\<not> wants_upgrade use_ssl header"
    and "getfilemap (sa_port (he_local_address env)) (he_webmaps env) = Some (Inr fm)"
    and "case cache fm (get_path header) of None \<Rightarrow> True | Some info \<Rightarrow> servable_file env info"
  shows "\<exists>mem'. http1_request use_ssl env (SUCCESS, header) mem = Some (Answered [http1_reply env header fm] mem') \<and>
    length mem' = buffer_size"
proof -
  have "cache_ok (cache fm)"
    using getfilemap_cache_ok [OF assms(1) assms(6)] .
  show ?thesis
  proof (cases "cache fm (get_path header)")
    case None
    obtain page where page: "http_add_404_Not_Found (he_local_address env) (he_date env) (he_date_size env) = Some page"
        "0 < length page" "length page \<le> buffer_size"
      using error_page_fits [OF assms(2), of http_add_404_Not_Found] by auto
    obtain mem' where "store_page mem page = Some (mem', length page)" "length mem' = buffer_size"
        "take (length page) mem' = bytes_of page"
      using store_page_fits [OF assms(3) page(3)] by blast
    then show ?thesis
      using assms(4-6) None page
      by (simp add: http1_request_def http1_get_def http1_reply_def push_page_def)
  next
    case (Some info)
    then have info: "info_ok info" "servable_file env info"
      using \<open>cache_ok (cache fm)\<close> assms(7) by (auto simp: cache_ok_def)
    note match = match_etag_info [OF info(1), of header]
    show ?thesis
    proof (cases "has_tag header info")
      case True
      obtain mem' where "store_page mem (not_modified_text env info) = Some (mem', length (not_modified_text env info))"
          "length mem' = buffer_size" "take (length (not_modified_text env info)) mem' = bytes_of (not_modified_text env info)"
        using store_page_fits [OF assms(3) not_modified_page(2) [OF info(1) assms(2)]] by blast
      moreover have "not_modified_text env info \<noteq> []" by (simp add: not_modified_text_def)
      ultimately show ?thesis
        using assms(4-6) Some match True not_modified_page(1) [OF info(1) assms(2)]
        by (simp add: http1_request_def http1_get_def http1_reply_def push_page_def)
    next
      case False
      have fits: "length (file_header_text env info) \<le> buffer_size" using info(2) by (simp add: servable_file_def)
      obtain mem' where "store_page mem (file_header_text env info) = Some (mem', length (file_header_text env info))"
          "length mem' = buffer_size" "take (length (file_header_text env info)) mem' = bytes_of (file_header_text env info)"
        using store_page_fits [OF assms(3) fits] by blast
      then show ?thesis
        using assms(4-6) Some match False file_header_page [OF info(1) assms(2)] info(2)
        by (simp add: http1_request_def http1_get_def http1_reply_def push_page_def servable_file_def)
    qed
  qed
qed

subsection \<open>A connection\<close>

definition answer_calls :: "u8 list list \<Rightarrow> peer_call list" where
  "answer_calls bufs = map Push bufs @ [Write_all]"

lemma peer_run_append:
  "peer_run transmit (calls @ calls') p = Option.bind (peer_run transmit calls p) (peer_run transmit calls')"
  by (induction transmit calls p rule: peer_run.induct) (auto split: option.split)

lemma peer_run_push: "peer_run transmit (map Push bufs) p = Some (push_buffers bufs p)"
  by (induction bufs arbitrary: p) (simp_all add: push_buffers_def)

lemma peer_run_answer: "peer_run transmit (answer_calls bufs) p = write_all transmit (push_buffers bufs p)"
  by (simp add: answer_calls_def peer_run_append peer_run_push split: option.split)

lemma pushed_append [simp]: "pushed (calls @ calls') = pushed calls @ pushed calls'"
  by (induction calls rule: pushed.induct) simp_all

lemma pushed_answer [simp]: "pushed (answer_calls bufs) = concat bufs"
proof -
  have "pushed (map Push bufs) = concat bufs" by (induction bufs) simp_all
  then show ?thesis by (simp add: answer_calls_def)
qed

text \<open>A read of one whole GET request for which the server has an answer.\<close>

definition get_read :: "http_env \<Rightarrow> (u8 list \<Rightarrow> err_t \<times> http_header_request) \<Rightarrow> filemap \<Rightarrow> u8 list \<Rightarrow> bool" where
  "get_read env parse fm data \<longleftrightarrow>
     data \<noteq> [] \<and> fst (parse data) = SUCCESS \<and> hr_method (snd (parse data)) = GET \<and>
     \<not> wants_upgrade False (snd (parse data)) \<and>
     (case cache fm (get_path (snd (parse data))) of None \<Rightarrow> True | Some info \<Rightarrow> servable_file env info)"

lemma http1_read_helper_gets:
  assumes "web_reachable (he_webmaps env)" "env_ok env"
    and "getfilemap (sa_port (he_local_address env)) (he_webmaps env) = Some (Inr fm)"
  shows "list_all (get_read env parse fm) datas \<Longrightarrow> length mem = buffer_size \<Longrightarrow>
    peer_run transmit (concat (map (\<lambda>d. answer_calls [http1_reply env (snd (parse d)) fm]) datas)) p = Some p' \<Longrightarrow>
    \<exists>mem'. http1_read_helper transmit False env parse (map (Pair SUCCESS) datas) mem p = Some (Stays p' mem')"
proof (induction datas arbitrary: mem p)
  case (Cons d datas)
  have d: "d \<noteq> []" "hr_method (snd (parse d)) = GET" "\<not> wants_upgrade False (snd (parse d))"
    "case cache fm (get_path (snd (parse d))) of None \<Rightarrow> True | Some info \<Rightarrow> servable_file env info"
    and parse: "parse d = (SUCCESS, snd (parse d))"
    using Cons.prems(1) by (auto simp: get_read_def prod_eq_iff)
  obtain mem' where mem': "http1_request False env (parse d) mem =
      Some (Answered [http1_reply env (snd (parse d)) fm] mem')" "length mem' = buffer_size"
    using http1_request_get [OF assms(1, 2) Cons.prems(2) d(2, 3) assms(3) d(4)] parse by auto
  obtain p1 where p1: "write_all transmit (push_buffers [http1_reply env (snd (parse d)) fm] p) = Some p1"
    "peer_run transmit (concat (map (\<lambda>d. answer_calls [http1_reply env (snd (parse d)) fm]) datas)) p1 = Some p'"
    using Cons.prems(3) by (auto simp: peer_run_append peer_run_answer bind_Some_iff)
  have "list_all (get_read env parse fm) datas" using Cons.prems(1) by simp
  from Cons.IH [OF this mem'(2) p1(2)] show ?case
    using d(1) mem'(1) p1(1) by (simp add: isFailure_def)
qed simp

lemma http1_reply_small:
  assumes "env_ok env" "case cache fm (get_path header) of None \<Rightarrow> True | Some info \<Rightarrow> servable_file env info"
    and "cache_ok (cache fm)"
  shows "length (http1_reply env header fm) < 2 ^ 64"
proof (cases "cache fm (get_path header)")
  case None
  then show ?thesis
    using error_page_fits [OF assms(1), of http_add_404_Not_Found] by (auto simp: http1_reply_def buffer_size_def)
next
  case (Some info)
  then have "info_ok info" "servable_file env info" using assms(2, 3) by (auto simp: cache_ok_def)
  then show ?thesis
    using Some not_modified_page(2) [of info env] assms(1)
    by (auto simp: http1_reply_def servable_file_def buffer_size_def)
qed

lemma http1_gets_run:
  assumes "web_reachable (he_webmaps env)" "env_ok env" "length mem = buffer_size"
    and "getfilemap (sa_port (he_local_address env)) (he_webmaps env) = Some (Inr fm)"
    and "list_all (get_read env parse fm) datas"
  shows "\<exists>p mem'.
    http1_read_helper plain_write False env parse (map (Pair SUCCESS) datas) mem
      (new_peer False \<lparr>wi_sent = [], wi_choices = choices\<rparr>) = Some (Stays p mem') \<and>
    subseq (wi_sent (pe_peer_id p) @ unsent (pe_write_queue p))
      (concat (map (\<lambda>d. http1_reply env (snd (parse d)) fm) datas)) \<and>
    (pe_log p = [] \<longrightarrow> wi_sent (pe_peer_id p) @ unsent (pe_write_queue p) =
      concat (map (\<lambda>d. http1_reply env (snd (parse d)) fm) datas))"
proof -
  let ?calls = "concat (map (\<lambda>d. answer_calls [http1_reply env (snd (parse d)) fm]) datas)"
  let ?start = "new_peer False \<lparr>wi_sent = [], wi_choices = choices\<rparr>"
  have "cache_ok (cache fm)"
    using getfilemap_cache_ok [OF assms(1) assms(4)] .
  then have "list_all (\<lambda>d. length (http1_reply env (snd (parse d)) fm) < 2 ^ 64) datas"
    using assms(5) http1_reply_small [OF assms(2)] by (auto simp: list_all_iff get_read_def)
  then have small: "small_calls ?calls"
    by (induction datas) (auto simp: small_calls_def answer_calls_def)
  have wf: "list_all wf_entry (pe_write_queue ?start)" and start: "pe_write_queue ?start = []"
    "pe_log ?start = []" "wi_sent (pe_peer_id ?start) = []" by (simp_all add: new_peer_def)
  obtain p where p: "peer_run plain_write ?calls ?start = Some p"
    using plain.peer_run_returns [OF wf small] by auto
  have pushed: "pushed ?calls = concat (map (\<lambda>d. http1_reply env (snd (parse d)) fm) datas)"
    by (induction datas) simp_all
  obtain mem' where "http1_read_helper plain_write False env parse (map (Pair SUCCESS) datas) mem ?start =
      Some (Stays p mem')"
    using http1_read_helper_gets [OF assms(1, 2, 4, 5, 3) p] by blast
  then show ?thesis
    using plain.peer_run_sent [OF p wf small] start pushed by auto
qed

text \<open>
  On a new connection whose reads are whole GET requests, over a socket that takes the bytes as it
  likes, every request is answered and the handler reads until there is no more data: with the bytes
  still queued, what was sent is exactly the answers in the order of the requests as long as no write
  fails, and a subsequence of them otherwise.  An answer is the error page 404 for a path that is not
  cached, the 304 header if the client names the entity tag of the file, and else the 200 header, an
  empty line and the bytes of the file.
\<close>

theorem http1_gets_answered:
  assumes "web_reachable (he_webmaps env)" "env_ok env" "length mem = buffer_size"
    and "getfilemap (sa_port (he_local_address env)) (he_webmaps env) = Some (Inr fm)"
    and "list_all (get_read env parse fm) datas"
  shows "\<exists>p mem'.
    http1_read_helper plain_write False env parse (map (Pair SUCCESS) datas) mem
      (new_peer False \<lparr>wi_sent = [], wi_choices = choices\<rparr>) = Some (Stays p mem') \<and>
    subseq (wi_sent (pe_peer_id p) @ unsent (pe_write_queue p))
      (concat (map (\<lambda>d. http1_reply env (snd (parse d)) fm) datas)) \<and>
    (pe_log p = [] \<longrightarrow> wi_sent (pe_peer_id p) @ unsent (pe_write_queue p) =
      concat (map (\<lambda>d. http1_reply env (snd (parse d)) fm) datas))"
  using assms by (rule http1_gets_run)

text \<open>A server with no file on port 80, and the only request the parser accepts.\<close>

definition demo_env :: http_env where
  "demo_env = \<lparr>he_local_address = \<lparr>sa_addr = [0, 0, 0, 0, 0, 0, 0, 0x100], sa_port = ipv6_port_of 80\<rparr>,
     he_date = ''today'' @ [NUL], he_date_size = 6, he_webmaps = web_add_folder (ipv6_port_of 80) ''/www'' new_webmaps\<rparr>"

definition demo_parse :: "u8 list \<Rightarrow> err_t \<times> http_header_request" where
  "demo_parse data = (SUCCESS, \<lparr>hr_version = VER_1_1, hr_method = GET, hr_fields = [Pseudo Path \<mapsto> ''/x'']\<rparr>)"

lemma demo_env_ok: "env_ok demo_env"
  by (simp add: env_ok_def demo_env_def wf_ipv6_def ipv6_addr16_size_def)

lemma demo_env_file:
  "getfilemap (sa_port (he_local_address demo_env)) (he_webmaps demo_env) = Some (Inr (new_filemap ''/www''))"
  by (simp add: demo_env_def web_add_folder_def new_webmaps_def getfilemap_def load_def list_insert_def)

theorem http1_gets_answered_witness:
  "\<exists>p mem'.
    http1_read_helper plain_write False demo_env demo_parse [(SUCCESS, [1]), (SUCCESS, [2])] (replicate buffer_size 0)
      (new_peer False \<lparr>wi_sent = [], wi_choices = [7]\<rparr>) = Some (Stays p mem') \<and>
    subseq (wi_sent (pe_peer_id p) @ unsent (pe_write_queue p))
      (http1_reply demo_env (snd (demo_parse [1])) (new_filemap ''/www'') @
       http1_reply demo_env (snd (demo_parse [2])) (new_filemap ''/www''))"
proof -
  have "web_reachable (he_webmaps demo_env)"
    unfolding demo_env_def by (simp add: web_reachable.folder web_reachable.start)
  moreover have "list_all (get_read demo_env demo_parse (new_filemap ''/www'')) [[1], [2]]"
    by (simp add: get_read_def demo_parse_def wants_upgrade_def upgrade_version_def new_filemap_def)
  ultimately show ?thesis
    using http1_gets_answered [OF _ demo_env_ok _ demo_env_file, of "replicate buffer_size 0" demo_parse "[[1], [2]]" "[7]"]
    by auto
qed

subsection \<open>Requests that do not parse\<close>

text \<open>
  A request the parser refuses is not answered with the error page 400: without a method that is
  known the answer is the error page 405, since the test of the method follows without an \<open>else\<close>.
\<close>

theorem bad_request_not_sent:
  assumes "env_ok env" "length mem = buffer_size" "parserret \<noteq> SUCCESS"
    and "hr_method header \<notin> {GET, PRI}" "\<not> wants_upgrade use_ssl header"
  shows "\<exists>page mem'.
    http_add_405_Method_Not_Allowed (he_local_address env) (he_date env) (he_date_size env) = Some page \<and>
    http1_request use_ssl env (parserret, header) mem = Some (Answered [bytes_of page] mem')"
proof -
  obtain page400 where page400: "http_add_400_Bad_Request (he_local_address env) (he_date env) (he_date_size env) = Some page400"
      "length page400 \<le> buffer_size"
    using error_page_fits [OF assms(1), of http_add_400_Bad_Request] by auto
  obtain mem1 where mem1: "store_page mem page400 = Some (mem1, length page400)" "length mem1 = buffer_size"
    using store_page_fits [OF assms(2) page400(2)] by blast
  obtain page where page: "http_add_405_Method_Not_Allowed (he_local_address env) (he_date env) (he_date_size env) = Some page"
      "0 < length page" "length page \<le> buffer_size"
    using error_page_fits [OF assms(1), of http_add_405_Method_Not_Allowed] by auto
  obtain mem2 where "store_page mem1 page = Some (mem2, length page)" "take (length page) mem2 = bytes_of page"
    using store_page_fits [OF mem1(2) page(3)] by blast
  then show ?thesis
    using assms(3-5) page400(1) mem1(1) page by (simp add: http1_request_def push_page_def)
qed

theorem bad_request_not_sent_witness:
  "\<exists>page mem'.
    http_add_405_Method_Not_Allowed (he_local_address demo_env) (he_date demo_env) (he_date_size demo_env) = Some page \<and>
    http1_request True demo_env
      (HTTP11_PARSER_FAILURE, \<lparr>hr_version = VER_1_1, hr_method = METHOD_IGNORE_THIS, hr_fields = Map.empty\<rparr>)
      (replicate buffer_size 0) = Some (Answered [bytes_of page] mem')"
  by (rule bad_request_not_sent [OF demo_env_ok]) (simp_all add: wants_upgrade_def)

text \<open>
  With a valid request line and a bad header line behind it the file is sent, and after it as many
  bytes of the write buffer as the page 400 had, which begin with the header of the answer.
\<close>

lemma bad_request_and_file:
  assumes "web_reachable (he_webmaps env)" "env_ok env" "length mem = buffer_size" "parserret \<noteq> SUCCESS"
    and "hr_method header = GET" "\<not> wants_upgrade use_ssl header"
    and "getfilemap (sa_port (he_local_address env)) (he_webmaps env) = Some (Inr fm)"
    and "cache fm (get_path header) = Some info" "servable_file env info" "\<not> has_tag header info"
  shows "\<exists>page400 mem'.
    http_add_400_Bad_Request (he_local_address env) (he_date env) (he_date_size env) = Some page400 \<and>
    http1_request use_ssl env (parserret, header) mem =
      Some (Answered [http1_reply env header fm, take (length page400) mem'] mem') \<and>
    take (length (file_header_text env info)) mem' = bytes_of (file_header_text env info)"
proof -
  have "cache_ok (cache fm)"
    using getfilemap_cache_ok [OF assms(1) assms(7)] .
  then have info: "info_ok info" using assms(8) by (auto simp: cache_ok_def)
  obtain page400 where page400: "http_add_400_Bad_Request (he_local_address env) (he_date env) (he_date_size env) = Some page400"
      "0 < length page400" "length page400 \<le> buffer_size"
    using error_page_fits [OF assms(2), of http_add_400_Bad_Request] by auto
  obtain mem1 where mem1: "store_page mem page400 = Some (mem1, length page400)" "length mem1 = buffer_size"
    using store_page_fits [OF assms(3) page400(3)] by blast
  have fits: "length (file_header_text env info) \<le> buffer_size" using assms(9) by (simp add: servable_file_def)
  obtain mem2 where mem2: "store_page mem1 (file_header_text env info) = Some (mem2, length (file_header_text env info))"
      "take (length (file_header_text env info)) mem2 = bytes_of (file_header_text env info)"
    using store_page_fits [OF mem1(2) fits] by blast
  show ?thesis
    using assms(4-10) page400 mem1(1) mem2 match_etag_info [OF info, of header]
      file_header_page [OF info assms(2)]
    by (simp add: http1_request_def http1_get_def http1_reply_def push_page_def servable_file_def)
qed

end
