(* ===== verification/Http2Event.thy ===== *)
theory Http2Event
  imports Http1Event
begin

text \<open>
  deviceserver/include/iothttpevent.hh, second part: \<open>iothttp2event\<close>, the HTTP/2 side of a connection.
  The read buffer is a memory that begins with the data of the last read; the write buffer is a
  memory of \<open>buffer_size\<close> bytes.
\<close>

subsection \<open>The connection\<close>

record 'w http2_conn =
  h2_peer :: "'w peer"
  h2_dynamic_table :: dynamic_table
  h2_peer_settings :: settings_store

definition new_http2_conn :: "'w peer \<Rightarrow> 'w http2_conn" where
  "new_http2_conn p =
     \<lparr>h2_peer = p, h2_dynamic_table = new_dynamic_table 12, h2_peer_settings = new_settings_store\<rparr>"

definition on_peer :: "('w peer \<Rightarrow> 'w peer) \<Rightarrow> 'w http2_conn \<Rightarrow> 'w http2_conn" where
  "on_peer f conn = conn\<lparr>h2_peer := f (h2_peer conn)\<rparr>"

definition conn_write_all ::
    "('w \<Rightarrow> u8 list \<Rightarrow> (err_t \<times> u64 \<times> 'w) option) \<Rightarrow> 'w http2_conn \<Rightarrow> 'w http2_conn option" where
  "conn_write_all transmit conn = map_option (\<lambda>p. conn\<lparr>h2_peer := p\<rparr>) (write_all transmit (h2_peer conn))"

subsection \<open>The answer to one request\<close>

text \<open>Bytes written at the start of the write buffer, pushed if there are any.\<close>

definition push_out :: "u8 list \<Rightarrow> u8 list list option" where
  "push_out out = (if buffer_size < length out then None else Some (if out = [] then [] else [out]))"

definition http2_not_modified :: "http_env \<Rightarrow> u32 \<Rightarrow> file_info \<Rightarrow> request \<Rightarrow> (u8 list \<times> request) option" where
  "http2_not_modified env stream_identifier file_details rq =
     do { b \<leftarrow> with_table rq (copy_status_header (rq_dynamic_table rq) 304) [];
          date \<leftarrow> subrange (he_date env) 0 (he_date_size env);
          b \<leftarrow> add_line (General Date) date True b;
          b \<leftarrow> add_line (Response Server) (WEB_SERVER_NAME @ [NUL]) True b;
          tag \<leftarrow> subrange (etags file_details) 0 etags_size;
          (hs, rq') \<leftarrow> add_line (Response ETag) tag True b;
          Some (new_frame_bytes (word_of_nat (length hs)) HEADERS [END_HEADERS, END_STREAM] stream_identifier @ hs,
                rq') }"

definition http2_file_header :: "http_env \<Rightarrow> u32 \<Rightarrow> file_info \<Rightarrow> request \<Rightarrow> (u8 list \<times> request) option" where
  "http2_file_header env stream_identifier file_details rq =
     do { b \<leftarrow> with_table rq (copy_status_header (rq_dynamic_table rq) 200) [];
          date \<leftarrow> subrange (he_date env) 0 (he_date_size env);
          b \<leftarrow> add_line (General Date) date False b;
          b \<leftarrow> add_line (Response Server) (WEB_SERVER_NAME @ [NUL]) True b;
          tag \<leftarrow> subrange (etags file_details) 0 etags_size;
          b \<leftarrow> add_line (Response ETag) tag True b;
          b \<leftarrow> add_line (General Cache_Control) (''private, max-age=2592000'' @ [NUL]) True b;
          b \<leftarrow> add_line (Response Content_Type) (''text/html'' @ [NUL]) True b;
          (hs, rq') \<leftarrow> add_line (Response Content_Length)
            (std_to_string (word_of_nat (length (content file_details)))) True b;
          Some (new_frame_bytes (word_of_nat (length hs)) HEADERS [END_HEADERS] stream_identifier @ hs, rq') }"

text \<open>The loop that cuts a file into DATA frames: every buffer pushed is one frame.\<close>

function data_frames :: "u32 \<Rightarrow> u8 list \<Rightarrow> u8 list list" where
  "data_frames stream_identifier data =
     (if buffer_size < length data + frame_size then
        (let current_size = buffer_size - frame_size in
         (new_frame_bytes (word_of_nat current_size) DATA [NONE] stream_identifier @ take current_size data) #
         data_frames stream_identifier (drop current_size data))
      else [new_frame_bytes (word_of_nat (length data)) DATA [END_STREAM] stream_identifier @ data])"
  by pat_completeness auto
termination
  by (relation "measure (\<lambda>(stream_identifier, data). length data)") (auto simp: buffer_size_def frame_size_def)

declare data_frames.simps [simp del]

definition as_http11 :: "header_request \<Rightarrow> http_header_request" where
  "as_http11 q =
     \<lparr>hr_version = hq_version q,
      hr_method = (case hq_method q of Some m \<Rightarrow> m | None \<Rightarrow> METHOD_IGNORE_THIS), hr_fields = hq_fields q\<rparr>"

text \<open>
  The buffers pushed and the request, whose dynamic table has changed.  A request that was made only
  because another one depends on it has no method: reading it is undefined.
\<close>

definition http2_answer ::
    "http_env \<Rightarrow> header_request \<Rightarrow> request \<Rightarrow> (err_t + u8 list list \<times> request) option" where
  "http2_answer env q rq =
     (let sid = hq_stream_identifier q; addr = he_local_address env;
          date = he_date env; date_size = he_date_size env in
      case hq_method q of
        None \<Rightarrow> None
      | Some GET \<Rightarrow>
          (case getfilemap (sa_port addr) (he_webmaps env) of
             None \<Rightarrow> None
           | Some (Inl err) \<Rightarrow> Some (Inl err)
           | Some (Inr filemap_obj) \<Rightarrow>
               (case cache filemap_obj (get_path (as_http11 q)) of
                  None \<Rightarrow>
                    do { (out, rq') \<leftarrow> http2_add_404_Not_Found rq sid addr date date_size;
                         bufs \<leftarrow> push_out out;
                         Some (Inr (bufs, rq')) }
                | Some file_details \<Rightarrow>
                    do { same \<leftarrow> match_etag (as_http11 q) (etags file_details) etags_size;
                         if same then
                           do { (out, rq') \<leftarrow> http2_not_modified env sid file_details rq;
                                bufs \<leftarrow> push_out out;
                                Some (Inr (bufs, rq')) }
                         else
                           do { (out, rq') \<leftarrow> http2_file_header env sid file_details rq;
                                bufs \<leftarrow> push_out out;
                                Some (Inr (bufs @ data_frames sid (content file_details), rq')) } }))
      | Some _ \<Rightarrow>
          do { (out, rq') \<leftarrow> http2_add_405_Method_Not_Allowed rq sid addr date date_size;
               bufs \<leftarrow> push_out out;
               Some (Inr (bufs, rq')) })"

subsection \<open>process_request\<close>

text \<open>The walk along the list from \<open>get_first_header\<close>; the answers do not change the pointers.\<close>

fun request_order :: "nat \<Rightarrow> header_request list \<Rightarrow> nat option \<Rightarrow> nat list option" where
  "request_order fuel heap None = Some []"
| "request_order 0 heap (Some p) = None"
| "request_order (Suc fuel) heap (Some p) =
     (if length heap \<le> p then None
      else map_option ((#) p) (request_order fuel heap (hq_next (heap ! p))))"

fun http2_answers :: "http_env \<Rightarrow> nat list \<Rightarrow> request \<Rightarrow> (err_t + u8 list list \<times> request) option" where
  "http2_answers env [] rq = Some (Inr ([], rq))"
| "http2_answers env (p # ps) rq =
     (case http2_answer env (rq_heap rq ! p) rq of
        None \<Rightarrow> None
      | Some (Inl err) \<Rightarrow> Some (Inl err)
      | Some (Inr (bufs, rq')) \<Rightarrow>
          map_option (map_sum id (\<lambda>(bufs', rq''). (bufs @ bufs', rq''))) (http2_answers env ps rq'))"

definition process_request :: "http_env \<Rightarrow> request \<Rightarrow> (err_t + u8 list list \<times> request) option" where
  "process_request env rq =
     (case request_order (length (rq_heap rq)) (rq_heap rq) (rq_first rq) of
        None \<Rightarrow> None
      | Some ps \<Rightarrow> http2_answers env ps rq)"

subsection \<open>process_read_buffer\<close>

text \<open>
  How a call ends: the connection, whether \<open>delayed_free\<close> was called, and the write buffer; or an
  exception.  \<open>closing\<close> is \<open>close\<close> with the result of closing the socket.
\<close>

datatype 'w http2_end =
    Stays2 "'w http2_conn" bool "u8 list"
  | Throws2 err_t

type_synonym 'w transmitter = "'w \<Rightarrow> u8 list \<Rightarrow> (err_t \<times> u64 \<times> 'w) option"

record 'w http2_net =
  hn_transmit :: "'w transmitter"
  hn_last_peer_id :: int
  hn_close_ret :: err_t

definition close_conn :: "'w http2_net \<Rightarrow> u8 list \<Rightarrow> 'w http2_conn \<Rightarrow> 'w http2_end" where
  "close_conn net mem conn =
     (case close_peer (hn_last_peer_id net) (hn_close_ret net) (h2_peer conn) of
        (p, freed) \<Rightarrow> Stays2 (conn\<lparr>h2_peer := p\<rparr>) freed mem)"

definition server_settings :: "u32 \<Rightarrow> (identifier_t \<times> u32) list" where
  "server_settings max_concurrent_streams =
     [(SETTINGS_ENABLE_PUSH, 0), (SETTINGS_MAX_CONCURRENT_STREAMS, max_concurrent_streams),
      (SETTINGS_INITIAL_WINDOW_SIZE, 1048576), (SETTINGS_HEADER_TABLE_SIZE, 2048)]"

definition answer_requests ::
    "http_env \<Rightarrow> 'w http2_net \<Rightarrow> request \<Rightarrow> u8 list \<Rightarrow> 'w http2_conn \<Rightarrow> 'w http2_end option" where
  "answer_requests env net rq mem conn =
     (case process_request env rq of
        None \<Rightarrow> None
      | Some (Inl err) \<Rightarrow> Some (Throws2 err)
      | Some (Inr (bufs, rq')) \<Rightarrow>
          map_option (\<lambda>conn'. Stays2 conn' False mem)
            (conn_write_all (hn_transmit net)
              (on_peer (push_buffers bufs)
                (conn\<lparr>h2_dynamic_table := rq_dynamic_table rq', h2_peer_settings := rq_peer_settings rq'\<rparr>))))"

text \<open>The received bytes are those of \<open>buf\<close> from \<open>pstart\<close> to \<open>pend\<close>.\<close>

definition process_read_buffer ::
    "http_env \<Rightarrow> 'w http2_net \<Rightarrow> bool \<Rightarrow> u8 list \<Rightarrow> nat \<Rightarrow> nat \<Rightarrow> u8 list \<Rightarrow> 'w http2_conn \<Rightarrow> 'w http2_end option" where
  "process_read_buffer env net first_frame buf pstart pend mem conn =
     (let rq = new_request (h2_dynamic_table conn) (h2_peer_settings conn) in
      case (if first_frame then map_option (\<lambda>f. get_type f = Some SETTINGS) (frame_at buf pstart) else Some True) of
        None \<Rightarrow> None
      | Some False \<Rightarrow>
          do { (mem', n) \<leftarrow> goaway_add_frame (mem, 0) 1 PROTOCOL_ERROR ''SETTINGS expected'';
               conn' \<leftarrow> conn_write_all (hn_transmit net) (on_peer (push_buffers [take n mem']) conn);
               Some (close_conn net mem' conn') }
      | Some True \<Rightarrow>
          do { wb \<leftarrow> (if first_frame then put (settings_add_frame (server_settings 10)) (mem, 0) else Some (mem, 0));
               (ret, rq', mem', n) \<leftarrow> request_parse buf pstart pend rq wb;
               let conn' = on_peer (push_buffers (if n = 0 then [] else [take n mem']))
                     (conn\<lparr>h2_dynamic_table := rq_dynamic_table rq', h2_peer_settings := rq_peer_settings rq'\<rparr>) in
               if ret \<noteq> HTTP2_INITIATE_GOAWAY then answer_requests env net rq' mem' conn'
               else Some (close_conn net mem' conn') })"

subsection \<open>upgrade\<close>

definition upgrade_head :: "string option" where
  "upgrade_head =
     do { head \<leftarrow> copy_http_header_response VER_1_1 101
            [header_line_of (General Connection) ''Upgrade'', header_line_of (General Upgrade) ''h2c''];
          Some (head @ CRLF) }"

definition set_state :: "state_t \<Rightarrow> 'w http2_conn \<Rightarrow> 'w http2_conn" where
  "set_state st = on_peer (\<lambda>p. p\<lparr>pe_client_state := st\<rparr>)"

definition upgrade ::
    "http_env \<Rightarrow> 'w http2_net \<Rightarrow> http_header_request \<Rightarrow> u8 list \<Rightarrow> 'w http2_conn \<Rightarrow> 'w http2_end option" where
  "upgrade env net header mem conn =
     do { setting \<leftarrow> hr_fields header (Request HTTP2_Settings);
          peer_settings \<leftarrow> parse_base64_frame (h2_peer_settings conn) (bytes_of setting);
          head \<leftarrow> upgrade_head;
          bufs \<leftarrow> push_out (bytes_of head @ settings_add_frame (server_settings 100) @ settings_add_ack_frame);
          e \<leftarrow> answer_requests env net (upgrade_request (h2_dynamic_table conn) peer_settings header) mem
            (on_peer (push_buffers bufs) (conn\<lparr>h2_peer_settings := peer_settings\<rparr>));
          Some (case e of
              Stays2 conn' freed mem' \<Rightarrow> Stays2 (set_state HTTP2_NEXT_MAGIC conn') freed mem'
            | Throws2 err \<Rightarrow> Throws2 err) }"

subsection \<open>read_helper and execute\<close>

definition connection_preface :: string where
  "connection_preface =
     ''PRI * HTTP/2.0'' @ CRLF @ CRLF @ ''SM'' @ CRLF @ CRLF"

definition connection_preface_size :: nat where
  "connection_preface_size = length connection_preface"

text \<open>The read buffer after a read: the data over what was there.\<close>

definition read_memory :: "u8 list \<Rightarrow> u8 list \<Rightarrow> u8 list" where
  "read_memory data stale = data @ drop (length data) stale"

definition next_magic ::
    "http_env \<Rightarrow> 'w http2_net \<Rightarrow> u8 list \<Rightarrow> u8 list \<Rightarrow> u8 list \<Rightarrow> 'w http2_conn \<Rightarrow> (bool \<times> 'w http2_end) option" where
  "next_magic env net data buf mem conn =
     (if length data < connection_preface_size \<or>
         take connection_preface_size data \<noteq> bytes_of connection_preface
      then Some (True, close_conn net mem conn)
      else if length data = connection_preface_size
      then Some (True, Stays2 (set_state HTTP2_FIRST_FRAME conn) False mem)
      else map_option (Pair False)
        (process_read_buffer env net True buf connection_preface_size (length data) mem
          (set_state SOCKET_PEER_EVENT conn)))"

text \<open>
  \<open>read_helper<state>\<close>; a TLS connection reads again until there is no data or it is closed, a plain
  one reads once.  \<open>reads\<close> are the results of the reads with the old contents of the read buffer.
\<close>

fun http2_read_helper ::
    "http_env \<Rightarrow> 'w http2_net \<Rightarrow> bool \<Rightarrow> state_t \<Rightarrow> (err_t \<times> u8 list \<times> u8 list) list \<Rightarrow> u8 list \<Rightarrow>
     'w http2_conn \<Rightarrow> 'w http2_end option" where
  "http2_read_helper env net use_ssl st [] mem conn = Some (Stays2 conn False mem)"
| "http2_read_helper env net use_ssl st ((err, data, stale) # reads) mem conn =
     (if err = SOCKET_RETRY \<or> isFailure err \<or> data = [] then Some (Stays2 conn False mem)
      else let buf = read_memory data stale in
        case (if st = HTTP2_NEXT_MAGIC then next_magic env net data buf mem conn
              else map_option (Pair False)
                (process_read_buffer env net (st = HTTP2_FIRST_FRAME) buf 0 (length data) mem conn)) of
          None \<Rightarrow> None
        | Some (True, e) \<Rightarrow> Some e
        | Some (False, Throws2 err) \<Rightarrow> Some (Throws2 err)
        | Some (False, Stays2 conn' freed mem') \<Rightarrow>
            if use_ssl \<and> \<not> freed \<and> hn_last_peer_id net \<noteq> 0
            then http2_read_helper env net use_ssl SOCKET_PEER_READ reads mem' conn'
            else Some (Stays2 conn' freed mem'))"

definition http2_execute ::
    "http_env \<Rightarrow> 'w http2_net \<Rightarrow> bool \<Rightarrow> (err_t \<times> u8 list \<times> u8 list) list \<Rightarrow> u8 list \<Rightarrow> 'w http2_conn \<Rightarrow>
     'w http2_end option" where
  "http2_execute env net use_ssl reads mem conn =
     (let st = pe_client_state (h2_peer conn) in
      if st \<in> {HTTP2_NEXT_MAGIC, HTTP2_FIRST_FRAME} then http2_read_helper env net use_ssl st reads mem conn
      else if st \<in> {SOCKET_PEER_EVENT, SOCKET_PEER_READ} then
        http2_read_helper env net use_ssl SOCKET_PEER_READ reads mem conn
      else if st = SOCKET_PEER_CLOSE then Some (close_conn net mem conn)
      else if st = SOCKET_PEER_WRITE then
        (case conn_write_all (hn_transmit net) conn of
           None \<Rightarrow> None
         | Some conn' \<Rightarrow> http2_read_helper env net use_ssl SOCKET_PEER_READ reads mem conn')
      else Some (Stays2 conn False mem))"

text \<open>
  The move from HTTP/1.1 (\<open>iothttpevent::read_helper\<close>): with prior knowledge the frames follow the
  preface in the same read; \<open>read_buffer_length - connection_preface_size\<close> underflows for a shorter
  text, and the buffer then has no end.
\<close>

definition move_to_http2 ::
    "http_env \<Rightarrow> 'w http2_net \<Rightarrow> u8 list \<Rightarrow> u8 list \<Rightarrow> http_header_request option \<Rightarrow> u8 list \<Rightarrow> 'w peer \<Rightarrow>
     'w http2_end option" where
  "move_to_http2 env net data stale upgraded mem p =
     (let conn = new_http2_conn p in
      case upgraded of
        Some header \<Rightarrow> upgrade env net header mem conn
      | None \<Rightarrow>
          if length data < connection_preface_size then None
          else if length data = connection_preface_size
          then Some (Stays2 (set_state HTTP2_FIRST_FRAME conn) False mem)
          else process_read_buffer env net True (read_memory data stale) connection_preface_size (length data) mem conn)"

subsection \<open>The frames a peer reads\<close>

text \<open>Specification: a byte stream cut into frames with their payloads.\<close>

function frames_of :: "u8 list \<Rightarrow> (frame \<times> u8 list) list option" where
  "frames_of bs =
     (if bs = [] then Some []
      else case frame_at bs 0 of
        None \<Rightarrow> None
      | Some f \<Rightarrow>
          if frame_size + unat (get_length f) \<le> length bs
          then map_option ((#) (f, take (unat (get_length f)) (drop frame_size bs)))
            (frames_of (drop (frame_size + unat (get_length f)) bs))
          else None)"
  by pat_completeness auto
termination by (relation "measure length") (auto simp: frame_size_def)

declare frames_of.simps [simp del]

lemma frames_of_Nil [simp]: "frames_of [] = Some []"
  by (simp add: frames_of.simps)

definition is_frame :: "type_t \<Rightarrow> flags_t list \<Rightarrow> u32 \<Rightarrow> frame \<Rightarrow> bool" where
  "is_frame t flags sid f \<longleftrightarrow> get_type f = Some t \<and>
     fr_flags f = foldl (\<lambda>acc flag. acc OR flag_code flag) 0 flags \<and> get_stream_identifier f = sid AND NOT 0x80"

lemma new_frame_bytes_not_Nil [simp]: "new_frame_bytes len t flags sid \<noteq> []"
  by (metis length_new_frame_bytes list.size(3) zero_neq_numeral)

lemma frames_of_new:
  assumes "length payload < 2 ^ 24"
  shows "\<exists>f. is_frame t flags sid f \<and>
    frames_of (new_frame_bytes (word_of_nat (length payload)) t flags sid @ payload @ rest) =
    map_option ((#) (f, payload)) (frames_of rest)"
proof -
  let ?bs = "new_frame_bytes (word_of_nat (length payload)) t flags sid @ payload @ rest"
  obtain f where f: "frame_at ?bs 0 = Some f" "get_length f = take_bit 24 (word_of_nat (length payload))"
      "is_frame t flags sid f"
    using new_frame_bytes_at [of 0 "[]" "word_of_nat (length payload)" t flags sid "payload @ rest"]
    by (auto simp: is_frame_def)
  have "take_bit 24 (length payload) = length payload" using assms by (intro take_bit_nat_eq_self)
  then have len: "unat (get_length f) = length payload"
    by (simp add: f(2) unsigned_take_bit_eq unsigned_of_nat)
  have "?bs \<noteq> []" by simp
  then have "frames_of ?bs = map_option ((#) (f, payload)) (frames_of rest)"
    using f(1) len by (subst frames_of.simps) (simp add: frame_size_def)
  then show ?thesis using f(3) by blast
qed

text \<open>The frames of one answer: the stream ends with the last one, and only with it.\<close>

definition ends_stream :: "frame \<times> u8 list \<Rightarrow> bool" where
  "ends_stream fp \<longleftrightarrow> contains_flag (fst fp) END_STREAM"

definition stream_frames :: "u32 \<Rightarrow> (frame \<times> u8 list) list \<Rightarrow> bool" where
  "stream_frames sid fps \<longleftrightarrow> fps \<noteq> [] \<and> list_all (\<lambda>fp. get_stream_identifier (fst fp) = sid AND NOT 0x80) fps \<and>
     list_all (\<lambda>fp. \<not> ends_stream fp) (butlast fps) \<and> ends_stream (last fps)"

definition data_payload :: "(frame \<times> u8 list) list \<Rightarrow> u8 list" where
  "data_payload fps = concat (map snd (List.filter (\<lambda>fp. get_type (fst fp) = Some DATA) fps))"

lemma is_frame_flags [simp]:
  "is_frame t [END_STREAM] sid f \<Longrightarrow> ends_stream (f, payload)"
  "is_frame t [NONE] sid f \<Longrightarrow> \<not> ends_stream (f, payload)"
  "is_frame t [END_HEADERS] sid f \<Longrightarrow> \<not> ends_stream (f, payload)"
  "is_frame t [END_HEADERS, END_STREAM] sid f \<Longrightarrow> ends_stream (f, payload)"
  by (simp_all add: is_frame_def ends_stream_def contains_flag_def)

lemma stream_frames_Cons:
  "is_frame t flags sid f \<Longrightarrow> \<not> ends_stream (f, payload) \<Longrightarrow> stream_frames sid fps \<Longrightarrow>
   stream_frames sid ((f, payload) # fps)"
  by (auto simp: stream_frames_def is_frame_def)

lemma stream_frames_single:
  "is_frame t flags sid f \<Longrightarrow> ends_stream (f, payload) \<Longrightarrow> stream_frames sid [(f, payload)]"
  by (auto simp: stream_frames_def is_frame_def)

lemma frames_of_append:
  "frames_of xs = Some fps \<Longrightarrow> frames_of (xs @ ys) = map_option ((@) fps) (frames_of ys)"
proof (induction xs arbitrary: fps rule: frames_of.induct)
  case (1 xs)
  show ?case
  proof (cases "xs = []")
    case True
    then show ?thesis using "1.prems" by (cases "frames_of ys") simp_all
  next
    case False
    obtain f rest where f: "frame_at xs 0 = Some f" "frame_size + unat (get_length f) \<le> length xs"
        "frames_of (drop (frame_size + unat (get_length f)) xs) = Some rest"
        "fps = (f, take (unat (get_length f)) (drop frame_size xs)) # rest"
      using "1.prems" False by (subst (asm) frames_of.simps) (auto split: option.splits if_splits)
    have "frame_at (xs @ ys) 0 = Some f"
      using f(1, 2) by (auto simp: frame_at_def subrange_def frame_size_def split: if_splits)
    then have "frames_of (xs @ ys) = map_option ((#) (f, take (unat (get_length f)) (drop frame_size xs)))
        (frames_of (drop (frame_size + unat (get_length f)) xs @ ys))"
      using f(2) False by (subst frames_of.simps) simp
    then show ?thesis
      using "1.IH" [OF False f(1) f(2) f(3)] f(4) by (simp add: option.map_comp o_def)
  qed
qed

lemma data_frames_read:
  "\<exists>fps. frames_of (concat (data_frames sid data)) = Some fps \<and> stream_frames sid fps \<and>
     data_payload fps = data \<and> list_all (\<lambda>buf. length buf \<le> buffer_size) (data_frames sid data)"
proof (induction sid data rule: data_frames.induct)
  case (1 sid data)
  show ?case
  proof (cases "buffer_size < length data + frame_size")
    case True
    let ?n = "buffer_size - frame_size"
    have n: "length (take ?n data) = ?n" using True by simp
    obtain fps where fps: "frames_of (concat (data_frames sid (drop ?n data))) = Some fps" "stream_frames sid fps"
        "data_payload fps = drop ?n data" "list_all (\<lambda>buf. length buf \<le> buffer_size) (data_frames sid (drop ?n data))"
      using "1.IH" [OF True refl] by blast
    have "length (take ?n data) < 2 ^ 24" using n by (simp add: buffer_size_def frame_size_def)
    then obtain f where f: "is_frame DATA [NONE] sid f"
        "frames_of (new_frame_bytes (word_of_nat ?n) DATA [NONE] sid @ take ?n data @
          concat (data_frames sid (drop ?n data))) = Some ((f, take ?n data) # fps)"
      using frames_of_new [of "take ?n data" DATA "[NONE]" sid "concat (data_frames sid (drop ?n data))"] fps(1) n
      by auto
    have "data_payload ((f, take ?n data) # fps) = data"
      using f(1) fps(3) by (simp add: data_payload_def is_frame_def)
    moreover have "stream_frames sid ((f, take ?n data) # fps)"
      using stream_frames_Cons [OF f(1) _ fps(2)] f(1) by simp
    ultimately show ?thesis
      using True f(2) fps(4) n by (subst (1 2) data_frames.simps) (simp add: Let_def buffer_size_def frame_size_def)
  next
    case False
    have "length data < 2 ^ 24" using False by (simp add: buffer_size_def frame_size_def)
    then obtain f where f: "is_frame DATA [END_STREAM] sid f"
        "frames_of (new_frame_bytes (word_of_nat (length data)) DATA [END_STREAM] sid @ data) = Some [(f, data)]"
      using frames_of_new [of data DATA "[END_STREAM]" sid "[]"] by auto
    then show ?thesis
      using False stream_frames_single [OF f(1)]
      by (subst (1 2) data_frames.simps) (simp add: data_payload_def is_frame_def frame_size_def)
  qed
qed

subsection \<open>The header blocks\<close>

lemma http2_not_modified_some:
  assumes "info_ok info" "env_ok env"
  obtains hs rq' where "http2_not_modified env sid info rq =
      Some (new_frame_bytes (word_of_nat (length hs)) HEADERS [END_HEADERS, END_STREAM] sid @ hs, rq')"
    "length hs \<le> 2000" "rq_heap rq' = rq_heap rq"
proof -
  let ?n = "he_date_size env"
  have date: "subrange (he_date env) 0 ?n = Some (take ?n (he_date env))" "take ?n (he_date env) \<noteq> []"
    "length (take ?n (he_date env)) \<le> 92"
    using assms(2) by (auto simp: subrange_def env_ok_def)
  obtain tag where tag: "etags info = tag" "length tag = 12" using assms(1) by (auto simp: info_ok_def)
  then have tags: "subrange (etags info) 0 etags_size = Some tag" "tag \<noteq> []"
    by (auto simp: subrange_def etags_size_def to_string64_hash_size_def)
  obtain o1 r1 where 1: "with_table rq (copy_status_header (rq_dynamic_table rq) 304) [] = Some (o1, r1)"
    "length o1 \<le> 120" using copy_status_total by blast
  obtain o2 r2 where 2: "add_line (General Date) (take ?n (he_date env)) True (o1, r1) = Some (o2, r2)"
    "length o2 \<le> length o1 + 100 + length (take ?n (he_date env))"
    using add_page_line [of "take ?n (he_date env)" "General Date" True o1 r1] date(2) by blast
  obtain o3 r3 where 3: "add_line (Response Server) (WEB_SERVER_NAME @ [NUL]) True (o2, r2) = Some (o3, r3)"
    "length o3 \<le> length o2 + 100 + length (WEB_SERVER_NAME @ [NUL])"
    using add_page_line [of "WEB_SERVER_NAME @ [NUL]" "Response Server" True o2 r2] by blast
  obtain o4 r4 where 4: "add_line (Response ETag) tag True (o3, r3) = Some (o4, r4)"
    "length o4 \<le> length o3 + 100 + length tag"
    using add_page_line [of tag "Response ETag" True o3 r3] tags(2) by blast
  have "length o4 \<le> 2000"
    using 1(2) 2(2) 3(2) 4(2) date(3) tag(2) by (simp add: WEB_SERVER_NAME_def)
  moreover have "rq_heap r4 = rq_heap rq"
    using with_table_heap [OF 1(1)] add_line_heap [OF 2(1)] add_line_heap [OF 3(1)] add_line_heap [OF 4(1)] by simp
  moreover have "http2_not_modified env sid info rq =
      Some (new_frame_bytes (word_of_nat (length o4)) HEADERS [END_HEADERS, END_STREAM] sid @ o4, r4)"
    unfolding http2_not_modified_def date(1) tags(1) 1(1) Option.bind.simps(2) 2(1) 3(1) 4(1) by simp
  ultimately show ?thesis using that by blast
qed

lemma http2_file_header_some:
  assumes "info_ok info" "env_ok env"
  obtains hs rq' where "http2_file_header env sid info rq =
      Some (new_frame_bytes (word_of_nat (length hs)) HEADERS [END_HEADERS] sid @ hs, rq')"
    "length hs \<le> 2000" "rq_heap rq' = rq_heap rq"
proof -
  let ?n = "he_date_size env" and ?len = "std_to_string (word_of_nat (length (content info)))"
  have date: "subrange (he_date env) 0 ?n = Some (take ?n (he_date env))" "take ?n (he_date env) \<noteq> []"
    "length (take ?n (he_date env)) \<le> 92"
    using assms(2) by (auto simp: subrange_def env_ok_def)
  obtain tag where tag: "etags info = tag" "length tag = 12" using assms(1) by (auto simp: info_ok_def)
  then have tags: "subrange (etags info) 0 etags_size = Some tag" "tag \<noteq> []"
    by (auto simp: subrange_def etags_size_def to_string64_hash_size_def)
  obtain o1 r1 where 1: "with_table rq (copy_status_header (rq_dynamic_table rq) 200) [] = Some (o1, r1)"
    "length o1 \<le> 120" using copy_status_total by blast
  obtain o2 r2 where 2: "add_line (General Date) (take ?n (he_date env)) False (o1, r1) = Some (o2, r2)"
    "length o2 \<le> length o1 + 100 + length (take ?n (he_date env))"
    using add_page_line [of "take ?n (he_date env)" "General Date" False o1 r1] date(2) by blast
  obtain o3 r3 where 3: "add_line (Response Server) (WEB_SERVER_NAME @ [NUL]) True (o2, r2) = Some (o3, r3)"
    "length o3 \<le> length o2 + 100 + length (WEB_SERVER_NAME @ [NUL])"
    using add_page_line [of "WEB_SERVER_NAME @ [NUL]" "Response Server" True o2 r2] by blast
  obtain o4 r4 where 4: "add_line (Response ETag) tag True (o3, r3) = Some (o4, r4)"
    "length o4 \<le> length o3 + 100 + length tag"
    using add_page_line [of tag "Response ETag" True o3 r3] tags(2) by blast
  obtain o5 r5 where 5: "add_line (General Cache_Control) (''private, max-age=2592000'' @ [NUL]) True (o4, r4) = Some (o5, r5)"
    "length o5 \<le> length o4 + 100 + length (''private, max-age=2592000'' @ [NUL])"
    using add_page_line [of "''private, max-age=2592000'' @ [NUL]" "General Cache_Control" True o4 r4] by blast
  obtain o6 r6 where 6: "add_line (Response Content_Type) (''text/html'' @ [NUL]) True (o5, r5) = Some (o6, r6)"
    "length o6 \<le> length o5 + 100 + length (''text/html'' @ [NUL])"
    using add_page_line [of "''text/html'' @ [NUL]" "Response Content_Type" True o5 r5] by blast
  obtain o7 r7 where 7: "add_line (Response Content_Length) ?len True (o6, r6) = Some (o7, r7)"
    "length o7 \<le> length o6 + 100 + length ?len"
    using add_page_line [of ?len "Response Content_Length" True o6 r6] std_to_string_length(1) by blast
  have "length o7 \<le> 2000"
    using 1(2) 2(2) 3(2) 4(2) 5(2) 6(2) 7(2) date(3) tag(2) std_to_string_length(2) [of "word_of_nat (length (content info))"]
    by (simp add: WEB_SERVER_NAME_def)
  moreover have "rq_heap r7 = rq_heap rq"
    using with_table_heap [OF 1(1)] add_line_heap [OF 2(1)] add_line_heap [OF 3(1)] add_line_heap [OF 4(1)]
      add_line_heap [OF 5(1)] add_line_heap [OF 6(1)] add_line_heap [OF 7(1)] by simp
  moreover have "http2_file_header env sid info rq =
      Some (new_frame_bytes (word_of_nat (length o7)) HEADERS [END_HEADERS] sid @ o7, r7)"
    unfolding http2_file_header_def date(1) tags(1) 1(1) Option.bind.simps(2) 2(1) 3(1) 4(1) 5(1) 6(1) 7(1) by simp
  ultimately show ?thesis using that by blast
qed

subsection \<open>Every request is answered\<close>

text \<open>Specification: the bytes of the file a request asks for, if it is cached and not known to the client.\<close>

definition wanted_file :: "filemap \<Rightarrow> header_request \<Rightarrow> u8 list option" where
  "wanted_file fm q =
     (if hq_method q = Some GET then
        map_option (\<lambda>info. if has_tag (as_http11 q) info then [] else content info) (cache fm (get_path (as_http11 q)))
      else None)"

definition answers :: "filemap \<Rightarrow> header_request \<Rightarrow> (frame \<times> u8 list) list \<Rightarrow> bool" where
  "answers fm q fps \<longleftrightarrow> stream_frames (hq_stream_identifier q) fps \<and> get_type (fst (hd fps)) = Some HEADERS \<and>
     (case wanted_file fm q of None \<Rightarrow> True | Some bytes \<Rightarrow> data_payload fps = bytes)"

lemma error_answer:
  assumes "env_ok env" "respond \<in> {http2_add_404_Not_Found, http2_add_405_Method_Not_Allowed}"
  shows "\<exists>out rq' fps. respond rq sid (he_local_address env) (he_date env) (he_date_size env) = Some (out, rq') \<and>
    push_out out = Some [out] \<and> frames_of out = Some fps \<and> stream_frames sid fps \<and>
    get_type (fst (hd fps)) = Some HEADERS \<and> rq_heap rq' = rq_heap rq \<and> length out \<le> buffer_size"
proof -
  obtain hs page rq' where r: "respond rq sid (he_local_address env) (he_date env) (he_date_size env) =
      Some (new_frame_bytes (word_of_nat (length hs)) HEADERS [END_HEADERS] sid @ hs @
        new_frame_bytes (word_of_nat (length page)) DATA [END_STREAM] sid @ bytes_of page, rq')"
    "length hs \<le> 2000" "length page \<le> 1024" "rq_heap rq' = rq_heap rq"
    using http2_error_page [of "he_local_address env" "he_date_size env" "he_date env" respond rq sid thesis] assms
    by (auto simp: env_ok_def)
  obtain d where d: "is_frame DATA [END_STREAM] sid d"
      "frames_of (new_frame_bytes (word_of_nat (length page)) DATA [END_STREAM] sid @ bytes_of page) = Some [(d, bytes_of page)]"
    using frames_of_new [of "bytes_of page" DATA "[END_STREAM]" sid "[]"] r(3) by auto
  obtain h where h: "is_frame HEADERS [END_HEADERS] sid h"
      "frames_of (new_frame_bytes (word_of_nat (length hs)) HEADERS [END_HEADERS] sid @ hs @
        new_frame_bytes (word_of_nat (length page)) DATA [END_STREAM] sid @ bytes_of page) =
        Some [(h, hs), (d, bytes_of page)]"
    using frames_of_new [of hs HEADERS "[END_HEADERS]" sid
        "new_frame_bytes (word_of_nat (length page)) DATA [END_STREAM] sid @ bytes_of page"] r(2) d(2) by auto
  have "stream_frames sid [(h, hs), (d, bytes_of page)]"
    using stream_frames_Cons [OF h(1) _ stream_frames_single [OF d(1)]] h(1) d(1) by simp
  moreover have "get_type (fst (hd [(h, hs), (d, bytes_of page)])) = Some HEADERS"
    using h(1) by (simp add: is_frame_def)
  ultimately show ?thesis
    using r h(2) by (auto simp: push_out_def buffer_size_def)
qed

lemma get_answer:
  assumes "env_ok env" "info_ok info"
  shows "\<exists>out rq' fps.
    (if has_tag (as_http11 q) info then
       http2_not_modified env sid info rq = Some (out, rq') \<and> frames_of out = Some fps \<and> data_payload fps = []
     else http2_file_header env sid info rq = Some (out, rq') \<and>
       frames_of (out @ concat (data_frames sid (content info))) = Some fps \<and> data_payload fps = content info) \<and>
    push_out out = Some [out] \<and> length out \<le> buffer_size \<and> rq_heap rq' = rq_heap rq \<and>
    stream_frames sid fps \<and> get_type (fst (hd fps)) = Some HEADERS"
proof (cases "has_tag (as_http11 q) info")
  case True
  obtain hs rq' where r: "http2_not_modified env sid info rq =
      Some (new_frame_bytes (word_of_nat (length hs)) HEADERS [END_HEADERS, END_STREAM] sid @ hs, rq')"
    "length hs \<le> 2000" "rq_heap rq' = rq_heap rq"
    using http2_not_modified_some [OF assms(2, 1)] .
  obtain h where h: "is_frame HEADERS [END_HEADERS, END_STREAM] sid h"
      "frames_of (new_frame_bytes (word_of_nat (length hs)) HEADERS [END_HEADERS, END_STREAM] sid @ hs) = Some [(h, hs)]"
    using frames_of_new [of hs HEADERS "[END_HEADERS, END_STREAM]" sid "[]"] r(2) by auto
  have "stream_frames sid [(h, hs)]" using stream_frames_single [OF h(1)] h(1) by simp
  then show ?thesis
    using True r h by (auto simp: push_out_def buffer_size_def data_payload_def is_frame_def)
next
  case False
  obtain hs rq' where r: "http2_file_header env sid info rq =
      Some (new_frame_bytes (word_of_nat (length hs)) HEADERS [END_HEADERS] sid @ hs, rq')"
    "length hs \<le> 2000" "rq_heap rq' = rq_heap rq"
    using http2_file_header_some [OF assms(2, 1)] .
  obtain fps where fps: "frames_of (concat (data_frames sid (content info))) = Some fps" "stream_frames sid fps"
      "data_payload fps = content info"
    using data_frames_read by blast
  obtain h where h: "is_frame HEADERS [END_HEADERS] sid h"
      "frames_of (new_frame_bytes (word_of_nat (length hs)) HEADERS [END_HEADERS] sid @ hs @
        concat (data_frames sid (content info))) = Some ((h, hs) # fps)"
    using frames_of_new [of hs HEADERS "[END_HEADERS]" sid "concat (data_frames sid (content info))"] r(2) fps(1) by auto
  have "stream_frames sid ((h, hs) # fps)" using stream_frames_Cons [OF h(1) _ fps(2)] h(1) by simp
  moreover have "data_payload ((h, hs) # fps) = content info"
    using h(1) fps(3) by (simp add: data_payload_def is_frame_def)
  moreover have "get_type (fst (hd ((h, hs) # fps))) = Some HEADERS" using h(1) by (simp add: is_frame_def)
  ultimately show ?thesis
    using False r h(2) by (auto simp: push_out_def buffer_size_def)
qed

lemma http2_answer_ok:
  assumes "env_ok env" "cache_ok (cache fm)" "hq_method q \<noteq> None"
    and "getfilemap (sa_port (he_local_address env)) (he_webmaps env) = Some (Inr fm)"
  shows "\<exists>bufs rq' fps. http2_answer env q rq = Some (Inr (bufs, rq')) \<and> rq_heap rq' = rq_heap rq \<and>
    frames_of (concat bufs) = Some fps \<and> answers fm q fps \<and> list_all (\<lambda>buf. length buf \<le> buffer_size) bufs"
proof -
  let ?sid = "hq_stream_identifier q"
  obtain verb where m: "hq_method q = Some verb" using assms(3) by blast
  show ?thesis
  proof (cases "verb = GET")
    case False
    obtain out rq' fps where e: "http2_add_405_Method_Not_Allowed rq ?sid (he_local_address env) (he_date env) (he_date_size env) =
        Some (out, rq')" "push_out out = Some [out]" "frames_of out = Some fps" "stream_frames ?sid fps"
        "get_type (fst (hd fps)) = Some HEADERS" "rq_heap rq' = rq_heap rq" "length out \<le> buffer_size"
      using error_answer [OF assms(1), of http2_add_405_Method_Not_Allowed rq ?sid] by blast
    then show ?thesis
      using m False
      by (cases verb) (simp_all add: http2_answer_def answers_def wanted_file_def)
  next
    case get: True
    show ?thesis
    proof (cases "cache fm (get_path (as_http11 q))")
      case None
      obtain out rq' fps where e: "http2_add_404_Not_Found rq ?sid (he_local_address env) (he_date env) (he_date_size env) =
          Some (out, rq')" "push_out out = Some [out]" "frames_of out = Some fps" "stream_frames ?sid fps"
          "get_type (fst (hd fps)) = Some HEADERS" "rq_heap rq' = rq_heap rq" "length out \<le> buffer_size"
        using error_answer [OF assms(1), of http2_add_404_Not_Found rq ?sid] by blast
      then show ?thesis
        using m get None assms(4) by (simp add: http2_answer_def answers_def wanted_file_def)
    next
      case (Some info)
      have info: "info_ok info" using assms(2) Some by (auto simp: cache_ok_def)
      note match = match_etag_info [OF info, of "as_http11 q"]
      have data: "list_all (\<lambda>buf. length buf \<le> buffer_size) (data_frames ?sid (content info))"
        using data_frames_read by blast
      show ?thesis
      proof (cases "has_tag (as_http11 q) info")
        case True
        with get_answer [OF assms(1) info, of q ?sid rq] obtain out rq' fps where
          "http2_not_modified env ?sid info rq = Some (out, rq')" "frames_of out = Some fps" "data_payload fps = []"
          "push_out out = Some [out]" "length out \<le> buffer_size" "rq_heap rq' = rq_heap rq"
          "stream_frames ?sid fps" "get_type (fst (hd fps)) = Some HEADERS" by auto
        then show ?thesis
          using m get Some assms(4) match True by (simp add: http2_answer_def answers_def wanted_file_def)
      next
        case False
        with get_answer [OF assms(1) info, of q ?sid rq] obtain out rq' fps where
          "http2_file_header env ?sid info rq = Some (out, rq')"
          "frames_of (out @ concat (data_frames ?sid (content info))) = Some fps" "data_payload fps = content info"
          "push_out out = Some [out]" "length out \<le> buffer_size" "rq_heap rq' = rq_heap rq"
          "stream_frames ?sid fps" "get_type (fst (hd fps)) = Some HEADERS" by auto
        then show ?thesis
          using m get Some assms(4) match False data by (simp add: http2_answer_def answers_def wanted_file_def)
      qed
    qed
  qed
qed

lemma http2_answers_ok:
  assumes "env_ok env" "cache_ok (cache fm)"
    and "getfilemap (sa_port (he_local_address env)) (he_webmaps env) = Some (Inr fm)"
  shows "list_all (\<lambda>p. hq_method (rq_heap rq ! p) \<noteq> None) ps \<Longrightarrow>
    \<exists>bufs rq' fpss. http2_answers env ps rq = Some (Inr (bufs, rq')) \<and>
      frames_of (concat bufs) = Some (concat fpss) \<and>
      list_all2 (\<lambda>p. answers fm (rq_heap rq ! p)) ps fpss \<and> list_all (\<lambda>buf. length buf \<le> buffer_size) bufs"
proof (induction ps arbitrary: rq)
  case Nil
  show ?case by (intro exI [of _ "[]"] exI [of _ rq]) simp
next
  case (Cons p ps)
  obtain bufs rq' fps where 1: "http2_answer env (rq_heap rq ! p) rq = Some (Inr (bufs, rq'))" "rq_heap rq' = rq_heap rq"
      "frames_of (concat bufs) = Some fps" "answers fm (rq_heap rq ! p) fps" "list_all (\<lambda>buf. length buf \<le> buffer_size) bufs"
    using http2_answer_ok [OF assms(1, 2) _ assms(3), of "rq_heap rq ! p" rq] Cons.prems by auto
  have "list_all (\<lambda>p. hq_method (rq_heap rq' ! p) \<noteq> None) ps" using Cons.prems 1(2) by simp
  from Cons.IH [OF this] obtain bufs' rq'' fpss where 2: "http2_answers env ps rq' = Some (Inr (bufs', rq''))"
      "frames_of (concat bufs') = Some (concat fpss)" "list_all2 (\<lambda>p. answers fm (rq_heap rq' ! p)) ps fpss"
      "list_all (\<lambda>buf. length buf \<le> buffer_size) bufs'" by blast
  have "frames_of (concat (bufs @ bufs')) = Some (concat (fps # fpss))"
    using frames_of_append [OF 1(3), of "concat bufs'"] 2(2) by simp
  then show ?case
    using 1 2 by (intro exI [of _ "bufs @ bufs'"] exI [of _ rq''] exI [of _ "fps # fpss"]) simp
qed

text \<open>A request without a method: its answer reads an uninitialised variable.\<close>

lemma http2_answers_no_method:
  assumes "env_ok env" "cache_ok (cache fm)"
    and "getfilemap (sa_port (he_local_address env)) (he_webmaps env) = Some (Inr fm)"
  shows "\<not> list_all (\<lambda>p. hq_method (rq_heap rq ! p) \<noteq> None) ps \<Longrightarrow> http2_answers env ps rq = None"
proof (induction ps arbitrary: rq)
  case (Cons p ps)
  show ?case
  proof (cases "hq_method (rq_heap rq ! p)")
    case None
    then show ?thesis by (simp add: http2_answer_def)
  next
    case (Some m)
    then obtain bufs rq' where 1: "http2_answer env (rq_heap rq ! p) rq = Some (Inr (bufs, rq'))" "rq_heap rq' = rq_heap rq"
      using http2_answer_ok [OF assms(1, 2) _ assms(3), of "rq_heap rq ! p" rq] by auto
    have "http2_answers env ps rq' = None" using Cons.prems Some 1(2) by (intro Cons.IH) simp
    then show ?thesis using 1(1) by simp
  qed
qed simp

lemma request_order_chain:
  "chain h p is None \<Longrightarrow> length is \<le> fuel \<Longrightarrow> request_order fuel h p = Some is"
proof (induction "is" arbitrary: p fuel)
  case (Cons i "is")
  then obtain fuel' where "fuel = Suc fuel'" by (cases fuel) auto
  with Cons show ?case by auto
qed simp

lemma linked_request_order:
  assumes "linked rq is"
  shows "request_order (length (rq_heap rq)) (rq_heap rq) (rq_first rq) = Some is"
proof -
  note D = linkedD [OF assms]
  have "set is \<subseteq> {..<length (rq_heap rq)}" using D chain_bound by fastforce
  then have "length is \<le> length (rq_heap rq)"
    using distinct_card [OF D(2)] card_mono [of "{..<length (rq_heap rq)}" "set is"] by simp
  then show ?thesis using request_order_chain D by blast
qed

text \<open>
  C8: Over HTTP/2, when every element of the list has a method, every element is answered, in its order:
  the bytes pushed read as one sequence of frames, for each request a HEADERS frame first, all frames with
  the identifier of its stream, and the end of the stream on the last frame and only there; for a file
  the DATA frames carry exactly its bytes, and none if the client knows the file.  No buffer is larger
  than the write buffer.  When an element has no method - a peer can make one with a dependency on a
  stream that sends no headers - \<open>process_request\<close> reads an uninitialised variable.
\<close>

theorem http2_requests_answered:
  assumes "web_reachable (he_webmaps env)" "env_ok env" "linked rq is"
    and "getfilemap (sa_port (he_local_address env)) (he_webmaps env) = Some (Inr fm)"
  shows "if list_all (\<lambda>p. hq_method (rq_heap rq ! p) \<noteq> None) is
    then \<exists>bufs rq' fpss. process_request env rq = Some (Inr (bufs, rq')) \<and>
      frames_of (concat bufs) = Some (concat fpss) \<and>
      list_all2 (\<lambda>p. answers fm (rq_heap rq ! p)) is fpss \<and> list_all (\<lambda>buf. length buf \<le> buffer_size) bufs
    else process_request env rq = None"
proof -
  have ok: "cache_ok (cache fm)" using getfilemap_cache_ok [OF assms(1) assms(4)] .
  have run: "process_request env rq = http2_answers env is rq"
    using linked_request_order [OF assms(3)] by (simp add: process_request_def)
  show ?thesis
    unfolding run using http2_answers_ok [OF assms(2) ok assms(4)] http2_answers_no_method [OF assms(2) ok assms(4)]
    by (cases "list_all (\<lambda>p. hq_method (rq_heap rq ! p) \<noteq> None) is") auto
qed

text \<open>A request without a path, on a server without files.\<close>

definition demo_request :: request where
  "demo_request = upgrade_request (new_dynamic_table 12) new_settings_store
     \<lparr>hr_version = VER_1_1, hr_method = GET, hr_fields = Map.empty\<rparr>"

lemma demo_request:
  "linked demo_request [0]" "rq_heap demo_request = [upgrade_header_request \<lparr>hr_version = VER_1_1, hr_method = GET, hr_fields = Map.empty\<rparr>]"
  by (simp_all add: demo_request_def upgrade_request_def alloc_def insert_request_def link_last_def linked_def
      new_request_def upgrade_header_request_def Let_def Hpack.map_insert_def)

theorem http2_requests_answered_witness:
  "\<exists>bufs rq' fps. process_request demo_env demo_request = Some (Inr (bufs, rq')) \<and>
     frames_of (concat bufs) = Some fps \<and> stream_frames 1 fps"
proof -
  have "web_reachable (he_webmaps demo_env)"
    unfolding demo_env_def by (simp add: web_reachable.folder web_reachable.start)
  from http2_requests_answered [OF this demo_env_ok demo_request(1) demo_env_file]
  show ?thesis
    by (auto simp: demo_request upgrade_header_request_def list_all2_Cons1 answers_def)
qed

subsection \<open>The first frames\<close>

lemma settings_frame_length: "length (settings_add_frame args) = get_frame_len (length args)"
proof -
  have "length (settings_add args) = 6 * length args"
    by (induction args rule: settings_add.induct) (simp_all add: settings_bytes_def)
  then show ?thesis by (simp add: settings_add_frame_def get_frame_len_def frame_size_def)
qed

text \<open>\<open>n\<close> SETTINGS frames without settings make \<open>n\<close> acknowledgements, each as long as its frame.\<close>

lemma request_parse_empty_settings:
  "rq_reachable rq \<Longrightarrow> pos \<le> length mem \<Longrightarrow>
   (if pos + 9 * n \<le> length mem
    then \<exists>rq' mem'. rq_reachable rq' \<and> length mem' = length mem \<and>
      request_parse (pre @ concat (replicate n (settings_add_frame [])) @ post) (length pre) (length pre + 9 * n) rq (mem, pos) =
        Some (SUCCESS, rq', mem', pos + 9 * n)
    else request_parse (pre @ concat (replicate n (settings_add_frame [])) @ post) (length pre) (length pre + 9 * n) rq (mem, pos) = None)"
proof (induction n arbitrary: pre rq mem pos)
  case 0
  then show ?case by (auto simp: request_parse_end frame_size_def)
next
  case (Suc n)
  let ?S = "settings_add_frame []" and ?rest = "concat (replicate n (settings_add_frame [])) @ post"
  have S: "length ?S = 9" by (simp add: settings_frame_length get_frame_len_def frame_size_def)
  obtain d where d: "dt_update_size (unat (st_header_table_size (apply_settings [] (rq_peer_settings rq))))
        (rq_dynamic_table rq) = Some d"
    "request_parse (pre @ ?S @ ?rest) (length pre) (length pre + 9 * Suc n) rq (mem, pos) =
      Option.bind (put settings_add_ack_frame (mem, pos))
        (request_parse (pre @ ?S @ ?rest) (length pre + 9) (length pre + 9 * Suc n)
          (rq\<lparr>rq_peer_settings := apply_settings [] (rq_peer_settings rq), rq_dynamic_table := d\<rparr>))"
    using request_parse_settings [OF Suc.prems(1), of "[]" pre "length pre + 9 * Suc n" ?rest "(mem, pos)"]
    by (auto simp: get_frame_len_def frame_size_def)
  let ?rq = "rq\<lparr>rq_peer_settings := apply_settings [] (rq_peer_settings rq), rq_dynamic_table := d\<rparr>"
  show ?case
  proof (cases "pos + 9 \<le> length mem")
    case False
    then have "put settings_add_ack_frame (mem, pos) = None" by (simp add: put_def settings_add_ack_frame_def)
    then show ?thesis using d(2) False by simp
  next
    case True
    obtain mem1 where mem1: "put settings_add_ack_frame (mem, pos) = Some (mem1, pos + 9)" "length mem1 = length mem"
      using put_ack [OF True] True by (simp add: settings_add_ack_frame_def)
    have "put settings_add_ack_frame (replicate 9 0, 0) \<noteq> None"
      by (simp add: put_def settings_add_ack_frame_def)
    then obtain wb' where "request_parse ([] @ ?S @ []) (length ([] :: u8 list)) 9 rq (replicate 9 0, 0) = Some (SUCCESS, ?rq, wb')"
      using request_parse_settings [OF Suc.prems(1), of "[]" "[]" 9 "[]" "(replicate 9 0, 0)"] d(1)
      by (auto simp: get_frame_len_def frame_size_def request_parse_end)
    with Suc.prems(1) have rq: "rq_reachable ?rq" by (rule rq_parse)
    have buf: "pre @ ?S @ ?rest = (pre @ ?S) @ concat (replicate n ?S) @ post" by simp
    have parse: "request_parse (pre @ concat (replicate (Suc n) ?S) @ post) (length pre) (length pre + 9 * Suc n) rq (mem, pos) =
        request_parse ((pre @ ?S) @ concat (replicate n ?S) @ post) (length (pre @ ?S)) (length (pre @ ?S) + 9 * n) ?rq (mem1, pos + 9)"
      using d(2) mem1(1) S by (simp add: add.assoc)
    have e: "pos + 9 + 9 * n = pos + 9 * Suc n" by simp
    have le: "pos + 9 \<le> length mem1" using True mem1(2) by simp
    show ?thesis
      using Suc.IH [OF rq le, of "pre @ ?S"] unfolding parse mem1(2) e .
  qed
qed

lemma server_settings_frame [simp]: "length (settings_add_frame (server_settings n)) = 33"
  by (simp add: settings_frame_length server_settings_def get_frame_len_def frame_size_def)

lemma server_settings_put:
  assumes "length mem = buffer_size"
  obtains mem1 where "put (settings_add_frame (server_settings 10)) (mem, 0) = Some (mem1, 33)"
    "length mem1 = buffer_size" "take 33 mem1 = settings_add_frame (server_settings 10)"
proof -
  let ?S = "settings_add_frame (server_settings 10)"
  have S: "length ?S = 33" by (rule server_settings_frame)
  then have "put ?S (mem, 0) = Some (?S @ drop 33 mem, 33)"
    using assms unfolding put_def prod.case S by (simp add: buffer_size_def)
  moreover have "length (?S @ drop 33 mem) = buffer_size"
    using assms S unfolding length_append by (simp add: buffer_size_def)
  moreover have "take 33 (?S @ drop 33 mem) = ?S" unfolding take_append S by (simp add: S [simplified])
  ultimately show ?thesis by (rule that)
qed

lemma frame_at_settings: "\<exists>g. frame_at (settings_add_frame args @ post) 0 = Some g \<and> get_type g = Some SETTINGS"
  using new_frame_bytes_at [of 0 "[]" "word_of_nat (2 * length args * 3)" SETTINGS "[NONE]" 0 "settings_add args @ post"]
  by (auto simp: settings_add_frame_def)

text \<open>
  C36: A client that sends its first SETTINGS frame gets the settings of the server and the
  acknowledgement, in one buffer; its settings are stored, and the dynamic table is cut to its size.
\<close>

theorem first_settings_handled:
  assumes "dt_reachable (h2_dynamic_table conn)" "length mem = buffer_size" "6 * length args < 2 ^ 24"
  shows "\<exists>d mem'. dt_update_size (unat (st_header_table_size (apply_settings args (h2_peer_settings conn))))
      (h2_dynamic_table conn) = Some d \<and>
    process_read_buffer env net True (settings_add_frame args @ stale) 0 (get_frame_len (length args)) mem conn =
      map_option (\<lambda>conn'. Stays2 conn' False mem')
        (conn_write_all (hn_transmit net)
          (on_peer (push_buffers [settings_add_frame (server_settings 10) @ settings_add_ack_frame])
            (conn\<lparr>h2_dynamic_table := d, h2_peer_settings := apply_settings args (h2_peer_settings conn)\<rparr>)))"
proof -
  let ?rq = "new_request (h2_dynamic_table conn) (h2_peer_settings conn)"
  let ?S = "settings_add_frame (server_settings 10)"
  obtain mem1 where mem1: "put ?S (mem, 0) = Some (mem1, 33)" "length mem1 = buffer_size" "take 33 mem1 = ?S"
    using server_settings_put [OF assms(2)] .
  then have "33 + 9 \<le> length mem1" by (simp add: buffer_size_def)
  note ack = put_ack [OF this]
  obtain d where d: "dt_update_size (unat (st_header_table_size (apply_settings args (h2_peer_settings conn))))
      (h2_dynamic_table conn) = Some d"
    "request_parse (settings_add_frame args @ stale) 0 (get_frame_len (length args)) ?rq (mem1, 33) =
      Some (SUCCESS, ?rq\<lparr>rq_peer_settings := apply_settings args (h2_peer_settings conn), rq_dynamic_table := d\<rparr>,
        take 33 mem1 @ settings_add_ack_frame @ drop 42 mem1, 42)"
    using request_parse_settings [OF rq_new [OF assms(1)] assms(3), of "[]" "get_frame_len (length args)" "h2_peer_settings conn"
        stale "(mem1, 33)"] ack
    by (auto simp: request_parse_end frame_size_def) (auto simp: new_request_def)
  obtain g where g: "frame_at (settings_add_frame args @ stale) 0 = Some g" "get_type g = Some SETTINGS"
    using frame_at_settings by blast
  have "length settings_add_ack_frame = 9" by (simp add: settings_add_ack_frame_def)
  then have page: "take 42 (take 33 mem1 @ settings_add_ack_frame @ drop 42 mem1) = ?S @ settings_add_ack_frame"
    using mem1(3) by simp
  have "process_request env (?rq\<lparr>rq_peer_settings := apply_settings args (h2_peer_settings conn), rq_dynamic_table := d\<rparr>) =
      Some (Inr ([], ?rq\<lparr>rq_peer_settings := apply_settings args (h2_peer_settings conn), rq_dynamic_table := d\<rparr>))"
    by (simp add: process_request_def new_request_def)
  then show ?thesis
    using d g mem1(1) page
    by (auto simp: process_read_buffer_def answer_requests_def push_buffers_def on_peer_def)
qed

text \<open>
  C38: every SETTINGS frame is acknowledged in the write buffer of the thread, whose size is not
  checked: a first read of 1817 or more SETTINGS frames without settings, which fits the read buffer
  of 16384 bytes, writes past the end of the write buffer.
\<close>

theorem settings_overrun_write_buffer:
  assumes "dt_reachable (h2_dynamic_table conn)" "length mem = buffer_size" "1817 \<le> n"
  shows "process_read_buffer env net True (concat (replicate n (settings_add_frame [])) @ stale) 0 (9 * n) mem conn = None \<and>
    length (concat (replicate 1817 (settings_add_frame []))) + connection_preface_size \<le> buffer_size"
proof -
  let ?rq = "new_request (h2_dynamic_table conn) (h2_peer_settings conn)"
  let ?S = "settings_add_frame (server_settings 10)"
  obtain k where n: "n = Suc k" using assms(3) by (cases n) auto
  obtain mem1 where mem1: "put ?S (mem, 0) = Some (mem1, 33)" "length mem1 = buffer_size"
    using server_settings_put [OF assms(2)] .
  then have "\<not> 33 + 9 * n \<le> length mem1" using assms(3) by (simp add: buffer_size_def)
  then have parse: "request_parse (concat (replicate n (settings_add_frame [])) @ stale) 0 (9 * n) ?rq (mem1, 33) = None"
    using request_parse_empty_settings [OF rq_new [OF assms(1), of "h2_peer_settings conn"],
        where pos = 33 and mem = mem1 and n = n and pre = "[]" and post = stale] mem1(2)
    by (simp add: buffer_size_def)
  obtain g where "frame_at (settings_add_frame [] @ concat (replicate k (settings_add_frame [])) @ stale) 0 = Some g"
      "get_type g = Some SETTINGS"
    using frame_at_settings by blast
  then have "process_read_buffer env net True (concat (replicate n (settings_add_frame [])) @ stale) 0 (9 * n) mem conn = None"
    using parse mem1(1) by (simp add: process_read_buffer_def n)
  moreover have "length (concat (replicate m (settings_add_frame []))) = 9 * m" for m
    by (induction m) (simp_all add: settings_frame_length get_frame_len_def frame_size_def)
  ultimately show ?thesis
    by (simp add: connection_preface_size_def connection_preface_def buffer_size_def)
qed

definition demo_net :: "wire http2_net" where
  "demo_net = \<lparr>hn_transmit = plain_write, hn_last_peer_id = 5, hn_close_ret = SUCCESS\<rparr>"

definition demo_conn :: "wire http2_conn" where
  "demo_conn = new_http2_conn (new_peer False \<lparr>wi_sent = [], wi_choices = []\<rparr>)"

lemma demo_conn_table: "dt_reachable (h2_dynamic_table demo_conn)"
  by (simp add: demo_conn_def new_http2_conn_def dt_new)

theorem first_settings_handled_witness:
  "\<exists>d mem'. process_read_buffer demo_env demo_net True (settings_add_frame [(SETTINGS_ENABLE_PUSH, 0)] @ []) 0 15
      (replicate buffer_size 0) demo_conn =
    map_option (\<lambda>conn'. Stays2 conn' False mem')
      (conn_write_all plain_write
        (on_peer (push_buffers [settings_add_frame (server_settings 10) @ settings_add_ack_frame])
          (demo_conn\<lparr>h2_dynamic_table := d,
            h2_peer_settings := apply_settings [(SETTINGS_ENABLE_PUSH, 0)] (h2_peer_settings demo_conn)\<rparr>)))"
proof -
  have "get_frame_len (length [(SETTINGS_ENABLE_PUSH, 0 :: u32)]) = 15" by (simp add: get_frame_len_def frame_size_def)
  then show ?thesis
    using first_settings_handled [OF demo_conn_table, of "replicate buffer_size 0" "[(SETTINGS_ENABLE_PUSH, 0)]" demo_env demo_net "[]"]
    by (auto simp: demo_net_def)
qed

theorem settings_overrun_write_buffer_witness:
  "process_read_buffer demo_env demo_net True (concat (replicate 1817 (settings_add_frame [])) @ []) 0 (9 * 1817)
    (replicate buffer_size 0) demo_conn = None"
  by (rule settings_overrun_write_buffer [OF demo_conn_table, THEN conjunct1]) simp_all

end
