(* ===== verification/CommandLine.thy ===== *)
theory CommandLine
  imports Guid Ipv6 FormatStr
begin

text \<open>
  serverlib/include/iot/core/configparser.hh, serverlib/lib/core/configparser.cc and
  serverlib/include/iot/core/conversion.hh: the options of a program, the state machine that reads
  its arguments into variables of many types, and the text of its help.

  A variable is a \<open>void *\<close> with a type identifier; here it is a name, and the variables are a
  function from names to values.  The flag \<open>help\<close> is a member of the parser itself and has a name of
  its own.  An argument is a character array that ends with a null character; a read past it, a
  signed overflow and a failed assertion are \<open>None\<close>.
\<close>

subsection \<open>Conversion of a text to a value\<close>

datatype var_value = V_bool bool | V_uint8 u8 | V_uint16 u16 | V_uint32 u32 | V_uint64 u64
  | V_int8 u8 | V_int16 u16 | V_int32 u32 | V_int64 u64 | V_string string | V_guid guid
  | V_ipv6_addr ipv6_addr | V_ipv6_port ipv6_port | V_ipv6_socket_addr ipv6_socket_addr
  | V_filepath string | V_stdstring string | V_other

definition to_bool :: "string \<Rightarrow> bool option" where
  "to_bool v = do { c \<leftarrow> load v 0; Some (c = CHR ''T'' \<or> c = CHR ''t'') }"

text \<open>The text of a character array up to its null character.\<close>

definition c_text :: "string \<Rightarrow> string" where
  "c_text v = takeWhile (\<lambda>c. c \<noteq> NUL) v"

text \<open>The second component is what the function returns: false for a type it does not know.\<close>

fun to_type :: "type_identifier \<Rightarrow> var_value \<Rightarrow> string \<Rightarrow> (var_value \<times> bool) option" where
  "to_type T_bool store v = do { b \<leftarrow> to_bool v; Some (V_bool b, True) }"
| "to_type T_uint8 store v = do { (n, l) \<leftarrow> to_uint 10 v; Some (V_uint8 n, True) }"
| "to_type T_uint16 store v = do { (n, l) \<leftarrow> to_uint 10 v; Some (V_uint16 n, True) }"
| "to_type T_uint32 store v = do { (n, l) \<leftarrow> to_uint 10 v; Some (V_uint32 n, True) }"
| "to_type T_uint64 store v = do { (n, l) \<leftarrow> to_uint 10 v; Some (V_uint64 n, True) }"
| "to_type T_int8 store v = do { (n, l) \<leftarrow> to_int 10 v; Some (V_int8 n, True) }"
| "to_type T_int16 store v = do { (n, l) \<leftarrow> to_int 10 v; Some (V_int16 n, True) }"
| "to_type T_int32 store v = do { (n, l) \<leftarrow> to_int 10 v; Some (V_int32 n, True) }"
| "to_type T_int64 store v = do { (n, l) \<leftarrow> to_int 10 v; Some (V_int64 n, True) }"
| "to_type T_string store v = Some (V_string (c_text v), True)"
| "to_type T_guid store v = do { (g, l) \<leftarrow> to_guid v; Some (V_guid g, True) }"
| "to_type T_ipv6_addr store v = do { (a, l) \<leftarrow> to_ipv6_addr_t False v; Some (V_ipv6_addr a, True) }"
| "to_type T_ipv6_port store v = do { (p, l) \<leftarrow> to_ipv6_port_t v; Some (V_ipv6_port p, True) }"
| "to_type T_ipv6_socket_addr store v =
     do { (a, l) \<leftarrow> to_ipv6_socket_addr_t v; Some (V_ipv6_socket_addr a, True) }"
| "to_type T_filepath store v = Some (V_filepath (c_text v), True)"
| "to_type T_stdstring store v = Some (V_stdstring (c_text v), True)"
| "to_type _ store v = Some (store, False)"

subsection \<open>Options\<close>

datatype variable = Var nat | Help_flag

type_synonym variables = "variable \<Rightarrow> var_value"

record commandline_option =
  ch :: char
  opt_name :: string
  value_help :: string
  opt_help :: string
  type_id :: type_identifier
  variable :: variable
  required :: bool

text \<open>
  The constructors.  The name is a \<open>const char *\<close>; a null pointer passes the assertion when there is
  a character, but the string member is made from it, which is undefined.
\<close>

definition option_of ::
    "char \<Rightarrow> string option \<Rightarrow> string \<Rightarrow> string \<Rightarrow> type_identifier \<Rightarrow> variable \<Rightarrow> bool \<Rightarrow> commandline_option option" where
  "option_of c n vh h ty var req =
     do { name \<leftarrow> n;
          Some \<lparr>ch = c, opt_name = name, value_help = vh, opt_help = h, type_id = ty, variable = var,
                required = req\<rparr> }"

definition option_default ::
    "char \<Rightarrow> string option \<Rightarrow> string \<Rightarrow> string \<Rightarrow> type_identifier \<Rightarrow> variable \<Rightarrow> var_value \<Rightarrow> bool \<Rightarrow>
     variables \<Rightarrow> (commandline_option \<times> variables) option" where
  "option_default c n vh h ty var default_value req st =
     do { opt \<leftarrow> option_of c n vh h ty var req; Some (opt, st(var := default_value)) }"

definition option_required ::
    "char \<Rightarrow> string option \<Rightarrow> string \<Rightarrow> string \<Rightarrow> type_identifier \<Rightarrow> variable \<Rightarrow>
     variables \<Rightarrow> (commandline_option \<times> variables) option" where
  "option_required c n vh h ty var st =
     do { opt \<leftarrow> option_of c n vh h ty var True; Some (opt, st) }"

definition option_flag ::
    "char \<Rightarrow> string option \<Rightarrow> string \<Rightarrow> variable \<Rightarrow> variables \<Rightarrow> (commandline_option \<times> variables) option" where
  "option_flag c n h var st =
     do { opt \<leftarrow> option_of c n [] h T_bool var False; Some (opt, st(var := V_bool False)) }"

definition get_short_description :: "commandline_option \<Rightarrow> string" where
  "get_short_description opt =
     (if required opt then [] else ''['') @
     (if ch opt \<noteq> NUL then ''-'' @ [ch opt] @ (if opt_name opt \<noteq> [] then ''/'' else []) else []) @
     (if opt_name opt \<noteq> [] then ''--'' @ opt_name opt else []) @
     (if value_help opt \<noteq> [] \<and> type_id opt \<noteq> T_bool then '' <'' @ value_help opt @ ''>'' else []) @
     (if required opt then [] else '']'') @ '' ''"

definition get_parameter_description :: "commandline_option \<Rightarrow> string" where
  "get_parameter_description opt =
     [CHR 0x09] @ get_short_description opt @ [CHR 0x0A, CHR 0x09, CHR 0x09] @ opt_help opt @ [CHR 0x0A]"

subsection \<open>The parser\<close>

record commandline =
  prog_name :: string
  short_description :: string
  summary :: string
  options_name :: "string \<rightharpoonup> commandline_option"
  options_ch :: "char \<rightharpoonup> commandline_option"
  options :: "commandline_option list"

text \<open>\<open>unordered_map::insert\<close> keeps the element that is there.\<close>

definition insert_first :: "'k \<Rightarrow> 'v \<Rightarrow> ('k \<rightharpoonup> 'v) \<Rightarrow> ('k \<rightharpoonup> 'v)" where
  "insert_first k v m = (case m k of None \<Rightarrow> m(k \<mapsto> v) | Some _ \<Rightarrow> m)"

definition add_option :: "commandline_option \<Rightarrow> commandline \<Rightarrow> commandline" where
  "add_option opt cl =
     (let cl1 = (if opt_name opt \<noteq> [] then cl\<lparr>options_name := insert_first (opt_name opt) opt (options_name cl)\<rparr>
                 else cl) in
      if ch opt \<noteq> NUL then cl1\<lparr>options_ch := insert_first (ch opt) opt (options_ch cl1)\<rparr> else cl1)"

definition help_option :: commandline_option where
  "help_option = \<lparr>ch = CHR ''h'', opt_name = ''help'', value_help = [], opt_help = ''Display this help'',
     type_id = T_bool, variable = Help_flag, required = False\<rparr>"

definition new_commandline ::
    "string \<Rightarrow> string \<Rightarrow> commandline_option list \<Rightarrow> variables \<Rightarrow> commandline \<times> variables" where
  "new_commandline short_desc summ options_in st =
     (let opts = options_in @ [help_option] in
      (fold add_option opts
         \<lparr>prog_name = [], short_description = short_desc, summary = summ, options_name = Map.empty,
          options_ch = Map.empty, options = opts\<rparr>,
       st(Help_flag := V_bool False)))"

text \<open>\<open>basename\<close> of libgen.h.\<close>

definition basename :: "string \<Rightarrow> string" where
  "basename path =
     (let stripped = rev (dropWhile (\<lambda>c. c = CHR ''/'') (rev path)) in
      if path = [] then ''.'' else if stripped = [] then ''/''
      else rev (takeWhile (\<lambda>c. c \<noteq> CHR ''/'') (rev stripped)))"

text \<open>
  What one argument does.  \<open>Expect_option\<close> is \<open>parser_state::OPTION\<close>; \<open>Expect_value\<close> is \<open>VALUE\<close> and
  carries the variable \<open>optionentry\<close>, which is read in that state only.  \<open>Rejected\<close> is the return of false from
  inside the loop.
\<close>

datatype parser_state = Expect_option | Expect_value commandline_option | Rejected

definition find_option :: "commandline \<Rightarrow> string \<Rightarrow> commandline_option option option" where
  "find_option cl arg_curr =
     do { c1 \<leftarrow> load arg_curr 1;
          Some (if c1 = CHR ''-'' then options_name cl (c_text (drop 2 arg_curr)) else options_ch cl c1) }"

fun parse_arg :: "commandline \<Rightarrow> parser_state \<times> variables \<Rightarrow> string \<Rightarrow> (parser_state \<times> variables) option" where
  "parse_arg cl (Rejected, st) arg_curr = Some (Rejected, st)"
| "parse_arg cl (Expect_option, st) arg_curr =
     do { c0 \<leftarrow> load arg_curr 0;
          if c0 \<noteq> CHR ''-'' then Some (Rejected, st)
          else do { found \<leftarrow> find_option cl arg_curr;
                    Some (case found of
                            None \<Rightarrow> (Rejected, st)
                          | Some opt \<Rightarrow> if type_id opt = T_bool then (Expect_option, st(variable opt := V_bool True))
                                        else (Expect_value opt, st)) } }"
| "parse_arg cl (Expect_value opt, st) arg_curr =
     do { (v, ok) \<leftarrow> to_type (type_id opt) (st (variable opt)) arg_curr;
          Some (if ok then Expect_option else Rejected, st(variable opt := v)) }"

fun parse_args :: "commandline \<Rightarrow> parser_state \<times> variables \<Rightarrow> string list \<Rightarrow> (parser_state \<times> variables) option" where
  "parse_args cl s [] = Some s"
| "parse_args cl s (arg_curr # args) = do { s' \<leftarrow> parse_arg cl s arg_curr; parse_args cl s' args }"

text \<open>\<open>argv\<close> holds the null-terminated arguments; without the name of the program it is undefined.\<close>

definition parser :: "commandline \<Rightarrow> string list \<Rightarrow> variables \<Rightarrow> (bool \<times> commandline \<times> variables) option" where
  "parser cl argv st =
     (case argv of
        [] \<Rightarrow> None
      | arg0 # args \<Rightarrow>
          do { (state, st') \<leftarrow> parse_args cl (Expect_option, st) args;
               Some (state = Expect_option \<and> st' Help_flag \<noteq> V_bool True,
                     cl\<lparr>prog_name := basename (c_text arg0)\<rparr>, st') })"

definition usage :: "commandline \<Rightarrow> string" where
  "usage cl =
     ''Usage: '' @ prog_name cl @ '' '' @ concat (map get_short_description (options cl)) @
     [CHR 0x0A, CHR 0x09] @ short_description cl @ [CHR 0x0A, CHR 0x0A] @ ''Summary:'' @ [CHR 0x0A, CHR 0x09] @
     summary cl @ [CHR 0x0A, CHR 0x0A] @ ''Parameters:'' @ [CHR 0x0A] @
     concat (map get_parameter_description (options cl))"

subsection \<open>Which option an argument names\<close>

definition names_option :: "string \<Rightarrow> commandline_option \<Rightarrow> bool" where
  "names_option arg opt \<longleftrightarrow>
     opt_name opt \<noteq> [] \<and> arg = ''--'' @ opt_name opt \<or>
     ch opt \<noteq> NUL \<and> ch opt \<noteq> CHR ''-'' \<and> take 2 arg = [CHR ''-'', ch opt]"

lemma options_name_fold:
  "options_name (fold add_option opts cl) n =
     (case options_name cl n of
        Some opt \<Rightarrow> Some opt
      | None \<Rightarrow> find (\<lambda>opt. n \<noteq> [] \<and> opt_name opt = n) opts)"
  by (induction opts arbitrary: cl)
    (auto simp: add_option_def insert_first_def Let_def split: option.splits)

lemma options_ch_fold:
  "options_ch (fold add_option opts cl) c =
     (case options_ch cl c of
        Some opt \<Rightarrow> Some opt
      | None \<Rightarrow> find (\<lambda>opt. c \<noteq> NUL \<and> ch opt = c) opts)"
  by (induction opts arbitrary: cl)
    (auto simp: add_option_def insert_first_def Let_def split: option.splits)

lemma options_fold: "options (fold add_option opts cl) = options cl"
  by (induction opts arbitrary: cl) (auto simp: add_option_def Let_def)

lemma c_text_terminated [simp]: "NUL \<notin> set v \<Longrightarrow> c_text (v @ [NUL]) = v"
  by (auto simp: c_text_def takeWhile_append)

lemma find_option_first:
  assumes "new_commandline short_desc summ opts st0 = (cl, st)" "NUL \<notin> set arg" "arg = CHR ''-'' # rest"
  shows "find_option cl (arg @ [NUL]) = Some (find (names_option arg) (opts @ [help_option]))"
proof -
  let ?opts = "opts @ [help_option]"
  have cl: "options_name cl n = find (\<lambda>opt. n \<noteq> [] \<and> opt_name opt = n) ?opts"
    "options_ch cl c = find (\<lambda>opt. c \<noteq> NUL \<and> ch opt = c) ?opts" for n c
    using assms(1) by (auto simp: new_commandline_def Let_def options_name_fold options_ch_fold
        simp del: fold_append)
  show ?thesis
  proof (cases rest)
    case Nil
    with assms(2) cl show ?thesis
      by (auto simp: find_option_def assms(3) names_option_def find_None_iff intro!: find_cong)
  next
    case (Cons c name)
    have "find_option cl (arg @ [NUL]) =
        Some (if c = CHR ''-'' then options_name cl name else options_ch cl c)"
      using assms(2) by (simp add: find_option_def assms(3) Cons)
    also have "\<dots> = Some (find (names_option arg) ?opts)"
      unfolding cl using assms(2)
      by (auto simp: assms(3) Cons names_option_def intro!: find_cong)
    finally show ?thesis .
  qed
qed

subsection \<open>The command lines the parser accepts\<close>

text \<open>
  A command line is a sequence of settings: a flag is one argument, any other option is an argument
  and the text of its value.
\<close>

datatype setting = Flag commandline_option string | Setting commandline_option string string

fun setting_args :: "setting \<Rightarrow> string list" where
  "setting_args (Flag opt arg) = [arg]"
| "setting_args (Setting opt arg text) = [arg, text]"

fun valid_setting :: "commandline_option list \<Rightarrow> setting \<Rightarrow> bool" where
  "valid_setting opts (Flag opt arg) \<longleftrightarrow> find (names_option arg) opts = Some opt \<and> type_id opt = T_bool"
| "valid_setting opts (Setting opt arg text) \<longleftrightarrow>
     find (names_option arg) opts = Some opt \<and> type_id opt \<noteq> T_bool \<and>
     (case to_type (type_id opt) V_other (text @ [NUL]) of Some (v, ok) \<Rightarrow> ok | None \<Rightarrow> False)"

fun perform_setting :: "setting \<Rightarrow> variables \<Rightarrow> variables" where
  "perform_setting (Flag opt arg) st = st(variable opt := V_bool True)"
| "perform_setting (Setting opt arg text) st =
     st(variable opt := fst (the (to_type (type_id opt) V_other (text @ [NUL]))))"

lemma find_in_set: "find P xs = Some x \<Longrightarrow> x \<in> set xs"
  by (induction xs) (auto split: if_splits)

lemma names_option_dash: "names_option arg opt \<Longrightarrow> \<exists>rest. arg = CHR ''-'' # rest"
  by (cases arg) (auto simp: names_option_def)

lemma to_type_known:
  "to_type ty store v = Some (x, True) \<longleftrightarrow> to_type ty V_other v = Some (x, True)"
  by (cases ty) simp_all

abbreviation terminated :: "string \<Rightarrow> string" where
  "terminated arg \<equiv> arg @ [NUL]"

lemma parse_args_rejected: "parse_args cl (Rejected, st) args = Some (Rejected, st)"
  by (induction args) simp_all

lemma parse_args_append:
  "parse_args cl s (xs @ ys) = do { s' \<leftarrow> parse_args cl s xs; parse_args cl s' ys }"
  by (induction xs arbitrary: s) (simp_all split: Option.bind_split)

text \<open>A parser of the constructor, on arguments that hold no null character.\<close>

lemma parse_option_accepts:
  assumes "new_commandline short_desc summ opts st0 = (cl, st1)" "NUL \<notin> set arg"
  shows "parse_arg cl (Expect_option, st) (terminated arg) =
     Some (case find (names_option arg) (opts @ [help_option]) of
             None \<Rightarrow> (Rejected, st)
           | Some opt \<Rightarrow> if type_id opt = T_bool then (Expect_option, st(variable opt := V_bool True))
                         else (Expect_value opt, st))"
proof (cases "\<exists>rest. arg = CHR ''-'' # rest")
  case True
  then show ?thesis using find_option_first [OF assms] by auto
next
  case False
  then have "find (names_option arg) (opts @ [help_option]) = None"
    using names_option_dash by (auto simp: find_None_iff)
  moreover have "hd (terminated arg) \<noteq> CHR ''-''" using False by (cases arg) auto
  ultimately show ?thesis by (cases arg) auto
qed

lemma parse_setting:
  assumes "new_commandline short_desc summ opts st0 = (cl, st1)"
    "\<forall>arg \<in> set (setting_args x). NUL \<notin> set arg" "valid_setting (opts @ [help_option]) x"
  shows "parse_args cl (Expect_option, st) (map terminated (setting_args x)) =
     Some (Expect_option, perform_setting x st)"
proof (cases x)
  case (Flag opt arg)
  with assms show ?thesis by (simp add: parse_option_accepts del: parse_arg.simps(2))
next
  case (Setting opt arg val)
  with assms(3) obtain v where "to_type (type_id opt) V_other (terminated val) = Some (v, True)"
    by (auto split: option.splits)
  then have "to_type (type_id opt) (st (variable opt)) (terminated val) = Some (v, True)"
    "to_type (type_id opt) V_other (terminated val) = Some (v, True)"
    by (simp_all add: to_type_known [of _ "st (variable opt)"])
  with Setting assms show ?thesis by (simp add: parse_option_accepts del: parse_arg.simps(2))
qed

lemma parse_settings:
  assumes "new_commandline short_desc summ opts st0 = (cl, st1)"
    "\<forall>arg \<in> set (concat (map setting_args xs)). NUL \<notin> set arg" "list_all (valid_setting (opts @ [help_option])) xs"
  shows "parse_args cl (Expect_option, st) (map terminated (concat (map setting_args xs))) =
     Some (Expect_option, fold perform_setting xs st)"
  using assms(2,3)
proof (induction xs arbitrary: st)
  case (Cons x xs)
  from Cons.prems have "\<forall>arg \<in> set (setting_args x). NUL \<notin> set arg" "valid_setting (opts @ [help_option]) x" by auto
  from parse_setting [OF assms(1) this] Cons show ?case by (simp add: parse_args_append)
qed simp

text \<open>Every accepted sequence of arguments splits into settings.\<close>

lemma accepted_settings:
  assumes "new_commandline short_desc summ opts st0 = (cl, st1)"
    "parse_args cl (Expect_option, st) (map terminated args) = Some (Expect_option, st')"
    "\<forall>arg \<in> set args. NUL \<notin> set arg"
  shows "\<exists>xs. args = concat (map setting_args xs) \<and> list_all (valid_setting (opts @ [help_option])) xs"
  using assms(2,3)
proof (induction args arbitrary: st rule: length_induct)
  case (1 args)
  note IH = "1.IH" [rule_format]
  show ?case
  proof (cases args)
    case Nil
    then show ?thesis by (intro exI [of _ "[]"]) simp
  next
    case (Cons arg rest)
    let ?found = "find (names_option arg) (opts @ [help_option])"
    have arg: "NUL \<notin> set arg" using "1.prems" Cons by simp
    note step = "1.prems"(1) [unfolded Cons list.map parse_args.simps parse_option_accepts [OF assms(1) arg]]
    obtain opt where opt: "?found = Some opt"
      using step by (cases "?found") (auto simp: parse_args_rejected)
    show ?thesis
    proof (cases "type_id opt = T_bool")
      case True
      with step opt have "parse_args cl (Expect_option, st(variable opt := V_bool True)) (map terminated rest) =
          Some (Expect_option, st')" by simp
      from IH [OF _ this] "1.prems"(2) Cons obtain xs
        where "rest = concat (map setting_args xs)" "list_all (valid_setting (opts @ [help_option])) xs"
        by auto
      with opt True Cons show ?thesis by (intro exI [of _ "Flag opt arg # xs"]) simp
    next
      case False
      with step opt have step2: "parse_args cl (Expect_value opt, st) (map terminated rest) = Some (Expect_option, st')"
        by simp
      then obtain val rest' where rest: "rest = val # rest'" by (cases rest) auto
      with step2 obtain v ok where v: "to_type (type_id opt) (st (variable opt)) (terminated val) = Some (v, ok)"
        "parse_args cl (if ok then Expect_option else Rejected, st(variable opt := v)) (map terminated rest') =
           Some (Expect_option, st')"
        by (auto simp: bind_eq_Some_conv)
      then have ok by (cases ok) (auto simp: parse_args_rejected)
      with v have "to_type (type_id opt) V_other (terminated val) = Some (v, True)"
        "parse_args cl (Expect_option, st(variable opt := v)) (map terminated rest') = Some (Expect_option, st')"
        by (simp_all add: to_type_known [of _ "st (variable opt)"])
      moreover from IH [OF _ this(2)] "1.prems"(2) Cons rest obtain xs
        where "rest' = concat (map setting_args xs)" "list_all (valid_setting (opts @ [help_option])) xs"
        by auto
      ultimately show ?thesis using opt False Cons rest by (intro exI [of _ "Setting opt arg val # xs"]) simp
    qed
  qed
qed

text \<open>
  C30: The parser accepts exactly the command lines that are a sequence of settings, each an option
  in one of its two spellings, with the text of a value after it unless it is a flag, and without
  the help option; the variables are then those of the settings in their order.
\<close>

theorem parser_accepts_settings:
  assumes "new_commandline short_desc summ opts st0 = (cl, st)" "\<forall>arg \<in> set (prog # args). NUL \<notin> set arg"
  shows "parser cl (map terminated (prog # args)) st = Some (True, cl', st') \<longleftrightarrow>
     cl' = cl\<lparr>prog_name := basename prog\<rparr> \<and> st' Help_flag \<noteq> V_bool True \<and>
     (\<exists>xs. args = concat (map setting_args xs) \<and> list_all (valid_setting (opts @ [help_option])) xs \<and>
           st' = fold perform_setting xs st)" (is "?l \<longleftrightarrow> ?r")
proof
  assume ?l
  then have p: "parse_args cl (Expect_option, st) (map terminated args) = Some (Expect_option, st')"
    "cl' = cl\<lparr>prog_name := basename prog\<rparr>" "st' Help_flag \<noteq> V_bool True"
    using assms(2) by (auto simp: parser_def bind_eq_Some_conv)
  moreover obtain xs where xs: "args = concat (map setting_args xs)" "list_all (valid_setting (opts @ [help_option])) xs"
    using accepted_settings [OF assms(1) p(1)] assms(2) by auto
  moreover have "parse_args cl (Expect_option, st) (map terminated args) = Some (Expect_option, fold perform_setting xs st)"
    using parse_settings [OF assms(1) _ xs(2), of st] assms(2) xs(1) by simp
  ultimately show ?r by auto
next
  assume ?r
  then obtain xs where xs: "args = concat (map setting_args xs)" "list_all (valid_setting (opts @ [help_option])) xs"
    "st' = fold perform_setting xs st" "st' Help_flag \<noteq> V_bool True" "cl' = cl\<lparr>prog_name := basename prog\<rparr>" by blast
  then show ?l using parse_settings [OF assms(1) _ xs(2), of st] assms(2) by (simp add: parser_def)
qed

subsection \<open>Values written and read back\<close>

fun value_type :: "var_value \<Rightarrow> type_identifier option" where
  "value_type (V_bool b) = Some T_bool"
| "value_type (V_uint8 n) = Some T_uint8"
| "value_type (V_uint16 n) = Some T_uint16"
| "value_type (V_uint32 n) = Some T_uint32"
| "value_type (V_uint64 n) = Some T_uint64"
| "value_type (V_int8 n) = Some T_int8"
| "value_type (V_int16 n) = Some T_int16"
| "value_type (V_int32 n) = Some T_int32"
| "value_type (V_int64 n) = Some T_int64"
| "value_type (V_string s) = Some T_string"
| "value_type (V_guid g) = Some T_guid"
| "value_type (V_ipv6_addr a) = Some T_ipv6_addr"
| "value_type (V_ipv6_port p) = Some T_ipv6_port"
| "value_type (V_ipv6_socket_addr a) = Some T_ipv6_socket_addr"
| "value_type (V_filepath s) = Some T_filepath"
| "value_type (V_stdstring s) = Some T_stdstring"
| "value_type V_other = None"

text \<open>The null-terminated text that the \<open>to_string\<close> of each type writes.\<close>

fun value_text :: "var_value \<Rightarrow> string option" where
  "value_text (V_uint8 n) = Some (to_string_uint 10 lower True n)"
| "value_text (V_uint16 n) = Some (to_string_uint 10 lower True n)"
| "value_text (V_uint32 n) = Some (to_string_uint 10 lower True n)"
| "value_text (V_uint64 n) = Some (to_string_uint 10 lower True n)"
| "value_text (V_int8 n) = to_string_int True n"
| "value_text (V_int16 n) = to_string_int True n"
| "value_text (V_int32 n) = to_string_int True n"
| "value_text (V_int64 n) = to_string_int True n"
| "value_text (V_string s) = (if NUL \<in> set s then None else Some (s @ [NUL]))"
| "value_text (V_guid g) = (if wf_guid g then Some (guid_to_string lower True g) else None)"
| "value_text (V_ipv6_addr a) = (if wf_ipv6 a then ipv6_to_string lower True a else None)"
| "value_text (V_ipv6_port p) = Some (to_string_uint 10 lower True (port_to_uint16 p))"
| "value_text (V_ipv6_socket_addr a) = (if wf_ipv6 (sa_addr a) then ipv6_socket_to_string lower True a else None)"
| "value_text (V_filepath s) = (if NUL \<in> set s then None else Some (s @ [NUL]))"
| "value_text (V_stdstring s) = (if NUL \<in> set s then None else Some (s @ [NUL]))"
| "value_text _ = None"

lemma to_uint_printed: "to_uint 10 (to_string_uint 10 lower True (n :: 'a::len word)) =
    Some (n, length (to_string_uint 10 lower True n))"
  using to_uint_to_string [of 10 lower n "[]"] by simp

lemma to_int_printed: "to_string_int True (n :: 'a::len word) = Some s \<Longrightarrow> 8 \<le> LENGTH('a) \<Longrightarrow>
    to_int 10 s = Some (n, length s)"
  using to_int_to_string [of n s "[]"] by simp

lemma to_type_printed:
  assumes "value_text v = Some s" "value_type v = Some ty"
  shows "to_type ty store s = Some (v, True)"
proof (cases v)
  case (V_guid g)
  with assms to_guid_to_string [of g lower True "[]"] show ?thesis by (auto split: if_splits)
next
  case (V_ipv6_addr a)
  with assms to_ipv6_addr_to_string [of a lower "[]"] show ?thesis by (auto split: if_splits)
next
  case (V_ipv6_socket_addr a)
  with assms to_ipv6_socket_addr_to_string [of a lower "[]"] show ?thesis by (auto split: if_splits)
next
  case (V_ipv6_port p)
  then show ?thesis using assms
    by (auto simp: to_ipv6_port_t_def to_uint_printed ipv6_port_of_def port_to_uint16_def)
qed (use assms in \<open>auto simp: to_uint_printed dest!: to_int_printed split: if_splits\<close>)

definition printed_option :: "commandline_option list \<Rightarrow> string \<times> commandline_option \<times> var_value \<Rightarrow> bool" where
  "printed_option opts = (\<lambda>(arg, opt, v).
     NUL \<notin> set arg \<and> find (names_option arg) (opts @ [help_option]) = Some opt \<and>
     value_type v = Some (type_id opt) \<and> value_text v \<noteq> None)"

lemma printed_option_args:
  assumes "new_commandline short_desc summ opts st0 = (cl, st1)" "list_all (printed_option opts) xs"
    "list_all (\<lambda>opt. variable opt \<noteq> Help_flag) opts" "st Help_flag = V_bool False"
  shows "parse_args cl (Expect_option, st)
      (concat (map (\<lambda>(arg, opt, v). [terminated arg, the (value_text v)]) xs)) =
    Some (Expect_option, fold (\<lambda>(arg, opt, v) st. st(variable opt := v)) xs st) \<and>
    fold (\<lambda>(arg, opt, v) st. st(variable opt := v)) xs st Help_flag = V_bool False"
  using assms(2,4)
proof (induction xs arbitrary: st)
  case (Cons x xs)
  obtain arg opt v where x: "x = (arg, opt, v)" by (cases x)
  with Cons.prems obtain s where arg: "NUL \<notin> set arg" "find (names_option arg) (opts @ [help_option]) = Some opt"
    and v: "value_type v = Some (type_id opt)" "value_text v = Some s" by (auto simp: printed_option_def)
  have ty: "type_id opt \<noteq> T_bool" using v by (cases v) auto
  have "opt \<in> set (opts @ [help_option])" using arg(2) by (rule find_in_set)
  with ty have "opt \<in> set opts" by (auto simp: help_option_def)
  with assms(3) have "variable opt \<noteq> Help_flag" by (simp add: list_all_iff)
  with Cons.prems have "(st(variable opt := v)) Help_flag = V_bool False" by simp
  from Cons.IH [of "st(variable opt := v)", OF _ this] Cons.prems show ?case
    by (simp add: x parse_option_accepts [OF assms(1) arg(1)] arg(2) ty v(2) to_type_printed [OF v(2,1)]
        del: parse_arg.simps(2) fun_upd_apply)
qed simp

text \<open>
  C28: Options of any of the integer, text, guid, address, port and path types, each followed by the
  text that the library prints for a value of its type, are accepted, and every variable then holds
  the value that was printed for it last.
\<close>

theorem printed_options_set:
  assumes "new_commandline short_desc summ opts st0 = (cl, st)" "NUL \<notin> set prog"
    "list_all (printed_option opts) xs" "list_all (\<lambda>opt. variable opt \<noteq> Help_flag) opts"
  shows "parser cl (terminated prog # concat (map (\<lambda>(arg, opt, v). [terminated arg, the (value_text v)]) xs)) st =
     Some (True, cl\<lparr>prog_name := basename prog\<rparr>, fold (\<lambda>(arg, opt, v) st. st(variable opt := v)) xs st)"
proof -
  have "st Help_flag = V_bool False" using assms(1) by (auto simp: new_commandline_def Let_def)
  from printed_option_args [OF assms(1,3,4), of st, OF this] show ?thesis
    using assms(2) by (simp add: parser_def)
qed

subsection \<open>Types of the variables\<close>

definition typed_variables :: "commandline_option list \<Rightarrow> variables \<Rightarrow> bool" where
  "typed_variables opts st \<longleftrightarrow> (\<forall>opt \<in> set opts. value_type (st (variable opt)) = Some (type_id opt))"

lemma to_type_type:
  "to_type ty store s = Some (v, ok) \<Longrightarrow> value_type store = Some ty \<Longrightarrow> value_type v = Some ty"
  by (cases ty) (auto simp: bind_eq_Some_conv)

lemma typed_update:
  "typed_variables opts st \<Longrightarrow> opt \<in> set opts \<Longrightarrow> value_type v = Some (type_id opt) \<Longrightarrow>
   typed_variables opts (st(variable opt := v))"
  unfolding typed_variables_def by (metis fun_upd_other fun_upd_same option.inject)

lemma parse_args_typed:
  assumes "new_commandline short_desc summ opts st0 = (cl, st1)" "opts' = opts @ [help_option]"
    "parse_args cl (state, st) args = Some (state', st')" "typed_variables opts' st"
    "\<And>opt. state = Expect_value opt \<Longrightarrow> opt \<in> set opts'"
  shows "typed_variables opts' st'"
  using assms(3-)
proof (induction args arbitrary: state st)
  case (Cons arg args)
  from Cons.prems(1) obtain state1 st1 where s1: "parse_arg cl (state, st) arg = Some (state1, st1)"
    "parse_args cl (state1, st1) args = Some (state', st')" by (auto simp: bind_eq_Some_conv)
  have "options_name cl n = Some opt \<or> options_ch cl c = Some opt \<Longrightarrow> opt \<in> set opts'" for n c opt
    using assms(1,2) by (auto simp: new_commandline_def Let_def options_name_fold options_ch_fold
        simp del: fold_append set_append split: if_splits dest!: find_in_set)
  then have found: "find_option cl arg = Some (Some opt) \<Longrightarrow> opt \<in> set opts'" for opt
    by (auto simp: find_option_def bind_eq_Some_conv split: if_splits)
  show ?case
  proof (rule Cons.IH [OF s1(2)])
    show "typed_variables opts' st1"
    proof (cases state)
      case Expect_option
      with s1(1) Cons.prems(2) found show ?thesis
        by (auto simp: bind_eq_Some_conv split: if_splits option.splits intro!: typed_update)
    next
      case (Expect_value opt)
      with s1(1) obtain v ok where v: "to_type (type_id opt) (st (variable opt)) arg = Some (v, ok)"
        "st1 = st(variable opt := v)" by (auto simp: bind_eq_Some_conv)
      have opt: "opt \<in> set opts'" using Expect_value Cons.prems(3) by simp
      with Cons.prems(2) have "value_type (st (variable opt)) = Some (type_id opt)"
        by (simp add: typed_variables_def)
      with to_type_type [OF v(1)] opt Cons.prems(2) show ?thesis by (auto simp: v(2) intro: typed_update)
    next
      case Rejected
      with s1(1) Cons.prems(2) show ?thesis by simp
    qed
    show "state1 = Expect_value opt \<Longrightarrow> opt \<in> set opts'" for opt
      using s1(1) found
      by (cases state) (auto simp: bind_eq_Some_conv split: if_splits option.splits)
  qed
qed simp

text \<open>
  C29: Whatever the arguments are, also when the parser stops at one of them, every variable of an
  option holds a value of the type that its option declares, if it did before.
\<close>

theorem parser_keeps_types:
  assumes "new_commandline short_desc summ opts st0 = (cl, st1)" "opts' = opts @ [help_option]"
    "parser cl argv st = Some (ok, cl', st')" "typed_variables opts' st"
  shows "typed_variables opts' st'"
  using parse_args_typed [OF assms(1,2) _ assms(4), of Expect_option] assms(3)
  by (auto simp: parser_def bind_eq_Some_conv split: list.splits)

text \<open>
  An option without a default is printed without brackets, but the parser never looks whether it
  was given: an empty command line is accepted whatever the options are.
\<close>

lemma required_not_enforced:
  "new_commandline short_desc summ opts st0 = (cl, st) \<Longrightarrow> NUL \<notin> set prog \<Longrightarrow>
   parser cl [prog @ [NUL]] st = Some (True, cl\<lparr>prog_name := basename prog\<rparr>, st)"
  by (auto simp: parser_def new_commandline_def Let_def)

text \<open>Only the character after the dash is looked at, the rest of the argument is ignored.\<close>

lemma rest_of_short_option_ignored:
  "c \<noteq> CHR ''-'' \<Longrightarrow> find_option cl (CHR ''-'' # c # rest) = find_option cl [CHR ''-'', c, NUL]"
  by (simp add: find_option_def)

subsection \<open>Instances\<close>

text \<open>The options of deviceserver.cc and of the test client, in part.\<close>

abbreviation thread_count_option :: commandline_option where
  "thread_count_option \<equiv> \<lparr>ch = CHR ''t'', opt_name = ''thread_count'', value_help = ''number of thread'',
     opt_help = ''0 means number of CPU'', type_id = T_int32, variable = Var 0, required = False\<rparr>"

abbreviation address_option :: commandline_option where
  "address_option \<equiv> \<lparr>ch = CHR ''a'', opt_name = ''address'', value_help = ''IPV6 address with port'',
     opt_help = ''Device server address'', type_id = T_ipv6_socket_addr, variable = Var 1, required = True\<rparr>"

abbreviation debug_option :: commandline_option where
  "debug_option \<equiv> \<lparr>ch = CHR ''d'', opt_name = ''debug'', value_help = [],
     opt_help = ''Dumps all the logs'', type_id = T_bool, variable = Var 2, required = False\<rparr>"

abbreviation sample_options :: "commandline_option list" where
  "sample_options \<equiv> [thread_count_option, address_option, debug_option]"

abbreviation sample_variables :: variables where
  "sample_variables \<equiv> (\<lambda>x. V_int32 0)(Var 1 := V_ipv6_socket_addr \<lparr>sa_addr = [], sa_port = ipv6_port_of 0\<rparr>,
     Var 2 := V_bool False, Help_flag := V_bool False)"

theorem parser_accepts_settings_witness:
  "\<exists>cl. parser (fst (new_commandline [] [] sample_options sample_variables))
       (map terminated [''/bin/server'', ''-d'', ''--thread_count'', ''4'']) sample_variables =
     Some (True, cl, sample_variables(Var 2 := V_bool True, Var 0 := V_int32 4))"
proof -
  let ?new = "new_commandline [] [] sample_options sample_variables"
  let ?xs = "[Flag debug_option ''-d'', Setting thread_count_option ''--thread_count'' ''4'']"
  have "?new = (fst ?new, sample_variables)" by (simp add: new_commandline_def fun_upd_twist fun_upd_upd)
  moreover have "list_all (valid_setting (sample_options @ [help_option])) ?xs" by code_simp
  moreover have "fst (the (to_type T_int32 V_other [CHR ''4'', NUL])) = V_int32 4" by code_simp
  ultimately show ?thesis
    using parser_accepts_settings [of "[]" "[]" sample_options sample_variables "fst ?new" sample_variables
        "''/bin/server''" "[''-d'', ''--thread_count'', ''4'']"]
    by (auto intro!: exI [of _ ?xs])
qed

lemma sample_new:
  "new_commandline [] [] sample_options sample_variables =
     (fst (new_commandline [] [] sample_options sample_variables), sample_variables)"
  by (simp add: new_commandline_def fun_upd_twist fun_upd_upd)

abbreviation sample_address :: ipv6_socket_addr where
  "sample_address \<equiv> \<lparr>sa_addr = [0, 0, 0, 0, 0, 0, 0, 0x100], sa_port = ipv6_port_of 8080\<rparr>"

theorem printed_options_set_witness:
  "\<exists>cl. parser (fst (new_commandline [] [] sample_options sample_variables))
       [terminated ''server'', terminated ''-a'', the (value_text (V_ipv6_socket_addr sample_address)),
        terminated ''-t'', the (value_text (V_int32 (- 7)))] sample_variables =
     Some (True, cl, sample_variables(Var 1 := V_ipv6_socket_addr sample_address, Var 0 := V_int32 (- 7)))"
proof -
  have t: "value_text (V_ipv6_socket_addr sample_address) \<noteq> None"
    using to_ipv6_socket_addr_to_string [of sample_address lower "[]"]
    by (auto simp: wf_ipv6_def ipv6_addr16_size_def)
  have f: "find (names_option ''-a'') (sample_options @ [help_option]) = Some address_option"
    "printed_option sample_options (''-t'', thread_count_option, V_int32 (- 7))" by code_simp+
  have "printed_option sample_options (''-a'', address_option, V_ipv6_socket_addr sample_address)"
    unfolding printed_option_def prod.case f(1) by (intro conjI t refl) simp_all
  with f(2) have "list_all (printed_option sample_options)
      [(''-a'', address_option, V_ipv6_socket_addr sample_address), (''-t'', thread_count_option, V_int32 (- 7))]"
    by (simp only: list.pred_inject simp_thms)
  from printed_options_set [OF sample_new _ this, of "''server''"] show ?thesis by auto
qed

theorem parser_keeps_types_witness:
  "typed_variables (sample_options @ [help_option]) sample_variables \<and>
   (case parser (fst (new_commandline [] [] sample_options sample_variables))
       (map terminated [''server'', ''-d'', ''-t'', ''-12'', ''what'']) sample_variables of
     Some (ok, cl, st) \<Rightarrow> \<not> ok \<and> typed_variables (sample_options @ [help_option]) st \<and> st (Var 0) = V_int32 (- 12)
   | None \<Rightarrow> False)"
proof -
  let ?cl = "fst (new_commandline [] [] sample_options sample_variables)"
  let ?args = "map terminated [''server'', ''-d'', ''-t'', ''-12'', ''what'']"
  have t: "typed_variables (sample_options @ [help_option]) sample_variables"
    by (simp add: typed_variables_def help_option_def)
  have "(case parser ?cl ?args sample_variables of
       Some (ok, cl, st) \<Rightarrow> \<not> ok \<and> st (Var 0) = V_int32 (- 12) | None \<Rightarrow> False)"
    by code_simp
  then obtain cl st where p: "parser ?cl ?args sample_variables = Some (False, cl, st)" "st (Var 0) = V_int32 (- 12)"
    by (auto split: option.splits)
  from parser_keeps_types [OF sample_new refl p(1) t] t p show ?thesis by simp
qed

end
