(* ===== verification/FixedMemory.thy ===== *)
theory FixedMemory
  imports IotPrelude
begin

text \<open>
  serverlib/include/iot/core/memory.hh and serverlib/lib/memory/memory.cc: an allocator for blocks of
  one size (\<open>fixed_memory\<close>) and one for sizes up to 1024 (\<open>memory\<close>) made of 128 of them.

  A store block is what one \<open>malloc\<close> returned.  Of its bytes the allocator touches the eight at the
  start of each slot only: a free slot holds a \<open>fixed_memory_free_info\<close> there, an allocated one a
  \<open>fixed_memory_alloc_info\<close>.  Both are kept as the little-endian 64-bit word they occupy.  A block is
  its size and these words by their offset; a pointer is the index of a block and an offset.  A
  store outside a block, a null pointer, an index outside an array and a failed assertion are \<open>None\<close>,
  and so is a loop that does not end.
\<close>

unbundle bit_operations_syntax

subsection \<open>The two headers\<close>

definition free_info :: "u8 \<Rightarrow> u64 \<Rightarrow> u64" where
  "free_info store_index memory_index = ucast store_index OR push_bit 8 memory_index"

definition fi_store_index :: "u64 \<Rightarrow> u8" where
  "fi_store_index w = ucast w"

definition fi_memory_index :: "u64 \<Rightarrow> u64" where
  "fi_memory_index w = drop_bit 8 w"

definition null_index :: u64 where
  "null_index = free_info 0xff 0xffffffffffffff"

definition ai_alloc_size :: "u64 \<Rightarrow> u16" where
  "ai_alloc_size w = ucast w"

definition ai_store_index :: "u64 \<Rightarrow> u8" where
  "ai_store_index w = ucast (drop_bit 16 w)"

definition set_alloc_size :: "u16 \<Rightarrow> u64 \<Rightarrow> u64" where
  "set_alloc_size v w = (w AND NOT (mask 16)) OR ucast v"

definition set_store_index :: "u8 \<Rightarrow> u64 \<Rightarrow> u64" where
  "set_store_index v w = (w AND NOT (push_bit 16 (mask 8))) OR push_bit 16 (ucast v)"

definition default_memory_check :: u8 where
  "default_memory_check = 0xaa"

definition default_memory_check_2 :: u32 where
  "default_memory_check_2 = 0xaaaaeeaa"

definition memory_checks :: u64 where
  "memory_checks = push_bit 24 (ucast default_memory_check) OR push_bit 32 (ucast default_memory_check_2)"

definition set_memory_checks :: "u64 \<Rightarrow> u64" where
  "set_memory_checks w = (w AND mask 24) OR memory_checks"

lemma bit_free_info:
  "bit (free_info s m) n \<longleftrightarrow> (if n < 8 then bit s n else n < 64 \<and> bit m (n - 8))"
  by (auto simp: free_info_def bit_simps)

lemma fi_store_index_free_info [simp]: "fi_store_index (free_info s m) = s"
  by (rule bit_word_eqI) (auto simp: fi_store_index_def bit_simps bit_free_info)

lemma fi_memory_index_free_info: "unat m < 2 ^ 56 \<Longrightarrow> fi_memory_index (free_info s m) = m"
proof (rule bit_word_eqI)
  fix n assume m: "unat m < 2 ^ 56" "n < LENGTH(64)"
  have "\<not> bit m n" if "56 \<le> n" for n
  proof -
    have "take_bit 56 (unat m) = unat m" using m(1) by (rule take_bit_nat_eq_self)
    then have "\<not> bit (unat m) n" using that by (metis bit_take_bit_iff linorder_not_less)
    then show ?thesis by (simp add: bit_unsigned_iff)
  qed
  then show "bit (fi_memory_index (free_info s m)) n \<longleftrightarrow> bit m n"
    using m by (auto simp: fi_memory_index_def bit_simps bit_free_info not_le [symmetric])
qed

lemma free_info_not_null: "s \<noteq> 0xff \<Longrightarrow> free_info s m \<noteq> null_index"
  by (metis fi_store_index_free_info null_index_def)

lemma ai_set [simp]:
  "ai_store_index (set_store_index v w) = v"
  "ai_store_index (set_alloc_size n w) = ai_store_index w"
  "ai_alloc_size (set_alloc_size n w) = n"
  "ai_alloc_size (set_store_index v w) = ai_alloc_size w"
  "ai_store_index (set_memory_checks w) = ai_store_index w"
  "ai_alloc_size (set_memory_checks w) = ai_alloc_size w"
  by (rule bit_word_eqI; auto simp: ai_store_index_def ai_alloc_size_def set_store_index_def set_alloc_size_def
      set_memory_checks_def memory_checks_def bit_simps dest: bit_imp_le_length)+

subsection \<open>Store blocks\<close>

record block =
  bl_size :: nat
  bl_word :: "nat \<Rightarrow> u64"

record fixed_memory =
  fm_alloc_size :: u64
  free_start_index :: u64
  current_capacity :: u64
  last_store_index :: u64
  store_block :: "block option list"

type_synonym pointer = "nat \<times> nat"

definition max_store :: nat where
  "max_store = 32"

definition min_capacity :: u64 where
  "min_capacity = 8"

text \<open>The size of the header, \<open>sizeof(fixed_memory_alloc_info)\<close>.\<close>

definition header_size :: nat where
  "header_size = 8"

definition new_fixed_memory :: "u64 \<Rightarrow> fixed_memory option" where
  "new_fixed_memory alloc_size =
     (if 8 \<le> alloc_size \<and> (alloc_size = 8 \<or> alloc_size mod 8 = 0) then
        Some \<lparr>fm_alloc_size = alloc_size + of_nat header_size, free_start_index = null_index,
              current_capacity = drop_bit 1 min_capacity, last_store_index = - 1,
              store_block = replicate max_store None\<rparr>
      else None)"

definition get_word :: "nat \<Rightarrow> block \<Rightarrow> u64 option" where
  "get_word off bl = (if off + header_size \<le> bl_size bl then Some (bl_word bl off) else None)"

definition put_word :: "nat \<Rightarrow> u64 \<Rightarrow> block \<Rightarrow> block option" where
  "put_word off w bl =
     (if off + header_size \<le> bl_size bl then Some (bl\<lparr>bl_word := (bl_word bl)(off := w)\<rparr>) else None)"

definition get_block :: "nat \<Rightarrow> fixed_memory \<Rightarrow> block option" where
  "get_block s fm = do { b \<leftarrow> load (store_block fm) s; b }"

definition put_block :: "nat \<Rightarrow> block \<Rightarrow> fixed_memory \<Rightarrow> fixed_memory option" where
  "put_block s bl fm =
     (if s < length (store_block fm) then Some (fm\<lparr>store_block := (store_block fm)[s := Some bl]\<rparr>) else None)"

definition read_header :: "pointer \<Rightarrow> fixed_memory \<Rightarrow> u64 option" where
  "read_header p fm = do { bl \<leftarrow> get_block (fst p) fm; get_word (snd p) bl }"

definition write_header :: "pointer \<Rightarrow> u64 \<Rightarrow> fixed_memory \<Rightarrow> fixed_memory option" where
  "write_header p w fm =
     do { bl \<leftarrow> get_block (fst p) fm; bl' \<leftarrow> put_word (snd p) w bl; put_block (fst p) bl' fm }"

subsection \<open>get_memory and free\<close>

text \<open>
  The loop that links the slots of a new block: \<open>free_index\<close> and \<open>next_index\<close> are 32 bits wide, the
  bound is a \<open>size_t\<close>.  The first argument bounds the iterations.
\<close>

fun link_slots :: "nat \<Rightarrow> u64 \<Rightarrow> u8 \<Rightarrow> u64 \<Rightarrow> u32 \<Rightarrow> u32 \<Rightarrow> block \<Rightarrow> (u32 \<times> block) option" where
  "link_slots 0 asize si bound free_index next_index bl = None"
| "link_slots (Suc fuel) asize si bound free_index next_index bl =
     (if ucast free_index < bound then
        do { bl' \<leftarrow> put_word (unat free_index) (free_info si (ucast next_index)) bl;
             link_slots fuel asize si bound next_index (next_index + ucast asize) bl' }
      else Some (free_index, bl))"

text \<open>
  \<open>get_memory\<close>: the argument is what \<open>malloc\<close> would return, the contents of the new bytes or a null
  pointer; with \<open>debug\<close> the assertion of the debug build is checked and the check bytes are set.
\<close>

definition grow_memory :: "bool \<Rightarrow> (nat \<Rightarrow> u64) option \<Rightarrow> fixed_memory \<Rightarrow> (pointer \<times> fixed_memory) option" where
  "grow_memory debug malloc fm =
     (let capacity = current_capacity fm * 2;
          memory_size = capacity * fm_alloc_size fm;
          last = last_store_index fm + 1;
          si = ucast last
      in if debug \<and> \<not> memory_size \<le> fi_memory_index null_index + 1 then None
      else do {
        garbage \<leftarrow> malloc;
        (free_index, bl) \<leftarrow> link_slots (unat memory_size) (fm_alloc_size fm) si (memory_size - fm_alloc_size fm)
           (ucast (fm_alloc_size fm)) (ucast (fm_alloc_size fm) + ucast (fm_alloc_size fm))
           \<lparr>bl_size = unat memory_size, bl_word = garbage\<rparr>;
        bl' \<leftarrow> put_word (unat free_index) null_index bl;
        w \<leftarrow> get_word 0 bl';
        bl'' \<leftarrow> put_word 0 (set_store_index si w) bl';
        fm' \<leftarrow> put_block (unat last) bl''
          (fm\<lparr>current_capacity := capacity, last_store_index := last,
              free_start_index := free_info si (fm_alloc_size fm)\<rparr>);
        Some ((unat last, 0), fm') })"

definition take_free :: "fixed_memory \<Rightarrow> (pointer \<times> fixed_memory) option" where
  "take_free fm =
     (let si = fi_store_index (free_start_index fm);
          p = (unat si, unat (fi_memory_index (free_start_index fm)))
      in do { w \<leftarrow> read_header p fm;
              fm' \<leftarrow> write_header p (set_store_index si w) (fm\<lparr>free_start_index := w\<rparr>);
              Some (p, fm') })"

definition get_memory :: "bool \<Rightarrow> (nat \<Rightarrow> u64) option \<Rightarrow> fixed_memory \<Rightarrow> (pointer \<times> fixed_memory) option" where
  "get_memory debug malloc fm =
     do { (p, fm') \<leftarrow> (if free_start_index fm = null_index then grow_memory debug malloc fm else take_free fm);
          if debug then do { w \<leftarrow> read_header p fm'; fm'' \<leftarrow> write_header p (set_memory_checks w) fm'; Some (p, fm'') }
          else Some (p, fm') }"

text \<open>\<open>pheader - current_store_block\<close> is defined for a pointer into that block only.\<close>

definition free_memory :: "bool \<Rightarrow> pointer \<Rightarrow> fixed_memory \<Rightarrow> fixed_memory option" where
  "free_memory debug pheader fm =
     do { w \<leftarrow> read_header pheader fm;
          fm1 \<leftarrow> write_header pheader (free_start_index fm) fm;
          if unat (ai_store_index w) = fst pheader then
            let index = word_of_nat (snd pheader) in
            if debug \<and> \<not> (index mod fm_alloc_size fm = 0 \<and> drop_bit 24 w = drop_bit 24 memory_checks) then None
            else Some (fm1\<lparr>free_start_index := free_info (ai_store_index w) index\<rparr>)
          else None }"

subsection \<open>The sizes\<close>

lemma get_put_word [simp]:
  "off + header_size \<le> bl_size bl \<Longrightarrow> get_word off bl = Some (bl_word bl off)"
  "off + header_size \<le> bl_size bl \<Longrightarrow> put_word off w bl = Some (bl\<lparr>bl_word := (bl_word bl)(off := w)\<rparr>)"
  by (simp_all add: get_word_def put_word_def)

text \<open>What the loop leaves in the headers of the slots it reaches, \<open>n\<close> of them from slot \<open>i\<close> on.\<close>

definition linked :: "nat \<Rightarrow> u8 \<Rightarrow> nat \<Rightarrow> nat \<Rightarrow> (nat \<Rightarrow> u64) \<Rightarrow> nat \<Rightarrow> u64" where
  "linked asize si i j f off =
     (if off mod asize = 0 \<and> i \<le> off div asize \<and> off div asize < j then
        free_info si (word_of_nat (off + asize)) else f off)"

lemma u32_small: "n < 2 ^ 32 \<Longrightarrow> unat (word_of_nat n :: u32) = n" "n < 2 ^ 32 \<Longrightarrow> ucast (word_of_nat n :: u32) = (word_of_nat n :: u64)"
  by (simp_all add: unat_of_nat take_bit_nat_eq_self unsigned_of_nat)

lemma u64_small: "n < 2 ^ 64 \<Longrightarrow> unat (word_of_nat n :: u64) = n"
  by (simp add: unat_of_nat take_bit_nat_eq_self)

lemma linked_step:
  assumes "0 < asize" "i < j"
  shows "linked asize si (Suc i) j (f(i * asize := free_info si (word_of_nat (i * asize + asize)))) =
    linked asize si i j f"
proof
  fix off
  show "linked asize si (Suc i) j (f(i * asize := free_info si (word_of_nat (i * asize + asize)))) off =
    linked asize si i j f off"
  proof (cases "off = i * asize")
    case False
    then have "off mod asize = 0 \<Longrightarrow> off div asize \<noteq> i" using assms(1) by auto
    with False show ?thesis by (auto simp: linked_def)
  qed (use assms in \<open>auto simp: linked_def\<close>)
qed

lemma linked_none [simp]: "linked asize si j j f = f"
  by (rule ext) (auto simp: linked_def)

lemma link_slots_linked:
  assumes "header_size \<le> asize" "(count - 1) * asize < 2 ^ 32" "i < count" "count - i \<le> fuel"
    "bl_size bl = count * asize" "unat asize' = asize" "bound = word_of_nat ((count - 1) * asize)"
  shows "link_slots fuel asize' si bound (word_of_nat (i * asize)) (word_of_nat (Suc i * asize)) bl =
     Some (word_of_nat ((count - 1) * asize), bl\<lparr>bl_word := linked asize si i (count - 1) (bl_word bl)\<rparr>)"
  using assms(3-5)
proof (induction fuel arbitrary: i bl)
  case (Suc fuel)
  have pos: "0 < asize" using assms(1) by (simp add: header_size_def)
  note c = assms(2)
  have "i * asize \<le> (count - 1) * asize" using Suc.prems(1) by (intro mult_le_mono) auto
  with c have i: "i * asize < 2 ^ 32" by linarith
  show ?case
  proof (cases "i = count - 1")
    case True
    then show ?thesis using i by (simp add: assms(7) u32_small del: of_nat_mult of_nat_Suc of_nat_add mult_Suc)
  next
    case False
    then have "Suc i * asize \<le> (count - 1) * asize" using Suc.prems(1) by (intro mult_le_mono) auto
    with c have i': "Suc i * asize < 2 ^ 32" by linarith
    have "i * asize < (count - 1) * asize" using False Suc.prems(1) pos by simp
    with i c have less: "ucast (word_of_nat (i * asize) :: u32) < bound"
      by (simp add: assms(7) u32_small word_less_nat_alt u64_small del: of_nat_mult)
    have "i * asize + asize \<le> count * asize" using Suc.prems(1) mult_le_mono1 [of "Suc i" count asize] by simp
    then have fits: "i * asize + header_size \<le> bl_size bl" using assms(1) Suc.prems(3) by linarith
    let ?bl = "bl\<lparr>bl_word := (bl_word bl)(i * asize := free_info si (word_of_nat (i * asize + asize)))\<rparr>"
    have "ucast asize' = (word_of_nat asize :: u32)" using assms(6) by auto
    then have "link_slots (Suc fuel) asize' si bound (word_of_nat (i * asize)) (word_of_nat (Suc i * asize)) bl =
        link_slots fuel asize' si bound (word_of_nat (Suc i * asize)) (word_of_nat (Suc (Suc i) * asize)) ?bl"
      using less fits i i'
      by (simp only: link_slots.simps if_True u32_small get_put_word Option.bind.simps)
        (simp add: algebra_simps)
    also have "\<dots> = Some (word_of_nat ((count - 1) * asize),
        ?bl\<lparr>bl_word := linked asize si (Suc i) (count - 1) (bl_word ?bl)\<rparr>)"
      using Suc.prems False by (intro Suc.IH) auto
    also have "linked asize si (Suc i) (count - 1) (bl_word ?bl) = linked asize si i (count - 1) (bl_word bl)"
      using linked_step [OF pos, of i "count - 1" si "bl_word bl"] False Suc.prems(1) by simp
    finally show ?thesis by simp
  qed
qed simp

lemma unat_ucast_u64: "unat (ucast (x :: u32) :: u64) = unat x"
  by transfer (simp add: take_bit_nat_eq_self)

text \<open>A block of more than 4 GiB: the 32-bit index never reaches the bound.\<close>

lemma link_slots_endless:
  "2 ^ 32 \<le> unat bound \<Longrightarrow> link_slots fuel asize si bound free_index next_index bl = None"
proof (induction fuel arbitrary: free_index next_index bl)
  case (Suc fuel)
  have "ucast free_index < bound"
    using unsigned_less [of free_index, where 'a = nat] Suc.prems
    by (simp add: word_less_nat_alt unat_ucast_u64)
  with Suc show ?case by (simp split: Option.bind_split)
qed simp

subsection \<open>The free list\<close>

definition slots :: "nat \<Rightarrow> nat \<Rightarrow> pointer set" where
  "slots asize k = {(s, i * asize) | s i. s < k \<and> i < 8 * 2 ^ s}"

text \<open>The blocks: the first \<open>k\<close> are there and have \<open>8 * 2 ^ s\<close> slots each.\<close>

definition fm_shape :: "nat \<Rightarrow> nat \<Rightarrow> fixed_memory \<Rightarrow> bool" where
  "fm_shape asize k fm \<longleftrightarrow>
     16 \<le> asize \<and> asize \<le> 1032 \<and> unat (fm_alloc_size fm) = asize \<and> k \<le> 30 \<and>
     length (store_block fm) = max_store \<and>
     (\<forall>s < k. \<exists>f. store_block fm ! s = Some \<lparr>bl_size = 8 * 2 ^ s * asize, bl_word = f\<rparr> \<and>
        (8 * 2 ^ s - 1) * asize < 2 ^ 32) \<and>
     current_capacity fm = word_of_nat (4 * 2 ^ k) \<and> last_store_index fm + 1 = word_of_nat k"

definition word_at :: "pointer \<Rightarrow> fixed_memory \<Rightarrow> u64" where
  "word_at p fm = (case store_block fm ! fst p of Some bl \<Rightarrow> bl_word bl (snd p) | None \<Rightarrow> 0)"

fun chain :: "fixed_memory \<Rightarrow> u64 \<Rightarrow> pointer list \<Rightarrow> bool" where
  "chain fm w [] \<longleftrightarrow> w = null_index"
| "chain fm w (p # ps) \<longleftrightarrow>
     w = free_info (word_of_nat (fst p)) (word_of_nat (snd p)) \<and> chain fm (word_at p fm) ps"

definition live_header :: "bool \<Rightarrow> pointer \<Rightarrow> u64 \<Rightarrow> bool" where
  "live_header debug p w \<longleftrightarrow> unat (ai_store_index w) = fst p \<and> (debug \<longrightarrow> drop_bit 24 w = drop_bit 24 memory_checks)"

text \<open>\<open>ps\<close> is the free list and \<open>A\<close> the set of the allocated slots: they partition the slots.\<close>

definition fm_inv :: "bool \<Rightarrow> nat \<Rightarrow> nat \<Rightarrow> pointer list \<Rightarrow> pointer set \<Rightarrow> fixed_memory \<Rightarrow> bool" where
  "fm_inv debug asize k ps A fm \<longleftrightarrow>
     fm_shape asize k fm \<and> chain fm (free_start_index fm) ps \<and> distinct ps \<and>
     set ps \<inter> A = {} \<and> set ps \<union> A = slots asize k \<and> (\<forall>p \<in> A. live_header debug p (word_at p fm))"

lemma chain_cong:
  "(\<And>p. p \<in> set ps \<Longrightarrow> word_at p fm' = word_at p fm) \<Longrightarrow> chain fm' w ps = chain fm w ps"
  by (induction ps arbitrary: w) simp_all

lemma word_at_update [simp]: "word_at p (fm\<lparr>free_start_index := w\<rparr>) = word_at p fm"
  by (simp add: word_at_def)

lemma shape_update [simp]: "fm_shape asize k (fm\<lparr>free_start_index := w\<rparr>) = fm_shape asize k fm"
  by (simp add: fm_shape_def)

lemma slot_bounds:
  assumes "fm_shape asize k fm" "p \<in> slots asize k"
  obtains f where "fst p < k" "fst p < max_store" "snd p + header_size \<le> 8 * 2 ^ fst p * asize" "snd p < 2 ^ 32"
    "asize dvd snd p" "store_block fm ! fst p = Some \<lparr>bl_size = 8 * 2 ^ fst p * asize, bl_word = f\<rparr>"
proof -
  from assms(2) obtain s i where p: "p = (s, i * asize)" "s < k" "i < 8 * 2 ^ s" by (auto simp: slots_def)
  from assms(1) p obtain f where f: "store_block fm ! s = Some \<lparr>bl_size = 8 * 2 ^ s * asize, bl_word = f\<rparr>"
    "(8 * 2 ^ s - 1) * asize < 2 ^ 32" "16 \<le> asize" "k \<le> 30" by (auto simp: fm_shape_def)
  have "i * asize \<le> (8 * 2 ^ s - 1) * asize" using p(3) by (intro mult_le_mono) auto
  with f(2) have "i * asize < 2 ^ 32" by linarith
  moreover have "i * asize + asize \<le> 8 * 2 ^ s * asize"
    using p(3) mult_le_mono1 [of "Suc i" "8 * 2 ^ s" asize] by simp
  ultimately show thesis using p f by (intro that [of f]) (auto simp: header_size_def max_store_def)
qed

lemma read_header_slot:
  assumes "fm_shape asize k fm" "p \<in> slots asize k"
  shows "read_header p fm = Some (word_at p fm)"
  by (rule slot_bounds [OF assms])
    (use assms(1) in \<open>simp add: read_header_def get_block_def load_def word_at_def fm_shape_def\<close>)

lemma write_header_slot:
  assumes "fm_shape asize k fm" "p \<in> slots asize k"
  obtains fm' where "write_header p w fm = Some fm'" "fm_shape asize k fm'"
    "\<And>q. word_at q fm' = (if q = p then w else word_at q fm)" "free_start_index fm' = free_start_index fm"
proof -
  obtain f where b: "fst p < k" "fst p < max_store" "snd p + header_size \<le> 8 * 2 ^ fst p * asize"
    "store_block fm ! fst p = Some \<lparr>bl_size = 8 * 2 ^ fst p * asize, bl_word = f\<rparr>"
    by (rule slot_bounds [OF assms]) blast
  have l: "length (store_block fm) = max_store" using assms(1) by (simp add: fm_shape_def)
  let ?fm = "fm\<lparr>store_block := (store_block fm)[fst p := Some \<lparr>bl_size = 8 * 2 ^ fst p * asize, bl_word = f(snd p := w)\<rparr>]\<rparr>"
  have "write_header p w fm = Some ?fm"
    using b l by (simp add: write_header_def get_block_def load_def put_block_def)
  moreover have "fm_shape asize k ?fm" using assms(1) b unfolding fm_shape_def
    by (auto simp: nth_list_update)
  moreover have "word_at q ?fm = (if q = p then w else word_at q fm)" for q
    using b l by (cases "fst q = fst p") (auto simp: word_at_def prod_eq_iff)
  ultimately show thesis by (intro that [of ?fm]) simp_all
qed

lemma chain_null: "fm_shape asize k fm \<Longrightarrow> set ps \<subseteq> slots asize k \<Longrightarrow> chain fm w ps \<Longrightarrow> w = null_index \<longleftrightarrow> ps = []"
proof (cases ps)
  case (Cons p ps')
  assume a: "fm_shape asize k fm" "set ps \<subseteq> slots asize k" "chain fm w ps"
  then have "p \<in> slots asize k" using Cons by simp
  then have "fst p < 32" by (rule slot_bounds [OF a(1)]) (simp add: max_store_def)
  then have "unat (word_of_nat (fst p) :: u8) \<noteq> 255" by (simp add: unat_of_nat take_bit_nat_eq_self)
  then have "(word_of_nat (fst p) :: u8) \<noteq> 0xff" by (rule contrapos_nn) simp
  with a(3) Cons show ?thesis by (auto dest: free_info_not_null)
qed simp

text \<open>Taking the first slot of the free list.\<close>

lemma take_free_slot:
  assumes "fm_inv debug asize k (p # ps) A fm"
  obtains fm' where "take_free fm = Some (p, fm')" "fm_shape asize k fm'" "chain fm' (free_start_index fm') ps"
    "unat (ai_store_index (word_at p fm')) = fst p" "\<And>q. q \<noteq> p \<Longrightarrow> word_at q fm' = word_at q fm"
proof -
  from assms have sh: "fm_shape asize k fm" and ch: "chain fm (free_start_index fm) (p # ps)"
    and p: "p \<in> slots asize k" "p \<notin> set ps" by (auto simp: fm_inv_def)
  have b: "fst p < 32" "snd p < 2 ^ 32"
    by (rule slot_bounds [OF sh p(1)]; simp add: max_store_def)+
  have s: "unat (word_of_nat (fst p) :: u8) = fst p" using b(1) by (simp add: unat_of_nat take_bit_nat_eq_self)
  have m: "unat (word_of_nat (snd p) :: u64) = snd p" by (intro u64_small) (rule less_trans [OF b(2)], simp)
  then have m': "fi_memory_index (free_info (word_of_nat (fst p)) (word_of_nat (snd p))) = word_of_nat (snd p)"
    by (intro fi_memory_index_free_info) (simp only: m, rule less_trans [OF b(2)], simp)
  let ?fm = "fm\<lparr>free_start_index := word_at p fm\<rparr>"
  obtain fm' where fm': "write_header p (set_store_index (word_of_nat (fst p)) (word_at p fm)) ?fm = Some fm'"
    "fm_shape asize k fm'" "free_start_index fm' = free_start_index ?fm"
    "\<And>q. word_at q fm' = (if q = p then set_store_index (word_of_nat (fst p)) (word_at p fm) else word_at q ?fm)"
    by (rule write_header_slot [of asize k ?fm p "set_store_index (word_of_nat (fst p)) (word_at p fm)"])
      (use sh p in auto)
  have "take_free fm = Some (p, fm')"
    using ch fm'(1) by (simp add: take_free_def s m m' read_header_slot [OF sh p(1)])
  moreover have "chain fm' (free_start_index fm') ps"
  proof -
    have "chain fm' w ps = chain fm w ps" for w by (rule chain_cong) (use p(2) fm'(4) in auto)
    then show ?thesis using ch by (simp add: fm'(3))
  qed
  ultimately show thesis using fm'(2,4) s by (intro that [of fm']) auto
qed

lemma pred_mult_add: "0 < count \<Longrightarrow> count * asize = (count - 1) * asize + asize" for count :: nat
  by (cases count) simp_all

lemma growing_sizes:
  assumes "fm_shape asize k fm" "(8 * 2 ^ k - 1) * asize < 2 ^ 32"
  shows "k < 30" "unat (current_capacity fm * 2 * fm_alloc_size fm) = 8 * 2 ^ k * asize"
    "current_capacity fm * 2 = word_of_nat (4 * 2 ^ Suc k)"
proof -
  from assms(1) have sh: "16 \<le> asize" "asize \<le> 1032" "k \<le> 30" "fm_alloc_size fm = word_of_nat asize"
    "current_capacity fm = word_of_nat (4 * 2 ^ k)" by (auto simp: fm_shape_def)
  show "k < 30"
  proof (rule ccontr)
    assume "\<not> k < 30"
    with sh have "k = 30" by simp
    with assms(2) sh(1) show False using mult_le_mono2 [of 16 asize "8 * 2 ^ 30 - 1"] by simp
  qed
  define x y where "x = (8 * 2 ^ k - 1) * asize" and "y = 8 * 2 ^ k * asize"
  have "y = x + asize" by (simp add: x_def y_def diff_mult_distrib)
  moreover have "x < 2 ^ 32" using assms(2) by (simp only: x_def)
  ultimately have "y < 2 ^ 64" using sh(2) by simp
  then have "8 * 2 ^ k * asize < 2 ^ 64" by (simp only: y_def)
  moreover have e: "current_capacity fm * 2 = word_of_nat (4 * 2 ^ Suc k)" by (simp add: sh(5))
  ultimately show "unat (current_capacity fm * 2 * fm_alloc_size fm) = 8 * 2 ^ k * asize"
    using u64_small [of "8 * 2 ^ k * asize"] by (simp add: sh(4) e)
  show "current_capacity fm * 2 = word_of_nat (4 * 2 ^ Suc k)" by (rule e)
qed

lemma linked_chain:
  assumes "0 < asize" "\<And>i. i < count - 1 \<Longrightarrow> 1 \<le> i \<Longrightarrow>
       word_at (k, i * asize) fm = free_info (word_of_nat k) (word_of_nat (i * asize + asize))"
    "word_at (k, (count - 1) * asize) fm = null_index" "1 \<le> i" "i < count"
  shows "chain fm (free_info (word_of_nat k) (word_of_nat (i * asize))) (map (\<lambda>i. (k, i * asize)) [i..<count])"
  using assms(4,5)
proof (induction "count - i" arbitrary: i)
  case (Suc d)
  show ?case
  proof (cases "i = count - 1")
    case True
    with Suc.prems have "[i..<count] = [i]" by (simp add: upt_rec)
    with True assms(3) show ?thesis by simp
  next
    case False
    with Suc.prems have i: "i < count - 1" "Suc i < count" by auto
    from Suc.hyps(1) [of "Suc i"] Suc.hyps(2) i(2)
    have "chain fm (free_info (word_of_nat k) (word_of_nat (Suc i * asize))) (map (\<lambda>i. (k, i * asize)) [Suc i..<count])"
      by simp
    moreover have "[i..<count] = i # [Suc i..<count]" using i by (simp add: upt_rec)
    ultimately show ?thesis using assms(2) [OF i(1) Suc.prems(1)] by (simp add: add.commute)
  qed
qed simp

lemma slots_Suc: "slots asize (Suc k) = slots asize k \<union> (\<lambda>i. (k, i * asize)) ` {0..<8 * 2 ^ k}"
  by (auto simp: slots_def less_Suc_eq)

text \<open>A new block: slot 0 is handed out, the others are the free list.\<close>

lemma grow_memory_slots:
  assumes "fm_shape asize k fm" "(8 * 2 ^ k - 1) * asize < 2 ^ 32" "malloc = Some garbage"
  obtains fm' where "grow_memory debug malloc fm = Some ((k, 0), fm')" "fm_shape asize (Suc k) fm'"
    "chain fm' (free_start_index fm') (map (\<lambda>i. (k, i * asize)) [1..<8 * 2 ^ k])"
    "unat (ai_store_index (word_at (k, 0) fm')) = k" "\<And>q. fst q \<noteq> k \<Longrightarrow> word_at q fm' = word_at q fm"
proof -
  define count :: nat where "count = 8 * 2 ^ k"
  note sizes = growing_sizes [OF assms(1,2)]
  note fit = assms(2) [folded count_def]
  from assms(1) have sh: "16 \<le> asize" "unat (fm_alloc_size fm) = asize" "fm_alloc_size fm = word_of_nat asize"
    "length (store_block fm) = 32" "last_store_index fm + 1 = word_of_nat k"
    by (auto simp: fm_shape_def max_store_def)
  have last: "unat (word_of_nat k :: u64) = k" "unat (word_of_nat k :: u8) = k" "ucast (word_of_nat k :: u64) = (word_of_nat k :: u8)"
    using sizes(1) by (simp_all add: unat_of_nat take_bit_nat_eq_self unsigned_of_nat)
  have count: "1 < count" unfolding count_def using one_le_power [of "2 :: nat" k] by linarith
  have fuel: "count - 1 \<le> count * asize" using sh(1) mult_le_mono2 [of 1 asize count] by linarith
  have bound: "current_capacity fm * 2 * fm_alloc_size fm - fm_alloc_size fm = word_of_nat ((count - 1) * asize)"
  proof -
    have "current_capacity fm * 2 * fm_alloc_size fm = word_of_nat (count * asize)"
      using arg_cong [OF sizes(2) [folded count_def], of "word_of_nat :: nat \<Rightarrow> u64"] by simp
    moreover have "count * asize = (count - 1) * asize + asize" using count by (intro pred_mult_add) simp
    ultimately show ?thesis by (simp add: sh(3) del: of_nat_mult)
  qed
  define si where "si = (word_of_nat k :: u8)"
  define bl where "bl = \<lparr>bl_size = count * asize, bl_word = linked asize si 1 (count - 1) garbage\<rparr>"
  have uc: "ucast (fm_alloc_size fm) = (word_of_nat asize :: u32)" using sh(2) by auto
  have link: "link_slots (count * asize) (fm_alloc_size fm) si (word_of_nat ((count - 1) * asize))
      (ucast (fm_alloc_size fm)) (ucast (fm_alloc_size fm) + ucast (fm_alloc_size fm))
      \<lparr>bl_size = count * asize, bl_word = garbage\<rparr> = Some (word_of_nat ((count - 1) * asize), bl)"
    using link_slots_linked [of asize count 1 "count * asize" "\<lparr>bl_size = count * asize, bl_word = garbage\<rparr>"
        "fm_alloc_size fm" _ si, OF _ fit count fuel _ sh(2) refl] sh(1,2)
    by (simp add: header_size_def bl_def uc)
  have u: "unat (word_of_nat ((count - 1) * asize) :: u32) = (count - 1) * asize"
    by (rule u32_small(1)) (rule fit)
  have fits: "(count - 1) * asize + header_size \<le> count * asize" "header_size \<le> count * asize"
    using sh(1) count mult_le_mono [of 1 count 16 asize] pred_mult_add [of count asize]
    unfolding header_size_def by linarith+
  define bl1 where "bl1 = bl\<lparr>bl_word := (bl_word bl)((count - 1) * asize := null_index)\<rparr>"
  define bl2 where "bl2 = bl1\<lparr>bl_word := (bl_word bl1)(0 := set_store_index si (bl_word bl1 0))\<rparr>"
  let ?fm = "fm\<lparr>current_capacity := word_of_nat (4 * 2 ^ Suc k), last_store_index := word_of_nat k,
     free_start_index := free_info si (fm_alloc_size fm), store_block := (store_block fm)[k := Some bl2]\<rparr>"
  have sz: "bl_size bl = count * asize" "bl_size bl1 = count * asize" by (simp_all add: bl_def bl1_def)
  have k32: "k < 32" "k < 31" using sizes(1) by simp_all
  have "\<not> (debug \<and> \<not> current_capacity fm * 2 * fm_alloc_size fm \<le> fi_memory_index null_index + 1)"
  proof -
    have "fi_memory_index null_index + 1 = 0x100000000000000"
      by (simp add: null_index_def fi_memory_index_free_info)
    moreover have "count * asize \<le> 2 ^ 56"
    proof -
      have "count * asize = (count - 1) * asize + asize" using count by (intro pred_mult_add) simp
      moreover have "asize \<le> 1032" using assms(1) by (simp add: fm_shape_def)
      ultimately show ?thesis using fit by simp
    qed
    ultimately show ?thesis by (simp add: word_le_nat_alt sizes(2) [folded count_def])
  qed
  moreover have "bl2 = bl1\<lparr>bl_word := (bl_word bl1)(0 := set_store_index si (bl_word bl1 0))\<rparr>"
    "get_word 0 bl1 = Some (bl_word bl1 0)" "put_word ((count - 1) * asize) null_index bl = Some bl1"
    using fits sz by (simp_all add: bl2_def bl1_def)
  moreover have "put_word 0 (set_store_index si (bl_word bl1 0)) bl1 = Some bl2"
    using fits sz by (simp add: bl2_def)
  moreover have "put_block k bl2 (fm\<lparr>current_capacity := current_capacity fm * 2, last_store_index := word_of_nat k,
      free_start_index := free_info si (fm_alloc_size fm)\<rparr>) = Some ?fm"
    using k32 sh(4) by (simp only: sizes(3)) (simp add: put_block_def)
  ultimately have "grow_memory debug malloc fm = Some ((k, 0), ?fm)"
    unfolding grow_memory_def Let_def sizes(2) [folded count_def] bound sh(5) last si_def [symmetric] assms(3)
    by (simp only: if_False Option.bind.simps link prod.case u)
  moreover have w: "word_at q ?fm = (if fst q = k then bl_word bl2 (snd q) else word_at q fm)" for q
    using k32 sh(4) by (simp add: word_at_def)
  moreover have "\<exists>f. bl2 = \<lparr>bl_size = 8 * 2 ^ k * asize, bl_word = f\<rparr>"
    by (simp add: bl2_def bl1_def bl_def count_def)
  then have "fm_shape asize (Suc k) ?fm"
    using assms(1) fit sizes(1) by (auto simp: fm_shape_def max_store_def nth_list_update less_Suc_eq count_def
        simp del: of_nat_mult of_nat_power power_Suc)
  moreover have "chain ?fm (free_info si (fm_alloc_size fm)) (map (\<lambda>i. (k, i * asize)) [1..<count])"
  proof -
    have "word_at (k, i * asize) ?fm = free_info (word_of_nat k) (word_of_nat (i * asize + asize))"
      if i: "i < count - 1" "1 \<le> i" for i
    proof -
      have "i * asize \<noteq> (count - 1) * asize" "i * asize \<noteq> 0" using i sh(1) by auto
      then show ?thesis using i sh(1) unfolding w by (simp add: bl2_def bl1_def bl_def linked_def si_def)
    qed
    moreover have "word_at (k, (count - 1) * asize) ?fm = null_index"
      using count sh(1) unfolding w by (simp add: bl2_def bl1_def)
    ultimately show ?thesis
      using linked_chain [of asize count k ?fm 1] sh(1,3) count by (simp add: si_def)
  qed
  moreover have "unat (ai_store_index (word_at (k, 0) ?fm)) = k"
    unfolding w by (simp add: bl2_def si_def last)
  ultimately show thesis by (intro that [of ?fm]) (simp_all add: count_def)
qed

text \<open>A block that would be larger than 4 GiB: the loop does not end, and the lock is never released.\<close>

lemma grow_memory_endless:
  assumes "fm_shape asize k fm" "2 ^ 32 \<le> (8 * 2 ^ k - 1) * asize"
  shows "grow_memory debug malloc fm = None"
proof -
  define count :: nat where "count = 8 * 2 ^ k"
  from assms(1) have sh: "asize \<le> 1032" "fm_alloc_size fm = word_of_nat asize" "k \<le> 30"
    "current_capacity fm = word_of_nat (4 * 2 ^ k)" by (auto simp: fm_shape_def)
  have "0 < count" unfolding count_def by simp
  have "(2 :: nat) ^ k \<le> 2 ^ 30" using sh(3) by (intro power_increasing) auto
  then have "count \<le> 8 * 2 ^ 30" unfolding count_def by simp
  then have "count * asize \<le> (8 * 2 ^ 30) * 1032" using sh(1) by (intro mult_le_mono)
  then have big: "count * asize < 2 ^ 64" by (rule le_less_trans) simp
  have "current_capacity fm * 2 * fm_alloc_size fm - fm_alloc_size fm = word_of_nat ((count - 1) * asize)"
  proof -
    have "current_capacity fm * 2 * fm_alloc_size fm = word_of_nat (count * asize)"
      by (simp add: sh(2,4) count_def)
    then show ?thesis unfolding pred_mult_add [OF \<open>0 < count\<close>, of asize] by (simp add: sh(2) del: of_nat_mult)
  qed
  moreover have "(count - 1) * asize \<le> count * asize" by (intro mult_le_mono) auto
  ultimately have "2 ^ 32 \<le> unat (current_capacity fm * 2 * fm_alloc_size fm - fm_alloc_size fm)"
    using assms(2) [folded count_def] big by (simp only: u64_small)
  from link_slots_endless [OF this] show ?thesis
    by (auto simp: grow_memory_def Let_def split: Option.bind_split)
qed

subsection \<open>The invariant is kept\<close>

lemma get_slot:
  assumes "fm_inv debug asize k ps A fm"
    "ps = [] \<Longrightarrow> (8 * 2 ^ k - 1) * asize < 2 ^ 32 \<and> malloc \<noteq> None"
  obtains p fm1 k1 ps1 where
    "(if free_start_index fm = null_index then grow_memory debug malloc fm else take_free fm) = Some (p, fm1)"
    "fm_shape asize k1 fm1" "chain fm1 (free_start_index fm1) ps1" "distinct ps1" "p \<notin> set ps1" "p \<notin> A"
    "set ps1 \<inter> A = {}" "set ps1 \<union> insert p A = slots asize k1" "unat (ai_store_index (word_at p fm1)) = fst p"
    "\<And>q. q \<in> A \<Longrightarrow> word_at q fm1 = word_at q fm"
proof (cases ps)
  case Nil
  from assms(1) have sh: "fm_shape asize k fm" and ch: "free_start_index fm = null_index" and A: "A = slots asize k"
    using Nil by (auto simp: fm_inv_def)
  obtain garbage where g: "malloc = Some garbage" "(8 * 2 ^ k - 1) * asize < 2 ^ 32" using assms(2) Nil by auto
  obtain fm' where fm': "grow_memory debug malloc fm = Some ((k, 0), fm')" "fm_shape asize (Suc k) fm'"
    "chain fm' (free_start_index fm') (map (\<lambda>i. (k, i * asize)) [1..<8 * 2 ^ k])"
    "unat (ai_store_index (word_at (k, 0) fm')) = k" "\<And>q. fst q \<noteq> k \<Longrightarrow> word_at q fm' = word_at q fm"
    using grow_memory_slots [OF sh g(2,1)] by blast
  have pos: "0 < asize" using sh by (simp add: fm_shape_def)
  let ?ps = "map (\<lambda>i. (k, i * asize)) [1..<8 * 2 ^ k]"
  have "distinct ?ps" "(k, 0) \<notin> set ?ps" using pos by (auto simp: distinct_map inj_on_def)
  moreover have notin: "(k, n) \<notin> A" for n by (auto simp: A slots_def)
  moreover have "{0..<8 * 2 ^ k} = insert 0 {1..<8 * 2 ^ k :: nat}" by auto
  then have "set ?ps \<union> insert (k, 0) A = slots asize (Suc k)"
    unfolding A slots_Suc by (simp del: One_nat_def) blast
  moreover have "q \<in> A \<Longrightarrow> word_at q fm' = word_at q fm" for q
    using fm'(5) [of q] by (auto simp: A slots_def)
  ultimately show thesis using fm' ch notin by (intro that [of "(k, 0)" fm' "Suc k" ?ps]) auto
next
  case (Cons p ps')
  from assms(1) have sh: "fm_shape asize k fm" and ch: "chain fm (free_start_index fm) ps"
    and sets: "distinct ps" "set ps \<inter> A = {}" "set ps \<union> A = slots asize k" by (auto simp: fm_inv_def)
  have "free_start_index fm \<noteq> null_index" using chain_null [OF sh _ ch] sets(3) Cons by auto
  moreover obtain fm' where fm': "take_free fm = Some (p, fm')" "fm_shape asize k fm'"
    "chain fm' (free_start_index fm') ps'" "unat (ai_store_index (word_at p fm')) = fst p"
    "\<And>q. q \<noteq> p \<Longrightarrow> word_at q fm' = word_at q fm"
    using take_free_slot [of debug asize k p ps' A fm] assms(1) Cons by blast
  moreover have "p \<notin> A" using sets Cons by auto
  then have "q \<in> A \<Longrightarrow> word_at q fm' = word_at q fm" for q by (intro fm'(5)) auto
  ultimately show thesis using sets Cons by (intro that [of p fm' k ps']) auto
qed

lemma drop_checks: "drop_bit 24 (set_memory_checks w) = drop_bit 24 memory_checks"
  by (rule bit_word_eqI) (auto simp: set_memory_checks_def memory_checks_def bit_simps)

text \<open>\<open>get_memory\<close> hands out a slot that is not in use, and leaves the headers of the used ones.\<close>

lemma get_memory_slot:
  assumes "fm_inv debug asize k ps A fm" "ps = [] \<Longrightarrow> (8 * 2 ^ k - 1) * asize < 2 ^ 32 \<and> malloc \<noteq> None"
  obtains p fm' k' ps' where "get_memory debug malloc fm = Some (p, fm')" "p \<notin> A"
    "fm_inv debug asize k' ps' (insert p A) fm'" "\<And>q. q \<in> A \<Longrightarrow> word_at q fm' = word_at q fm"
proof -
  obtain p fm1 k1 ps1 where fm1:
    "(if free_start_index fm = null_index then grow_memory debug malloc fm else take_free fm) = Some (p, fm1)"
    "fm_shape asize k1 fm1" "chain fm1 (free_start_index fm1) ps1" "distinct ps1" "p \<notin> set ps1" "p \<notin> A"
    "set ps1 \<inter> A = {}" "set ps1 \<union> insert p A = slots asize k1" "unat (ai_store_index (word_at p fm1)) = fst p"
    "\<And>q. q \<in> A \<Longrightarrow> word_at q fm1 = word_at q fm"
    using get_slot [OF assms] by blast
  have p: "p \<in> slots asize k1" using fm1(8) by auto
  have live: "\<forall>q \<in> A. live_header debug q (word_at q fm)" using assms(1) by (simp add: fm_inv_def)
  show thesis
  proof (cases debug)
    case False
    then have "fm_inv debug asize k1 ps1 (insert p A) fm1"
      using fm1 live by (auto simp: fm_inv_def live_header_def)
    then show thesis using fm1 False by (intro that [of p fm1]) (auto simp: get_memory_def)
  next
    case True
    obtain fm2 where fm2: "write_header p (set_memory_checks (word_at p fm1)) fm1 = Some fm2" "fm_shape asize k1 fm2"
      "\<And>q. word_at q fm2 = (if q = p then set_memory_checks (word_at p fm1) else word_at q fm1)"
      "free_start_index fm2 = free_start_index fm1"
      using write_header_slot [OF fm1(2) p] by blast
    have "get_memory debug malloc fm = Some (p, fm2)"
      unfolding get_memory_def fm1(1) using True read_header_slot [OF fm1(2) p] fm2(1) by simp
    moreover have "chain fm2 w ps1 = chain fm1 w ps1" for w
      by (rule chain_cong) (use fm1(5) fm2(3) in auto)
    then have "fm_inv debug asize k1 ps1 (insert p A) fm2"
      using fm1 fm2 live by (auto simp: fm_inv_def live_header_def drop_checks)
    ultimately show thesis using fm1(6,10) fm2(3) by (intro that [of p fm2]) auto
  qed
qed

text \<open>When there is no free slot and no room for a new block, the call does not return normally.\<close>

lemma get_memory_no_room:
  assumes "fm_inv debug asize k [] A fm" "2 ^ 32 \<le> (8 * 2 ^ k - 1) * asize \<or> malloc = None"
  shows "get_memory debug malloc fm = None"
proof -
  have "free_start_index fm = null_index" "fm_shape asize k fm" using assms(1) by (simp_all add: fm_inv_def)
  moreover have "grow_memory debug malloc fm = None"
    using assms(2) grow_memory_endless [OF calculation(2), of debug malloc]
    by (auto simp: grow_memory_def [of debug None] Let_def)
  ultimately show ?thesis by (simp add: get_memory_def)
qed

lemma free_memory_slot:
  assumes "fm_inv debug asize k ps A fm" "p \<in> A"
  obtains fm' where "free_memory debug p fm = Some fm'" "fm_inv debug asize k (p # ps) (A - {p}) fm'"
    "\<And>q. q \<noteq> p \<Longrightarrow> word_at q fm' = word_at q fm"
proof -
  from assms have sh: "fm_shape asize k fm" and ch: "chain fm (free_start_index fm) ps" and p: "p \<in> slots asize k"
    and sets: "distinct ps" "set ps \<inter> A = {}" "set ps \<union> A = slots asize k"
    and live: "\<forall>q \<in> A. live_header debug q (word_at q fm)" by (auto simp: fm_inv_def)
  have b: "snd p < 2 ^ 32" "asize dvd snd p" by (rule slot_bounds [OF sh p]; simp)+
  obtain fm1 where fm1: "write_header p (free_start_index fm) fm = Some fm1" "fm_shape asize k fm1"
    "\<And>q. word_at q fm1 = (if q = p then free_start_index fm else word_at q fm)"
    "free_start_index fm1 = free_start_index fm"
    using write_header_slot [OF sh p] by blast
  let ?w = "word_at p fm" and ?index = "word_of_nat (snd p) :: u64"
  let ?fm = "fm1\<lparr>free_start_index := free_info (ai_store_index ?w) ?index\<rparr>"
  have w: "unat (ai_store_index ?w) = fst p" "debug \<Longrightarrow> drop_bit 24 ?w = drop_bit 24 memory_checks"
    using live assms(2) by (auto simp: live_header_def)
  have "unat ?index = snd p" by (rule u64_small) (rule less_trans [OF b(1)], simp)
  moreover have "unat (fm_alloc_size fm1) = asize" using fm1(2) by (simp add: fm_shape_def)
  ultimately have "unat (?index mod fm_alloc_size fm1) = 0" using b(2) by (simp add: unat_mod)
  then have aligned: "?index mod fm_alloc_size fm1 = 0" by (simp only: unsigned_eq_0_iff)
  have "write_header p (free_start_index fm) fm = Some fm1" by (rule fm1(1))
  moreover have "fm_alloc_size fm1 = fm_alloc_size fm"
    using fm1(1) by (auto simp: write_header_def put_block_def bind_eq_Some_conv split: if_splits)
  ultimately have "free_memory debug p fm = Some ?fm"
    using read_header_slot [OF sh p] w aligned by (auto simp: free_memory_def Let_def)
  moreover have "chain fm1 v ps = chain fm v ps" for v
    by (rule chain_cong) (use sets(2) assms(2) fm1(3) in auto)
  then have "chain ?fm (free_start_index ?fm) (p # ps)"
    using ch fm1(3) chain_cong [of ps ?fm fm1] arg_cong [OF w(1), of "word_of_nat :: nat \<Rightarrow> u8"] by simp
  then have "fm_inv debug asize k (p # ps) (A - {p}) ?fm"
    using fm1(2,3) sets live assms(2) by (auto simp: fm_inv_def)
  ultimately show thesis using fm1(3) by (intro that [of ?fm]) auto
qed

lemma new_fixed_memory_inv:
  assumes "new_fixed_memory (word_of_nat n) = Some fm" "n \<le> 1024"
  shows "fm_inv debug (n + 8) 0 [] {} fm"
proof -
  from assms have "8 \<le> n" by (auto simp: new_fixed_memory_def word_le_nat_alt u64_small split: if_splits)
  with assms have "16 \<le> n + 8" "n + 8 \<le> 1032" "unat (fm_alloc_size fm) = n + 8"
    using u64_small [of "n + 8"] by (auto simp: new_fixed_memory_def header_size_def split: if_splits)
  with assms(1) show ?thesis
    by (auto simp: new_fixed_memory_def fm_inv_def fm_shape_def slots_def max_store_def min_capacity_def split: if_splits)
qed

subsection \<open>What a client sees\<close>

text \<open>
  A client holds the list of the pointers it got and gives back the \<open>i\<close>-th of them.
\<close>

datatype 'r memory_call = Get 'r | Release nat

fun client_run ::
    "('r \<Rightarrow> 's \<Rightarrow> ('p \<times> 's) option) \<Rightarrow> ('p \<Rightarrow> 's \<Rightarrow> 's option) \<Rightarrow> 'r memory_call list \<Rightarrow>
     'p list \<times> 's \<Rightarrow> ('p list \<times> 's) option" where
  "client_run get release [] hs = Some hs"
| "client_run get release (Get r # calls) (held, s) =
     do { (p, s') \<leftarrow> get r s; client_run get release calls (p # held, s') }"
| "client_run get release (Release i # calls) (held, s) =
     (if i < length held then
        do { s' \<leftarrow> release (held ! i) s; client_run get release calls (take i held @ drop (Suc i) held, s') }
      else None)"

text \<open>
  The contract of an allocator: \<open>inv A s\<close> says that \<open>A\<close> is in use.  What it hands out was not in use, and
  what is in use can be given back.
\<close>

locale allocator =
  fixes get :: "'r \<Rightarrow> 's \<Rightarrow> ('p \<times> 's) option"
    and release :: "'p \<Rightarrow> 's \<Rightarrow> 's option"
    and inv :: "'p set \<Rightarrow> 's \<Rightarrow> bool"
  assumes get_fresh: "inv A s \<Longrightarrow> get r s = Some (p, s') \<Longrightarrow> p \<notin> A \<and> inv (insert p A) s'"
    and release_used: "inv A s \<Longrightarrow> p \<in> A \<Longrightarrow> \<exists>s'. release p s = Some s' \<and> inv (A - {p}) s'"
begin

lemma run_held:
  "client_run get release calls (held, s) = Some (held', s') \<Longrightarrow> inv (set held) s \<Longrightarrow> distinct held \<Longrightarrow>
   distinct held' \<and> inv (set held') s'"
proof (induction calls arbitrary: held s)
  case (Cons c calls)
  show ?case
  proof (cases c)
    case (Get r)
    with Cons.prems(1) obtain p s1 where g: "get r s = Some (p, s1)"
      "client_run get release calls (p # held, s1) = Some (held', s')" by (auto simp: bind_eq_Some_conv)
    from get_fresh [OF Cons.prems(2) g(1)] Cons.prems(3) show ?thesis by (intro Cons.IH [OF g(2)]) auto
  next
    case (Release i)
    with Cons.prems(1) obtain s1 where r: "i < length held" "release (held ! i) s = Some s1"
      "client_run get release calls (take i held @ drop (Suc i) held, s1) = Some (held', s')"
      by (auto simp: bind_eq_Some_conv split: if_splits)
    have held: "held = take i held @ held ! i # drop (Suc i) held" using r(1) by (rule id_take_nth_drop)
    then have d: "distinct (take i held @ held ! i # drop (Suc i) held)" using Cons.prems(3) by simp
    then have "set (take i held @ drop (Suc i) held) = set held - {held ! i}"
      by (subst (3) held) auto
    moreover have "inv (set held - {held ! i}) s1"
      using release_used [OF Cons.prems(2), of "held ! i"] r(1,2) by auto
    ultimately show ?thesis using d by (intro Cons.IH [OF r(3)]) auto
  qed
qed simp

text \<open>A call that gives back what is held never fails.\<close>

lemma release_held:
  "client_run get release calls (held, s) = Some (held', s') \<Longrightarrow> inv (set held) s \<Longrightarrow> distinct held \<Longrightarrow>
   i < length held' \<Longrightarrow> \<exists>s''. release (held' ! i) s' = Some s''"
  using run_held release_used by (metis nth_mem)

end

definition fm_used :: "bool \<Rightarrow> nat \<Rightarrow> pointer set \<Rightarrow> fixed_memory \<Rightarrow> bool" where
  "fm_used debug asize A fm \<longleftrightarrow> (\<exists>k ps. fm_inv debug asize k ps A fm)"

lemma get_memory_used:
  assumes "fm_used debug asize A fm" "get_memory debug malloc fm = Some (p, fm')"
  shows "p \<notin> A \<and> fm_used debug asize (insert p A) fm' \<and> (\<forall>q \<in> A. word_at q fm' = word_at q fm)"
proof -
  obtain k ps where inv: "fm_inv debug asize k ps A fm" using assms(1) by (auto simp: fm_used_def)
  have "ps = [] \<Longrightarrow> (8 * 2 ^ k - 1) * asize < 2 ^ 32 \<and> malloc \<noteq> None"
    using get_memory_no_room [of debug asize k A fm malloc] inv assms(2) by force
  from get_memory_slot [OF inv this] assms(2) show ?thesis unfolding fm_used_def by (metis option.inject prod.inject)
qed

lemma free_memory_used:
  assumes "fm_used debug asize A fm" "p \<in> A"
  shows "\<exists>fm'. free_memory debug p fm = Some fm' \<and> fm_used debug asize (A - {p}) fm' \<and>
    (\<forall>q. q \<noteq> p \<longrightarrow> word_at q fm' = word_at q fm)"
proof -
  obtain k ps where "fm_inv debug asize k ps A fm" using assms(1) by (auto simp: fm_used_def)
  from free_memory_slot [OF this assms(2)] show ?thesis unfolding fm_used_def by metis
qed

interpretation fixed: allocator "get_memory debug" "free_memory debug" "fm_used debug asize"
  by unfold_locales (use get_memory_used free_memory_used in blast)+

end
