(* ===== verification/MemoryAlloc.thy ===== *)
theory MemoryAlloc
  imports FixedMemory
begin

text \<open>
  The class \<open>memory\<close> of serverlib/include/iot/core/memory.hh: 128 allocators of fixed size for the sizes
  from 8 to 1024 bytes, chosen by the size of a request, and by the size kept in the header when a
  pointer comes back.  A pointer is the index of the allocator, of its block and an offset; the
  client's pointer is behind the header.
\<close>

unbundle bit_operations_syntax

definition max_allocation_size :: nat where
  "max_allocation_size = 1024"

definition max_chunk :: nat where
  "max_chunk = max_allocation_size div 8"

type_synonym mem_array = "fixed_memory list"
type_synonym mem_pointer = "nat \<times> nat \<times> nat"

definition new_memory :: "mem_array option" where
  "new_memory = those (map (\<lambda>i. new_fixed_memory (word_of_nat (8 * i))) [1..<Suc max_chunk])"

text \<open>The conversions are those of the code: the index is a \<open>size_t\<close>, the size in the header has 16 bits.\<close>

definition memory_get :: "bool \<Rightarrow> (nat \<Rightarrow> u64) option \<Rightarrow> u64 \<Rightarrow> mem_array \<Rightarrow> (mem_pointer \<times> mem_array) option" where
  "memory_get debug malloc alloc_size mem =
     (let chunk_index = unat (drop_bit 3 alloc_size - 1) in
      do { memstore \<leftarrow> load mem chunk_index;
           if debug \<and> fm_alloc_size memstore \<noteq> alloc_size + of_nat header_size then None
           else do {
             (memptr, ms1) \<leftarrow> get_memory debug malloc memstore;
             w \<leftarrow> read_header memptr ms1;
             ms2 \<leftarrow> write_header memptr (set_alloc_size (ucast alloc_size) w) ms1;
             Some ((chunk_index, fst memptr, snd memptr + header_size), mem[chunk_index := ms2]) } })"

definition memory_alloc :: "bool \<Rightarrow> (nat \<Rightarrow> u64) option \<Rightarrow> u64 \<Rightarrow> mem_array \<Rightarrow> (mem_pointer \<times> mem_array) option" where
  "memory_alloc debug malloc alloc_size = memory_get debug malloc ((alloc_size + 7) AND NOT 7)"

text \<open>
  \<open>free\<close> reads the size in front of the value.  When it leads to another allocator than the one the
  pointer came from, the difference of the pointers there is undefined.
\<close>

definition memory_free :: "bool \<Rightarrow> mem_pointer \<Rightarrow> mem_array \<Rightarrow> mem_array option" where
  "memory_free debug p mem =
     (let (c, s, off) = p in
      if off < header_size then None
      else do { ms \<leftarrow> load mem c;
                w \<leftarrow> read_header (s, off - header_size) ms;
                if unat (drop_bit 3 (ucast (ai_alloc_size w)) - 1 :: u64) = c then
                  do { ms' \<leftarrow> free_memory debug (s, off - header_size) ms; Some (mem[c := ms']) }
                else None })"

definition memory_free_debug :: "bool \<Rightarrow> mem_pointer \<Rightarrow> u64 \<Rightarrow> mem_array \<Rightarrow> mem_array option" where
  "memory_free_debug debug p alloc_size mem =
     (let (c, s, off) = p in
      if off < header_size then None
      else do { ms \<leftarrow> load mem c;
                w \<leftarrow> read_header (s, off - header_size) ms;
                if (alloc_size + 7) AND NOT 7 = ucast (ai_alloc_size w) then memory_free debug p mem else None })"

subsection \<open>Sizes and indices\<close>

lemma unat_drop_bit_3: "unat (drop_bit 3 (a :: u64)) = unat a div 8"
  using unat_drop_bit_eq [of 3 a] by (simp only: drop_bit_eq_div) simp
lemma and_not_mask3: "x AND NOT (mask 3) = push_bit 3 (drop_bit 3 x)" for x :: "u64"
  by (rule bit_word_eqI) (auto simp: bit_simps)
lemma unat_round_up: "unat (x AND NOT 7 :: u64) = unat x div 8 * 8"
proof -
  have m: "(mask 3 :: u64) = 7" by (simp add: mask_eq_exp_minus_1)
  have "x AND NOT 7 = push_bit 3 (drop_bit 3 x)" by (rule and_not_mask3 [of x, unfolded m])
  moreover have "unat x div 8 * 8 < 2 ^ 64" 
    using le_less_trans [OF div_times_less_eq_dividend unsigned_less [of x, where 'a = nat], of 8] by simp
  moreover have "unat (push_bit 3 (drop_bit 3 x)) = take_bit LENGTH(64) (push_bit 3 (unat x div 8))"
    by (simp only: unsigned_push_bit_eq unat_drop_bit_3)
  ultimately show ?thesis by (simp only: push_bit_eq_mult) (simp add: take_bit_nat_eq_self)
qed
lemma chunk_of_size: "unat (a :: u64) = 8 * Suc c \<Longrightarrow> unat (drop_bit 3 a - 1) = c"
proof -
  assume "unat a = 8 * Suc c"
  then have d: "unat (drop_bit 3 a) = Suc c" by (simp add: unat_drop_bit_3)
  then have "1 \<le> drop_bit 3 a" by (simp add: word_le_nat_alt)
  with d show ?thesis by (simp add: unat_sub)
qed

lemma size_of_chunk:
  assumes "8 dvd unat (a :: u64)" "unat (drop_bit 3 a - 1) < max_chunk"
  shows "unat a = 8 * Suc (unat (drop_bit 3 a - 1))"
proof (cases "drop_bit 3 a = 0")
  case True
  then have "unat (drop_bit 3 a - 1) = 2 ^ 64 - 1" by (simp add: unsigned_minus_1_eq_mask mask_eq_exp_minus_1)
  with assms(2) show ?thesis by (simp add: max_chunk_def max_allocation_size_def)
next
  case False
  then have "unat (drop_bit 3 a - 1) = unat a div 8 - 1" "unat a div 8 \<noteq> 0"
    by (simp_all only: unat_minus_one unat_drop_bit_3 [symmetric] unsigned_eq_0_iff not_False_eq_True)
  with assms(1) show ?thesis by auto
qed

lemma those_nth: "those xs = Some ys \<Longrightarrow> length ys = length xs \<and> (\<forall>i < length xs. xs ! i = Some (ys ! i))"
  by (induction xs arbitrary: ys) (auto split: option.splits simp: nth_Cons')

subsection \<open>The invariant\<close>

definition chunk_slots :: "nat \<Rightarrow> mem_pointer set \<Rightarrow> pointer set" where
  "chunk_slots c A = {(s, off). (c, s, off + header_size) \<in> A}"

definition mem_used :: "bool \<Rightarrow> mem_pointer set \<Rightarrow> mem_array \<Rightarrow> bool" where
  "mem_used debug A mem \<longleftrightarrow>
     length mem = max_chunk \<and> (\<forall>(c, s, off) \<in> A. c < max_chunk \<and> header_size \<le> off) \<and>
     (\<forall>c < max_chunk. fm_used debug (8 * Suc c + 8) (chunk_slots c A) (mem ! c) \<and>
        (\<forall>p \<in> chunk_slots c A. unat (ai_alloc_size (word_at p (mem ! c))) = 8 * Suc c))"

lemma new_memory_used:
  assumes "new_memory = Some mem"
  shows "mem_used debug {} mem"
proof -
  have mem: "length mem = max_chunk" "\<And>c. c < max_chunk \<Longrightarrow> new_fixed_memory (word_of_nat (8 * Suc c)) = Some (mem ! c)"
    using those_nth [OF assms [unfolded new_memory_def]] by (auto simp del: upt_Suc simp: nth_upt)
  have "fm_used debug (8 * Suc c + 8) {} (mem ! c)" if c: "c < max_chunk" for c
  proof -
    have "8 * Suc c \<le> 1024" using c by (simp add: max_chunk_def max_allocation_size_def)
    from new_fixed_memory_inv [OF mem(2) [OF c] this] show ?thesis unfolding fm_used_def by blast
  qed
  with mem(1) show ?thesis by (simp add: mem_used_def chunk_slots_def)
qed

lemma live_header_set_alloc_size [simp]: "live_header debug p (set_alloc_size v w) = live_header debug p w"
proof -
  have "drop_bit 24 (set_alloc_size v w) = drop_bit 24 w"
    by (rule bit_word_eqI) (auto simp: set_alloc_size_def bit_simps dest: bit_imp_le_length)
  then show ?thesis by (simp add: live_header_def)
qed

text \<open>Writing the size into the header of a used slot.\<close>

lemma set_size_used:
  assumes "fm_used debug asize B fm" "p \<in> B"
  shows "\<exists>fm'. read_header p fm = Some (word_at p fm) \<and>
    write_header p (set_alloc_size v (word_at p fm)) fm = Some fm' \<and> fm_used debug asize B fm' \<and>
    (\<forall>q. word_at q fm' = (if q = p then set_alloc_size v (word_at p fm) else word_at q fm))"
proof -
  obtain k ps where inv: "fm_inv debug asize k ps B fm" using assms(1) by (auto simp: fm_used_def)
  then have sh: "fm_shape asize k fm" and p: "p \<in> slots asize k" and ps: "p \<notin> set ps"
    and ch: "chain fm (free_start_index fm) ps" using assms(2) by (auto simp: fm_inv_def)
  obtain fm' where fm': "write_header p (set_alloc_size v (word_at p fm)) fm = Some fm'" "fm_shape asize k fm'"
    "\<And>q. word_at q fm' = (if q = p then set_alloc_size v (word_at p fm) else word_at q fm)"
    "free_start_index fm' = free_start_index fm"
    using write_header_slot [OF sh p] by blast
  have "chain fm' w ps = chain fm w ps" for w by (rule chain_cong) (use ps fm'(3) in auto)
  with inv fm' ch have "fm_inv debug asize k ps B fm'" by (auto simp: fm_inv_def)
  with fm' read_header_slot [OF sh p] show ?thesis by (auto simp: fm_used_def)
qed

lemma memory_get_used:
  assumes "mem_used debug A mem" "memory_get debug malloc alloc_size mem = Some (p, mem')"
    "8 dvd unat alloc_size"
  shows "p \<notin> A \<and> mem_used debug (insert p A) mem'"
proof -
  define c where "c = unat (drop_bit 3 alloc_size - 1)"
  from assms(2) obtain q ms1 ms2 w where g: "c < length mem" "get_memory debug malloc (mem ! c) = Some (q, ms1)"
    "read_header q ms1 = Some w" "write_header q (set_alloc_size (ucast alloc_size) w) ms1 = Some ms2"
    "p = (c, fst q, snd q + header_size)" "mem' = mem[c := ms2]"
    by (auto simp: memory_get_def Let_def c_def load_Some_iff bind_eq_Some_conv split: if_splits)
  have c: "c < max_chunk" and used: "fm_used debug (8 * Suc c + 8) (chunk_slots c A) (mem ! c)"
    using assms(1) g(1) by (auto simp: mem_used_def)
  from get_memory_used [OF used g(2)] have q: "q \<notin> chunk_slots c A"
    "fm_used debug (8 * Suc c + 8) (insert q (chunk_slots c A)) ms1"
    "\<forall>q' \<in> chunk_slots c A. word_at q' ms1 = word_at q' (mem ! c)" by auto
  have ms2: "fm_used debug (8 * Suc c + 8) (insert q (chunk_slots c A)) ms2"
    "\<And>q'. word_at q' ms2 = (if q' = q then set_alloc_size (ucast alloc_size) w else word_at q' ms1)"
    using set_size_used [OF q(2), of q "ucast alloc_size"] g(3,4) by auto
  have slots: "chunk_slots c (insert p A) = insert q (chunk_slots c A)"
    "c' \<noteq> c \<Longrightarrow> chunk_slots c' (insert p A) = chunk_slots c' A" for c'
    by (auto simp: chunk_slots_def g(5))
  have "unat alloc_size = 8 * Suc c" using size_of_chunk [OF assms(3)] c by (simp add: c_def)
  then have "unat (ucast alloc_size :: u16) = 8 * Suc c"
    using c by (simp add: unsigned_ucast_eq take_bit_nat_eq_self max_chunk_def max_allocation_size_def)
  then have "mem_used debug (insert p A) mem'"
    using assms(1) c q ms2 slots
    unfolding mem_used_def g(6) by (auto simp: nth_list_update g(5))
  moreover have "p \<notin> A" using q(1) by (auto simp: chunk_slots_def g(5))
  ultimately show ?thesis by simp
qed

lemma memory_free_used:
  assumes "mem_used debug A mem" "p \<in> A"
  shows "\<exists>mem'. memory_free debug p mem = Some mem' \<and> mem_used debug (A - {p}) mem'"
proof -
  obtain c s off where p: "p = (c, s, off)" by (cases p)
  have c: "c < max_chunk" "header_size \<le> off" "length mem = max_chunk"
    "fm_used debug (8 * Suc c + 8) (chunk_slots c A) (mem ! c)"
    using assms by (auto simp: mem_used_def p)
  let ?q = "(s, off - header_size)"
  have q: "?q \<in> chunk_slots c A" using assms(2) c(2) by (simp add: chunk_slots_def p)
  obtain ms' where ms': "free_memory debug ?q (mem ! c) = Some ms'" "fm_used debug (8 * Suc c + 8) (chunk_slots c A - {?q}) ms'"
    "\<forall>q. q \<noteq> ?q \<longrightarrow> word_at q ms' = word_at q (mem ! c)"
    using free_memory_used [OF c(4) q] by blast
  have r: "read_header ?q (mem ! c) = Some (word_at ?q (mem ! c))" using set_size_used [OF c(4) q] by blast
  have "unat (ai_alloc_size (word_at ?q (mem ! c))) = 8 * Suc c" using assms(1) c(1) q by (simp add: mem_used_def)
  then have "unat (drop_bit 3 (ucast (ai_alloc_size (word_at ?q (mem ! c)))) - 1 :: u64) = c"
    using c(1) by (intro chunk_of_size)
      (simp add: unsigned_ucast_eq take_bit_nat_eq_self max_chunk_def max_allocation_size_def)
  then have "memory_free debug p mem = Some (mem[c := ms'])"
    using c ms'(1) r by (simp add: memory_free_def p load_def)
  moreover have "chunk_slots c (A - {p}) = chunk_slots c A - {?q}" "c' \<noteq> c \<Longrightarrow> chunk_slots c' (A - {p}) = chunk_slots c' A" for c'
    using c(2) by (auto simp: chunk_slots_def p)
  then have "mem_used debug (A - {p}) (mem[c := ms'])"
    using assms(1) c ms' unfolding mem_used_def by (auto simp: nth_list_update)
  ultimately show ?thesis by simp
qed

lemma memory_alloc_used:
  "mem_used debug A mem \<Longrightarrow> memory_alloc debug malloc n mem = Some (p, mem') \<Longrightarrow> p \<notin> A \<and> mem_used debug (insert p A) mem'"
  by (rule memory_get_used [where alloc_size = "(n + 7) AND NOT 7"])
    (simp_all only: memory_alloc_def unat_round_up dvd_triv_right)

interpretation memory: allocator "\<lambda>(malloc, n). memory_alloc debug malloc n" "memory_free debug" "mem_used debug"
  by unfold_locales (auto dest: memory_alloc_used intro: memory_free_used)

subsection \<open>Properties\<close>

text \<open>The memory of a pointer: its block and the bytes behind the header.\<close>

definition in_block :: "mem_array \<Rightarrow> mem_pointer \<Rightarrow> bool" where
  "in_block mem p = (let (c, s, off) = p in
     case get_block s (mem ! c) of Some bl \<Rightarrow> off + 8 * Suc c \<le> bl_size bl | None \<Rightarrow> False)"

definition separate :: "mem_pointer \<Rightarrow> mem_pointer \<Rightarrow> bool" where
  "separate p q = (let (c, s, off) = p; (c', s', off') = q in
     c \<noteq> c' \<or> s \<noteq> s' \<or> off + 8 * Suc c \<le> off' \<or> off' + 8 * Suc c \<le> off)"

lemma used_slot:
  assumes "mem_used debug A mem" "(c, s, off) \<in> A"
  obtains i k bl where "c < max_chunk" "off = i * (8 * Suc c + 8) + header_size" "i < 8 * 2 ^ s"
    "get_block s (mem ! c) = Some bl" "bl_size bl = 8 * 2 ^ s * (8 * Suc c + 8)"
proof -
  from assms have c: "c < max_chunk" "header_size \<le> off" "fm_used debug (8 * Suc c + 8) (chunk_slots c A) (mem ! c)"
    by (auto simp: mem_used_def)
  then obtain k ps where inv: "fm_inv debug (8 * Suc c + 8) k ps (chunk_slots c A) (mem ! c)" by (auto simp: fm_used_def)
  have "(s, off - header_size) \<in> chunk_slots c A" using assms(2) c(2) by (simp add: chunk_slots_def)
  with inv have slot: "fm_shape (8 * Suc c + 8) k (mem ! c)" "(s, off - header_size) \<in> slots (8 * Suc c + 8) k"
    by (auto simp: fm_inv_def)
  then obtain i where "off - header_size = i * (8 * Suc c + 8)" "i < 8 * 2 ^ s"
    unfolding slots_def by blast
  with c(2) have i: "off = i * (8 * Suc c + 8) + header_size" "i < 8 * 2 ^ s" by linarith+
  obtain f where "s < max_store" "store_block (mem ! c) ! s = Some \<lparr>bl_size = 8 * 2 ^ s * (8 * Suc c + 8), bl_word = f\<rparr>"
    by (rule slot_bounds [OF slot]) auto
  moreover have "length (store_block (mem ! c)) = max_store" using slot(1) by (simp add: fm_shape_def)
  ultimately show thesis using c i by (intro that) (auto simp: get_block_def load_def)
qed

lemma used_in_block: "mem_used debug A mem \<Longrightarrow> p \<in> A \<Longrightarrow> in_block mem p"
proof -
  assume a: "mem_used debug A mem" "p \<in> A"
  obtain c s off where p: "p = (c, s, off)" by (cases p)
  obtain i bl where i: "off = i * (8 * Suc c + 8) + header_size" "i < 8 * 2 ^ s" "get_block s (mem ! c) = Some bl"
    "bl_size bl = 8 * 2 ^ s * (8 * Suc c + 8)"
    using used_slot [OF a(1) a(2) [unfolded p]] by blast
  have "Suc i * (8 * Suc c + 8) \<le> 8 * 2 ^ s * (8 * Suc c + 8)" using i(2) by (intro mult_le_mono1) simp
  then show ?thesis using i by (simp add: in_block_def p header_size_def)
qed

lemma used_separate:
  assumes "mem_used debug A mem" "p \<in> A" "q \<in> A" "p \<noteq> q"
  shows "separate p q"
proof -
  obtain c s off c' s' off' where p: "p = (c, s, off)" "q = (c', s', off')" by (cases p, cases q)
  show ?thesis
  proof (cases "c = c' \<and> s = s'")
    case True
    obtain i j where i: "off = i * (8 * Suc c + 8) + header_size" "off' = j * (8 * Suc c + 8) + header_size"
      using used_slot [OF assms(1) assms(2) [unfolded p]] used_slot [OF assms(1) assms(3) [unfolded p]] True
      by metis
    with assms(4) p True have "i < j \<or> j < i" by auto
    then have "Suc i * (8 * Suc c + 8) \<le> j * (8 * Suc c + 8) \<or> Suc j * (8 * Suc c + 8) \<le> i * (8 * Suc c + 8)"
      by (metis Suc_leI mult_le_mono1)
    then show ?thesis using i by (auto simp: separate_def p)
  qed (auto simp: separate_def p)
qed

text \<open>
  C9: After any sequence of allocations and releases of what was allocated, by a client of the
  allocator of the program, the blocks the client holds are distinct, each lies with all its
  bytes inside the memory of one \<open>malloc\<close>, no two of them overlap, and each can be released.
\<close>

theorem held_blocks_separate:
  assumes "new_memory = Some mem"
    "client_run (\<lambda>(malloc, n). memory_alloc debug malloc n) (memory_free debug) calls ([], mem) = Some (held, mem')"
  shows "distinct held \<and> list_all (in_block mem') held \<and> pairwise separate (set held) \<and>
    list_all (\<lambda>p. memory_free debug p mem' \<noteq> None) held"
proof -
  have "distinct held" and u: "mem_used debug (set held) mem'"
    using memory.run_held [OF assms(2)] new_memory_used [OF assms(1)] by auto
  moreover have "memory_free debug p mem' \<noteq> None" if "p \<in> set held" for p
    using memory_free_used [OF u that] by auto
  ultimately show ?thesis
    using used_in_block [OF u] used_separate [OF u] by (simp add: list_all_iff pairwise_def)
qed

text \<open>How many slots there are, and so how many blocks are held when a new block is needed.\<close>

lemma slots_0: "slots asize 0 = {}"
  by (simp add: slots_def)

lemma card_slots: "0 < asize \<Longrightarrow> finite (slots asize k) \<and> card (slots asize k) = 8 * (2 ^ k - 1)"
proof (induction k)
  case (Suc k)
  let ?new = "(\<lambda>i. (k, i * asize)) ` {0..<8 * 2 ^ k}"
  have "card ?new = 8 * 2 ^ k" using Suc.prems by (subst card_image) (auto simp: inj_on_def)
  moreover have "slots asize k \<inter> ?new = {}" by (auto simp: slots_def)
  ultimately show ?case using Suc by (simp add: slots_Suc card_Un_disjoint)
qed (simp add: slots_0)

lemma growth_fits:
  assumes "fm_inv debug asize k [] A fm" "card A < 2 ^ 21 - 8"
  shows "(8 * 2 ^ k - 1) * asize < 2 ^ 32"
proof -
  from assms(1) have a: "16 \<le> asize" "asize \<le> 1032" "A = slots asize k" by (auto simp: fm_inv_def fm_shape_def)
  define n where "n = (2 :: nat) ^ k"
  have "8 * (n - 1) < 2 ^ 21 - 8" using assms(2) card_slots [of asize k] a by (simp add: n_def)
  then have "n < 2 ^ 18" by simp
  then have "8 * n - 1 \<le> 8 * 2 ^ 18" by simp
  then have "(8 * n - 1) * asize \<le> (8 * 2 ^ 18) * 1032" using a(2) by (intro mult_le_mono)
  then show ?thesis unfolding n_def by (rule le_less_trans) simp
qed

lemma chunk_of_round_up:
  assumes "1 \<le> n" "n \<le> max_allocation_size"
  defines "a \<equiv> (word_of_nat n + 7) AND NOT 7 :: u64"
  shows "unat (drop_bit 3 a - 1) = (n - 1) div 8" "unat a = 8 * Suc ((n - 1) div 8)"
proof -
  have "unat (word_of_nat n + 7 :: u64) = n + 7"
    using assms(2) u64_small [of "n + 7"] by (simp add: max_allocation_size_def)
  then have "unat a = (n + 7) div 8 * 8" by (simp only: a_def unat_round_up)
  moreover have "(n + 7) div 8 = Suc ((n - 1) div 8)" using assms(1) by simp
  ultimately show u: "unat a = 8 * Suc ((n - 1) div 8)" by simp
  then show "unat (drop_bit 3 a - 1) = (n - 1) div 8" by (rule chunk_of_size)
qed

lemma alloc_returns:
  assumes "mem_used debug A mem" "1 \<le> n" "n \<le> max_allocation_size" "finite A" "card A < 2 ^ 21 - 8"
  shows "\<exists>s off mem'. memory_alloc debug (Some garbage) (word_of_nat n) mem = Some (((n - 1) div 8, s, off), mem')"
proof -
  let ?c = "(n - 1) div 8"
  let ?a = "(word_of_nat n + 7) AND NOT 7 :: u64"
  note chunk = chunk_of_round_up [OF assms(2,3)]
  have c: "?c < max_chunk" using assms(2,3) by (simp add: max_chunk_def max_allocation_size_def)
  have inj: "inj_on (\<lambda>(s, off). (?c, s, off + header_size)) (chunk_slots ?c A)" by (auto simp: inj_on_def)
  have "(\<lambda>(s, off). (?c, s, off + header_size)) ` chunk_slots ?c A \<subseteq> A" by (auto simp: chunk_slots_def)
  then have few: "card (chunk_slots ?c A) < 2 ^ 21 - 8"
    using card_inj_on_le [OF inj _ assms(4)] assms(5) by (meson le_less_trans)
  have used: "fm_used debug (8 * Suc ?c + 8) (chunk_slots ?c A) (mem ! ?c)"
    using assms(1) c by (simp add: mem_used_def)
  then obtain k ps where inv: "fm_inv debug (8 * Suc ?c + 8) k ps (chunk_slots ?c A) (mem ! ?c)"
    by (auto simp: fm_used_def)
  obtain p fm' where p: "get_memory debug (Some garbage) (mem ! ?c) = Some (p, fm')"
    by (rule get_memory_slot [OF inv, of "Some garbage"])
      (use growth_fits [of debug "8 * Suc ?c + 8" k "chunk_slots ?c A" "mem ! ?c"] inv few in auto)
  have q: "fm_used debug (8 * Suc ?c + 8) (insert p (chunk_slots ?c A)) fm'"
    using get_memory_used [OF used p] by simp
  obtain fm2 where w: "read_header p fm' = Some (word_at p fm')"
    "write_header p (set_alloc_size (ucast ?a) (word_at p fm')) fm' = Some fm2"
    using set_size_used [OF q, of p "ucast ?a"] by blast
  have "fm_alloc_size (mem ! ?c) = ?a + of_nat header_size"
  proof -
    have "fm_alloc_size (mem ! ?c) = word_of_nat (8 * Suc ?c + 8)"
    proof -
      have "unat (fm_alloc_size (mem ! ?c)) = 8 * Suc ?c + 8" using inv by (simp add: fm_inv_def fm_shape_def)
      from arg_cong [OF this, of "word_of_nat :: nat \<Rightarrow> u64"] show ?thesis by simp
    qed
    moreover have "?a = word_of_nat (8 * Suc ?c)" using arg_cong [OF chunk(2), of "word_of_nat :: nat \<Rightarrow> u64"] by simp
    ultimately show ?thesis by (simp add: header_size_def)
  qed
  moreover have "length mem = max_chunk" using assms(1) by (simp add: mem_used_def)
  ultimately show ?thesis
    using c p w unfolding memory_alloc_def memory_get_def Let_def chunk(1) by (simp add: load_def)
qed

text \<open>
  C23: A client that made any calls and holds fewer than 2,097,144 blocks gets a block for every size
  from 1 to 1024 bytes when \<open>malloc\<close> has memory: the call returns, with a pointer to a block of the
  least multiple of eight bytes that is enough.
\<close>

theorem memory_alloc_returns:
  assumes "new_memory = Some mem"
    "client_run (\<lambda>(malloc, n). memory_alloc debug malloc n) (memory_free debug) calls ([], mem) = Some (held, mem')"
    "length held < 2 ^ 21 - 8" "1 \<le> n" "n \<le> max_allocation_size"
  shows "\<exists>s off mem''. memory_alloc debug (Some garbage) (word_of_nat n) mem' = Some (((n - 1) div 8, s, off), mem'')"
proof -
  have "distinct held" and u: "mem_used debug (set held) mem'"
    using memory.run_held [OF assms(2)] new_memory_used [OF assms(1)] by auto
  then show ?thesis using alloc_returns [OF u assms(4,5)] assms(3) by (simp add: distinct_card)
qed

subsection \<open>Instances\<close>

abbreviation sample_calls :: "((nat \<Rightarrow> u64) option \<times> u64) memory_call list" where
  "sample_calls \<equiv> [Get (Some (\<lambda>_. 7), 10), Get (Some (\<lambda>_. 7), 8), Get (Some (\<lambda>_. 7), 9), Release 2,
     Get (Some (\<lambda>_. 7), 16)]"

lemma sample_run:
  "case new_memory of
     Some mem \<Rightarrow>
       (case client_run (\<lambda>(malloc, n). memory_alloc True malloc n) (memory_free True) sample_calls ([], mem) of
          Some (held, mem') \<Rightarrow> held = [(1, 0, 8), (1, 0, 32), (0, 0, 8)] | None \<Rightarrow> False)
   | None \<Rightarrow> False"
  by code_simp

theorem held_blocks_separate_witness:
  "\<exists>mem mem'. new_memory = Some mem \<and>
     client_run (\<lambda>(malloc, n). memory_alloc True malloc n) (memory_free True) sample_calls ([], mem) =
       Some ([(1, 0, 8), (1, 0, 32), (0, 0, 8)], mem') \<and>
     pairwise separate {(1, 0, 8), (1, 0, 32), (0, 0, 8)} \<and> in_block mem' (1, 0, 32)"
proof -
  obtain mem mem' where m: "new_memory = Some mem"
    "client_run (\<lambda>(malloc, n). memory_alloc True malloc n) (memory_free True) sample_calls ([], mem) =
       Some ([(1, 0, 8), (1, 0, 32), (0, 0, 8)], mem')"
    using sample_run by (auto split: option.splits)
  from held_blocks_separate [OF m] m show ?thesis by auto
qed

theorem memory_alloc_returns_witness:
  "\<exists>mem mem' p mem''. new_memory = Some mem \<and>
     client_run (\<lambda>(malloc, n). memory_alloc True malloc n) (memory_free True) sample_calls ([], mem) =
       Some ([(1, 0, 8), (1, 0, 32), (0, 0, 8)], mem') \<and>
     memory_alloc True (Some (\<lambda>_. 0)) (word_of_nat 1024) mem' = Some ((127, p), mem'')"
proof -
  obtain mem mem' where m: "new_memory = Some mem"
    "client_run (\<lambda>(malloc, n). memory_alloc True malloc n) (memory_free True) sample_calls ([], mem) =
       Some ([(1, 0, 8), (1, 0, 32), (0, 0, 8)], mem')"
    using sample_run by (auto split: option.splits)
  from memory_alloc_returns [OF m, of 1024 "\<lambda>_. 0"] m show ?thesis
    by (auto simp: max_allocation_size_def)
qed

text \<open>A request of 0 bytes, and one of more than 1024, index outside the array of the allocators.\<close>

lemma alloc_zero: "length mem = max_chunk \<Longrightarrow> memory_alloc debug malloc 0 mem = None"
  by (simp add: memory_alloc_def memory_get_def Let_def load_def max_chunk_def max_allocation_size_def
      unsigned_minus_1_eq_mask mask_eq_exp_minus_1)

lemma alloc_too_large: "length mem = max_chunk \<Longrightarrow> memory_alloc debug malloc 1025 mem = None"
  by (simp add: memory_alloc_def memory_get_def Let_def load_def max_chunk_def max_allocation_size_def)

end
