(* ===== verification/ServerConfig.thy ===== *)
theory ServerConfig
  imports CommandLine LogTable
begin

text \<open>
  serverconfig/serverconfig.cc, serverlib/include/iot/config/message.hh and the configuration thread of
  deviceserver/deviceserver.cc: a tool that turns a text such as \<open>SOCKET:DEBUG,all:ERROR\<close> into a message,
  and the thread of the server that applies the message to the table of log levels.

  The message queue delivers a message as it was sent.  A signed overflow and an access outside an
  array are \<open>None\<close>, the exception of the tool is \<open>Inl\<close> with its text.  The log calls are left out.
\<close>

subsection \<open>The text of the tool\<close>

text \<open>
  \<open>GetNumber\<close>: -1 when the text is no number.  The comparisons exclude the digits 0 and 9.  The sum is
  made from left to right in \<open>int\<close>.
\<close>

fun get_number_loop :: "int \<Rightarrow> string \<Rightarrow> int option" where
  "get_number_loop ret [] = Some ret"
| "get_number_loop ret (c # str) =
     (if c \<notin> set ''12345678'' then Some (- 1)
      else do { t1 \<leftarrow> store_signed 32 (ret * 10);
                t2 \<leftarrow> store_signed 32 (t1 + of_char c);
                get_number_loop (t2 - of_char CHR ''0'') str })"

definition GetNumber :: "string \<Rightarrow> int option" where
  "GetNumber str = (if str = [] then Some (- 1) else get_number_loop 0 str)"

text \<open>\<open>std::views::split\<close>: no piece for an empty text, otherwise one more than there are delimiters.\<close>

fun pieces :: "char \<Rightarrow> string \<Rightarrow> string list" where
  "pieces d [] = [[]]"
| "pieces d (c # s) = (if c = d then [] # pieces d s else (c # hd (pieces d s)) # tl (pieces d s))"

definition views_split :: "char \<Rightarrow> string \<Rightarrow> string list" where
  "views_split d s = (if s = [] then [] else pieces d s)"

record config_log =
  cl_module :: module_t
  cl_level :: u8

definition module_of_value :: "int \<Rightarrow> module_t" where
  "module_of_value v = fst (logger_module_list ! nat v)"

definition read_module :: "string \<Rightarrow> (string + module_t) option" where
  "read_module currstr =
     do { imodule \<leftarrow> GetNumber currstr;
          Some (if imodule \<noteq> - 1 then
                  if int (module_value Module_UNKNOWN) \<le> imodule then Inl (''Unknown module: '' @ currstr)
                  else Inr (module_of_value imodule)
                else if currstr = ''all'' then Inr Module_MAX_MODULE
                else if to_module_t currstr = Module_UNKNOWN then Inl (''Unknown module: '' @ currstr)
                else Inr (to_module_t currstr)) }"

definition read_level :: "string \<Rightarrow> (string + u8) option" where
  "read_level currstr =
     do { ilevel \<leftarrow> GetNumber currstr;
          Some (if ilevel \<noteq> - 1 then
                  if uint (level_value Level_ALERT) < ilevel then Inl (''Bad log level: '' @ currstr)
                  else Inr (word_of_int ilevel)
                else if currstr = ''all'' then Inr (level_value Level_IGNORE)
                else if level_value Level_ALERT < to_logger_level currstr then Inl (''Unknown log level: '' @ currstr)
                else Inr (to_logger_level currstr)) }"

text \<open>The loop over the pieces between colons; \<open>reading\<close> counts them.\<close>

fun config_pieces :: "nat \<Rightarrow> config_log \<Rightarrow> string list \<Rightarrow> (string + config_log) option" where
  "config_pieces reading conf [] = Some (Inr conf)"
| "config_pieces reading conf (currstr # rest) =
     (if reading = 0 then
        if currstr = [] then config_pieces 1 conf rest
        else do { r \<leftarrow> read_module currstr;
                  case r of Inl err \<Rightarrow> Some (Inl err)
                  | Inr m \<Rightarrow> config_pieces 1 (conf\<lparr>cl_module := m\<rparr>) rest }
      else if reading = 1 then
        if currstr = [] then config_pieces 2 conf rest
        else do { r \<leftarrow> read_level currstr;
                  case r of Inl err \<Rightarrow> Some (Inl err)
                  | Inr l \<Rightarrow> config_pieces 2 (conf\<lparr>cl_level := l\<rparr>) rest }
      else Some (Inl (''Unknown module configuration: '' @ currstr)))"

definition GetConfigLogFromString :: "string \<Rightarrow> (string + config_log) option" where
  "GetConfigLogFromString strConfig =
     config_pieces 0 \<lparr>cl_module = Module_UNKNOWN, cl_level = level_value Level_DEBUG\<rparr>
       (views_split CHR '':'' strConfig)"

fun config_list :: "string list \<Rightarrow> (string + config_log list) option" where
  "config_list [] = Some (Inr [])"
| "config_list (configstr # rest) =
     do { r \<leftarrow> GetConfigLogFromString configstr;
          case r of Inl err \<Rightarrow> Some (Inl err)
          | Inr config \<Rightarrow> map_option (map_sum id ((#) config)) (config_list rest) }"

definition GetConfigLogList :: "string \<Rightarrow> (string + config_log list) option" where
  "GetConfigLogList logconfig = config_list (views_split CHR '','' logconfig)"

subsection \<open>The messages\<close>

datatype config_t = CONFIG_LOG | CONFIG_TERMINATE

fun config_value :: "config_t \<Rightarrow> u32" where
  "config_value CONFIG_LOG = 0"
| "config_value CONFIG_TERMINATE = 1"

text \<open>\<open>config_log\<close> is packed: four bytes of the module and one of the level.\<close>

definition config_log_size :: nat where
  "config_log_size = 5"

definition config_log_bytes :: "config_log \<Rightarrow> u8 list" where
  "config_log_bytes conf = le32 (word_of_nat (module_value (cl_module conf))) @ [cl_level conf]"

definition log_message :: "config_log list \<Rightarrow> u8 list" where
  "log_message configlist = le32 (config_value CONFIG_LOG) @ concat (map config_log_bytes configlist)"

text \<open>
  \<open>main\<close> after the command line was read and its lists printed: the messages it hands to \<open>mq_send\<close>,
  and the lines it prints.  \<open>mq_open\<close> and \<open>mq_send\<close> give whether the call succeeds.
\<close>

definition send_config :: "(u8 list \<Rightarrow> bool) \<Rightarrow> string \<Rightarrow> (u8 list list \<times> string list) option" where
  "send_config mq_send logconfig =
     (if logconfig = [] then Some ([], [])
      else do { r \<leftarrow> GetConfigLogList logconfig;
                Some (case r of
                        Inl err \<Rightarrow> ([], [''Bad log configuration format '' @ err])
                      | Inr configlist \<Rightarrow>
                          if configlist = [] then ([], [''Bad log configuration format.''])
                          else ([log_message configlist],
                                if mq_send (log_message configlist)
                                then [''Successfully configured log for Device Server''] else [])) })"

definition send_terminate :: "(u8 list \<Rightarrow> bool) \<Rightarrow> bool \<Rightarrow> u8 list list \<times> string list" where
  "send_terminate mq_send terminate =
     (if terminate then
        ([le32 (config_value CONFIG_TERMINATE)],
         if mq_send (le32 (config_value CONFIG_TERMINATE)) then [''Successfully terminated Device Server''] else [])
      else ([], []))"

definition serverconfig_send ::
    "bool \<Rightarrow> (u8 list \<Rightarrow> bool) \<Rightarrow> string \<Rightarrow> bool \<Rightarrow> (u8 list list \<times> string list) option" where
  "serverconfig_send mq_open mq_send logconfig terminate =
     (if (logconfig \<noteq> [] \<or> terminate) \<and> \<not> mq_open then Some ([], [''Device Server not running''])
      else do { (sent1, out1) \<leftarrow> send_config mq_send logconfig;
                Some (sent1 @ fst (send_terminate mq_send terminate), out1 @ snd (send_terminate mq_send terminate)) })"

subsection \<open>The program\<close>

text \<open>The variables of \<open>main\<close>: logconfig, listmodule, listlevel, terminate and display_version.\<close>

definition serverconfig_variables :: variables where
  "serverconfig_variables = (\<lambda>_. V_bool False)(Var 0 := V_stdstring [])"

definition serverconfig_parser :: "(commandline \<times> variables) option" where
  "serverconfig_parser =
     do { (o1, st1) \<leftarrow> option_required CHR ''c'' (Some ''config'') ''module:level list''
            (''Comma separated list of module:level, module=all for all module, '' @
             ''level can be number or name, e.g. SYSTEM:6 or system:debug'') T_stdstring (Var 0) serverconfig_variables;
          (o2, st2) \<leftarrow> option_flag CHR ''m'' (Some ''module'') ''List module that configure'' (Var 1) st1;
          (o3, st3) \<leftarrow> option_flag CHR ''l'' (Some ''level'') ''List log level'' (Var 2) st2;
          (o4, st4) \<leftarrow> option_flag CHR ''t'' (Some ''terminate'') ''Terminate log server'' (Var 3) st3;
          (o5, st5) \<leftarrow> option_flag CHR ''v'' (Some ''version'') ''Display version'' (Var 4) st4;
          Some (new_commandline ''Configure Server'' ''This tool is used to configure all device server''
            [o1, o2, o3, o4, o5] st5) }"

definition text_of :: "var_value \<Rightarrow> string" where
  "text_of v = (case v of V_stdstring s \<Rightarrow> s | _ \<Rightarrow> [])"

definition id_lines :: "string list \<Rightarrow> string list" where
  "id_lines names =
     map (\<lambda>i. ''ID '' @ to_string_uint 10 lower False (word_of_nat i :: u64) @ '' - '' @ names ! i) [0..<length names]"

definition module_lines :: "string list" where
  "module_lines = ''List of Modules are: '' # id_lines (map snd (take max_module logger_module_list) @ [''all''])"

definition level_lines :: "string list" where
  "level_lines = ''List of levels are: '' # id_lines (map snd logger_level_list)"

text \<open>The messages that are sent and the lines that are printed; the version comes from the build.\<close>

definition serverconfig_main ::
    "string \<Rightarrow> bool \<Rightarrow> (u8 list \<Rightarrow> bool) \<Rightarrow> string list \<Rightarrow> (u8 list list \<times> string list) option" where
  "serverconfig_main version mq_open mq_send argv =
     do { (cl, st) \<leftarrow> serverconfig_parser;
          (valid, cl', st') \<leftarrow> parser cl argv st;
          if \<not> valid then Some ([], [usage cl'])
          else do { (sent, out) \<leftarrow> serverconfig_send mq_open mq_send (text_of (st' (Var 0))) (st' (Var 3) = V_bool True);
                    Some (sent,
                      (if st' (Var 4) = V_bool True then [prog_name cl' @ '' '' @ version] else []) @
                      (if st' (Var 1) = V_bool True then module_lines else []) @
                      (if st' (Var 2) = V_bool True then level_lines else []) @ out) } }"

subsection \<open>The configuration thread\<close>

text \<open>
  The value of the module in a message is an \<open>int\<close> of any size: \<open>MAX_MODULE\<close> and above mean all, a
  negative one passes the comparison and becomes an index far outside of the table.
\<close>

definition apply_config_log :: "u32 \<Rightarrow> u8 \<Rightarrow> u8 list \<Rightarrow> u8 list option" where
  "apply_config_log module_val level levels =
     (if int (module_value Module_MAX_MODULE) \<le> sint module_val then Some (enable_all level levels)
      else if sint module_val < 0 then None
      else Some (set_module (module_of_value (sint module_val)) level levels))"

text \<open>
  The loop over the entries of a message of \<open>bytesread\<close> bytes; each step advances by five bytes, so
  the first argument, the number of bytes, bounds the steps.
\<close>

fun config_entries :: "nat \<Rightarrow> u8 list \<Rightarrow> nat \<Rightarrow> nat \<Rightarrow> u8 list \<Rightarrow> u8 list option" where
  "config_entries 0 message bytesread index levels = None"
| "config_entries (Suc fuel) message bytesread index levels =
     (if index + config_log_size \<le> bytesread then
        do { m \<leftarrow> subrange message index 4;
             l \<leftarrow> load message (index + 4);
             levels' \<leftarrow> apply_config_log (of_le32 m) l levels;
             config_entries fuel message bytesread (index + config_log_size) levels' }
      else Some levels)"

datatype config_end = Waiting | Stopped | Read_failed | Terminated

text \<open>
  One message: the buffer has one byte more than the queue allows, and is zero behind what was
  received.  The second component of the result says whether the server is to terminate.
\<close>

definition handle_config :: "nat \<Rightarrow> u8 list \<Rightarrow> u8 list \<Rightarrow> (u8 list \<times> bool) option" where
  "handle_config mq_msgsize received levels =
     (let message = received @ replicate (mq_msgsize + 1 - length received) 0 in
      do { c \<leftarrow> subrange message 0 4;
           if of_le32 c = config_value CONFIG_LOG then
             map_option (\<lambda>levels'. (levels', False)) (config_entries (length received + 1) message (length received) 4 levels)
           else Some (levels, of_le32 c = config_value CONFIG_TERMINATE) })"

text \<open>
  The loop of the thread: before each message the flags \<open>IsTerminated\<close> and \<open>stop_requested\<close> are read;
  \<open>None\<close> is a read that fails or delivers no byte.
\<close>

fun config_loop :: "nat \<Rightarrow> (bool \<times> u8 list option) list \<Rightarrow> u8 list \<Rightarrow> (config_end \<times> u8 list) option" where
  "config_loop mq_msgsize [] levels = Some (Waiting, levels)"
| "config_loop mq_msgsize ((stop, received) # inputs) levels =
     (if stop then Some (Stopped, levels)
      else case received of
        None \<Rightarrow> Some (Read_failed, levels)
      | Some bytes \<Rightarrow>
          if bytes = [] then Some (Read_failed, levels)
          else do { (levels', terminate) \<leftarrow> handle_config mq_msgsize bytes levels;
                    if terminate then Some (Terminated, levels') else config_loop mq_msgsize inputs levels' })"

subsection \<open>Splitting a text that was joined\<close>

fun joined :: "char \<Rightarrow> string list \<Rightarrow> string" where
  "joined d [] = []"
| "joined d [p] = p"
| "joined d (p # q # ps) = p @ d # joined d (q # ps)"

lemma pieces_alone: "d \<notin> set p \<Longrightarrow> pieces d p = [p]"
  by (induction p) auto

lemma pieces_first: "d \<notin> set p \<Longrightarrow> pieces d (p @ d # s) = p # pieces d s"
  by (induction p) auto

lemma pieces_joined: "ps \<noteq> [] \<Longrightarrow> list_all (\<lambda>p. d \<notin> set p) ps \<Longrightarrow> pieces d (joined d ps) = ps"
  by (induction d ps rule: joined.induct) (simp_all add: pieces_alone pieces_first)

lemma joined_not_empty: "ps \<noteq> [] \<Longrightarrow> list_all (\<lambda>p. p \<noteq> []) ps \<Longrightarrow> joined d ps \<noteq> []"
  by (induction d ps rule: joined.induct) simp_all

lemma split_joined:
  "ps \<noteq> [] \<Longrightarrow> list_all (\<lambda>p. p \<noteq> [] \<and> d \<notin> set p) ps \<Longrightarrow> views_split d (joined d ps) = ps"
  using pieces_joined [of ps d] joined_not_empty [of ps d] by (simp add: views_split_def list_all_iff)

subsection \<open>The text of a configuration\<close>

text \<open>A configuration entry: one module or all of them, and a level, each by its name.\<close>

definition mod_text :: "module_t option \<Rightarrow> string" where
  "mod_text mo = (case mo of None \<Rightarrow> ''all'' | Some m \<Rightarrow> module_to_string False (word_of_nat (module_value m)))"

definition entry_text :: "module_t option \<times> logger_level \<Rightarrow> string" where
  "entry_text e = joined CHR '':'' [mod_text (fst e), logger_level_to_string False (level_value (snd e))]"

definition entry_config :: "module_t option \<times> logger_level \<Rightarrow> config_log" where
  "entry_config e =
     \<lparr>cl_module = (case fst e of None \<Rightarrow> Module_MAX_MODULE | Some m \<Rightarrow> m), cl_level = level_value (snd e)\<rparr>"

definition real_module :: "module_t option \<Rightarrow> bool" where
  "real_module mo \<longleftrightarrow> (case mo of None \<Rightarrow> True | Some m \<Rightarrow> module_value m < max_module)"

lemmas name_defs = module_to_string_def logger_level_to_string_def logger_module_list_def logger_level_list_def

lemma mod_text_plain:
  "real_module mo \<Longrightarrow> mod_text mo \<noteq> [] \<and> CHR '':'' \<notin> set (mod_text mo) \<and> CHR '','' \<notin> set (mod_text mo)"
  by (cases mo; cases "the mo") (auto simp: mod_text_def name_defs real_module_def)

lemma level_name_plain:
  "logger_level_to_string False (level_value l) \<noteq> [] \<and> CHR '':'' \<notin> set (logger_level_to_string False (level_value l)) \<and>
   CHR '','' \<notin> set (logger_level_to_string False (level_value l))"
  by (cases l) (simp_all add: name_defs)

lemma read_module_name: "real_module mo \<Longrightarrow> read_module (mod_text mo) = Some (Inr (cl_module (entry_config (mo, l))))"
  by (cases mo; cases "the mo")
    (auto simp: mod_text_def name_defs real_module_def read_module_def GetNumber_def to_module_t_def entry_config_def)

lemma read_level_name: "read_level (logger_level_to_string False (level_value l)) = Some (Inr (level_value l))"
  by (cases l) (simp_all add: name_defs read_level_def GetNumber_def to_logger_level_def)

lemma entry_read:
  assumes "real_module (fst e)"
  shows "GetConfigLogFromString (entry_text e) = Some (Inr (entry_config e))"
proof -
  have "views_split CHR '':'' (entry_text e) = [mod_text (fst e), logger_level_to_string False (level_value (snd e))]"
    unfolding entry_text_def
    by (rule split_joined) (use mod_text_plain [OF assms] level_name_plain in simp_all)
  then show ?thesis
    using mod_text_plain [OF assms] level_name_plain [of "snd e"] read_module_name [OF assms, of "snd e"]
      read_level_name [of "snd e"]
    by (simp add: GetConfigLogFromString_def entry_config_def)
qed

lemma entry_text_plain: "real_module (fst e) \<Longrightarrow> entry_text e \<noteq> [] \<and> CHR '','' \<notin> set (entry_text e)"
  using mod_text_plain [of "fst e"] level_name_plain [of "snd e"] by (simp add: entry_text_def)

definition config_text :: "(module_t option \<times> logger_level) list \<Rightarrow> string" where
  "config_text es = joined CHR '','' (map entry_text es)"

lemma config_text_read:
  assumes "es \<noteq> []" "list_all (\<lambda>e. real_module (fst e)) es"
  shows "GetConfigLogList (config_text es) = Some (Inr (map entry_config es))" "config_text es \<noteq> []"
proof -
  have plain: "list_all (\<lambda>p. p \<noteq> [] \<and> CHR '','' \<notin> set p) (map entry_text es)"
    using assms(2) entry_text_plain by (auto simp: list_all_iff)
  then have "views_split CHR '','' (config_text es) = map entry_text es"
    unfolding config_text_def using assms(1) by (intro split_joined) auto
  moreover have "config_list (map entry_text es) = Some (Inr (map entry_config es))"
    using assms(2) by (induction es) (simp_all add: entry_read)
  ultimately show "GetConfigLogList (config_text es) = Some (Inr (map entry_config es))"
    by (simp add: GetConfigLogList_def)
  show "config_text es \<noteq> []" unfolding config_text_def
    using assms(1) plain by (intro joined_not_empty) (auto simp: list_all_iff)
qed

subsection \<open>The message applied\<close>

definition apply_config :: "config_log \<Rightarrow> u8 list \<Rightarrow> u8 list" where
  "apply_config conf levels =
     (if max_module \<le> module_value (cl_module conf) then enable_all (cl_level conf) levels
      else set_module (cl_module conf) (cl_level conf) levels)"

lemma module_of_value [simp]: "module_of_value (int (module_value m)) = m"
  by (cases m) (simp_all add: module_of_value_def logger_module_list_def)

lemma apply_config_log_module:
  "apply_config_log (word_of_nat (module_value (cl_module c))) (cl_level c) levels = Some (apply_config c levels)"
proof -
  have "module_value (cl_module c) < 12" by (cases "cl_module c") simp_all
  then have "sint (word_of_nat (module_value (cl_module c)) :: u32) = int (module_value (cl_module c))"
    by (simp add: signed_of_nat signed_take_bit_int_eq_self)
  then show ?thesis by (simp add: apply_config_log_def apply_config_def)
qed

lemma config_entries_message:
  "length cs < fuel \<Longrightarrow> bytesread = length pre + config_log_size * length cs \<Longrightarrow>
   config_entries fuel (pre @ concat (map config_log_bytes cs) @ post) bytesread (length pre) levels =
     Some (fold apply_config cs levels)"
proof (induction cs arbitrary: fuel pre levels)
  case Nil
  then show ?case by (cases fuel) (simp_all add: config_log_size_def)
next
  case (Cons c cs)
  obtain fuel' where fuel: "fuel = Suc fuel'" using Cons.prems(1) by (cases fuel) auto
  let ?b = "config_log_bytes c" and ?m = "le32 (word_of_nat (module_value (cl_module c)))"
  let ?rest = "concat (map config_log_bytes cs) @ post"
  have l: "length ?m = 4" "length ?b = config_log_size" by (simp_all add: config_log_bytes_def config_log_size_def)
  have m: "subrange (pre @ ?b @ ?rest) (length pre) 4 = Some ?m"
    using l by (simp add: subrange_def config_log_bytes_def)
  have b: "load (pre @ ?b @ ?rest) (length pre + 4) = Some (cl_level c)"
    using l by (simp add: load_def config_log_bytes_def nth_append)
  have "config_entries fuel' ((pre @ ?b) @ ?rest) bytesread (length (pre @ ?b)) (apply_config c levels) =
      Some (fold apply_config cs (apply_config c levels))"
    using Cons.prems fuel l by (intro Cons.IH) simp_all
  then show ?case
    using m b Cons.prems(2) l by (simp add: fuel apply_config_log_module add.commute)
qed

lemma length_log_message: "length (log_message cs) = 4 + config_log_size * length cs"
  by (induction cs) (simp_all add: log_message_def config_log_bytes_def config_log_size_def)

lemma handle_log_message:
  assumes "length (log_message cs) \<le> mq_msgsize"
  shows "handle_config mq_msgsize (log_message cs) levels = Some (fold apply_config cs levels, False)"
proof -
  let ?zeros = "replicate (mq_msgsize + 1 - length (log_message cs)) 0"
  have "config_entries (length (log_message cs) + 1) (le32 0 @ concat (map config_log_bytes cs) @ ?zeros)
      (length (log_message cs)) (length (le32 0)) levels = Some (fold apply_config cs levels)"
    by (rule config_entries_message) (simp_all add: length_log_message config_log_size_def)
  moreover have "subrange (le32 0 @ concat (map config_log_bytes cs) @ ?zeros) 0 4 = Some (le32 0)"
    by (simp add: subrange_def)
  ultimately show ?thesis by (simp add: handle_config_def Let_def log_message_def [of cs])
qed

text \<open>What the levels are after a list of entries: the last entry for a module, or for all, decides.\<close>

definition entry_level :: "module_t \<Rightarrow> (module_t option \<times> logger_level) list \<Rightarrow> u8 \<Rightarrow> u8" where
  "entry_level m es l =
     fold (\<lambda>(mo, level) l. if mo = None \<or> mo = Some m then level_value level else l) es l"

lemma apply_entry_nth:
  assumes "wf_levels levels" "real_module (fst e)" "module_value m < max_module"
  shows "wf_levels (apply_config (entry_config e) levels)"
    "apply_config (entry_config e) levels ! module_value m =
      (if fst e = None \<or> fst e = Some m then level_value (snd e) else levels ! module_value m)"
proof -
  have inj: "module_value m' = module_value m \<longleftrightarrow> m' = m" for m' by (cases m'; cases m) simp_all
  show "wf_levels (apply_config (entry_config e) levels)"
    using assms(1) by (simp add: apply_config_def wf_levels_operations)
  show "apply_config (entry_config e) levels ! module_value m =
      (if fst e = None \<or> fst e = Some m then level_value (snd e) else levels ! module_value m)"
    using assms inj
    by (auto simp: apply_config_def entry_config_def wf_levels_def enable_all_def set_module_def real_module_def
        nth_list_update split: option.splits)
qed

lemma apply_entries_nth:
  assumes "wf_levels levels" "list_all (\<lambda>e. real_module (fst e)) es" "module_value m < max_module"
  shows "fold apply_config (map entry_config es) levels ! module_value m = entry_level m es (levels ! module_value m)"
  using assms
proof (induction es arbitrary: levels)
  case (Cons e es)
  then show ?case
    using apply_entry_nth [of levels e m] by (cases e) (simp add: entry_level_def)
qed (simp add: entry_level_def)

definition config_option :: commandline_option where
  "config_option = \<lparr>ch = CHR ''c'', opt_name = ''config'', value_help = ''module:level list'',
     opt_help = ''Comma separated list of module:level, module=all for all module, '' @
       ''level can be number or name, e.g. SYSTEM:6 or system:debug'',
     type_id = T_stdstring, variable = Var 0, required = True\<rparr>"

definition flag_option :: "char \<Rightarrow> string \<Rightarrow> string \<Rightarrow> nat \<Rightarrow> commandline_option" where
  "flag_option c n h v = \<lparr>ch = c, opt_name = n, value_help = [], opt_help = h, type_id = T_bool, variable = Var v,
     required = False\<rparr>"

definition serverconfig_options :: "commandline_option list" where
  "serverconfig_options =
     [config_option, flag_option CHR ''m'' ''module'' ''List module that configure'' 1,
      flag_option CHR ''l'' ''level'' ''List log level'' 2, flag_option CHR ''t'' ''terminate'' ''Terminate log server'' 3,
      flag_option CHR ''v'' ''version'' ''Display version'' 4]"

lemma serverconfig_parser_eq:
  "serverconfig_parser = Some (new_commandline ''Configure Server'' ''This tool is used to configure all device server''
     serverconfig_options serverconfig_variables)"
proof -
  have "serverconfig_variables(Var 1 := V_bool False, Var 2 := V_bool False, Var 3 := V_bool False,
      Var 4 := V_bool False) = serverconfig_variables"
    by (rule ext) (simp add: serverconfig_variables_def)
  then show ?thesis
    by (simp add: serverconfig_parser_def option_required_def option_flag_def option_of_def serverconfig_options_def
        config_option_def flag_option_def)
qed

lemma find_config_option: "find (names_option ''-c'') (serverconfig_options @ [help_option]) = Some config_option"
  by (simp add: serverconfig_options_def names_option_def config_option_def)

lemma plain_text_no_null: "real_module mo \<Longrightarrow> NUL \<notin> set (mod_text mo)"
  "NUL \<notin> set (logger_level_to_string False (level_value l))"
  by (cases mo; cases "the mo"; auto simp: mod_text_def name_defs real_module_def) (cases l; simp add: name_defs)

lemma joined_no_null: "c \<noteq> d \<Longrightarrow> list_all (\<lambda>p. c \<notin> set p) ps \<Longrightarrow> c \<notin> set (joined d ps)"
  by (induction d ps rule: joined.induct) simp_all

lemma config_text_no_null: "list_all (\<lambda>e. real_module (fst e)) es \<Longrightarrow> NUL \<notin> set (config_text es)"
  unfolding config_text_def
  by (rule joined_no_null) (auto simp: list_all_iff entry_text_def plain_text_no_null)

lemma configured_message:
  assumes "es \<noteq> []" "list_all (\<lambda>e. real_module (fst e)) es" "NUL \<notin> set prog"
  shows "\<exists>out. serverconfig_main version True mq_send (map terminated [prog, ''-c'', config_text es]) =
    Some ([log_message (map entry_config es)], out)"
proof -
  obtain cl st where new: "new_commandline ''Configure Server'' ''This tool is used to configure all device server''
      serverconfig_options serverconfig_variables = (cl, st)" by fastforce
  then have st: "st = serverconfig_variables(Help_flag := V_bool False)" by (auto simp: new_commandline_def Let_def)
  note no_null = config_text_no_null [OF assms(2)]
  let ?set = "Setting config_option ''-c'' (config_text es)" and ?st = "st(Var 0 := V_stdstring (config_text es))"
  have "valid_setting (serverconfig_options @ [help_option]) ?set"
    using find_config_option no_null by (simp add: config_option_def)
  moreover have "perform_setting ?set st = ?st" using no_null by (simp add: config_option_def)
  ultimately have "parse_args cl (Expect_option, st) (map terminated [''-c'', config_text es]) = Some (Expect_option, ?st)"
    using parse_settings [OF new, of "[?set]" st] no_null by simp
  then have "parser cl (map terminated [prog, ''-c'', config_text es]) st =
      Some (True, cl\<lparr>prog_name := basename prog\<rparr>, ?st)"
    using assms(3) by (simp add: parser_def st)
  then show ?thesis
    using config_text_read [OF assms(1,2)] new assms(1)
    by (simp add: serverconfig_main_def serverconfig_parser_eq serverconfig_send_def send_config_def
        send_terminate_def text_of_def st serverconfig_variables_def)
qed

text \<open>
  C21: The tool called with a text that names modules, or all of them, with levels sends one message,
  which fits the queue when the text has at most 50 entries, and the configuration thread that
  receives it goes on, with every module at the level of the last entry that concerns it.
\<close>

theorem configured_levels:
  assumes "es \<noteq> []" "length es \<le> 50" "list_all (\<lambda>e. real_module (fst e)) es" "NUL \<notin> set prog"
    "wf_levels levels" "module_value m < max_module"
  shows "\<exists>msg out levels'.
    serverconfig_main version True mq_send (map terminated [prog, ''-c'', config_text es]) = Some ([msg], out) \<and>
    length msg \<le> 256 \<and> config_loop 256 ((False, Some msg) # inputs) levels = config_loop 256 inputs levels' \<and>
    levels' ! module_value m = entry_level m es (levels ! module_value m)"
proof -
  let ?msg = "log_message (map entry_config es)"
  have "length ?msg \<le> 256" using assms(2) by (simp add: length_log_message config_log_size_def)
  moreover have "config_loop 256 ((False, Some ?msg) # inputs) levels =
      config_loop 256 inputs (fold apply_config (map entry_config es) levels)"
    using handle_log_message [OF calculation, of levels] by (simp add: log_message_def le32_def)
  ultimately show ?thesis
    using configured_message [OF assms(1,3,4)] apply_entries_nth [OF assms(5,3,6)] by blast
qed

theorem configured_levels_witness:
  "\<exists>msg out levels'.
     serverconfig_main ''1.0'' True (\<lambda>_. True)
       (map terminated [''serverconfig'', ''-c'', config_text [(None, Level_ERROR), (Some Module_SOCKET, Level_DEBUG)]]) =
       Some ([msg], out) \<and>
     config_loop 256 [(False, Some msg)] new_active_module = Some (Waiting, levels') \<and>
     levels' ! module_value Module_SOCKET = 1"
  using configured_levels [of "[(None, Level_ERROR), (Some Module_SOCKET, Level_DEBUG)]" "''serverconfig''"
      new_active_module Module_SOCKET "''1.0''" "\<lambda>_. True" "[]"]
  by (auto simp: real_module_def wf_levels_operations entry_level_def simp del: config_loop.simps(2))

subsection \<open>What the tool does not accept, and what it accepts\<close>

lemma config_text_example: "config_text [(None, Level_ERROR), (Some Module_SOCKET, Level_DEBUG)] = ''all:ERROR,SOCKET:DEBUG''"
  by (simp add: config_text_def entry_text_def mod_text_def name_defs)

text \<open>The example of the help text, and the numbers 0 and 9 that the list of modules shows.\<close>

lemma help_example_rejected:
  "GetConfigLogFromString ''system:debug'' = Some (Inl ''Unknown module: system'')"
  by code_simp

lemma module_numbers_rejected:
  "GetConfigLogFromString ''0:3'' = Some (Inl ''Unknown module: 0'')"
  "GetConfigLogFromString ''9:3'' = Some (Inl ''Unknown module: 9'')"
  "GetConfigLogFromString ''1:0'' = Some (Inl ''Unknown log level: 0'')"
  by code_simp+

text \<open>An entry without a module is one for all modules, and so is the end of a text after a comma.\<close>

lemma empty_entry_all_debug:
  "GetConfigLogList ''SOCKET:ERROR,'' = Some (Inr
     [\<lparr>cl_module = Module_SOCKET, cl_level = 5\<rparr>, \<lparr>cl_module = Module_UNKNOWN, cl_level = 1\<rparr>])"
  by code_simp

text \<open>A number of eleven digits overflows, and a negative module in a message writes outside the table.\<close>

lemma number_overflow: "GetNumber ''11111111111'' = None"
  by code_simp

lemma negative_module: "sint module_val < 0 \<Longrightarrow> apply_config_log module_val level levels = None"
  by (simp add: apply_config_log_def)

end
