(* ===== verification/DeviceMain.thy ===== *)
theory DeviceMain
  imports CommandLine Watcher LogTable
begin

text \<open>
  deviceserver/deviceserver.cc: the arguments of the server, its configuration file and the servers,
  folders and mappings made from it, and the checks of the socket buffers at start.

  The JSON library is not part of the repository's own code: what it reads from the file, texts and
  integers by their keys, is an argument.  So are the disk, the watch descriptors, and whether a
  listening socket can be opened.  An exception that leaves the function is \<open>None\<close>.
\<close>

subsection \<open>DeviceServerParameter\<close>

record device_parameter =
  dp_log_file :: string
  dp_config_folder :: string
  dp_display_version :: bool
  dp_log_debug_mode :: bool
  dp_thread_count :: u32
  dp_valid :: bool

definition device_parser :: "variables \<Rightarrow> (commandline \<times> variables) option" where
  "device_parser st0 =
     do { (o1, st1) \<leftarrow> option_default CHR ''l'' (Some ''log_file'') ''file path'' ''Path to save log file''
            T_filepath (Var 0) (V_filepath ''/tmp/iotcloud/log/deviceserver.log'') False st0;
          (o2, st2) \<leftarrow> option_default CHR ''c'' (Some ''config_folder'') ''folder path''
            ''Path to configuration folder, it must contain file iot.json and logmodule.json''
            T_string (Var 1) (V_string ''/etc/iotcloud'') False st1;
          (o3, st3) \<leftarrow> option_default CHR ''t'' (Some ''thread_count'') ''number of thread''
            ''Number of threads that listen to socket, 0 means number of CPU'' T_int32 (Var 2) (V_int32 0) False st2;
          (o4, st4) \<leftarrow> option_flag CHR ''v'' (Some ''version'') ''Display version'' (Var 3) st3;
          (o5, st5) \<leftarrow> option_flag CHR ''d'' (Some ''debug'') ''Dumps all the logs, logs file will be very big'' (Var 4) st4;
          Some (new_commandline ''IOT device server that is used to push data on all the devices''
            (''Device server is designed to keep hold on all the IOT devices connected to internet. '' @
             ''All devices share their state with this server and even devices are contolled by this server. '')
            [o1, o2, o3, o4, o5] st5) }"

definition path_of :: "var_value \<Rightarrow> string" where
  "path_of v = (case v of V_filepath s \<Rightarrow> s | V_string s \<Rightarrow> s | _ \<Rightarrow> [])"

definition int_of :: "var_value \<Rightarrow> u32" where
  "int_of v = (case v of V_int32 n \<Rightarrow> n | _ \<Rightarrow> 0)"

text \<open>The parameters, and the lines printed.\<close>

definition DeviceServerParameter :: "string \<Rightarrow> string list \<Rightarrow> (device_parameter \<times> string list) option" where
  "DeviceServerParameter version argv =
     do { (cl, st) \<leftarrow> device_parser (\<lambda>_. V_other);
          (valid, cl', st') \<leftarrow> parser cl argv st;
          Some (\<lparr>dp_log_file = path_of (st' (Var 0)), dp_config_folder = path_of (st' (Var 1)),
                 dp_display_version = (st' (Var 3) = V_bool True), dp_log_debug_mode = (st' (Var 4) = V_bool True),
                 dp_thread_count = int_of (st' (Var 2)), dp_valid = valid\<rparr>,
                (if valid then [] else [usage cl']) @
                (if st' (Var 3) = V_bool True then [prog_name cl' @ '' '' @ version] else [])) }"

subsection \<open>The configuration\<close>

text \<open>
  The file is read into an array of exactly its size, which is then taken for a null-terminated
  text: without a null character in the file the array is read past its end.
\<close>

definition load_config_string :: "string option \<Rightarrow> string option" where
  "load_config_string file =
     (case file of
        None \<Rightarrow> Some []
      | Some buffer \<Rightarrow> if NUL \<in> set buffer then Some (c_text buffer) else None)"

text \<open>An element of \<open>servers\<close> and of \<open>Mappings\<close>, as the JSON library reads them.\<close>

record server_conf =
  sc_IP :: string
  sc_TYPE :: string
  sc_port :: int
  sc_CertFile :: string
  sc_PrikeyFile :: string
  sc_Folder :: string

record mapping_conf =
  mc_Type :: string
  mc_Folders :: "string list"
  mc_Maps :: "(string \<times> string) list"

datatype server_event = Simple_server u32 | Ssl_server u32 string string | Http_server u32
  | Https_server u32 string string

record device_server =
  ds_servers :: "server_event list"
  ds_web :: webmaps
  ds_watcher :: filewatcher

definition new_device_server :: device_server where
  "new_device_server = \<lparr>ds_servers = [], ds_web = new_webmaps, ds_watcher = new_filewatcher\<rparr>"

definition prikey_file :: "server_conf \<Rightarrow> string" where
  "prikey_file sc = (if sc_PrikeyFile sc \<noteq> [] then sc_PrikeyFile sc else sc_CertFile sc)"

text \<open>The port of a folder is converted to 16 bits, that of a server to an \<open>int\<close>.\<close>

definition web_port :: "server_conf \<Rightarrow> ipv6_port" where
  "web_port sc = ipv6_port_of (word_of_int (sc_port sc))"

definition start_server :: "(server_event \<Rightarrow> bool) \<Rightarrow> server_event \<Rightarrow> device_server \<Rightarrow> device_server option" where
  "start_server starts srvevt ds =
     (if starts srvevt then Some (ds\<lparr>ds_servers := ds_servers ds @ [srvevt]\<rparr>) else None)"

definition start_web_server ::
    "(server_event \<Rightarrow> bool) \<Rightarrow> (string \<Rightarrow> int option) \<Rightarrow> (string \<Rightarrow> folder) \<Rightarrow> server_event \<Rightarrow> server_conf \<Rightarrow>
     device_server \<Rightarrow> device_server option" where
  "start_web_server starts add_watch disk srvevt sc ds =
     do { ds' \<leftarrow> start_server starts srvevt (ds\<lparr>ds_web := web_add_folder (web_port sc) (sc_Folder sc) (ds_web ds)\<rparr>);
          Some (ds'\<lparr>ds_watcher := snd (watch_folder add_watch (sc_Folder sc) (disk (sc_Folder sc)) (ds_watcher ds'))\<rparr>) }"

definition create_server ::
    "(server_event \<Rightarrow> bool) \<Rightarrow> (string \<Rightarrow> int option) \<Rightarrow> (string \<Rightarrow> folder) \<Rightarrow> server_conf \<Rightarrow> device_server \<Rightarrow> device_server option" where
  "create_server starts add_watch disk sc ds =
     (let port = word_of_int (sc_port sc) in
      if sc_IP sc \<noteq> ''*'' then Some ds
      else if sc_port sc = 0 then Some ds
      else if sc_TYPE sc = ''simple'' then start_server starts (Simple_server port) ds
      else if sc_TYPE sc = ''ssl'' then start_server starts (Ssl_server port (sc_CertFile sc) (prikey_file sc)) ds
      else if sc_TYPE sc = ''http'' then start_web_server starts add_watch disk (Http_server port) sc ds
      else if sc_TYPE sc = ''https'' then
        start_web_server starts add_watch disk (Https_server port (sc_CertFile sc) (prikey_file sc)) sc ds
      else Some ds)"

fun create_servers ::
    "(server_event \<Rightarrow> bool) \<Rightarrow> (string \<Rightarrow> int option) \<Rightarrow> (string \<Rightarrow> folder) \<Rightarrow> server_conf list \<Rightarrow> device_server \<Rightarrow>
     device_server option" where
  "create_servers starts add_watch disk [] ds = Some ds"
| "create_servers starts add_watch disk (sc # scs) ds =
     do { ds' \<leftarrow> create_server starts add_watch disk sc ds; create_servers starts add_watch disk scs ds' }"

text \<open>The loops over the folders and the maps of a mapping; the error codes are not used.\<close>

fun mapping_loop ::
    "(string \<Rightarrow> string \<Rightarrow> string \<Rightarrow> webmaps \<Rightarrow> (err_t \<times> webmaps) option) \<Rightarrow> (string \<times> string \<times> string) list \<Rightarrow>
     webmaps \<Rightarrow> webmaps option" where
  "mapping_loop add [] w = Some w"
| "mapping_loop add ((folder, keystr, valuestr) # entries) w =
     do { (err, w') \<leftarrow> add folder keystr valuestr w; mapping_loop add entries w' }"

definition mapping_entries :: "mapping_conf \<Rightarrow> (string \<times> string \<times> string) list" where
  "mapping_entries mc = concat (map (\<lambda>folder. map (Pair folder) (mc_Maps mc)) (mc_Folders mc))"

definition apply_mapping :: "mapping_conf \<Rightarrow> webmaps \<Rightarrow> webmaps option" where
  "apply_mapping mc w =
     (if mc_Type mc = ''folder'' then mapping_loop add_folder_mapping (mapping_entries mc) w
      else if mc_Type mc = ''extension'' then mapping_loop add_content_type_mapping (mapping_entries mc) w
      else Some w)"

fun apply_mappings :: "mapping_conf list \<Rightarrow> webmaps \<Rightarrow> webmaps option" where
  "apply_mappings [] w = Some w"
| "apply_mappings (mc # mcs) w = do { w' \<leftarrow> apply_mapping mc w; apply_mappings mcs w' }"

definition execute_config ::
    "(server_event \<Rightarrow> bool) \<Rightarrow> (string \<Rightarrow> int option) \<Rightarrow> (string \<Rightarrow> folder) \<Rightarrow> server_conf list \<Rightarrow> mapping_conf list \<Rightarrow>
     device_server \<Rightarrow> device_server option" where
  "execute_config starts add_watch disk servers mappings ds =
     do { ds' \<leftarrow> create_servers starts add_watch disk servers ds;
          w \<leftarrow> apply_mappings mappings (ds_web ds');
          w' \<leftarrow> web_update_folder disk w;
          Some (ds'\<lparr>ds_web := w'\<rparr>) }"

text \<open>With the JSON library as an argument: from a text to the two lists.\<close>

definition load_and_execute_config ::
    "(string \<Rightarrow> server_conf list \<times> mapping_conf list) \<Rightarrow> (server_event \<Rightarrow> bool) \<Rightarrow> (string \<Rightarrow> int option) \<Rightarrow>
     (string \<Rightarrow> folder) \<Rightarrow> string option \<Rightarrow> device_server \<Rightarrow> device_server option" where
  "load_and_execute_config json starts add_watch disk configfile ds =
     do { buffer \<leftarrow> load_config_string configfile;
          let (servers, mappings) = json buffer in execute_config starts add_watch disk servers mappings ds }"

subsection \<open>The buffers of a socket\<close>

definition socket_read_buffer_size :: int where
  "socket_read_buffer_size = 25 * 1024 * 1024"

definition socket_write_buffer_size :: int where
  "socket_write_buffer_size = 25 * 1024 * 1024"

text \<open>
  \<open>getsockopt\<close> gives a size or fails, \<open>setsockopt\<close> succeeds or not; the exception is \<open>Inl\<close>.  The
  \<open>get\<close> functions differ in the code of the exception only.
\<close>

definition get_buffer_size :: "err_t \<Rightarrow> int option \<Rightarrow> err_t + int" where
  "get_buffer_size err result = (case result of None \<Rightarrow> Inl err | Some n \<Rightarrow> Inr n)"

definition set_buffer_size :: "err_t \<Rightarrow> bool \<Rightarrow> err_t + unit" where
  "set_buffer_size err ok = (if ok then Inr () else Inl err)"

text \<open>What the system answers for one of the two buffers, in the order of the calls.\<close>

record buffer_calls =
  bc_original :: "int option"
  bc_set :: bool
  bc_new :: "int option"

text \<open>One half of \<open>check_socket_limits\<close>: \<open>Inr (Some err)\<close> is the early return.\<close>

definition check_buffer :: "err_t \<Rightarrow> err_t \<Rightarrow> int \<Rightarrow> buffer_calls \<Rightarrow> err_t + err_t option" where
  "check_buffer get_err set_err limit calls =
     (case get_buffer_size get_err (bc_original calls) of
        Inl e \<Rightarrow> Inl e
      | Inr original_size \<Rightarrow>
          if original_size < limit then
            (case set_buffer_size set_err (bc_set calls) of
               Inl e \<Rightarrow> Inl e
             | Inr _ \<Rightarrow>
                 (case get_buffer_size get_err (bc_new calls) of
                    Inl e \<Rightarrow> Inl e
                  | Inr new_size \<Rightarrow> Inr (if new_size < limit then Some set_err else None)))
          else Inr None)"

definition check_socket_limits :: "buffer_calls \<Rightarrow> buffer_calls \<Rightarrow> err_t + err_t" where
  "check_socket_limits receive send =
     (case check_buffer SOCKET_GET_READ_BUFFER_FAILED SOCKET_SET_READ_BUFFER_FAILED socket_read_buffer_size receive of
        Inl e \<Rightarrow> Inl e
      | Inr (Some err) \<Rightarrow> Inr err
      | Inr None \<Rightarrow>
          (case check_buffer SOCKET_GET_WRITE_BUFFER_FAILED SOCKET_SET_WRITE_BUFFER_FAILED socket_write_buffer_size send of
             Inl e \<Rightarrow> Inl e
           | Inr (Some err) \<Rightarrow> Inr err
           | Inr None \<Rightarrow> Inr SUCCESS))"

subsection \<open>main\<close>

datatype device_start = Exit_early | Exit_exception | Start device_parameter "u8 list"

text \<open>
  \<open>main\<close> up to the initialisation: what the server is started with, and the levels of the logs.
\<close>

definition device_main ::
    "string \<Rightarrow> buffer_calls \<Rightarrow> buffer_calls \<Rightarrow> string list \<Rightarrow> u8 list \<Rightarrow> (device_start \<times> string list) option" where
  "device_main version receive send argv levels =
     do { (parameter, out) \<leftarrow> DeviceServerParameter version argv;
          Some (if \<not> dp_valid parameter \<or> dp_display_version parameter then Exit_early
                else case check_socket_limits receive send of
                  Inl e \<Rightarrow> Exit_exception
                | Inr err \<Rightarrow>
                    if isFailure err then Exit_early
                    else Start parameter
                      (if dp_log_debug_mode parameter then enable_all (level_value Level_DEBUG) levels else levels),
                out) }"

subsection \<open>Operations on the file maps\<close>

text \<open>An operation on one folder, or on all for a star, as an operation on the list of the objects.\<close>

definition on_matching :: "string \<Rightarrow> (filemap \<Rightarrow> filemap) \<Rightarrow> filemap \<Rightarrow> filemap" where
  "on_matching folder h fm = (if folder = ''*'' \<or> webfolder fm = folder then h fm else fm)"

lemma on_folder_map:
  assumes "webmaps_ok w" "folder \<noteq> ''*''"
  shows "\<exists>err. on_folder (Some \<circ> h) folder w = Some (err, w\<lparr>filemaps := map (on_matching folder h) (filemaps w)\<rparr>)"
proof (cases "map_of (webfoldermaps w) folder")
  case None
  then have "folder \<notin> set (map webfolder (filemaps w))"
    using assms(1) by (metis map_of_eq_None_iff webmaps_ok_def list.set_map)
  then have "map (on_matching folder h) (filemaps w) = filemaps w"
    using assms(2) by (intro map_idI) (auto simp: on_matching_def)
  with None show ?thesis by (simp add: on_folder_def)
next
  case (Some p)
  have keys: "map fst (webfoldermaps w) = map webfolder (filemaps w)" "map snd (webfoldermaps w) = [0..<length (filemaps w)]"
    "distinct (map webfolder (filemaps w))" using assms(1) by (auto simp: webmaps_ok_def)
  have "(folder, p) \<in> set (webfoldermaps w)" using Some by (rule map_of_SomeD)
  then obtain i where i: "i < length (webfoldermaps w)" "webfoldermaps w ! i = (folder, p)" by (auto simp: in_set_conv_nth)
  have len: "length (webfoldermaps w) = length (filemaps w)" using keys(1) by (metis length_map)
  have p: "p = i" using arg_cong [OF keys(2), of "\<lambda>xs. xs ! i"] i len by simp
  have f: "webfolder (filemaps w ! i) = folder" using arg_cong [OF keys(1), of "\<lambda>xs. xs ! i"] i len by simp
  have "(filemaps w)[i := h (filemaps w ! i)] = map (on_matching folder h) (filemaps w)"
  proof (rule nth_equalityI)
    fix j assume "j < length ((filemaps w)[i := h (filemaps w ! i)])"
    then show "(filemaps w)[i := h (filemaps w ! i)] ! j = map (on_matching folder h) (filemaps w) ! j"
      using f i len keys(3) assms(2) nth_eq_iff_index_eq [OF keys(3), of i j]
      by (auto simp: nth_list_update on_matching_def)
  qed simp
  with Some p i len show ?thesis by (simp add: on_folder_def on_filemap_def)
qed

lemma for_filemaps_map:
  "webmaps_ok w \<Longrightarrow> for_filemaps (Some \<circ> h) (webfoldermaps w) w = Some (w\<lparr>filemaps := map h (filemaps w)\<rparr>)"
  by (subst for_filemaps_all) (auto simp: list_all_iff o_def)

lemma add_folder_mapping_map:
  "webmaps_ok w \<Longrightarrow> \<exists>err. add_folder_mapping folder k v w =
     Some (err, w\<lparr>filemaps := map (on_matching folder (insert_folder_mapping k v)) (filemaps w)\<rparr>)"
  using on_folder_map [of w folder "insert_folder_mapping k v"] for_filemaps_map [of w "insert_folder_mapping k v"]
  by (auto simp: add_folder_mapping_def on_matching_def)

lemma add_content_type_mapping_map:
  "webmaps_ok w \<Longrightarrow> \<exists>err. add_content_type_mapping folder k v w =
     Some (err, w\<lparr>filemaps := map (on_matching folder (insert_content_type k v)) (filemaps w)\<rparr>)"
  using on_folder_map [of w folder "insert_content_type k v"] for_filemaps_map [of w "insert_content_type k v"]
  by (auto simp: add_content_type_mapping_def on_matching_def)

subsection \<open>All mappings\<close>

definition keeps_object :: "(filemap \<Rightarrow> filemap) \<Rightarrow> bool" where
  "keeps_object h \<longleftrightarrow> (\<forall>fm. webfolder (h fm) = webfolder fm \<and> (filemap_ok fm \<longrightarrow> filemap_ok (h fm)))"

lemma keeps_object_insert:
  "keeps_object (insert_folder_mapping k v)" "keeps_object (insert_content_type k v)"
  by (auto simp: keeps_object_def insert_folder_mapping_def insert_content_type_def filemap_ok_def list_insert_distinct)

lemma keeps_object_matching: "keeps_object h \<Longrightarrow> keeps_object (on_matching folder h)"
  by (simp add: keeps_object_def on_matching_def)

lemma webmaps_ok_map:
  assumes "webmaps_ok w" "keeps_object h"
  shows "webmaps_ok (w\<lparr>filemaps := map h (filemaps w)\<rparr>)"
proof -
  have "webfolder \<circ> h = webfolder" using assms(2) by (auto simp: keeps_object_def)
  with assms show ?thesis by (simp add: webmaps_ok_def keeps_object_def list_all_iff)
qed

definition apply_entries :: "(string \<Rightarrow> string \<Rightarrow> filemap \<Rightarrow> filemap) \<Rightarrow> (string \<times> string \<times> string) list \<Rightarrow> filemap \<Rightarrow> filemap" where
  "apply_entries h es = fold (\<lambda>(folder, k, v). on_matching folder (h k v)) es"

lemma keeps_object_entries:
  assumes "\<And>k v. keeps_object (h k v)"
  shows "keeps_object (apply_entries h es)"
proof (induction es)
  case (Cons e es)
  obtain folder k v where e: "e = (folder, k, v)" by (cases e)
  have "keeps_object (on_matching folder (h k v))" by (rule keeps_object_matching) (rule assms)
  with Cons show ?case by (simp add: apply_entries_def e keeps_object_def)
qed (simp add: apply_entries_def keeps_object_def)

lemma mapping_loop_map:
  assumes "\<And>folder k v w. webmaps_ok w \<Longrightarrow>
      \<exists>err. add folder k v w = Some (err, w\<lparr>filemaps := map (on_matching folder (h k v)) (filemaps w)\<rparr>)"
    "\<And>k v. keeps_object (h k v)"
  shows "webmaps_ok w \<Longrightarrow> mapping_loop add es w = Some (w\<lparr>filemaps := map (apply_entries h es) (filemaps w)\<rparr>)"
proof (induction es arbitrary: w)
  case (Cons e es)
  obtain folder k v where e: "e = (folder, k, v)" by (cases e)
  let ?w = "w\<lparr>filemaps := map (on_matching folder (h k v)) (filemaps w)\<rparr>"
  obtain err where "add folder k v w = Some (err, ?w)" using assms(1) [OF Cons.prems] by blast
  moreover have "webmaps_ok ?w" using Cons.prems assms(2) by (intro webmaps_ok_map keeps_object_matching)
  ultimately show ?case using Cons.IH [of ?w] by (simp add: e apply_entries_def o_def)
qed (simp add: apply_entries_def)

definition mapping_step :: "mapping_conf \<Rightarrow> filemap \<Rightarrow> filemap" where
  "mapping_step mc =
     (if mc_Type mc = ''folder'' then apply_entries insert_folder_mapping (mapping_entries mc)
      else if mc_Type mc = ''extension'' then apply_entries insert_content_type (mapping_entries mc)
      else id)"

lemma keeps_object_step: "keeps_object (mapping_step mc)"
  using keeps_object_entries [OF keeps_object_insert(1)] keeps_object_entries [OF keeps_object_insert(2)]
  by (simp add: mapping_step_def) (simp add: keeps_object_def)

lemma keeps_object_steps: "keeps_object (fold mapping_step mcs)"
  using keeps_object_step by (induction mcs) (simp_all add: keeps_object_def)

lemma apply_mapping_map:
  "webmaps_ok w \<Longrightarrow> apply_mapping mc w = Some (w\<lparr>filemaps := map (mapping_step mc) (filemaps w)\<rparr>)"
  using mapping_loop_map [OF add_folder_mapping_map keeps_object_insert(1)]
    mapping_loop_map [OF add_content_type_mapping_map keeps_object_insert(2)]
  by (simp add: apply_mapping_def mapping_step_def)

lemma apply_mappings_map:
  "webmaps_ok w \<Longrightarrow> apply_mappings mcs w = Some (w\<lparr>filemaps := map (fold mapping_step mcs) (filemaps w)\<rparr>)"
proof (induction mcs arbitrary: w)
  case (Cons mc mcs)
  let ?w = "w\<lparr>filemaps := map (mapping_step mc) (filemaps w)\<rparr>"
  have "webmaps_ok ?w" by (intro webmaps_ok_map Cons.prems keeps_object_step)
  then show ?case using Cons.IH [of ?w] apply_mapping_map [OF Cons.prems, of mc] by (simp add: o_def)
qed simp

text \<open>The entries of a kind that concern a folder, in their order; of two for a key the first counts.\<close>

definition entries_for :: "string \<Rightarrow> (string \<times> string \<times> string) list \<Rightarrow> (string \<times> string) list" where
  "entries_for folder es = map snd (filter (\<lambda>e. fst e = ''*'' \<or> folder = fst e) es)"

definition conf_maps :: "string \<Rightarrow> string \<Rightarrow> mapping_conf list \<Rightarrow> (string \<times> string) list" where
  "conf_maps ty folder mcs =
     entries_for folder (concat (map mapping_entries (filter (\<lambda>mc. mc_Type mc = ty) mcs)))"

lemma entries_folder:
  "map_of (folder_mappings (apply_entries insert_folder_mapping es fm)) =
     map_of (entries_for (webfolder fm) es) ++ map_of (folder_mappings fm)"
  "set (folder_mappings (apply_entries insert_folder_mapping es fm)) \<subseteq>
     set (folder_mappings fm) \<union> set (entries_for (webfolder fm) es)"
  "content_type_map (apply_entries insert_folder_mapping es fm) = content_type_map fm"
  "webfolder (apply_entries insert_folder_mapping es fm) = webfolder fm"
  "cache (apply_entries insert_folder_mapping es fm) = cache fm"
proof (induction es arbitrary: fm)
  case (Cons e es)
  { case 1 show ?case using Cons(1)
      by (cases e) (auto simp: apply_entries_def on_matching_def insert_folder_mapping_def entries_for_def
          list_insert_def map_add_def fun_eq_iff split: option.splits) }
  { case 2 show ?case using Cons(2)
      by (cases e) (fastforce simp: apply_entries_def on_matching_def insert_folder_mapping_def entries_for_def
          list_insert_def split: if_splits) }
  { case 3 show ?case using Cons(3) by (cases e) (simp add: apply_entries_def on_matching_def insert_folder_mapping_def) }
  { case 4 show ?case using Cons(4) by (cases e) (simp add: apply_entries_def on_matching_def insert_folder_mapping_def) }
  { case 5 show ?case using Cons(5) by (cases e) (simp add: apply_entries_def on_matching_def insert_folder_mapping_def) }
qed (simp_all add: apply_entries_def entries_for_def)

lemma entries_extension:
  "content_type_map (apply_entries insert_content_type es fm) =
     map_of (entries_for (webfolder fm) es) ++ content_type_map fm"
  "folder_mappings (apply_entries insert_content_type es fm) = folder_mappings fm"
  "webfolder (apply_entries insert_content_type es fm) = webfolder fm"
  "cache (apply_entries insert_content_type es fm) = cache fm"
proof (induction es arbitrary: fm)
  case (Cons e es)
  { case 1 show ?case using Cons(1)
      by (cases e) (auto simp: apply_entries_def on_matching_def insert_content_type_def entries_for_def
          table_insert_def map_add_def fun_eq_iff split: option.splits) }
  { case 2 show ?case using Cons(2) by (cases e) (simp add: apply_entries_def on_matching_def insert_content_type_def) }
  { case 3 show ?case using Cons(3) by (cases e) (simp add: apply_entries_def on_matching_def insert_content_type_def) }
  { case 4 show ?case using Cons(4) by (cases e) (simp add: apply_entries_def on_matching_def insert_content_type_def) }
qed (simp_all add: apply_entries_def entries_for_def)

lemma entries_for_append: "entries_for folder (es @ es') = entries_for folder es @ entries_for folder es'"
  by (simp add: entries_for_def)

lemma conf_maps_Cons: "conf_maps ty folder (mc # mcs) = conf_maps ty folder [mc] @ conf_maps ty folder mcs"
  by (simp add: conf_maps_def entries_for_def)

lemma step_fields:
  "map_of (folder_mappings (mapping_step mc fm)) =
     map_of (conf_maps ''folder'' (webfolder fm) [mc]) ++ map_of (folder_mappings fm)"
  "set (folder_mappings (mapping_step mc fm)) \<subseteq>
     set (folder_mappings fm) \<union> set (conf_maps ''folder'' (webfolder fm) [mc])"
  "content_type_map (mapping_step mc fm) = map_of (conf_maps ''extension'' (webfolder fm) [mc]) ++ content_type_map fm"
  "webfolder (mapping_step mc fm) = webfolder fm"
  "cache (mapping_step mc fm) = cache fm"
  using entries_folder [of "mapping_entries mc" fm] entries_extension [of "mapping_entries mc" fm]
  by (simp_all add: mapping_step_def conf_maps_def) (auto simp: entries_for_def)

lemma steps_fields:
  "map_of (folder_mappings (fold mapping_step mcs fm)) =
     map_of (conf_maps ''folder'' (webfolder fm) mcs) ++ map_of (folder_mappings fm)"
  "set (folder_mappings (fold mapping_step mcs fm)) \<subseteq>
     set (folder_mappings fm) \<union> set (conf_maps ''folder'' (webfolder fm) mcs)"
  "content_type_map (fold mapping_step mcs fm) = map_of (conf_maps ''extension'' (webfolder fm) mcs) ++ content_type_map fm"
  "webfolder (fold mapping_step mcs fm) = webfolder fm"
  "cache (fold mapping_step mcs fm) = cache fm"
proof (induction mcs arbitrary: fm)
  case (Cons mc mcs)
  { case 1 show ?case
      unfolding fold_simps Cons(1) step_fields(1,4) conf_maps_Cons [of _ _ mc mcs] map_of_append by simp }
  { case 2 show ?case using Cons(2) [of "mapping_step mc fm"] step_fields(2,4) [of mc fm]
      unfolding conf_maps_Cons [of _ _ mc mcs] by auto }
  { case 3 show ?case
      unfolding fold_simps Cons(3) step_fields(3,4) conf_maps_Cons [of _ _ mc mcs] map_of_append by simp }
  { case 4 show ?case using Cons(4) [of "mapping_step mc fm"] step_fields(4) [of mc fm] by simp }
  { case 5 show ?case using Cons(5) [of "mapping_step mc fm"] step_fields(5) [of mc fm] by simp }
qed (simp_all add: conf_maps_def entries_for_def)

subsection \<open>The servers that are made\<close>

definition web_server :: "server_conf \<Rightarrow> bool" where
  "web_server sc \<longleftrightarrow> sc_IP sc = ''*'' \<and> sc_port sc \<noteq> 0 \<and> sc_TYPE sc \<in> {''http'', ''https''}"

text \<open>The folder a port leads to.\<close>

definition port_folder :: "webmaps \<Rightarrow> ipv6_port \<Rightarrow> string option" where
  "port_folder w port = map_option (\<lambda>p. webfolder (filemaps w ! p)) (webportmaps w port)"

definition untouched :: "webmaps \<Rightarrow> bool" where
  "untouched w \<longleftrightarrow> list_all (\<lambda>fm. fm = new_filemap (webfolder fm)) (filemaps w)"

lemma web_add_folder_state:
  assumes "webmaps_ok w" "untouched w"
  shows "untouched (web_add_folder port folder w)"
    "port_folder (web_add_folder port folder w) = (port_folder w)(port \<mapsto> folder)"
    "set (map webfolder (filemaps (web_add_folder port folder w))) = insert folder (set (map webfolder (filemaps w)))"
proof -
  have keys: "map fst (webfoldermaps w) = map webfolder (filemaps w)" "map snd (webfoldermaps w) = [0..<length (filemaps w)]"
    and ports: "\<And>q p. webportmaps w q = Some p \<Longrightarrow> p < length (filemaps w)"
    using assms(1) by (auto simp: webmaps_ok_def)
  have "untouched (web_add_folder port folder w) \<and>
    port_folder (web_add_folder port folder w) = (port_folder w)(port \<mapsto> folder) \<and>
    set (map webfolder (filemaps (web_add_folder port folder w))) = insert folder (set (map webfolder (filemaps w)))"
  proof (cases "map_of (webfoldermaps w) folder")
    case None
    with assms(2) ports show ?thesis
      by (auto simp: web_add_folder_def Let_def untouched_def new_filemap_def port_folder_def fun_eq_iff nth_append
          map_option_case split: option.splits)
  next
    case (Some p)
    then have "(folder, p) \<in> set (webfoldermaps w)" by (rule map_of_SomeD)
    then obtain i where i: "i < length (webfoldermaps w)" "webfoldermaps w ! i = (folder, p)" by (auto simp: in_set_conv_nth)
    have len: "length (webfoldermaps w) = length (filemaps w)" using keys(1) by (metis length_map)
    have "p = i" using arg_cong [OF keys(2), of "\<lambda>xs. xs ! i"] i len by simp
    moreover have "webfolder (filemaps w ! i) = folder" using arg_cong [OF keys(1), of "\<lambda>xs. xs ! i"] i len by simp
    moreover from this i len have "folder \<in> set (map webfolder (filemaps w))" by (metis length_map nth_map nth_mem)
    ultimately show ?thesis using assms(2) Some
      by (simp add: web_add_folder_def Let_def untouched_def port_folder_def fun_eq_iff insert_absorb)
  qed
  then show "untouched (web_add_folder port folder w)"
    "port_folder (web_add_folder port folder w) = (port_folder w)(port \<mapsto> folder)"
    "set (map webfolder (filemaps (web_add_folder port folder w))) = insert folder (set (map webfolder (filemaps w)))"
    by blast+
qed

lemma create_web_server:
  assumes "\<forall>sp. starts sp" "webmaps_ok (ds_web ds)" "untouched (ds_web ds)"
  shows "\<exists>ds'. create_server starts add_watch disk sc ds = Some ds' \<and> webmaps_ok (ds_web ds') \<and> untouched (ds_web ds') \<and>
    port_folder (ds_web ds') = (if web_server sc then (port_folder (ds_web ds))(web_port sc \<mapsto> sc_Folder sc)
      else port_folder (ds_web ds)) \<and>
    set (map webfolder (filemaps (ds_web ds'))) \<subseteq> set (map webfolder (filemaps (ds_web ds))) \<union>
      (if web_server sc then {sc_Folder sc} else {})"
  using assms web_add_folder_state [OF assms(2,3), of "web_port sc" "sc_Folder sc"] webmaps_ok_add_folder [OF assms(2)]
  by (auto simp: create_server_def Let_def start_server_def start_web_server_def web_server_def)

lemma create_web_servers:
  assumes "\<forall>sp. starts sp" "webmaps_ok (ds_web ds)" "untouched (ds_web ds)"
  shows "\<exists>ds'. create_servers starts add_watch disk scs ds = Some ds' \<and> webmaps_ok (ds_web ds') \<and> untouched (ds_web ds') \<and>
    port_folder (ds_web ds') = port_folder (ds_web ds) ++ map_of (map (\<lambda>sc. (web_port sc, sc_Folder sc)) (rev (filter web_server scs))) \<and>
    set (map webfolder (filemaps (ds_web ds'))) \<subseteq> set (map webfolder (filemaps (ds_web ds))) \<union> sc_Folder ` {sc \<in> set scs. web_server sc}"
  using assms(2,3)
proof (induction scs arbitrary: ds)
  case (Cons sc scs)
  obtain ds1 where ds1: "create_server starts add_watch disk sc ds = Some ds1" "webmaps_ok (ds_web ds1)" "untouched (ds_web ds1)"
    "port_folder (ds_web ds1) = (if web_server sc then (port_folder (ds_web ds))(web_port sc \<mapsto> sc_Folder sc)
      else port_folder (ds_web ds))"
    "set (map webfolder (filemaps (ds_web ds1))) \<subseteq> set (map webfolder (filemaps (ds_web ds))) \<union>
      (if web_server sc then {sc_Folder sc} else {})"
    using create_web_server [OF assms(1) Cons.prems] by blast
  obtain ds2 where ds2: "create_servers starts add_watch disk scs ds1 = Some ds2" "webmaps_ok (ds_web ds2)" "untouched (ds_web ds2)"
    "port_folder (ds_web ds2) = port_folder (ds_web ds1) ++ map_of (map (\<lambda>sc. (web_port sc, sc_Folder sc)) (rev (filter web_server scs)))"
    "set (map webfolder (filemaps (ds_web ds2))) \<subseteq> set (map webfolder (filemaps (ds_web ds1))) \<union> sc_Folder ` {sc \<in> set scs. web_server sc}"
    using Cons.IH [OF ds1(2,3)] by blast
  have "port_folder (ds_web ds2) = port_folder (ds_web ds) ++
      map_of (map (\<lambda>sc. (web_port sc, sc_Folder sc)) (rev (filter web_server (sc # scs))))"
    unfolding ds2(4) ds1(4) by (simp add: map_add_def fun_eq_iff split: option.splits)
  moreover have "set (map webfolder (filemaps (ds_web ds2))) \<subseteq> set (map webfolder (filemaps (ds_web ds))) \<union>
      sc_Folder ` {sc' \<in> set (sc # scs). web_server sc'}"
  proof -
    have "(if web_server sc then {sc_Folder sc} else {}) \<union> sc_Folder ` {sc \<in> set scs. web_server sc} \<subseteq>
        sc_Folder ` {sc' \<in> set (sc # scs). web_server sc'}" by auto
    with ds1(5) ds2(5) show ?thesis by blast
  qed
  ultimately show ?case using ds1(1) ds2(1-3) by simp
qed simp

subsection \<open>The files a configured server has\<close>

lemma mapped_cong:
  assumes "map_of kvs = map_of kvs'"
  shows "mapped kvs = mapped kvs'"
  by (intro ext) (simp only: mapped_def assms)

lemma unchained_subset:
  assumes "unchained kvs" "set kvs' \<subseteq> set kvs"
  shows "unchained kvs'"
proof -
  have keys: "fst ` set kvs' \<subseteq> fst ` set kvs" using assms(2) by (rule image_mono)
  have "snd e \<notin> fst ` set kvs'" if "e \<in> set kvs'" for e
  proof -
    have "e \<in> set kvs" using that assms(2) by (rule rev_subsetD)
    then have "snd e \<notin> fst ` set kvs" using assms(1) by (simp add: unchained_def list_all_iff case_prod_beta)
    with keys show ?thesis by (rule contra_subsetD)
  qed
  then show ?thesis by (simp add: unchained_def list_all_iff case_prod_beta)
qed

definition conf_files_small :: "(string \<Rightarrow> folder) \<Rightarrow> server_conf \<Rightarrow> bool" where
  "conf_files_small disk sc \<longleftrightarrow>
     (web_server sc \<longrightarrow> list_all small_file (readable_files ''/'' (disk (sc_Folder sc @ ''/''))))"

definition configured_cache :: "(string \<Rightarrow> folder) \<Rightarrow> string \<Rightarrow> mapping_conf list \<Rightarrow> string \<Rightarrow> file_info option" where
  "configured_cache disk folder mcs =
     mapped (conf_maps ''folder'' folder mcs)
       (map_of (file_entries (map_of (conf_maps ''extension'' folder mcs)) (readable_files ''/'' (disk (folder @ ''/'')))))"

lemma configured_filemap:
  assumes "list_all small_file (readable_files ''/'' (disk (folder @ ''/'')))" "unchained (conf_maps ''folder'' folder mcs)"
  shows "\<exists>fm. update_twice disk (fold mapping_step mcs (new_filemap folder)) = Some fm \<and>
    webfolder fm = folder \<and> cache fm = configured_cache disk folder mcs"
proof -
  let ?fm = "fold mapping_step mcs (new_filemap folder)"
  have fields: "map_of (folder_mappings ?fm) = map_of (conf_maps ''folder'' folder mcs)"
    "set (folder_mappings ?fm) \<subseteq> set (conf_maps ''folder'' folder mcs)"
    "content_type_map ?fm = map_of (conf_maps ''extension'' folder mcs)" "webfolder ?fm = folder" "cache ?fm = Map.empty"
    using steps_fields [of mcs "new_filemap folder"] by (simp_all add: new_filemap_def)
  have "filemap_ok (new_filemap folder)" by (simp add: new_filemap_def filemap_ok_def cache_ok_def)
  then have "filemap_ok ?fm" using keeps_object_steps [of mcs] unfolding keeps_object_def by blast
  then have "update_twice disk ?fm = Some (?fm\<lparr>cache := mapped (folder_mappings ?fm)
      (map_of (file_entries (content_type_map ?fm) (disk_files disk ?fm)) ++ cache ?fm)\<rparr>)"
    using assms(1) unchained_subset [OF assms(2) fields(2)]
    by (intro update_twice_unchained) (simp_all add: disk_files_def fields(4))
  moreover have "mapped (folder_mappings ?fm) (map_of (file_entries (content_type_map ?fm) (disk_files disk ?fm)) ++ cache ?fm) =
      configured_cache disk folder mcs"
    by (simp only: mapped_cong [OF fields(1)] fields(3-5) disk_files_def configured_cache_def map_add_empty)
  ultimately show ?thesis using fields(4) by simp
qed

lemma execute_config_files:
  assumes "\<forall>sp. starts sp" "list_all (conf_files_small disk) scs"
    "map_of (map (\<lambda>sc. (web_port sc, sc_Folder sc)) (rev (filter web_server scs))) port = Some folder"
    "unchained (conf_maps ''folder'' folder mcs)"
  shows "\<exists>ds fm. execute_config starts add_watch disk scs mcs new_device_server = Some ds \<and>
    getfilemap port (ds_web ds) = Some (Inr fm) \<and> webfolder fm = folder \<and> cache fm = configured_cache disk folder mcs"
proof -
  have start: "webmaps_ok (ds_web new_device_server)" "untouched (ds_web new_device_server)"
    by (simp_all add: new_device_server_def new_webmaps_def webmaps_ok_def untouched_def)
  obtain ds1 where ds1: "create_servers starts add_watch disk scs new_device_server = Some ds1" "webmaps_ok (ds_web ds1)"
    "untouched (ds_web ds1)" "port_folder (ds_web ds1) port = Some folder"
    "set (map webfolder (filemaps (ds_web ds1))) \<subseteq> sc_Folder ` {sc \<in> set scs. web_server sc}"
  proof -
    have "(port_folder (ds_web new_device_server) ++
        map_of (map (\<lambda>sc. (web_port sc, sc_Folder sc)) (rev (filter web_server scs)))) port = Some folder"
      using assms(3) by (simp only: map_add_Some_iff simp_thms)
    moreover have "set (map webfolder (filemaps (ds_web new_device_server))) = {}"
      by (simp add: new_device_server_def new_webmaps_def)
    ultimately show thesis
      using create_web_servers [OF assms(1) start, of add_watch disk scs] that by (metis Un_empty_left)
  qed
  define w1 w2 where "w1 = ds_web ds1" and "w2 = w1\<lparr>filemaps := map (fold mapping_step mcs) (filemaps w1)\<rparr>"
  have w2: "webmaps_ok w2" unfolding w2_def w1_def by (intro webmaps_ok_map ds1(2) keeps_object_steps)
  have small: "list_all small_file (disk_files disk fm)" if "fm \<in> set (filemaps w1)" for fm
  proof -
    have "webfolder fm \<in> set (map webfolder (filemaps (ds_web ds1)))" using that by (simp add: w1_def)
    then obtain sc where "sc \<in> set scs" "web_server sc" "sc_Folder sc = webfolder fm"
      using subsetD [OF ds1(5), of "webfolder fm"] by (auto simp del: set_map)
    with assms(2) show ?thesis by (auto simp: list_all_iff conf_files_small_def disk_files_def)
  qed
  have "list_all (\<lambda>fm. update_twice disk fm \<noteq> None) (filemaps w2)"
  proof -
    have "update_twice disk (fold mapping_step mcs fm) \<noteq> None" if "fm \<in> set (filemaps w1)" for fm
      using small [OF that] by (subst update_twice_files) (simp_all add: disk_files_def steps_fields(4))
    then show ?thesis by (simp add: w2_def list_all_iff)
  qed
  from for_filemaps_all [OF w2 this]
  have run: "execute_config starts add_watch disk scs mcs new_device_server =
      Some (ds1\<lparr>ds_web := w2\<lparr>filemaps := map (the \<circ> update_twice disk) (filemaps w2)\<rparr>\<rparr>)"
    using ds1(1) apply_mappings_map [OF ds1(2), of mcs]
    by (simp add: execute_config_def web_update_folder_def w2_def w1_def)
  obtain p where p: "webportmaps w1 port = Some p" "webfolder (filemaps w1 ! p) = folder"
    using ds1(4) by (auto simp: port_folder_def w1_def)
  then have len: "p < length (filemaps w1)" using ds1(2) by (simp add: webmaps_ok_def w1_def)
  then have new: "filemaps w1 ! p = new_filemap folder"
    using ds1(3) p(2) unfolding untouched_def w1_def list_all_length by metis
  have "list_all small_file (readable_files ''/'' (disk (folder @ ''/'')))"
    using small [of "filemaps w1 ! p"] len p(2) by (simp add: disk_files_def)
  from configured_filemap [of disk folder mcs, OF this assms(4)] obtain fm where
    "update_twice disk (fold mapping_step mcs (new_filemap folder)) = Some fm" "webfolder fm = folder"
    "cache fm = configured_cache disk folder mcs" by blast
  then show ?thesis using run p(1) len new
    by (simp add: getfilemap_def load_def w2_def)
qed

text \<open>
  C14: When the listening sockets can be opened and no file has 2 GB, the configuration is executed,
  and the port of every web server of it, as far as no later one has the same port, has a cache
  with exactly the readable files of the folder of that server with a type the configuration gives
  for that folder or for all, and the mapped paths it gives for them.  The mappings of the folder are
  unchained: no target of one is the source of another (chained ones depend on the order of the hash
  table).
\<close>

theorem configured_server_files:
  assumes "\<forall>sp. starts sp" "list_all (conf_files_small disk) (before @ sc # after)" "web_server sc"
    "list_all (\<lambda>sc'. \<not> web_server sc' \<or> web_port sc' \<noteq> web_port sc) after"
    "unchained (conf_maps ''folder'' (sc_Folder sc) mcs)"
  shows "\<exists>ds fm. execute_config starts add_watch disk (before @ sc # after) mcs new_device_server = Some ds \<and>
    getfilemap (web_port sc) (ds_web ds) = Some (Inr fm) \<and> webfolder fm = sc_Folder sc \<and>
    cache fm = configured_cache disk (sc_Folder sc) mcs"
proof (rule execute_config_files [OF assms(1,2) _ assms(5)])
  let ?pair = "\<lambda>sc. (web_port sc, sc_Folder sc)"
  have "map_of (map ?pair (rev (filter web_server after))) (web_port sc) = None"
    using assms(4) by (auto simp: map_of_eq_None_iff list_all_iff)
  then show "map_of (map ?pair (rev (filter web_server (before @ sc # after)))) (web_port sc) = Some (sc_Folder sc)"
    using assms(3) by (simp add: map_add_def)
qed

text \<open>Every file without a null character is read past its end.\<close>

lemma configuration_overread: "NUL \<notin> set buffer \<Longrightarrow> load_config_string (Some buffer) = None"
  by (simp add: load_config_string_def)

text \<open>The limits: the server starts exactly when both buffers are large enough at the end.\<close>

lemma check_buffer_success:
  "check_buffer ge se limit calls = Inr None \<longleftrightarrow>
     (\<exists>n. bc_original calls = Some n \<and> (limit \<le> n \<or> bc_set calls \<and> (\<exists>m. bc_new calls = Some m \<and> limit \<le> m)))"
  by (auto simp: check_buffer_def get_buffer_size_def set_buffer_size_def split: option.splits)

subsection \<open>Instances\<close>

abbreviation demo_server :: "string \<Rightarrow> int \<Rightarrow> string \<Rightarrow> server_conf" where
  "demo_server ty port folder \<equiv> \<lparr>sc_IP = ''*'', sc_TYPE = ty, sc_port = port, sc_CertFile = [], sc_PrikeyFile = [],
     sc_Folder = folder\<rparr>"

abbreviation demo_mappings :: "mapping_conf list" where
  "demo_mappings \<equiv>
     [\<lparr>mc_Type = ''extension'', mc_Folders = [''*''], mc_Maps = [(''html'', ''text/html'')]\<rparr>,
      \<lparr>mc_Type = ''folder'', mc_Folders = [''/www'', ''/other''], mc_Maps = [(''/'', ''/a.html'')]\<rparr>]"

theorem configured_server_files_witness:
  "\<exists>ds fm. execute_config (\<lambda>_. True) (\<lambda>_. Some 1) demo_disk
      [demo_server ''simple'' 8080 [], demo_server ''http'' 80 ''/www'', demo_server ''https'' 443 ''/www''] demo_mappings
      new_device_server = Some ds \<and>
    getfilemap (ipv6_port_of 80) (ds_web ds) = Some (Inr fm) \<and>
    map_option content (cache fm ''/'') = Some [104, 105] \<and> cache fm ''/b.html'' = None"
proof -
  have maps: "conf_maps ''folder'' ''/www'' demo_mappings = [(''/'', ''/a.html'')]"
    "conf_maps ''extension'' ''/www'' demo_mappings = [(''html'', ''text/html'')]"
    by (simp_all add: conf_maps_def entries_for_def mapping_entries_def)
  have files: "readable_files ''/'' (demo_disk path) = [(''/a.html'', demo_file)]" for path
    by (simp add: demo_disk_def special_name_def)
  have "list_all (conf_files_small demo_disk)
      ([demo_server ''simple'' 8080 []] @ demo_server ''http'' 80 ''/www'' # [demo_server ''https'' 443 ''/www''])"
    by (simp add: conf_files_small_def files small_file_def demo_file_def)
  moreover have "web_port (demo_server ''https'' 443 ''/www'') \<noteq> web_port (demo_server ''http'' 80 ''/www'')"
    by (simp add: web_port_def ipv6_port_of_def changeEndian16_def)
  moreover have "unchained (conf_maps ''folder'' ''/www'' demo_mappings)" by (simp add: maps unchained_def)
  moreover have "map_option content (configured_cache demo_disk ''/www'' demo_mappings ''/'') = Some [104, 105]"
    "configured_cache demo_disk ''/www'' demo_mappings ''/b.html'' = None"
    by (simp_all add: configured_cache_def maps files mapped_def file_entries_def servable_def file_entry_def
        type_of_path_def demo_file_def)
  ultimately show ?thesis
    using configured_server_files [of "\<lambda>_. True" demo_disk "[demo_server ''simple'' 8080 []]" "demo_server ''http'' 80 ''/www''"
        "[demo_server ''https'' 443 ''/www'']" demo_mappings "\<lambda>_. Some 1"]
    by (auto simp: web_server_def web_port_def)
qed

end
