(* ===== verification/Crypto.thy ===== *)
theory Crypto
  imports IotPrelude Errors MathConv Guid
begin

text \<open>
  serverlib/include/iot/security/crypto.hh and serverlib/lib/security/crypto.cc: the layout of
  encrypted data, encryption and decryption with AES 256 GCM, symmetric keys agreed on with
  elliptic curve keys, and the printing of keys; \<open>mem\<close> of core/memory_helper.hh.

  OpenSSL is an argument: the record \<open>gcm\<close> holds the calls on a cipher context, the record \<open>ec\<close>
  the calls on keys; a call that fails is \<open>None\<close>.  \<open>OPENSSL_malloc\<close> and \<open>RAND_bytes\<close> are arguments
  of the functions that call them.  What the code relies on is stated by \<open>gcm_lawful\<close> and by the
  hypotheses of the lemmas on the key agreement.  An access outside a block is \<open>None\<close>.
\<close>

subsection \<open>Memory\<close>

text \<open>
  \<open>mem\<close>: the block behind the pointer, or the null pointer, and the size the code keeps.  The
  destructor and \<open>free\<close> of \<open>openssl_mem\<close> give the block back.
\<close>

record mem =
  mem_ptr :: "u8 list option"
  mem_size :: u64

definition mem_null :: mem where
  "mem_null = \<lparr>mem_ptr = None, mem_size = 0\<rparr>"

definition openssl_mem_free :: "mem \<Rightarrow> mem" where
  "openssl_mem_free m = m\<lparr>mem_ptr := None, mem_size := 0\<rparr>"

text \<open>
  \<open>operator=\<close> of \<open>openssl_mem\<close> and \<open>openssl_ec_key_mem\<close>: a second block is an exception, which is compiled
  in when \<open>config::debug\<close> is set, as config.hh does (\<open>constexpr bool debug = true\<close>).
\<close>

definition openssl_mem_assign :: "u8 list option \<Rightarrow> mem \<Rightarrow> err_t + mem" where
  "openssl_mem_assign rhs m =
     (case mem_ptr m of Some _ \<Rightarrow> Inl CRYPTO_MEMORY_BAD_ASSIGNMENT | None \<Rightarrow> Inr (m\<lparr>mem_ptr := rhs\<rparr>))"

definition ec_key_assign :: "'k option \<Rightarrow> 'k option \<Rightarrow> err_t + 'k option" where
  "ec_key_assign rhs key = (case key of Some _ \<Rightarrow> Inl CRYPTO_MEMORY_BAD_ASSIGNMENT | None \<Rightarrow> Inr rhs)"

definition mem_hex :: "u8 list \<Rightarrow> string" where
  "mem_hex bs = concat (map (\<lambda>v. [digit_char upper (unat v div 16), digit_char upper (unat v mod 16)]) bs)"

text \<open>The bytes from the pointer to the end of the block.\<close>

definition mem_bytes :: "mem \<Rightarrow> u8 list option" where
  "mem_bytes m =
     (if mem_size m = 0 then Some []
      else do { block \<leftarrow> mem_ptr m; subrange block 0 (unat (mem_size m)) })"

definition mem_to_string :: "mem \<Rightarrow> string option" where
  "mem_to_string m = do { bs \<leftarrow> mem_bytes m; Some (mem_hex bs) }"

text \<open>A store of bytes into a block.\<close>

definition poke :: "u8 list \<Rightarrow> nat \<Rightarrow> u8 list \<Rightarrow> u8 list option" where
  "poke block i bs =
     (if i + length bs \<le> length block then Some (take i block @ bs @ drop (i + length bs) block) else None)"

lemma length_poke: "poke block i bs = Some block' \<Longrightarrow> length block' = length block"
  by (auto simp: poke_def split: if_splits)

lemma poke_Some_iff: "(\<exists>block'. poke block i bs = Some block') \<longleftrightarrow> i + length bs \<le> length block"
  by (simp add: poke_def)

lemma subrange_poke_same:
  "poke block i bs = Some block' \<Longrightarrow> n = length bs \<Longrightarrow> subrange block' i n = Some bs"
  by (auto simp: poke_def subrange_def split: if_splits)

lemma subrange_poke_other:
  assumes "poke block i bs = Some block'" "j + n \<le> i \<or> i + length bs \<le> j"
  shows "subrange block' j n = subrange block j n"
proof -
  from assms(1) have fits: "i + length bs \<le> length block"
    and block': "block' = take i block @ bs @ drop (i + length bs) block"
    by (auto simp: poke_def split: if_splits)
  have len: "length block' = length block" using fits block' by simp
  have "take n (drop j block') = take n (drop j block)" if "j + n \<le> length block"
  proof (rule nth_equalityI)
    show "length (take n (drop j block')) = length (take n (drop j block))" using len by simp
    fix q assume "q < length (take n (drop j block'))"
    then have "q < n" "j + q < length block" using len by auto
    then show "take n (drop j block') ! q = take n (drop j block) ! q"
      using assms(2) fits len by (auto simp: block' nth_append)
  qed
  then show ?thesis by (simp add: subrange_def len)
qed

subsection \<open>Keys and encrypted data\<close>

text \<open>
  \<open>key_t\<close> and \<open>key_aes_256_gsm_t\<close>.  The identifier is any 16-bit value of memory; the enumeration
  names only \<open>aes_256_gsm\<close>.
\<close>

definition aes_256_gsm :: u16 where "aes_256_gsm = 0"

definition key_size_in_bytes :: nat where "key_size_in_bytes = 256 div 8"

record key_aes_256_gsm_t =
  key_id :: u16
  symetric_key :: "u8 list"

definition key_to_string :: "key_aes_256_gsm_t \<Rightarrow> string" where
  "key_to_string key = ''aes_256_gsm:'' @ mem_hex (symetric_key key)"

text \<open>The fields of the packed \<open>encrypted_data_aes_256_gsm_t\<close>: offset and size.\<close>

definition aad_at :: nat where "aad_at = 0"
definition aad_size :: nat where "aad_size = 16"
definition iv_at :: nat where "iv_at = 16"
definition iv_size :: nat where "iv_size = 96 div 8"
definition tag_at :: nat where "tag_at = 28"
definition tag_size :: nat where "tag_size = 96 div 8"
definition data_size_at :: nat where "data_size_at = 40"
definition encrypted_header :: nat where "encrypted_header = 42"

lemmas layout_defs = aad_at_def aad_size_def iv_at_def iv_size_def tag_at_def tag_size_def
  data_size_at_def encrypted_header_def

subsection \<open>The cipher\<close>

text \<open>
  \<open>EVP_CIPHER_CTX_new\<close>, \<open>EVP_EncryptInit_ex\<close> with the cipher, with key and vector,
  \<open>EVP_EncryptUpdate\<close> without and with an output, \<open>EVP_EncryptFinal_ex\<close>, \<open>EVP_CTRL_GCM_GET_TAG\<close>,
  and the same for decryption with \<open>EVP_CTRL_GCM_SET_TAG\<close>.  An update is given the bytes it reads
  and the \<open>int\<close> length of the call.
\<close>

record 'c gcm =
  ctx_new :: "'c option"
  enc_cipher :: "'c \<Rightarrow> 'c option"
  enc_key :: "'c \<Rightarrow> u8 list \<Rightarrow> u8 list \<Rightarrow> 'c option"
  enc_aad :: "'c \<Rightarrow> u8 list \<Rightarrow> 'c option"
  enc_update :: "'c \<Rightarrow> u8 list \<Rightarrow> int \<Rightarrow> (u8 list \<times> 'c) option"
  enc_final :: "'c \<Rightarrow> (u8 list \<times> 'c) option"
  get_tag :: "'c \<Rightarrow> nat \<Rightarrow> u8 list option"
  dec_cipher :: "'c \<Rightarrow> 'c option"
  dec_key :: "'c \<Rightarrow> u8 list \<Rightarrow> u8 list \<Rightarrow> 'c option"
  dec_aad :: "'c \<Rightarrow> u8 list \<Rightarrow> 'c option"
  dec_update :: "'c \<Rightarrow> u8 list \<Rightarrow> int \<Rightarrow> (u8 list \<times> 'c) option"
  set_tag :: "'c \<Rightarrow> u8 list \<Rightarrow> 'c option"
  dec_final :: "'c \<Rightarrow> (u8 list \<times> 'c) option"

text \<open>One call of the ladder: the error of a call that failed, or the rest of the function.\<close>

definition attempt :: "err_t \<Rightarrow> 'a option \<Rightarrow> ('a \<Rightarrow> (err_t + 'b) option) \<Rightarrow> (err_t + 'b) option" where
  "attempt e call rest = (case call of None \<Rightarrow> Some (Inl e) | Some x \<Rightarrow> rest x)"

text \<open>\<open>data.size\<close> as the \<open>int\<close> parameter of an update, and the bytes the update reads.\<close>

definition int_length :: "u64 \<Rightarrow> int" where
  "int_length n = sint (ucast n :: u32)"

definition update_input :: "u8 list option \<Rightarrow> int \<Rightarrow> u8 list option" where
  "update_input block n =
     (if n \<le> 0 then Some [] else do { bs \<leftarrow> block; subrange bs 0 (nat n) })"

definition encrypt_ladder ::
  "'c gcm \<Rightarrow> u8 list option \<Rightarrow> u8 list \<Rightarrow> guid \<Rightarrow> mem \<Rightarrow> u8 list \<Rightarrow> (err_t + u8 list) option" where
  "encrypt_ladder g rand key random data block =
     attempt CRYPTO_CREATE_CONTEXT_FAILED (ctx_new g) (\<lambda>c.
     attempt CRYPTO_INIT_AES_FAILED (enc_cipher g c) (\<lambda>c. do {
       block \<leftarrow> (case rand of None \<Rightarrow> Some block | Some r \<Rightarrow> poke block iv_at r);
       iv \<leftarrow> subrange block iv_at iv_size;
     attempt CRYPTO_INIT_AES_FAILED (enc_key g c key iv) (\<lambda>c. do {
       block \<leftarrow> poke block aad_at random;
       aad \<leftarrow> subrange block aad_at aad_size;
     attempt CRYPTO_ENCRYPT_AES_FAILED (enc_aad g c aad) (\<lambda>c. do {
       input \<leftarrow> update_input (mem_ptr data) (int_length (mem_size data));
     attempt CRYPTO_ENCRYPT_AES_FAILED (enc_update g c input (int_length (mem_size data))) (\<lambda>(out, c). do {
       block \<leftarrow> poke block encrypted_header out;
       block \<leftarrow> poke block data_size_at (le16 (word_of_nat (length out)));
     attempt CRYPTO_ENCRYPT_AES_FAILED (enc_final g c) (\<lambda>(fin, c). do {
       block \<leftarrow> poke block (encrypted_header + length out) fin;
       block \<leftarrow> poke block data_size_at (le16 (word_of_nat (length out) + word_of_nat (length fin)));
     attempt CRYPTO_ENCRYPT_AES_FAILED (get_tag g c tag_size) (\<lambda>tag. do {
       block \<leftarrow> poke block tag_at tag;
       Some (Inr block) }) }) }) }) }) }))"

definition encrypted_size :: "u64 \<Rightarrow> u64" where
  "encrypted_size n = word_of_nat encrypted_header + ((n + 0xf) AND NOT 0xf)"

text \<open>
  \<open>encrypt_aes_256_gsm\<close>: \<open>malloc\<close> is \<open>OPENSSL_malloc\<close>, \<open>rand\<close> the bytes of \<open>RAND_bytes\<close>, whose
  failure is not looked at.
\<close>

definition encrypt_aes_256_gsm ::
  "'c gcm \<Rightarrow> (u64 \<Rightarrow> u8 list option) \<Rightarrow> u8 list option \<Rightarrow> key_aes_256_gsm_t \<Rightarrow> guid \<Rightarrow> mem \<Rightarrow> mem \<Rightarrow>
   (err_t \<times> mem) option" where
  "encrypt_aes_256_gsm g malloc rand key random data encrypted_data =
     (let encrypted_data = encrypted_data\<lparr>mem_size := encrypted_size (mem_size data),
                                           mem_ptr := malloc (encrypted_size (mem_size data))\<rparr>
      in case mem_ptr encrypted_data of
        None \<Rightarrow> Some (CRYPTO_MEMORY_FAILURE, encrypted_data)
      | Some block \<Rightarrow>
          do { res \<leftarrow> encrypt_ladder g rand (symetric_key key) random data block;
               Some (case res of
                  Inl e \<Rightarrow> (e, openssl_mem_free encrypted_data)
                | Inr block \<Rightarrow> (SUCCESS, encrypted_data\<lparr>mem_ptr := Some block\<rparr>)) })"

definition decrypt_ladder ::
  "'c gcm \<Rightarrow> u8 list \<Rightarrow> u8 list \<Rightarrow> u16 \<Rightarrow> u8 list \<Rightarrow> (err_t + u8 list \<times> u64) option" where
  "decrypt_ladder g key encrypted_data data_size block =
     attempt CRYPTO_CREATE_CONTEXT_FAILED (ctx_new g) (\<lambda>c.
     attempt CRYPTO_INIT_AES_FAILED (dec_cipher g c) (\<lambda>c. do {
       iv \<leftarrow> subrange encrypted_data iv_at iv_size;
     attempt CRYPTO_INIT_AES_FAILED (dec_key g c key iv) (\<lambda>c. do {
       aad \<leftarrow> subrange encrypted_data aad_at aad_size;
     attempt CRYPTO_DECRYPT_AES_FAILED (dec_aad g c aad) (\<lambda>c. do {
       input \<leftarrow> subrange encrypted_data encrypted_header (unat data_size);
     attempt CRYPTO_DECRYPT_AES_FAILED (dec_update g c input (int (unat data_size))) (\<lambda>(out, c). do {
       block \<leftarrow> poke block 0 out;
       tag \<leftarrow> subrange encrypted_data tag_at tag_size;
     attempt CRYPTO_ENCRYPT_AES_FAILED (set_tag g c tag) (\<lambda>c.
     attempt CRYPTO_ENCRYPT_AES_FAILED (dec_final g c) (\<lambda>(fin, c). do {
       block \<leftarrow> poke block (length out) fin;
       Some (Inr (block, word_of_nat (length out) + word_of_nat (length fin))) })) }) }) }) }))"

definition decrypt_aes_256_gsm ::
  "'c gcm \<Rightarrow> (u64 \<Rightarrow> u8 list option) \<Rightarrow> key_aes_256_gsm_t \<Rightarrow> u8 list \<Rightarrow> mem \<Rightarrow> (err_t \<times> mem) option" where
  "decrypt_aes_256_gsm g malloc key encrypted_data decrypted_data =
     do { size_bytes \<leftarrow> subrange encrypted_data data_size_at 2;
          let data_size = of_le16 size_bytes;
          case malloc (ucast data_size) of
            None \<Rightarrow> Some (CRYPTO_MEMORY_FAILURE, decrypted_data\<lparr>mem_ptr := None\<rparr>)
          | Some block \<Rightarrow>
              do { res \<leftarrow> decrypt_ladder g (symetric_key key) encrypted_data data_size block;
                   Some (case res of
                      Inl e \<Rightarrow> (e, openssl_mem_free decrypted_data)
                    | Inr (block, n) \<Rightarrow> (SUCCESS, decrypted_data\<lparr>mem_ptr := Some block, mem_size := n\<rparr>)) } }"

text \<open>\<open>encrypt\<close> and \<open>decrypt\<close> dispatch on the identifier of the key.\<close>

definition encrypt ::
  "'c gcm \<Rightarrow> (u64 \<Rightarrow> u8 list option) \<Rightarrow> u8 list option \<Rightarrow> key_aes_256_gsm_t \<Rightarrow> guid \<Rightarrow> mem \<Rightarrow> mem \<Rightarrow>
   (err_t \<times> mem) option" where
  "encrypt g malloc rand key random data encrypted_data =
     (if key_id key = aes_256_gsm then encrypt_aes_256_gsm g malloc rand key random data encrypted_data
      else Some (CRYPTO_UNKNOWN_ALGORITHM, encrypted_data))"

definition decrypt ::
  "'c gcm \<Rightarrow> (u64 \<Rightarrow> u8 list option) \<Rightarrow> key_aes_256_gsm_t \<Rightarrow> mem \<Rightarrow> mem \<Rightarrow> (err_t \<times> mem) option" where
  "decrypt g malloc key encrypted_data decrypted_data =
     (if key_id key = aes_256_gsm
      then do { block \<leftarrow> mem_ptr encrypted_data; decrypt_aes_256_gsm g malloc key block decrypted_data }
      else Some (CRYPTO_UNKNOWN_ALGORITHM, decrypted_data))"

subsection \<open>What the ladders return\<close>

text \<open>
  The calls of a run in which each one succeeds, without the buffer: what an encryption produces
  and a decryption consumes.
\<close>

definition gcm_encrypts ::
  "'c gcm \<Rightarrow> u8 list \<Rightarrow> u8 list \<Rightarrow> u8 list \<Rightarrow> u8 list \<Rightarrow> int \<Rightarrow> (u8 list \<times> u8 list \<times> u8 list) option" where
  "gcm_encrypts g key iv aad input n =
     do { c \<leftarrow> ctx_new g; c \<leftarrow> enc_cipher g c; c \<leftarrow> enc_key g c key iv; c \<leftarrow> enc_aad g c aad;
          (out, c) \<leftarrow> enc_update g c input n; (fin, c) \<leftarrow> enc_final g c;
          tag \<leftarrow> get_tag g c tag_size; Some (out, fin, tag) }"

definition gcm_decrypts ::
  "'c gcm \<Rightarrow> u8 list \<Rightarrow> u8 list \<Rightarrow> u8 list \<Rightarrow> u8 list \<Rightarrow> u8 list \<Rightarrow> (u8 list \<times> u8 list) option" where
  "gcm_decrypts g key iv aad input tag =
     do { c \<leftarrow> ctx_new g; c \<leftarrow> dec_cipher g c; c \<leftarrow> dec_key g c key iv; c \<leftarrow> dec_aad g c aad;
          (out, c) \<leftarrow> dec_update g c input (int (length input)); c \<leftarrow> set_tag g c tag;
          (fin, c) \<leftarrow> dec_final g c; Some (out, fin) }"

text \<open>
  GCM as OpenSSL documents it.  It is a stream mode: an update gives as many bytes as it is given,
  the final call gives none, a tag has the length that was asked for.  And with the same key,
  vector, associated data and tag the input of an encryption comes back.
\<close>

definition gcm_stream :: "'c gcm \<Rightarrow> bool" where
  "gcm_stream g \<longleftrightarrow>
     (\<forall>c input out c'. enc_update g c input (int (length input)) = Some (out, c') \<longrightarrow> length out = length input) \<and>
     (\<forall>c out c'. enc_final g c = Some (out, c') \<longrightarrow> out = []) \<and>
     (\<forall>c n tag. get_tag g c n = Some tag \<longrightarrow> length tag = n)"

definition gcm_inverse :: "'c gcm \<Rightarrow> bool" where
  "gcm_inverse g \<longleftrightarrow>
     (\<forall>key iv aad input out fin tag.
        gcm_encrypts g key iv aad input (int (length input)) = Some (out, fin, tag) \<longrightarrow>
        (\<exists>out' fin'. gcm_decrypts g key iv aad (out @ fin) tag = Some (out', fin') \<and> out' @ fin' = input))"

lemma gcm_streamD:
  assumes "gcm_stream g"
  shows "enc_update g c input (int (length input)) = Some (out, c') \<Longrightarrow> length out = length input"
    and "enc_final g c = Some (out, c') \<Longrightarrow> out = []"
    and "get_tag g c n = Some tag \<Longrightarrow> length tag = n"
  using assms unfolding gcm_stream_def by blast+

lemma attempt_Inr_iff:
  "attempt e call rest = Some (Inr y) \<longleftrightarrow> (\<exists>x. call = Some x \<and> rest x = Some (Inr y))"
  by (simp add: attempt_def split: option.splits)

text \<open>A block with the fields of \<open>encrypted_data_aes_256_gsm_t\<close> and the data behind them.\<close>

definition encrypted_block :: "u8 list \<Rightarrow> u8 list \<Rightarrow> u8 list \<Rightarrow> u8 list \<Rightarrow> u8 list \<Rightarrow> bool" where
  "encrypted_block block aad iv tag ct \<longleftrightarrow>
     subrange block aad_at aad_size = Some aad \<and> subrange block iv_at iv_size = Some iv \<and>
     subrange block tag_at tag_size = Some tag \<and>
     subrange block data_size_at 2 = Some (le16 (word_of_nat (length ct))) \<and>
     subrange block encrypted_header (length ct) = Some ct"

lemma subrange_append:
  "subrange bs i n = Some xs \<Longrightarrow> subrange bs (i + n) m = Some ys \<Longrightarrow> subrange bs i (n + m) = Some (xs @ ys)"
  by (auto simp: subrange_def take_add add.commute [of n i] split: if_splits)

lemma stored_fields:
  assumes iv: "subrange b0 iv_at iv_size = Some iv"
    and st: "poke b0 aad_at random = Some b1" "poke b1 encrypted_header out = Some b2"
      "poke b2 data_size_at (le16 v) = Some b3" "poke b3 (encrypted_header + length out) fin = Some b4"
      "poke b4 data_size_at (le16 (word_of_nat (length out) + word_of_nat (length fin))) = Some b5"
      "poke b5 tag_at tag = Some b6"
    and len: "length random = aad_size" "length tag = tag_size"
  shows "encrypted_block b6 random iv tag (out @ fin)"
proof -
  note other = st [THEN subrange_poke_other] and same = st [THEN subrange_poke_same]
  note lens = len layout_defs
  have aad: "subrange b6 aad_at aad_size = Some random"
    using same(1) by (simp add: other(2-) lens)
  have iv6: "subrange b6 iv_at iv_size = Some iv"
    using iv by (simp add: other lens)
  have data: "subrange b6 encrypted_header (length out) = Some out"
    using same(2) by (simp add: other(3-) lens)
  have fin: "subrange b6 (encrypted_header + length out) (length fin) = Some fin"
    using same(4) by (simp add: other(5-) lens)
  have sz: "subrange b6 data_size_at 2 = Some (le16 (word_of_nat (length (out @ fin))))"
    using same(5) by (simp add: other(6) lens)
  show ?thesis
    using aad iv6 same(6) sz subrange_append [OF data fin] len by (simp add: encrypted_block_def)
qed

lemma encrypt_ladder_Inr:
  assumes "encrypt_ladder g rand key random data block = Some (Inr block')"
    and len: "length random = aad_size"
  obtains iv input out fin tag where
    "update_input (mem_ptr data) (int_length (mem_size data)) = Some input"
    "gcm_encrypts g key iv random input (int_length (mem_size data)) = Some (out, fin, tag)"
    "length tag = tag_size \<Longrightarrow> encrypted_block block' random iv tag (out @ fin)"
proof -
  obtain c1 c2 b0 iv c3 b1 aad c4 input out c5 b2 b3 fin c6 b4 b5 tag
    where c: "ctx_new g = Some c1" "enc_cipher g c1 = Some c2" "enc_key g c2 key iv = Some c3"
      "enc_aad g c3 aad = Some c4" "enc_update g c4 input (int_length (mem_size data)) = Some (out, c5)"
      "enc_final g c5 = Some (fin, c6)" "get_tag g c6 tag_size = Some tag"
    and b: "subrange b0 iv_at iv_size = Some iv" "poke b0 aad_at random = Some b1"
      "poke b1 encrypted_header out = Some b2"
      "poke b2 data_size_at (le16 (word_of_nat (length out))) = Some b3"
      "poke b3 (encrypted_header + length out) fin = Some b4"
      "poke b4 data_size_at (le16 (word_of_nat (length out) + word_of_nat (length fin))) = Some b5"
      "poke b5 tag_at tag = Some block'"
    and i: "subrange b1 aad_at aad_size = Some aad"
      "update_input (mem_ptr data) (int_length (mem_size data)) = Some input"
    using assms(1) by (force simp: encrypt_ladder_def attempt_Inr_iff bind_Some_iff)
  have "aad = random" using subrange_poke_same [OF b(2)] i(1) len by simp
  then have "gcm_encrypts g key iv random input (int_length (mem_size data)) = Some (out, fin, tag)"
    using c by (simp add: gcm_encrypts_def)
  then show thesis using that i(2) stored_fields [OF b len] by blast
qed

text \<open>Decryption of a block with these fields makes exactly the calls of \<open>gcm_decrypts\<close>.\<close>

lemma decrypt_ladder_Inr:
  assumes "encrypted_block block aad iv tag ct" "length ct < 65536" "length out = length ct"
    and calls: "gcm_decrypts g key iv aad ct tag = Some (o1, o2)" "length (o1 @ o2) = length out"
  shows "decrypt_ladder g key block (word_of_nat (length ct)) out =
           Some (Inr (o1 @ o2, word_of_nat (length (o1 @ o2))))"
proof -
  have n: "unat (word_of_nat (length ct) :: u16) = length ct"
    using assms(2) by (simp add: unat_of_nat)
  obtain c1 c2 c3 c4 c5 c6 c7
    where c: "ctx_new g = Some c1" "dec_cipher g c1 = Some c2" "dec_key g c2 key iv = Some c3"
      "dec_aad g c3 aad = Some c4" "dec_update g c4 ct (int (length ct)) = Some (o1, c5)"
      "set_tag g c5 tag = Some c6" "dec_final g c6 = Some (o2, c7)"
    using calls(1) by (auto simp: gcm_decrypts_def bind_Some_iff)
  have "poke out 0 o1 = Some (o1 @ drop (length o1) out)"
    using calls(2) by (simp add: poke_def)
  moreover have "poke (o1 @ drop (length o1) out) (length o1) o2 = Some (o1 @ o2)"
    using calls(2) by (simp add: poke_def)
  ultimately show ?thesis
    using assms(1) c by (simp add: decrypt_ladder_def encrypted_block_def attempt_def n)
qed

subsection \<open>Sizes\<close>

lemma clear_low_bits: "m AND - 16 = push_bit 4 (drop_bit 4 (m :: u64))"
proof -
  have m: "(- 16 :: u64) = NOT (mask 4)" by (simp add: mask_eq_exp_minus_1)
  show ?thesis unfolding m by (auto intro!: bit_word_eqI simp: bit_simps)
qed

lemma unat_encrypted_size:
  assumes "n < 2 ^ 31"
  shows "unat (encrypted_size (word_of_nat n)) = encrypted_header + (n + 15) div 16 * 16"
proof -
  have r: "unat ((word_of_nat n + 15 :: u64) AND - 16) = (n + 15) div 16 * 16"
  proof -
    have u: "unat (word_of_nat n + 15 :: u64) = n + 15"
      using assms by (simp add: unat_word_ariths unat_of_nat)
    have "(n + 15) div 16 * 16 < 2 ^ 64" using assms by simp
    then show ?thesis
      by (simp add: clear_low_bits push_bit_eq_mult drop_bit_eq_div unat_word_ariths(2) unat_div u)
  qed
  have "encrypted_header + (n + 15) div 16 * 16 < 2 ^ 64" using assms by (simp add: layout_defs)
  then show ?thesis
    using assms unfolding encrypted_size_def by (simp add: unat_word_ariths r unat_of_nat layout_defs)
qed

lemma int_length_word_of_nat:
  assumes "n < 2 ^ 31"
  shows "int_length (word_of_nat n) = int n"
proof -
  have "sint (word_of_nat n :: u32) = int n"
    using assms by (simp add: signed_of_nat signed_take_bit_int_eq_self)
  moreover have "(ucast (word_of_nat n :: u64) :: u32) = word_of_nat n"
    by (rule bit_word_eqI) (simp add: bit_simps)
  ultimately show ?thesis by (simp add: int_length_def)
qed

lemma update_input_message:
  "update_input (Some msg) (int (length msg)) = Some msg"
  by (simp add: update_input_def subrange_def)

subsection \<open>Encryption\<close>

text \<open>An error of a ladder is never \<open>SUCCESS\<close>: by the rules for its three constructs.\<close>

definition fails_with_error :: "(err_t + 'b) option \<Rightarrow> bool" where
  "fails_with_error res \<longleftrightarrow> res \<noteq> Some (Inl SUCCESS)"

named_theorems error_intros

lemma fails_attempt [error_intros]:
  "e \<noteq> SUCCESS \<Longrightarrow> (\<And>x. fails_with_error (rest x)) \<Longrightarrow> fails_with_error (attempt e call rest)"
  by (simp add: fails_with_error_def attempt_def split: option.splits)

lemma fails_bind [error_intros]:
  "(\<And>x. fails_with_error (rest x)) \<Longrightarrow> fails_with_error (Option.bind m rest)"
  by (cases m) (simp_all add: fails_with_error_def)

lemma fails_pair [error_intros]:
  "(\<And>x y. fails_with_error (rest x y)) \<Longrightarrow> fails_with_error (case p of (x, y) \<Rightarrow> rest x y)"
  by (cases p) simp

lemma fails_Inr [error_intros]: "fails_with_error (Some (Inr y))"
  by (simp add: fails_with_error_def)

lemma encrypt_ladder_errors: "encrypt_ladder g rand key random data block \<noteq> Some (Inl SUCCESS)"
  unfolding encrypt_ladder_def fails_with_error_def [symmetric]
  by (intro error_intros err_t.distinct)

lemma decrypt_ladder_errors: "decrypt_ladder g key encrypted_data data_size block \<noteq> Some (Inl SUCCESS)"
  unfolding decrypt_ladder_def fails_with_error_def [symmetric]
  by (intro error_intros err_t.distinct)

text \<open>A message: the block and its size agree and the size is a length OpenSSL can be given.\<close>

definition message_mem :: "u8 list \<Rightarrow> mem" where
  "message_mem msg = \<lparr>mem_ptr = Some msg, mem_size = word_of_nat (length msg)\<rparr>"

lemma encrypt_success:
  assumes "encrypt g malloc rand key random (message_mem msg) m0 = Some (SUCCESS, m)"
    and "gcm_stream g" "length random = aad_size" "length msg < 2 ^ 31"
  obtains block iv out fin tag where "mem_ptr m = Some block" "key_id key = aes_256_gsm"
    "gcm_encrypts g (symetric_key key) iv random msg (int (length msg)) = Some (out, fin, tag)"
    "length tag = tag_size" "length (out @ fin) = length msg"
    "encrypted_block block random iv tag (out @ fin)"
proof -
  from assms(1) have id: "key_id key = aes_256_gsm"
    by (auto simp: encrypt_def split: if_splits)
  obtain block block' where
    l: "encrypt_ladder g rand (symetric_key key) random (message_mem msg) block = Some (Inr block')"
    and m: "mem_ptr m = Some block'"
  proof -
    let ?m1 = "m0\<lparr>mem_size := encrypted_size (mem_size (message_mem msg)),
                   mem_ptr := malloc (encrypted_size (mem_size (message_mem msg)))\<rparr>"
    obtain block res where res: "encrypt_ladder g rand (symetric_key key) random (message_mem msg) block = Some res"
      "(case res of Inl e \<Rightarrow> (e, openssl_mem_free ?m1)
         | Inr b \<Rightarrow> (SUCCESS, ?m1\<lparr>mem_ptr := Some b\<rparr>)) = (SUCCESS, m)"
      using assms(1) id
      by (auto simp: encrypt_def encrypt_aes_256_gsm_def Let_def bind_Some_iff split: option.split_asm)
    then obtain b where "res = Inr b" by (cases res) (auto simp: encrypt_ladder_errors)
    with res that [of block b] show thesis by auto
  qed
  have in_msg: "update_input (mem_ptr (message_mem msg)) (int_length (mem_size (message_mem msg))) = Some msg"
    and n: "int_length (mem_size (message_mem msg)) = int (length msg)"
    using assms(4) by (simp_all add: message_mem_def int_length_word_of_nat update_input_message)
  obtain iv out fin tag where
    e: "gcm_encrypts g (symetric_key key) iv random msg (int (length msg)) = Some (out, fin, tag)"
    and b: "length tag = tag_size \<Longrightarrow> encrypted_block block' random iv tag (out @ fin)"
    using encrypt_ladder_Inr [OF l assms(3)] in_msg n by (metis option.inject)
  from e assms(2) have "length tag = tag_size" "length (out @ fin) = length msg"
    by (auto simp: gcm_encrypts_def bind_Some_iff dest!: gcm_streamD [OF assms(2)])
  then show thesis using that m id e b by blast
qed

text \<open>
  No call of a stream cipher writes outside the block that was allocated: a ladder over a block of
  \<open>n\<close> bytes returns, with an error or with a block of \<open>n\<close> bytes.
\<close>

definition stays_in :: "nat \<Rightarrow> (err_t + u8 list) option \<Rightarrow> bool" where
  "stays_in n res \<longleftrightarrow> res \<noteq> None \<and> (\<forall>block. res = Some (Inr block) \<longrightarrow> length block = n)"

lemma stays_attempt:
  "(\<And>x. call = Some x \<Longrightarrow> stays_in n (rest x)) \<Longrightarrow> stays_in n (attempt e call rest)"
  by (cases call) (simp_all add: stays_in_def attempt_def)

lemma stays_pair:
  "(\<And>x y. p = (x, y) \<Longrightarrow> stays_in n (rest x y)) \<Longrightarrow> stays_in n (case p of (x, y) \<Rightarrow> rest x y)"
  by (cases p) simp

lemma stays_poke:
  assumes "length block = n" "i + length bs \<le> n" "\<And>block'. length block' = n \<Longrightarrow> stays_in n (rest block')"
  shows "stays_in n (Option.bind (poke block i bs) rest)"
  using assms by (simp add: poke_def)

lemma stays_subrange:
  assumes "length block = n" "i + m \<le> n" "\<And>bs. stays_in n (rest bs)"
  shows "stays_in n (Option.bind (subrange block i m) rest)"
  using assms by (simp add: subrange_def)

lemma stays_Inr: "length block = n \<Longrightarrow> stays_in n (Some (Inr block))"
  by (simp add: stays_in_def)

lemma message_input:
  assumes "length msg < 2 ^ 31"
  shows "update_input (mem_ptr (message_mem msg)) (int_length (mem_size (message_mem msg))) = Some msg"
    and "int_length (mem_size (message_mem msg)) = int (length msg)"
  using assms by (simp_all add: message_mem_def int_length_word_of_nat update_input_message)

lemma encrypt_ladder_returns:
  assumes g: "gcm_stream g" and rand: "\<And>r. rand = Some r \<Longrightarrow> length r = iv_size"
    and len: "length random = aad_size" "encrypted_header + length msg \<le> length block" "length msg < 2 ^ 31"
  shows "stays_in (length block) (encrypt_ladder g rand key random (message_mem msg) block)"
proof -
  let ?n = "length block"
  have head: "42 + length msg \<le> ?n" using len(2) by (simp add: layout_defs)
  have input: "stays_in ?n (Option.bind (update_input (mem_ptr (message_mem msg)) (int (length msg))) rest)"
    if "stays_in ?n (rest msg)" for rest
    using that message_input [OF len(3)] by simp
  have vector: "stays_in ?n (Option.bind (case rand of None \<Rightarrow> Some block | Some r \<Rightarrow> poke block iv_at r) rest)"
    if "\<And>block'. length block' = ?n \<Longrightarrow> stays_in ?n (rest block')" for rest
    using that rand head by (cases rand) (auto intro!: stays_poke simp: layout_defs)
  show ?thesis
    unfolding encrypt_ladder_def message_input(2) [OF len(3)]
    by (intro stays_attempt stays_pair vector input stays_subrange stays_poke stays_Inr;
        use head len(1) in \<open>auto simp: layout_defs dest!: gcm_streamD [OF g]\<close>)
qed

text \<open>
  C22: \<open>encrypt\<close> never writes outside the block it allocates: for every message below 2 GiB it
  returns, with a block of the header and the size rounded up to 16, or with an error and no block.
\<close>

theorem encrypt_returns:
  assumes g: "gcm_stream g" and rand: "\<And>r. rand = Some r \<Longrightarrow> length r = iv_size"
    and len: "length random = aad_size" "length msg < 2 ^ 31"
    and malloc: "\<And>n block. malloc n = Some block \<Longrightarrow> length block = unat n"
  shows "\<exists>ret m. encrypt g malloc rand key random (message_mem msg) mem_null = Some (ret, m) \<and>
           (if ret = SUCCESS
            then \<exists>block. m = \<lparr>mem_ptr = Some block, mem_size = encrypted_size (word_of_nat (length msg))\<rparr> \<and>
                   length block = encrypted_header + (length msg + 15) div 16 * 16
            else mem_ptr m = None)"
proof (cases "key_id key = aes_256_gsm")
  case False
  then show ?thesis by (simp add: encrypt_def mem_null_def)
next
  case id: True
  let ?size = "encrypted_size (word_of_nat (length msg))"
  have size: "mem_size (message_mem msg) = word_of_nat (length msg)" by (simp add: message_mem_def)
  show ?thesis
  proof (cases "malloc ?size")
    case None
    then show ?thesis by (simp add: encrypt_def id encrypt_aes_256_gsm_def size mem_null_def)
  next
    case (Some block)
    then have n: "length block = encrypted_header + (length msg + 15) div 16 * 16"
      using malloc unat_encrypted_size [OF len(2)] by metis
    then have "encrypted_header + length msg \<le> length block" by simp
    then obtain r where r: "encrypt_ladder g rand (symetric_key key) random (message_mem msg) block = Some r"
      "\<And>b. r = Inr b \<Longrightarrow> length b = length block"
      using encrypt_ladder_returns [OF g rand len(1) _ len(2), of rand block "symetric_key key"]
      unfolding stays_in_def by blast
    show ?thesis
    proof (cases r)
      case (Inl e)
      moreover from this have "e \<noteq> SUCCESS" using r(1) by (auto simp: encrypt_ladder_errors)
      ultimately show ?thesis
        by (simp add: encrypt_def id encrypt_aes_256_gsm_def size Some r(1) openssl_mem_free_def mem_null_def)
    next
      case (Inr b)
      then show ?thesis
        using r(2) n by (simp add: encrypt_def id encrypt_aes_256_gsm_def size Some r(1) mem_null_def)
    qed
  qed
qed

subsection \<open>Decryption\<close>

text \<open>
  What was encrypted under a key comes back under the same key, on another heap and with another
  cipher context.
\<close>

lemma decrypt_encrypted:
  assumes enc: "encrypt g malloc rand key random (message_mem msg) m0 = Some (SUCCESS, m)"
    and g: "gcm_stream g" "gcm_inverse g" and len: "length random = aad_size" "length msg < 65536"
    and room: "malloc' (word_of_nat (length msg)) = Some out" "length out = length msg"
    and key': "key_id key' = aes_256_gsm" "symetric_key key' = symetric_key key"
  shows "decrypt g malloc' key' m d0 = Some (SUCCESS, d0\<lparr>mem_ptr := Some msg, mem_size := word_of_nat (length msg)\<rparr>)"
proof -
  have "length msg < 2 ^ 31" using len(2) by simp
  then obtain block iv ct1 ct2 tag where b: "mem_ptr m = Some block"
      "gcm_encrypts g (symetric_key key) iv random msg (int (length msg)) = Some (ct1, ct2, tag)"
      "length tag = tag_size" "length (ct1 @ ct2) = length msg" "encrypted_block block random iv tag (ct1 @ ct2)"
    using encrypt_success [OF enc g(1) len(1)] by metis
  obtain o1 o2 where d: "gcm_decrypts g (symetric_key key) iv random (ct1 @ ct2) tag = Some (o1, o2)" "o1 @ o2 = msg"
    using g(2) b(2) unfolding gcm_inverse_def by blast
  have size: "subrange block data_size_at 2 = Some (le16 (word_of_nat (length msg)))"
    using b(4,5) by (simp add: encrypted_block_def)
  have ladder: "decrypt_ladder g (symetric_key key) block (word_of_nat (length msg)) out =
      Some (Inr (msg, word_of_nat (length msg)))"
  proof -
    have "decrypt_ladder g (symetric_key key) block (word_of_nat (length (ct1 @ ct2))) out =
        Some (Inr (o1 @ o2, word_of_nat (length (o1 @ o2))))"
      by (rule decrypt_ladder_Inr [OF b(5) _ _ d(1)])
        (simp_all only: b(4) d(2) len(2) room(2))
    then show ?thesis unfolding b(4) d(2) .
  qed
  have cast: "(ucast (word_of_nat (length msg) :: u16) :: u64) = word_of_nat (length msg)"
    using len(2) by (simp add: word_unat_eq_iff unat_of_nat unsigned_ucast_eq take_bit_nat_eq_self)
  show ?thesis
    by (simp add: decrypt_def key' b(1) decrypt_aes_256_gsm_def size cast room(1) ladder)
qed

text \<open>Data of 64 KiB or more is encrypted, but only the size modulo \<open>2 ^ 16\<close> is recorded.\<close>

lemma encrypted_size_is_cut:
  assumes "encrypt g malloc rand key random (message_mem msg) m0 = Some (SUCCESS, m)"
    and "gcm_stream g" "length random = aad_size" "length msg < 2 ^ 31"
  shows "\<exists>block size. mem_ptr m = Some block \<and> subrange block data_size_at 2 = Some size \<and>
           unat (of_le16 size) = length msg mod 65536"
proof -
  obtain block iv out fin tag where "mem_ptr m = Some block" "length (out @ fin) = length msg"
    "encrypted_block block random iv tag (out @ fin)"
    using encrypt_success [OF assms] by metis
  then show ?thesis by (auto simp: encrypted_block_def unat_of_nat simp flip: length_append)
qed

text \<open>The recorded size is trusted: a block that is shorter than it says is read past its end.\<close>

lemma decrypt_overread:
  assumes "subrange block data_size_at 2 = Some (le16 n)" "length block < encrypted_header + unat n"
    and calls: "malloc (ucast n) = Some out" "ctx_new g = Some c" "dec_cipher g c = Some c2"
      "\<And>iv. dec_key g c2 (symetric_key key) iv = Some c3" "\<And>aad. dec_aad g c3 aad = Some c4"
  shows "decrypt_aes_256_gsm g malloc key block d0 = None"
proof -
  have "42 \<le> length block"
    using assms(1) by (auto simp: subrange_def layout_defs split: if_splits)
  then have "decrypt_ladder g (symetric_key key) block n out = None"
    using assms(2) calls by (simp add: decrypt_ladder_def attempt_def subrange_def layout_defs)
  then show ?thesis using assms(1) calls(1) by (simp add: decrypt_aes_256_gsm_def)
qed

subsection \<open>Keys agreed on with elliptic curves\<close>

text \<open>
  The calls on keys: \<open>d2i_AutoPrivateKey\<close>, \<open>d2i_PUBKEY\<close>, \<open>EVP_PKEY_CTX_new\<close>, the calls of a
  derivation (the second call of \<open>EVP_PKEY_derive\<close> is given the size), \<open>EVP_EC_gen\<close>,
  \<open>OSSL_ENCODER_CTX_new_for_pkey\<close>, \<open>OSSL_ENCODER_to_data\<close> and the name of the curve for a buffer
  of a given size.
\<close>

datatype selection = EVP_PKEY_KEYPAIR | EVP_PKEY_PUBLIC_KEY

record ('k, 'x, 'e) ec =
  d2i_AutoPrivateKey :: "u8 list \<Rightarrow> 'k option"
  d2i_PUBKEY :: "u8 list \<Rightarrow> 'k option"
  pkey_ctx_new :: "'k option \<Rightarrow> 'x option"
  derive_init :: "'x \<Rightarrow> 'x option"
  derive_set_peer :: "'x \<Rightarrow> 'k option \<Rightarrow> 'x option"
  derive_size :: "'x \<Rightarrow> nat option"
  derive_bytes :: "'x \<Rightarrow> nat \<Rightarrow> u8 list option"
  ec_gen :: "string \<Rightarrow> 'k option"
  encoder_new :: "'k option \<Rightarrow> selection \<Rightarrow> 'e option"
  encoder_to_data :: "'e \<Rightarrow> mem \<Rightarrow> mem option"
  group_name :: "'k option \<Rightarrow> nat \<Rightarrow> string option"

text \<open>
  \<open>ec_generate_private_key\<close> and \<open>ec_generate_public_key\<close>: the exception of the assignment, or the
  code and the new value of the key.
\<close>

definition ec_generate_private_key ::
  "('k, 'x, 'e) ec \<Rightarrow> mem \<Rightarrow> 'k option \<Rightarrow> (err_t + err_t \<times> 'k option) option" where
  "ec_generate_private_key e prikey_bin key =
     do { bs \<leftarrow> mem_bytes prikey_bin;
          Some (case ec_key_assign (d2i_AutoPrivateKey e bs) key of
             Inl exn \<Rightarrow> Inl exn
           | Inr key \<Rightarrow> Inr (if key = None then CRYPTO_KEY_GENERATION_FAILED else SUCCESS, key)) }"

definition ec_generate_public_key ::
  "('k, 'x, 'e) ec \<Rightarrow> mem \<Rightarrow> 'k option \<Rightarrow> (err_t + err_t \<times> 'k option) option" where
  "ec_generate_public_key e pubkey_bin key =
     do { bs \<leftarrow> mem_bytes pubkey_bin;
          Some (case ec_key_assign (d2i_PUBKEY e bs) key of
             Inl exn \<Rightarrow> Inl exn
           | Inr key \<Rightarrow> Inr (if key = None then CRYPTO_KEY_GENERATION_FAILED else SUCCESS, key)) }"

definition get_aes_256_gsm_key_from_ec ::
  "('k, 'x, 'e) ec \<Rightarrow> 'k option \<Rightarrow> 'k option \<Rightarrow> key_aes_256_gsm_t \<Rightarrow> (err_t \<times> key_aes_256_gsm_t) option" where
  "get_aes_256_gsm_key_from_ec e ec_private_key peer_public_ec_key key =
     do { res \<leftarrow>
            attempt CRYPTO_BAD_PRIVATE_KEY (pkey_ctx_new e ec_private_key) (\<lambda>x.
            attempt CRYPTO_BAD_PRIVATE_KEY (derive_init e x) (\<lambda>x.
            attempt CRYPTO_BAD_PUBLIC_KEY (derive_set_peer e x peer_public_ec_key) (\<lambda>x.
            attempt CRYPTO_BAD_SYMETRIC_KEY (derive_size e x) (\<lambda>n.
            if n \<noteq> key_size_in_bytes then Some (Inl CRYPTO_BAD_SYMETRIC_KEY)
            else attempt CRYPTO_BAD_SYMETRIC_KEY (derive_bytes e x n) (\<lambda>bs. do {
              k \<leftarrow> poke (symetric_key key) 0 bs;
              Some (Inr k) })))));
          Some (case res of Inl err \<Rightarrow> (err, key) | Inr k \<Rightarrow> (SUCCESS, key\<lparr>symetric_key := k\<rparr>)) }"

text \<open>The three overloads of \<open>get_symmetric_key_from_ec\<close>: two keys, an own key, two binaries.\<close>

definition get_symmetric_key_of_keys ::
  "('k, 'x, 'e) ec \<Rightarrow> u16 \<Rightarrow> 'k option \<Rightarrow> 'k option \<Rightarrow> key_aes_256_gsm_t \<Rightarrow> (err_t \<times> key_aes_256_gsm_t) option" where
  "get_symmetric_key_of_keys e alg private_ec_key peer_public_ec_key key =
     (if alg = aes_256_gsm then get_aes_256_gsm_key_from_ec e private_ec_key peer_public_ec_key key
      else Some (CRYPTO_UNKNOWN_ALGORITHM, key))"

definition get_symmetric_key_of_own_key ::
  "('k, 'x, 'e) ec \<Rightarrow> u16 \<Rightarrow> 'k option \<Rightarrow> mem \<Rightarrow> key_aes_256_gsm_t \<Rightarrow> (err_t + err_t \<times> key_aes_256_gsm_t) option" where
  "get_symmetric_key_of_own_key e alg private_ec_key peer_public_ec_key key =
     do { pub \<leftarrow> ec_generate_public_key e peer_public_ec_key None;
          case pub of
            Inl exn \<Rightarrow> Some (Inl exn)
          | Inr (ret, public_key) \<Rightarrow>
              if ret \<noteq> SUCCESS then Some (Inr (ret, key))
              else do { r \<leftarrow> get_symmetric_key_of_keys e alg private_ec_key public_key key; Some (Inr r) } }"

definition get_symmetric_key_from_ec ::
  "('k, 'x, 'e) ec \<Rightarrow> u16 \<Rightarrow> mem \<Rightarrow> mem \<Rightarrow> key_aes_256_gsm_t \<Rightarrow> (err_t + err_t \<times> key_aes_256_gsm_t) option" where
  "get_symmetric_key_from_ec e alg private_ec_key peer_public_ec_key key =
     do { pub \<leftarrow> ec_generate_public_key e peer_public_ec_key None;
          case pub of
            Inl exn \<Rightarrow> Some (Inl exn)
          | Inr (ret, public_key) \<Rightarrow>
              if ret \<noteq> SUCCESS then Some (Inr (ret, key))
              else do { priv \<leftarrow> ec_generate_private_key e private_ec_key None;
                case priv of
                  Inl exn \<Rightarrow> Some (Inl exn)
                | Inr (ret, private_key) \<Rightarrow>
                    if ret \<noteq> SUCCESS then Some (Inr (ret, key))
                    else do { r \<leftarrow> get_symmetric_key_of_keys e alg private_key public_key key; Some (Inr r) } } }"

definition generate_ec_key :: "('k, 'x, 'e) ec \<Rightarrow> string \<Rightarrow> 'k option \<Rightarrow> err_t + err_t \<times> 'k option" where
  "generate_ec_key e curve key =
     (case ec_key_assign (ec_gen e curve) key of
        Inl exn \<Rightarrow> Inl exn
      | Inr key \<Rightarrow> Inr (if key = None then CRYPTO_KEY_GENERATION_FAILED else SUCCESS, key))"

text \<open>\<open>get_private_key_binary\<close> and \<open>get_public_key_binary\<close>: a failure leaves the memory as it was.\<close>

definition key_binary :: "('k, 'x, 'e) ec \<Rightarrow> selection \<Rightarrow> 'k option \<Rightarrow> mem \<Rightarrow> err_t \<times> mem" where
  "key_binary e sel ec_key m =
     (case encoder_new e ec_key sel of
        None \<Rightarrow> (CRYPTO_BAD_PUBLIC_KEY, m)
      | Some x \<Rightarrow>
          (case encoder_to_data e x m of
             None \<Rightarrow> (CRYPTO_BAD_PUBLIC_KEY, m)
           | Some m' \<Rightarrow> (SUCCESS, m')))"

definition get_private_key_binary :: "('k, 'x, 'e) ec \<Rightarrow> 'k option \<Rightarrow> mem \<Rightarrow> err_t \<times> mem" where
  "get_private_key_binary e = key_binary e EVP_PKEY_KEYPAIR"

definition get_public_key_binary :: "('k, 'x, 'e) ec \<Rightarrow> 'k option \<Rightarrow> mem \<Rightarrow> err_t \<times> mem" where
  "get_public_key_binary e = key_binary e EVP_PKEY_PUBLIC_KEY"

text \<open>The curve name is read into 64 bytes.\<close>

definition ec_get_curve :: "('k, 'x, 'e) ec \<Rightarrow> 'k option \<Rightarrow> string \<Rightarrow> err_t \<times> string" where
  "ec_get_curve e ec_key curve =
     (case group_name e ec_key 64 of None \<Rightarrow> (CRYPTO_BAD_KEY, curve) | Some name \<Rightarrow> (SUCCESS, name))"

definition ec_key_to_string :: "('k, 'x, 'e) ec \<Rightarrow> 'k option \<Rightarrow> string option" where
  "ec_key_to_string e key =
     (case ec_get_curve e key [] of
        (ret, curve) \<Rightarrow>
          if ret \<noteq> SUCCESS then Some ''Unable to find curve''
          else do {
            pub \<leftarrow> (case get_public_key_binary e key mem_null of
                     (ret, m) \<Rightarrow> if ret = SUCCESS then do { s \<leftarrow> mem_to_string m; Some ('';public:'' @ s) }
                                 else Some []);
            priv \<leftarrow> (case get_private_key_binary e key mem_null of
                      (ret, m) \<Rightarrow> if ret = SUCCESS then do { s \<leftarrow> mem_to_string m; Some ('';private:'' @ s) }
                                  else Some []);
            Some (''(curve:'' @ curve @ pub @ priv @ '')'') })"

subsection \<open>Two peers\<close>

text \<open>
  What the code relies on: a key that was encoded decodes to itself, or to its public part
  (\<open>pub\<close>), a derivation gives as many bytes as announced, and the two ends of a key exchange
  derive the same bytes.
\<close>

definition derivation :: "('k, 'x, 'e) ec \<Rightarrow> 'k option \<Rightarrow> 'k option \<Rightarrow> (nat \<times> u8 list) option" where
  "derivation e own peer =
     do { x \<leftarrow> pkey_ctx_new e own; x \<leftarrow> derive_init e x; x \<leftarrow> derive_set_peer e x peer;
          n \<leftarrow> derive_size e x; bs \<leftarrow> derive_bytes e x n; Some (n, bs) }"

definition ec_codes :: "('k, 'x, 'e) ec \<Rightarrow> ('k \<Rightarrow> 'k) \<Rightarrow> bool" where
  "ec_codes e pub \<longleftrightarrow>
     (\<forall>k x m. encoder_new e (Some k) EVP_PKEY_KEYPAIR = Some x \<longrightarrow> encoder_to_data e x mem_null = Some m \<longrightarrow>
        (\<exists>bs. mem_bytes m = Some bs \<and> d2i_AutoPrivateKey e bs = Some k)) \<and>
     (\<forall>k x m. encoder_new e (Some k) EVP_PKEY_PUBLIC_KEY = Some x \<longrightarrow> encoder_to_data e x mem_null = Some m \<longrightarrow>
        (\<exists>bs. mem_bytes m = Some bs \<and> d2i_PUBKEY e bs = Some (pub k)))"

definition ec_agrees :: "('k, 'x, 'e) ec \<Rightarrow> ('k \<Rightarrow> 'k) \<Rightarrow> bool" where
  "ec_agrees e pub \<longleftrightarrow>
     (\<forall>a b. derivation e (Some a) (Some (pub b)) = derivation e (Some b) (Some (pub a))) \<and>
     (\<forall>x n bs. derive_bytes e x n = Some bs \<longrightarrow> length bs = n)"

lemma get_aes_key_SUCCESS:
  assumes len: "length (symetric_key key) = key_size_in_bytes" and "ec_agrees e pub"
  shows "get_aes_256_gsm_key_from_ec e own peer key = Some (SUCCESS, key') \<longleftrightarrow>
           (\<exists>bs. derivation e own peer = Some (key_size_in_bytes, bs) \<and> key' = key\<lparr>symetric_key := bs\<rparr>)"
proof -
  have sizes: "length bs = n" if "derive_bytes e x n = Some bs" for x n bs
    using assms(2) that by (auto simp: ec_agrees_def)
  show ?thesis
    using len
    by (auto simp: get_aes_256_gsm_key_from_ec_def derivation_def attempt_def bind_Some_iff poke_def
        split: option.splits if_splits dest: sizes)
qed

lemma binary_keys:
  assumes "ec_codes e pub"
  shows "get_private_key_binary e (Some k) mem_null = (SUCCESS, m) \<Longrightarrow>
           ec_generate_private_key e m None = Some (Inr (SUCCESS, Some k))"
    and "get_public_key_binary e (Some k) mem_null = (SUCCESS, m) \<Longrightarrow>
           ec_generate_public_key e m None = Some (Inr (SUCCESS, Some (pub k)))"
  using assms
  by (fastforce simp: ec_codes_def get_private_key_binary_def get_public_key_binary_def key_binary_def
      ec_generate_private_key_def ec_generate_public_key_def ec_key_assign_def split: option.splits)+

lemma get_symmetric_key_of_binaries:
  assumes "ec_codes e pub" "get_private_key_binary e (Some a) mem_null = (SUCCESS, da)"
    "get_public_key_binary e (Some b) mem_null = (SUCCESS, pb)"
    and len: "length (symetric_key key) = key_size_in_bytes"
    and agrees: "ec_agrees e pub"
  shows "get_symmetric_key_from_ec e aes_256_gsm da pb key = Some (Inr (SUCCESS, key')) \<longleftrightarrow>
           (\<exists>bs. derivation e (Some a) (Some (pub b)) = Some (key_size_in_bytes, bs) \<and>
              key' = key\<lparr>symetric_key := bs\<rparr>)"
  using binary_keys(1) [OF assms(1,2)] binary_keys(2) [OF assms(1,3)]
    get_aes_key_SUCCESS [OF len agrees, of "Some a" "Some (pub b)" key']
  by (auto simp: get_symmetric_key_from_ec_def get_symmetric_key_of_keys_def bind_Some_iff)

text \<open>
  C12: Two peers exchange their public keys as binaries and derive a symmetric key each.  If the first
  gets a key then so does the second, and what the first encrypts under its key (up to 64 KiB) the
  second decrypts under its own, from the bytes that were sent.
\<close>

theorem peers_share_messages:
  assumes ec: "ec_codes e pub" "ec_agrees e pub"
    and gcm: "gcm_stream g" "gcm_inverse g"
    and binaries: "get_private_key_binary e (Some a) mem_null = (SUCCESS, da)"
      "get_public_key_binary e (Some a) mem_null = (SUCCESS, pa)"
      "get_private_key_binary e (Some b) mem_null = (SUCCESS, db)"
      "get_public_key_binary e (Some b) mem_null = (SUCCESS, pb)"
    and keys: "key_id key_b0 = aes_256_gsm" "length (symetric_key key_a0) = key_size_in_bytes"
      "length (symetric_key key_b0) = key_size_in_bytes"
    and first: "get_symmetric_key_from_ec e aes_256_gsm da pb key_a0 = Some (Inr (SUCCESS, key_a))"
      "encrypt g malloc rand key_a random (message_mem msg) mem_null = Some (SUCCESS, sent)"
    and sizes: "length random = aad_size" "length msg < 65536"
    and room: "malloc' (word_of_nat (length msg)) = Some out" "length out = length msg"
  shows "\<exists>key_b. get_symmetric_key_from_ec e aes_256_gsm db pa key_b0 = Some (Inr (SUCCESS, key_b)) \<and>
           decrypt g malloc' key_b sent mem_null = Some (SUCCESS, message_mem msg)"
proof -
  obtain s where s: "derivation e (Some a) (Some (pub b)) = Some (key_size_in_bytes, s)"
    "key_a = key_a0\<lparr>symetric_key := s\<rparr>"
    using first(1) get_symmetric_key_of_binaries [OF ec(1) binaries(1,4) keys(2) ec(2)] by blast
  have "derivation e (Some b) (Some (pub a)) = Some (key_size_in_bytes, s)"
    using s(1) ec(2) by (simp add: ec_agrees_def)
  then have "get_symmetric_key_from_ec e aes_256_gsm db pa key_b0 = Some (Inr (SUCCESS, key_b0\<lparr>symetric_key := s\<rparr>))"
    using get_symmetric_key_of_binaries [OF ec(1) binaries(3,2) keys(3) ec(2)] by blast
  moreover have "decrypt g malloc' (key_b0\<lparr>symetric_key := s\<rparr>) sent mem_null = Some (SUCCESS, message_mem msg)"
    using decrypt_encrypted [of g malloc rand key_a random msg mem_null sent malloc' out
        "key_b0\<lparr>symetric_key := s\<rparr>" mem_null, OF first(2) gcm sizes room] keys(1) s(2)
    by (simp add: mem_null_def message_mem_def)
  ultimately show ?thesis by blast
qed

text \<open>A cipher and a key exchange that obey these laws.\<close>

definition sample_gcm :: "unit gcm" where
  "sample_gcm = \<lparr>ctx_new = Some (), enc_cipher = Some, enc_key = (\<lambda>c _ _. Some c), enc_aad = (\<lambda>c _. Some c),
     enc_update = (\<lambda>c input _. Some (map not input, c)), enc_final = (\<lambda>c. Some ([], c)),
     get_tag = (\<lambda>_ n. Some (replicate n 7)), dec_cipher = Some, dec_key = (\<lambda>c _ _. Some c),
     dec_aad = (\<lambda>c _. Some c), dec_update = (\<lambda>c input _. Some (map not input, c)),
     set_tag = (\<lambda>c _. Some c), dec_final = (\<lambda>c. Some ([], c))\<rparr>"

definition sample_ec :: "(u8, u8 \<times> u8, u8) ec" where
  "sample_ec = \<lparr>d2i_AutoPrivateKey = (\<lambda>bs. Some (hd bs)), d2i_PUBKEY = (\<lambda>bs. Some (hd bs)),
     pkey_ctx_new = map_option (\<lambda>k. (k, 0)), derive_init = Some,
     derive_set_peer = (\<lambda>x peer. map_option (\<lambda>p. (fst x, p)) peer), derive_size = (\<lambda>_. Some 32),
     derive_bytes = (\<lambda>x n. Some (replicate n (fst x * snd x))), ec_gen = (\<lambda>_. Some 5),
     encoder_new = (\<lambda>k sel. map_option (\<lambda>k. if sel = EVP_PKEY_KEYPAIR then k else 3 * k) k),
     encoder_to_data = (\<lambda>x _. Some \<lparr>mem_ptr = Some [x], mem_size = 1\<rparr>),
     group_name = (\<lambda>_ _. Some ''prime256v1'')\<rparr>"

lemma sample_gcm_laws: "gcm_stream sample_gcm" "gcm_inverse sample_gcm"
  by (auto simp: gcm_stream_def gcm_inverse_def gcm_encrypts_def gcm_decrypts_def sample_gcm_def comp_def)

lemma sample_ec_laws: "ec_codes sample_ec (\<lambda>k. 3 * k)" "ec_agrees sample_ec (\<lambda>k. 3 * k)"
  by (auto simp: ec_codes_def ec_agrees_def derivation_def sample_ec_def mem_bytes_def subrange_def mult.left_commute)

definition sample_key :: key_aes_256_gsm_t where
  "sample_key = \<lparr>key_id = aes_256_gsm, symetric_key = replicate 32 0\<rparr>"

abbreviation byte_mem :: "u8 \<Rightarrow> mem" where
  "byte_mem b \<equiv> \<lparr>mem_ptr = Some [b], mem_size = 1\<rparr>"

lemma sample_binaries:
  "get_private_key_binary sample_ec (Some k) mem_null = (SUCCESS, byte_mem k)"
  "get_public_key_binary sample_ec (Some k) mem_null = (SUCCESS, byte_mem (3 * k))"
  by (simp_all add: get_private_key_binary_def get_public_key_binary_def key_binary_def sample_ec_def)

lemma sample_first_key:
  "get_symmetric_key_from_ec sample_ec aes_256_gsm (byte_mem 2) (byte_mem 15) sample_key =
     Some (Inr (SUCCESS, sample_key\<lparr>symetric_key := replicate 32 30\<rparr>))"
  by (simp add: get_symmetric_key_from_ec_def ec_generate_public_key_def ec_generate_private_key_def
      ec_key_assign_def mem_bytes_def subrange_def sample_ec_def get_symmetric_key_of_keys_def
      get_aes_256_gsm_key_from_ec_def attempt_def key_size_in_bytes_def poke_def sample_key_def)

definition sample_sent :: mem where
  "sample_sent = \<lparr>mem_ptr = Some (replicate 16 1 @ replicate 12 9 @ replicate 12 7 @ [2, 0, 0xfe, 0xfd] @ replicate 14 0),
     mem_size = 58\<rparr>"

definition zeroed :: "u64 \<Rightarrow> u8 list option" where
  "zeroed n = Some (replicate (unat n) 0)"

lemma replicate_numeral: "replicate (numeral k) x = x # replicate (pred_numeral k) x"
  by (simp add: numeral_eq_Suc)

lemma sample_encrypts:
  "encrypt sample_gcm zeroed (Some (replicate 12 9)) (sample_key\<lparr>symetric_key := k\<rparr>) (replicate 16 1)
     (message_mem [1, 2]) mem_null = Some (SUCCESS, sample_sent)"
  by (simp add: encrypt_def sample_key_def encrypt_aes_256_gsm_def message_mem_def encrypted_size_def layout_defs
      zeroed_def encrypt_ladder_def sample_gcm_def attempt_def poke_def subrange_def update_input_def
      int_length_def le16_def mem_null_def sample_sent_def replicate_numeral)

lemma peers_share_messages_witness:
  "\<exists>key_b. get_symmetric_key_from_ec sample_ec aes_256_gsm (byte_mem 5) (byte_mem 6) sample_key =
       Some (Inr (SUCCESS, key_b)) \<and>
     decrypt sample_gcm zeroed key_b sample_sent mem_null = Some (SUCCESS, message_mem [1, 2])"
proof (rule peers_share_messages [OF sample_ec_laws sample_gcm_laws, where a = 2 and b = 5 and out = "[0, 0]"])
  show "get_symmetric_key_from_ec sample_ec aes_256_gsm (byte_mem 2) (byte_mem 15) sample_key =
     Some (Inr (SUCCESS, sample_key\<lparr>symetric_key := replicate 32 30\<rparr>))" by (rule sample_first_key)
  show "encrypt sample_gcm zeroed (Some (replicate 12 9)) (sample_key\<lparr>symetric_key := replicate 32 30\<rparr>)
     (replicate 16 1) (message_mem [1, 2]) mem_null = Some (SUCCESS, sample_sent)" by (rule sample_encrypts)
qed (simp_all add: sample_binaries [of 2, simplified] sample_binaries [of 5, simplified]
    sample_key_def key_size_in_bytes_def aad_size_def zeroed_def replicate_numeral)

lemma encrypt_returns_witness:
  "\<exists>ret m. encrypt sample_gcm zeroed (Some (replicate 12 9)) sample_key (replicate 16 1)
       (message_mem [1, 2]) mem_null = Some (ret, m) \<and>
     (if ret = SUCCESS
      then \<exists>block. m = \<lparr>mem_ptr = Some block, mem_size = encrypted_size (word_of_nat (length [1 :: u8, 2]))\<rparr> \<and>
             length block = encrypted_header + (length [1 :: u8, 2] + 15) div 16 * 16
      else mem_ptr m = None)"
  by (rule encrypt_returns [OF sample_gcm_laws(1)]) (auto simp: layout_defs zeroed_def)

end
