(* ===== verification/PauseHelper.thy ===== *)
theory PauseHelper
  imports IotPrelude
begin

text \<open>
  serverlib/include/iot/watcher/helperevent.hh: how one thread of the distributor pauses the
  others.  The threads are a step relation over the counter \<open>pause_count\<close> (a \<open>size_t\<close>, so it
  wraps), the mutex \<open>pause_mutex\<close>, the counter of the event descriptor and the place every thread
  is at; each atomic operation and each system call of the code is a step of its own.
\<close>

subsection \<open>The threads\<close>

datatype pause_pc =
    Running
  | Pause_lock u64         \<comment> \<open>\<open>pause_all_thread\<close> after \<open>pause_count++\<close>, with its old value\<close>
  | Pause_loop             \<comment> \<open>the \<open>while\<close> loop of \<open>pause_all_thread\<close>, with the mutex\<close>
  | Pause_undo             \<comment> \<open>another thread is first: before \<open>--pause_count\<close>\<close>
  | Pause_unlock           \<comment> \<open>before \<open>pthread_mutex_unlock\<close>\<close>
  | Paused_all             \<comment> \<open>\<open>pause_all_thread\<close> has returned true\<close>
  | Pause_failed           \<comment> \<open>\<open>pause_all_thread\<close> has returned false with the mutex locked\<close>
  | Helper_read            \<comment> \<open>\<open>execute\<close>, before \<open>read\<close>\<close>
  | Helper_lock            \<comment> \<open>\<open>pause\<close>, before \<open>pthread_mutex_lock\<close>\<close>
  | Helper_dec             \<comment> \<open>\<open>pause\<close>, before \<open>--pause_count\<close>\<close>

record pauser =
  ps_count :: u64
  ps_mutex :: "nat option"
  ps_event :: u64
  ps_pc :: "nat \<Rightarrow> pause_pc"

definition at :: "nat \<Rightarrow> pause_pc \<Rightarrow> pauser \<Rightarrow> pauser" where
  "at t p s = s\<lparr>ps_pc := (ps_pc s)(t := p)\<rparr>"

text \<open>\<open>help_event\<close>, and the constructor: \<open>eventfd(1, EFD_NONBLOCK)\<close>.\<close>

definition PAUSE_ON_LOCK :: u64 where "PAUSE_ON_LOCK = 1"

definition new_pauser :: pauser where
  "new_pauser = \<lparr>ps_count = 0, ps_mutex = None, ps_event = 1, ps_pc = (\<lambda>_. Running)\<rparr>"

text \<open>\<open>write_event\<close>: the descriptor adds the value to its counter; it refuses to reach the last value.\<close>

definition write_event :: "u64 \<Rightarrow> pauser \<Rightarrow> pauser" where
  "write_event event s =
     (if unat (ps_event s) + unat event \<le> 2 ^ 64 - 2 then s\<lparr>ps_event := ps_event s + event\<rparr> else s)"

text \<open>
  The condition of the loop of \<open>pause_all_thread\<close>.  The code declares \<open>sent_count\<close> as zero and never
  changes it.
\<close>

definition sent_count :: u64 where "sent_count = 0"

definition pause_again :: "u64 \<Rightarrow> pauser \<Rightarrow> bool" where
  "pause_again thread_count s \<longleftrightarrow> ps_count s \<noteq> thread_count \<and> sent_count < thread_count * 2"

text \<open>
  \<open>pause_all_thread\<close> (\<open>call\<close> to \<open>loop_ends\<close>), \<open>resume_all_thread\<close> (\<open>resume\<close>), \<open>execute\<close> (\<open>event\<close> to
  \<open>read_fails\<close>) and \<open>pause\<close>.  When there is nothing to read (\<open>EAGAIN\<close>) the message is an
  uninitialised variable: either branch of the \<open>switch\<close>.
\<close>

inductive pause_step :: "u64 \<Rightarrow> nat \<Rightarrow> pauser \<Rightarrow> pauser \<Rightarrow> bool" for thread_count where
  call: "ps_pc s t = Running \<Longrightarrow>
     pause_step thread_count t s ((at t (Pause_lock (ps_count s)) s)\<lparr>ps_count := ps_count s + 1\<rparr>)"
| lock: "ps_pc s t = Pause_lock last_count \<Longrightarrow> ps_mutex s = None \<Longrightarrow>
     pause_step thread_count t s
       ((at t (if last_count = 0 then Pause_loop else Pause_undo) s)\<lparr>ps_mutex := Some t\<rparr>)"
| undo: "ps_pc s t = Pause_undo \<Longrightarrow>
     pause_step thread_count t s ((at t Pause_unlock s)\<lparr>ps_count := ps_count s - 1\<rparr>)"
| unlock: "ps_pc s t = Pause_unlock \<Longrightarrow>
     pause_step thread_count t s ((at t Running s)\<lparr>ps_mutex := None\<rparr>)"
| loop_sends: "ps_pc s t = Pause_loop \<Longrightarrow> pause_again thread_count s \<Longrightarrow>
     pause_step thread_count t s (write_event PAUSE_ON_LOCK s)"
| loop_ends: "ps_pc s t = Pause_loop \<Longrightarrow> \<not> pause_again thread_count s \<Longrightarrow>
     pause_step thread_count t s (at t (if ps_count s \<noteq> thread_count then Pause_failed else Paused_all) s)"
| resume: "ps_pc s t = Paused_all \<Longrightarrow>
     pause_step thread_count t s ((at t Pause_unlock s)\<lparr>ps_count := ps_count s - 1\<rparr>)"
| event: "ps_pc s t = Running \<Longrightarrow> ps_event s \<noteq> 0 \<Longrightarrow> pause_step thread_count t s (at t Helper_read s)"
| read_message: "ps_pc s t = Helper_read \<Longrightarrow> ps_event s \<noteq> 0 \<Longrightarrow>
     pause_step thread_count t s
       ((at t (if ps_event s = PAUSE_ON_LOCK then Helper_lock else Running) s)\<lparr>ps_event := 0\<rparr>)"
| read_nothing: "ps_pc s t = Helper_read \<Longrightarrow> ps_event s = 0 \<Longrightarrow> p \<in> {Helper_lock, Running} \<Longrightarrow>
     pause_step thread_count t s (at t p s)"
| read_fails: "ps_pc s t = Helper_read \<Longrightarrow> pause_step thread_count t s (at t Running s)"
| pause_lock: "ps_pc s t = Helper_lock \<Longrightarrow> ps_mutex s = None \<Longrightarrow>
     pause_step thread_count t s ((at t Helper_dec s)\<lparr>ps_mutex := Some t\<rparr>)"
| pause_dec: "ps_pc s t = Helper_dec \<Longrightarrow>
     pause_step thread_count t s ((at t Pause_unlock s)\<lparr>ps_count := ps_count s - 1\<rparr>)"

inductive_cases pause_stepE: "pause_step thread_count t s s'"

inductive pause_reachable :: "u64 \<Rightarrow> pauser \<Rightarrow> bool" for thread_count where
  start: "pause_reachable thread_count new_pauser"
| trans: "pause_reachable thread_count s \<Longrightarrow> pause_step thread_count t s s' \<Longrightarrow> pause_reachable thread_count s'"

lemma at_simps [simp]:
  "ps_count (at t p s) = ps_count s" "ps_mutex (at t p s) = ps_mutex s" "ps_event (at t p s) = ps_event s"
  "ps_pc (at t p s) = (ps_pc s)(t := p)"
  by (simp_all add: at_def)

lemma write_event_simps [simp]:
  "ps_count (write_event e s) = ps_count s" "ps_mutex (write_event e s) = ps_mutex s"
  "ps_pc (write_event e s) = ps_pc s"
  by (simp_all add: write_event_def)

subsection \<open>One thread at a time\<close>

text \<open>The places at which a thread has the mutex.\<close>

definition with_mutex :: "pause_pc \<Rightarrow> bool" where
  "with_mutex p \<longleftrightarrow> p \<in> {Pause_loop, Pause_undo, Pause_unlock, Paused_all, Pause_failed, Helper_dec}"

lemma with_mutex_simps [simp]:
  "\<not> with_mutex Running" "\<not> with_mutex (Pause_lock n)" "with_mutex Pause_loop" "with_mutex Pause_undo"
  "with_mutex Pause_unlock" "with_mutex Paused_all" "with_mutex Pause_failed" "\<not> with_mutex Helper_read"
  "\<not> with_mutex Helper_lock" "with_mutex Helper_dec"
  by (simp_all add: with_mutex_def)

definition mutex_ok :: "pauser \<Rightarrow> bool" where
  "mutex_ok s \<longleftrightarrow> (\<forall>t. with_mutex (ps_pc s t) \<longleftrightarrow> ps_mutex s = Some t)"

lemma mutex_okD: "mutex_ok s \<Longrightarrow> with_mutex (ps_pc s t) \<longleftrightarrow> ps_mutex s = Some t"
  by (simp add: mutex_ok_def)

lemma mutex_ok_start: "mutex_ok new_pauser"
  by (simp add: mutex_ok_def new_pauser_def)

lemma mutex_ok_update:
  assumes "mutex_ok s" "\<And>u. u \<noteq> t \<Longrightarrow> ps_pc s' u = ps_pc s u"
    and "with_mutex (ps_pc s' t) \<longleftrightarrow> ps_mutex s' = Some t"
    and "\<And>u. u \<noteq> t \<Longrightarrow> ps_mutex s' = Some u \<longleftrightarrow> ps_mutex s = Some u"
  shows "mutex_ok s'"
  using assms unfolding mutex_ok_def by metis

lemma mutex_ok_step:
  assumes "pause_step thread_count t s s'" "mutex_ok s"
  shows "mutex_ok s'"
proof -
  note owner = mutex_okD [OF assms(2), of t]
  from assms(1) show ?thesis
    by (cases rule: pause_step.cases; intro mutex_ok_update [OF assms(2), of t s'])
      (use owner in \<open>auto split: if_splits\<close>)
qed

lemma mutex_ok_reachable: "pause_reachable thread_count s \<Longrightarrow> mutex_ok s"
  by (induction rule: pause_reachable.induct) (auto intro: mutex_ok_start mutex_ok_step)

text \<open>
  C16: while one thread has paused the others, no other thread has, none is in the loop that pauses
  them, and none of the threads that answer the helper event has got past the mutex: whatever the
  interleaving of any number of threads that pause, resume and answer.
\<close>

theorem pause_exclusive:
  assumes "pause_reachable thread_count s" "ps_pc s t = Paused_all" "u \<noteq> t"
  shows "ps_pc s u \<in> {Running, Helper_read, Helper_lock} \<or> (\<exists>n. ps_pc s u = Pause_lock n)"
proof -
  have "ps_mutex s = Some t" using mutex_okD [OF mutex_ok_reachable [OF assms(1)], of t] assms(2) by simp
  then have "\<not> with_mutex (ps_pc s u)"
    using mutex_okD [OF mutex_ok_reachable [OF assms(1)], of u] assms(3) by simp
  then show ?thesis by (cases "ps_pc s u") simp_all
qed

text \<open>With one thread of the distributor, and before it answers the first event, a pause succeeds.\<close>

definition sample_paused :: pauser where
  "sample_paused = (at 0 Paused_all new_pauser)\<lparr>ps_count := 1, ps_mutex := Some 0\<rparr>"

lemma sample_paused_reachable: "pause_reachable 1 sample_paused"
proof -
  let ?s1 = "(at 0 (Pause_lock 0) new_pauser)\<lparr>ps_count := 1\<rparr>"
  let ?s2 = "(at 0 Pause_loop new_pauser)\<lparr>ps_count := 1, ps_mutex := Some 0\<rparr>"
  have "pause_step 1 0 new_pauser ?s1"
    using pause_step.call [of new_pauser 0 1] by (simp add: new_pauser_def)
  moreover have "pause_step 1 0 ?s1 ?s2"
    using pause_step.lock [of ?s1 0 0 1] by (simp add: new_pauser_def at_def)
  moreover have "pause_step 1 0 ?s2 sample_paused"
    using pause_step.loop_ends [of ?s2 0 1] by (simp add: new_pauser_def at_def pause_again_def sample_paused_def)
  ultimately show ?thesis by (blast intro: pause_reachable.intros)
qed

lemma pause_exclusive_witness:
  "ps_pc sample_paused 1 \<in> {Running, Helper_read, Helper_lock} \<or> (\<exists>n. ps_pc sample_paused 1 = Pause_lock n)"
  by (rule pause_exclusive [OF sample_paused_reachable, of 0]) (simp_all add: sample_paused_def)

subsection \<open>A pause after the start\<close>

text \<open>
  The descriptor starts with the value 1, which is \<open>PAUSE_ON_LOCK\<close>: the first thread that waits for
  events reads it and pauses itself, and \<open>pause_count\<close>, which nobody has counted up, wraps.
\<close>

definition started :: pauser where
  "started = \<lparr>ps_count = - 1, ps_mutex = None, ps_event = 0, ps_pc = (\<lambda>_. Running)\<rparr>"

lemma started_reachable: "pause_reachable thread_count started"
proof -
  let ?s1 = "at 0 Helper_read new_pauser"
  let ?s2 = "(at 0 Helper_lock new_pauser)\<lparr>ps_event := 0\<rparr>"
  let ?s3 = "(at 0 Helper_dec new_pauser)\<lparr>ps_event := 0, ps_mutex := Some 0\<rparr>"
  let ?s4 = "(at 0 Pause_unlock new_pauser)\<lparr>ps_event := 0, ps_mutex := Some 0, ps_count := - 1\<rparr>"
  have idle: "(\<lambda>_. Running)(0 := Running) = (\<lambda>_. Running)" by auto
  have s1: "pause_step thread_count 0 new_pauser ?s1"
    using pause_step.event [of new_pauser 0 thread_count] by (simp add: new_pauser_def)
  have s2: "pause_step thread_count 0 ?s1 ?s2"
    using pause_step.read_message [of ?s1 0 thread_count] by (simp add: new_pauser_def at_def PAUSE_ON_LOCK_def)
  have s3: "pause_step thread_count 0 ?s2 ?s3"
    using pause_step.pause_lock [of ?s2 0 thread_count] by (simp add: new_pauser_def at_def)
  have s4: "pause_step thread_count 0 ?s3 ?s4"
    using pause_step.pause_dec [of ?s3 0 thread_count] by (simp add: new_pauser_def at_def)
  have s5: "pause_step thread_count 0 ?s4 started"
    using pause_step.unlock [of ?s4 0 thread_count] by (simp add: new_pauser_def at_def started_def idle)
  note next_state = pause_reachable.trans
  show ?thesis
    by (rule next_state [OF next_state [OF next_state [OF next_state [OF next_state [OF pause_reachable.start s1] s2] s3] s4] s5])
qed

text \<open>From there on: one thread (the one that runs the file watcher) calls \<open>pause_all_thread\<close>.\<close>

inductive watched_run :: "u64 \<Rightarrow> nat \<Rightarrow> pauser \<Rightarrow> bool" for thread_count w where
  after_start: "watched_run thread_count w started"
| next_step: "watched_run thread_count w s \<Longrightarrow> pause_step thread_count t s s' \<Longrightarrow>
     t = w \<or> (\<forall>n. ps_pc s' t \<noteq> Pause_lock n) \<Longrightarrow> watched_run thread_count w s'"

definition refused :: "nat \<Rightarrow> pauser \<Rightarrow> bool" where
  "refused w s \<longleftrightarrow> ps_event s = 0 \<and> (\<forall>t. t \<noteq> w \<longrightarrow> ps_pc s t = Running) \<and>
     (ps_pc s w, ps_count s) \<in> {(Running, - 1), (Pause_lock (- 1), 0), (Pause_undo, 0), (Pause_unlock, - 1)}"

lemma refused_step:
  assumes "refused w s" "pause_step thread_count t s s'" "t = w \<or> (\<forall>n. ps_pc s' t \<noteq> Pause_lock n)"
  shows "refused w s'"
  using assms(2,1,3)
  by (cases rule: pause_step.cases) (cases "t = w"; auto simp: refused_def)+

text \<open>
  C26: after the start of the distributor \<open>pause_all_thread\<close> refuses: whenever the file watcher is the
  only thread that pauses, it never gets the others paused.
\<close>

theorem pause_refused:
  assumes "watched_run thread_count w s"
  shows "ps_pc s w \<noteq> Paused_all \<and> ps_pc s w \<noteq> Pause_loop"
proof -
  have "refused w s" using assms
  proof induction
    case after_start
    show ?case by (simp add: refused_def started_def)
  next
    case (next_step s t s')
    then show ?case using refused_step by blast
  qed
  then show ?thesis by (auto simp: refused_def)
qed

text \<open>The watcher has called, has got the mutex and is about to take its count back.\<close>

definition sample_refused :: pauser where
  "sample_refused = (at 3 Pause_undo started)\<lparr>ps_count := 0, ps_mutex := Some 3\<rparr>"

lemma sample_refused_run: "watched_run 4 3 sample_refused"
proof -
  let ?s1 = "(at 3 (Pause_lock (- 1)) started)\<lparr>ps_count := 0\<rparr>"
  have "pause_step 4 3 started ?s1"
    using pause_step.call [of started 3 4] by (simp add: started_def)
  moreover have "pause_step 4 3 ?s1 sample_refused"
    using pause_step.lock [of ?s1 3 "- 1" 4] by (simp add: started_def at_def sample_refused_def)
  ultimately show ?thesis by (blast intro: watched_run.intros)
qed

lemma pause_refused_witness: "ps_pc sample_refused 3 \<noteq> Paused_all \<and> ps_pc sample_refused 3 \<noteq> Pause_loop"
  by (rule pause_refused [OF sample_refused_run])

text \<open>
  Without the first event the loop of \<open>pause_all_thread\<close> is the problem: with two threads or more and
  one caller the count stays below the number of threads, and the bound on the attempts, which
  compares a number that is never counted up, does not end the loop.
\<close>

lemma pause_loop_endless:
  assumes "ps_pc s t = Pause_loop" "ps_count s \<noteq> thread_count" "thread_count * 2 \<noteq> 0"
    and "pause_step thread_count t s s'"
  shows "ps_pc s' t = Pause_loop \<and> ps_count s' = ps_count s"
proof -
  have "pause_again thread_count s" using assms(2,3) by (simp add: pause_again_def sent_count_def word_gt_0)
  with assms(4,1) show ?thesis by (cases rule: pause_step.cases) auto
qed

end
