(* ===== verification/EventLoop.thy ===== *)
theory EventLoop
  imports Errors EventExec DelayedFree
begin

text \<open>
  serverlib/include/iot/states/event_distributor.hh and lib/states/event_distributor.cc: creation
  and start of the distributor, registration of executors, the loop of its threads, waiting and
  termination.  The results of system calls are arguments; log calls are left out.  An executor is
  a number; the calls a loop makes on executors are a list.
\<close>

subsection \<open>Creation and start\<close>

record event_dist =
  dist_epollfd :: int
  dist_thread_count :: u64
  dist_thread_map :: "nat \<rightharpoonup> event_thread_entry"
  dist_is_terminate :: bool

text \<open>
  The constructor, with the result of \<open>epoll_create\<close> and the number of processors; the argument 0
  stands for one thread for each of them.
\<close>

definition new_event_dist :: "int \<Rightarrow> int \<Rightarrow> int \<Rightarrow> err_t + event_dist" where
  "new_event_dist thread_count epollfd cpu_count =
     (if epollfd = - 1 then Inl err_t.EVENT_DIST_CREATE_FAILED
      else Inr \<lparr>dist_epollfd = epollfd,
                dist_thread_count = (if thread_count = 0 then word_of_int cpu_count else word_of_int thread_count),
                dist_thread_map = Map.empty, dist_is_terminate = False\<rparr>)"

text \<open>\<open>add_thread_map\<close>: \<open>insert\<close> keeps an entry that is there.\<close>

definition add_thread_map :: "u64 \<Rightarrow> nat \<Rightarrow> event_dist \<Rightarrow> event_dist" where
  "add_thread_map now pthread d =
     (case dist_thread_map d pthread of
        Some _ \<Rightarrow> d
      | None \<Rightarrow> d\<lparr>dist_thread_map := (dist_thread_map d)(pthread \<mapsto> new_thread_entry now pthread)\<rparr>)"

lemma add_thread_map_count [simp]: "dist_thread_count (add_thread_map now p d) = dist_thread_count d"
  by (simp add: add_thread_map_def split: option.splits)

text \<open>
  The loop of \<open>init\<close> over \<open>cpu_index\<close>; \<open>created i\<close> is the thread of the \<open>i\<close>-th call of
  \<open>pthread_create\<close>, or \<open>None\<close> when it fails.
\<close>

function init_threads :: "u64 \<Rightarrow> (nat \<Rightarrow> nat option) \<Rightarrow> nat \<Rightarrow> event_dist \<Rightarrow> event_dist" where
  "init_threads now created cpu_index d =
     (if cpu_index < unat (dist_thread_count d) then
        (case created cpu_index of
           None \<Rightarrow> d\<lparr>dist_thread_count := word_of_nat cpu_index\<rparr>
         | Some pthread \<Rightarrow> init_threads now created (cpu_index + 1) (add_thread_map now pthread d))
      else d)"
  by auto

termination
  by (relation "measure (\<lambda>(_, _, i, d). unat (dist_thread_count d) - i)") auto

declare init_threads.simps [simp del]

text \<open>
  \<open>init\<close>: the clean-up thread (entered in the map whatever \<open>pthread_create\<close> says), the threads, the
  exception when there is none, and the helper event, whose descriptor may fail too.
\<close>

definition dist_init :: "u64 \<Rightarrow> nat \<Rightarrow> (nat \<Rightarrow> nat option) \<Rightarrow> int \<Rightarrow> event_dist \<Rightarrow> err_t + event_dist" where
  "dist_init now cleanup_thread created evtfd d =
     (let d = init_threads now created 0 (add_thread_map now cleanup_thread d)
      in if dist_thread_count d = 0 then Inl err_t.EVENT_DIST_CREATE_FAILED
         else if evtfd = - 1 then Inl err_t.FILEWATCHER_EVENT_CREATE_FAILED
         else Inr d)"

subsection \<open>Registration\<close>

definition EPOLLIN :: u32 where "EPOLLIN = 0x001"
definition EPOLLET :: u32 where "EPOLLET = 0x80000000"
definition EPOLLRDHUP :: u32 where "EPOLLRDHUP = 0x2000"

text \<open>
  \<open>add\<close>: the exception for descriptor 0, or what is given to \<open>epoll_ctl\<close> and the code for its
  result; \<open>remove\<close>: the code.
\<close>

definition add_event :: "int \<Rightarrow> u32 \<Rightarrow> nat \<Rightarrow> int \<Rightarrow> err_t + (u32 \<times> nat) \<times> err_t" where
  "add_event fd event executor ret =
     (if fd = 0 then Inl err_t.EVENT_CREATE_FAILED_ZERO
      else Inr ((event OR EPOLLET OR EPOLLRDHUP, executor),
                if ret = - 1 then err_t.EVENT_CREATE_FAILED else SUCCESS))"

definition remove_event :: "int \<Rightarrow> err_t" where
  "remove_event ret = (if ret = - 1 then err_t.EVENT_REMOVE_FAILED else SUCCESS)"

text \<open>The \<open>thread_context\<close> of a thread: the distributor of its loop, or a null pointer before.\<close>

record thread_context =
  ctx_evtdist :: "event_dist option"

definition ctx_add_event :: "thread_context \<Rightarrow> int \<Rightarrow> u32 \<Rightarrow> nat \<Rightarrow> int \<Rightarrow> (err_t + (u32 \<times> nat) \<times> err_t) option" where
  "ctx_add_event ctx fd event executor ret = do { _ \<leftarrow> ctx_evtdist ctx; Some (add_event fd event executor ret) }"

definition ctx_remove_event :: "thread_context \<Rightarrow> int \<Rightarrow> err_t option" where
  "ctx_remove_event ctx ret = do { _ \<leftarrow> ctx_evtdist ctx; Some (remove_event ret) }"

subsection \<open>The loop of a thread\<close>

datatype event_call = Mark_closed nat bool | Execute_protector nat

definition event_call_of :: "u32 \<times> nat \<Rightarrow> event_call" where
  "event_call_of e =
     (case e of (events, executor) \<Rightarrow>
        if events AND (0x010 OR 0x008) \<noteq> 0 then Mark_closed executor False
        else if events AND EPOLLRDHUP \<noteq> 0 then Mark_closed executor True
        else Execute_protector executor)"

text \<open>
  The result of one \<open>epoll_wait\<close>: an error number and what \<open>is_terminate\<close> is at the two places that
  read it, or the events.
\<close>

datatype wait_result = Wait_error int bool bool | Wait_events "(u32 \<times> nat) list"

text \<open>
  The \<open>for\<close> loop over the events; \<open>exits c\<close> tells that a call ends the thread (the
  \<open>terminate_executor\<close> does, with \<open>pthread_exit\<close>).  The result: the states the thread records, the
  calls, and whether the thread has ended.
\<close>

fun process_events :: "(event_call \<Rightarrow> bool) \<Rightarrow> (u32 \<times> nat) list \<Rightarrow> state_t list \<times> event_call list \<times> bool" where
  "process_events exits [] = ([], [], False)"
| "process_events exits (e # es) =
     (let c = event_call_of e;
          before = [EVENT_DIST_EPOLL_PROCESSING, EVENT_DIST_EPOLL_EXECUTE]
      in if exits c then (before, [c], True)
         else case process_events exits es of
           (states, calls, ended) \<Rightarrow>
             (before @ (case c of Mark_closed _ _ \<Rightarrow> [EVENT_DIST_EPOLL_CLOSE] | Execute_protector _ \<Rightarrow> []) @ states,
              c # calls, ended))"

definition EINTR :: int where "EINTR = 4"
definition EINVAL :: int where "EINVAL = 22"

fun loop_pass :: "(event_call \<Rightarrow> bool) \<Rightarrow> wait_result \<Rightarrow> state_t list \<times> event_call list \<times> bool" where
  "loop_pass exits (Wait_error errno terminate_first terminate_second) =
     (if (errno = EINTR \<or> errno = EINVAL) \<and> terminate_first
      then ([EVENT_DIST_EPOLL_WAIT, EVENT_DIST_EPOLL_TERMINATE], [], True)
      else if terminate_second then ([EVENT_DIST_EPOLL_WAIT, EVENT_DIST_EPOLL_TERMINATE], [], True)
      else ([EVENT_DIST_EPOLL_WAIT], [], False))"
| "loop_pass exits (Wait_events es) =
     (case process_events exits es of (states, calls, ended) \<Rightarrow> (EVENT_DIST_EPOLL_WAIT # states, calls, ended))"

text \<open>The loop over the results of \<open>epoll_wait\<close> so far.\<close>

fun event_loop :: "(event_call \<Rightarrow> bool) \<Rightarrow> wait_result list \<Rightarrow> state_t list \<times> event_call list \<times> bool" where
  "event_loop exits [] = ([], [], False)"
| "event_loop exits (w # ws) =
     (case loop_pass exits w of
        (states, calls, True) \<Rightarrow> (states, calls, True)
      | (states, calls, False) \<Rightarrow>
          (case event_loop exits ws of (states', calls', ended) \<Rightarrow> (states @ states', calls @ calls', ended)))"

text \<open>
  Before the loop the thread waits until its entry is in the map: the maps it sees, one after each
  sleep.
\<close>

definition registered :: "nat \<Rightarrow> (nat \<rightharpoonup> event_thread_entry) list \<Rightarrow> event_thread_entry option" where
  "registered self maps = do { m \<leftarrow> find (\<lambda>m. m self \<noteq> None) maps; m self }"

subsection \<open>Waiting and termination\<close>

text \<open>\<open>wait\<close>: the threads in the map (in the order of the map) that are joined without an error.\<close>

definition dist_wait :: "(nat \<Rightarrow> int) \<Rightarrow> nat list \<Rightarrow> nat list" where
  "dist_wait join threads = filter (\<lambda>t. join t = 0) threads"

datatype terminate_call = Terminate_add int "err_t + (u32 \<times> nat) \<times> err_t" | Terminate_close int

text \<open>
  \<open>terminate\<close>: for every thread a descriptor with the value 1, an executor (on the stack of the
  loop: the number is the place it is at) and, after 10 ms, the end of the descriptor; at last the
  end of the \<open>epoll\<close> descriptor.  The flag tells that an exception of \<open>add\<close> has ended the function.
\<close>

fun terminate_loop :: "(nat \<Rightarrow> int) \<Rightarrow> (nat \<Rightarrow> int) \<Rightarrow> nat \<Rightarrow> nat \<Rightarrow> nat \<Rightarrow> terminate_call list \<times> bool" where
  "terminate_loop evtfd ctl place i 0 = ([], False)"
| "terminate_loop evtfd ctl place i (Suc n) =
     (case add_event (evtfd i) EPOLLIN place (ctl i) of
        Inl exn \<Rightarrow> ([Terminate_add (evtfd i) (Inl exn)], True)
      | Inr added \<Rightarrow>
          (case terminate_loop evtfd ctl place (i + 1) n of
             (calls, thrown) \<Rightarrow> (Terminate_add (evtfd i) (Inr added) # Terminate_close (evtfd i) # calls, thrown)))"

definition dist_terminate ::
  "(nat \<Rightarrow> int) \<Rightarrow> (nat \<Rightarrow> int) \<Rightarrow> nat \<Rightarrow> event_dist \<Rightarrow> terminate_call list \<times> event_dist" where
  "dist_terminate evtfd ctl place d =
     (case terminate_loop evtfd ctl place 0 (unat (dist_thread_count d)) of
        (calls, thrown) \<Rightarrow>
          (if thrown then calls else calls @ [Terminate_close (dist_epollfd d)], d\<lparr>dist_is_terminate := True\<rparr>))"

subsection \<open>Correctness of the start and of the loop\<close>

lemma init_threads_map:
  assumes "\<And>i. i < n \<Longrightarrow> created (k + i) \<noteq> None" "k + n \<le> unat (dist_thread_count d)"
    and "k + n = unat (dist_thread_count d) \<or> created (k + n) = None"
  shows "unat (dist_thread_count (init_threads now created k d)) = k + n \<and>
         dom (dist_thread_map (init_threads now created k d)) =
           dom (dist_thread_map d) \<union> (\<lambda>i. the (created (k + i))) ` {..<n}"
  using assms
proof (induction n arbitrary: k d)
  case 0
  show ?case
  proof (cases "k < unat (dist_thread_count d)")
    case True
    then have "created k = None" using "0.prems"(3) by simp
    moreover have "unat (word_of_nat k :: u64) = k"
    proof -
      have "unat (dist_thread_count d) < 2 ^ 64" using unsigned_less [of "dist_thread_count d"] by simp
      then show ?thesis using True by (simp add: unat_of_nat)
    qed
    ultimately show ?thesis using True by (simp add: init_threads.simps [of now created k d])
  next
    case False
    then have "init_threads now created k d = d" by (simp add: init_threads.simps [of now created k d])
    then show ?thesis using False "0.prems"(2) by simp
  qed
next
  case (Suc n)
  obtain p where p: "created k = Some p" using Suc.prems(1) [of 0] by auto
  have lt: "k < unat (dist_thread_count d)" using Suc.prems(2) by simp
  have "\<And>i. i < n \<Longrightarrow> created (k + 1 + i) \<noteq> None" using Suc.prems(1) [of "Suc _"] by auto
  then have ih: "unat (dist_thread_count (init_threads now created (k + 1) (add_thread_map now p d))) = k + 1 + n \<and>
      dom (dist_thread_map (init_threads now created (k + 1) (add_thread_map now p d))) =
        dom (dist_thread_map (add_thread_map now p d)) \<union> (\<lambda>i. the (created (k + 1 + i))) ` {..<n}"
    using Suc.prems(2,3) by (intro Suc.IH) auto
  have dom: "dom (dist_thread_map (add_thread_map now p d)) = insert p (dom (dist_thread_map d))"
    by (auto simp: add_thread_map_def split: option.splits)
  have "(\<lambda>i. the (created (k + i))) ` {..<Suc n} = insert p ((\<lambda>i. the (created (k + 1 + i))) ` {..<n})"
    by (simp add: lessThan_Suc_eq_insert_0 image_image p)
  then show ?case using ih dom lt p by (simp add: init_threads.simps [of now created k d])
qed

text \<open>
  C19: the start of the distributor.  When the first \<open>n\<close> threads can be created, and no more are wanted
  or the next one fails, \<open>init\<close> throws for \<open>n = 0\<close>; otherwise the distributor counts \<open>n\<close> threads and
  its map has exactly these and the clean-up thread.
\<close>

theorem distributor_started:
  assumes "\<And>i. i < n \<Longrightarrow> created i \<noteq> None" "n \<le> unat (dist_thread_count d)"
    and "n = unat (dist_thread_count d) \<or> created n = None"
    and "dist_thread_map d = Map.empty" "evtfd \<noteq> - 1"
  shows "case dist_init now cleanup_thread created evtfd d of
           Inl e \<Rightarrow> n = 0 \<and> e = err_t.EVENT_DIST_CREATE_FAILED
         | Inr d' \<Rightarrow> 0 < n \<and> unat (dist_thread_count d') = n \<and>
             dom (dist_thread_map d') = insert cleanup_thread ((\<lambda>i. the (created i)) ` {..<n})"
proof -
  let ?d = "init_threads now created 0 (add_thread_map now cleanup_thread d)"
  have dom: "dom (dist_thread_map (add_thread_map now cleanup_thread d)) = {cleanup_thread}"
    using assms(4) by (auto simp: add_thread_map_def)
  have r: "unat (dist_thread_count ?d) = n \<and>
      dom (dist_thread_map ?d) = dom (dist_thread_map (add_thread_map now cleanup_thread d)) \<union>
        (\<lambda>i. the (created (0 + i))) ` {..<n}"
    using assms(1,2,3) init_threads_map [of n created 0 "add_thread_map now cleanup_thread d" now] by simp
  then have "dist_thread_count ?d = 0 \<longleftrightarrow> n = 0" by (metis unsigned_eq_0_iff)
  then show ?thesis using r dom assms(5) by (simp add: dist_init_def Let_def)
qed

definition sample_dist :: event_dist where
  "sample_dist = \<lparr>dist_epollfd = 4, dist_thread_count = 3, dist_thread_map = Map.empty, dist_is_terminate = False\<rparr>"

lemma distributor_started_witness:
  "case dist_init 5 100 (\<lambda>i. if i < 2 then Some (200 + i) else None) 7 sample_dist of
     Inl e \<Rightarrow> (2 :: nat) = 0 \<and> e = err_t.EVENT_DIST_CREATE_FAILED
   | Inr d' \<Rightarrow> 0 < (2 :: nat) \<and> unat (dist_thread_count d') = 2 \<and>
       dom (dist_thread_map d') = insert 100 ((\<lambda>i. the (if i < 2 then Some (200 + i) else None)) ` {..<2})"
  by (rule distributor_started) (simp_all add: sample_dist_def)

text \<open>The events that were reported, and where a call starts in the protocol of its executor.\<close>

definition reported :: "wait_result list \<Rightarrow> (u32 \<times> nat) list" where
  "reported ws = concat (map (\<lambda>w. case w of Wait_error _ _ _ \<Rightarrow> [] | Wait_events es \<Rightarrow> es) ws)"

lemma reported_simps [simp]:
  "reported [] = []" "reported (Wait_error errno t1 t2 # ws) = reported ws"
  "reported (Wait_events es # ws) = es @ reported ws"
  by (simp_all add: reported_def)

fun call_target :: "event_call \<Rightarrow> nat" where
  "call_target (Mark_closed x _) = x"
| "call_target (Execute_protector x) = x"

fun call_pc :: "event_call \<Rightarrow> pc" where
  "call_pc (Mark_closed _ readclose) = Set_closed readclose"
| "call_pc (Execute_protector _) = Enter_execute"

lemma call_is_step: "ex_pc s t = Idle \<Longrightarrow> ev_step t s (goto t (call_pc c) s)"
  by (cases c) (auto intro: ev_step.event ev_step.hangup)

text \<open>
  The contract of the loop, over the bits of the event mask: \<open>EPOLLERR\<close> is bit 3, \<open>EPOLLHUP\<close> bit 4 and
  \<open>EPOLLRDHUP\<close> bit 13.  A failed wait ends the thread when one of the two looks at \<open>is_terminate\<close>
  says so; the first look is taken for two error numbers only.
\<close>

fun asked_call :: "u32 \<times> nat \<Rightarrow> event_call" where
  "asked_call (events, x) =
     (if bit events 3 \<or> bit events 4 then Mark_closed x False
      else if bit events 13 then Mark_closed x True else Execute_protector x)"

fun ends_thread :: "wait_result \<Rightarrow> bool" where
  "ends_thread (Wait_error errno terminate_first terminate_second) \<longleftrightarrow>
     errno \<in> {4, 22} \<and> terminate_first \<or> terminate_second"
| "ends_thread (Wait_events _) \<longleftrightarrow> False"

lemma and_bit_neq_0: "(x AND y \<noteq> 0) \<longleftrightarrow> (\<exists>n. bit x n \<and> bit y n)" for x y :: u32
proof -
  have "n < 32" if "bit x n" for n using bit_imp_le_length [OF that] by simp
  then show ?thesis by (auto simp: bit_eq_iff bit_and_iff)
qed

lemma event_call_of_asked: "event_call_of e = asked_call e"
proof (cases e)
  case (Pair events x)
  have "(events AND (0x010 OR 0x008) \<noteq> 0) = (bit events 3 \<or> bit events 4)"
  proof -
    have "bit (0x010 OR 0x008 :: u32) n \<longleftrightarrow> n = 3 \<or> n = 4" for n
    proof -
      have "(0x010 OR 0x008 :: u32) = push_bit 3 1 OR push_bit 4 1" by simp
      then show ?thesis by (simp only: bit_or_iff bit_push_bit_iff) (auto simp: bit_1_iff)
    qed
    then show ?thesis by (auto simp: and_bit_neq_0)
  qed
  moreover have "(events AND EPOLLRDHUP \<noteq> 0) = bit events 13"
  proof -
    have rdhup: "EPOLLRDHUP = push_bit 13 1" by (simp add: EPOLLRDHUP_def)
    have "bit EPOLLRDHUP n \<longleftrightarrow> n = 13" for n
      unfolding rdhup by (simp only: bit_push_bit_iff) (auto simp: bit_1_iff)
    then show ?thesis by (auto simp: and_bit_neq_0)
  qed
  ultimately show ?thesis by (simp add: event_call_of_def Pair)
qed

text \<open>The pass over one list of events, and the loop.\<close>

definition through :: "(event_call \<Rightarrow> bool) \<Rightarrow> (u32 \<times> nat) list \<Rightarrow> bool" where
  "through exits es \<longleftrightarrow> (\<forall>e \<in> set es. \<not> exits (asked_call e))"

lemma through_simps [simp]:
  "through exits []" "through exits (e # es) \<longleftrightarrow> \<not> exits (asked_call e) \<and> through exits es"
  "through exits (es @ es') \<longleftrightarrow> through exits es \<and> through exits es'"
  by (auto simp: through_def)

lemma process_events_exact:
  "process_events exits es = (states, calls, ended) \<Longrightarrow>
     if ended then \<exists>es1 e es2. es = es1 @ e # es2 \<and> through exits es1 \<and> exits (asked_call e) \<and>
       calls = map asked_call (es1 @ [e])
     else through exits es \<and> calls = map asked_call es"
proof (induction es arbitrary: states calls ended)
  case (Cons e es)
  obtain s c d where r: "process_events exits es = (s, c, d)" by (cases "process_events exits es")
  show ?case
  proof (cases "exits (asked_call e)")
    case True
    then have "ended" "calls = [asked_call e]" using Cons.prems by (simp_all add: event_call_of_asked Let_def)
    then show ?thesis using True by (intro if_P [THEN iffD2] exI [of _ "[]"] exI [of _ e] exI [of _ es]) simp_all
  next
    case False
    then have d: "ended = d" "calls = asked_call e # c"
      using Cons.prems r by (auto simp: event_call_of_asked Let_def)
    show ?thesis
    proof (cases d)
      case True
      then obtain es1 x es2 where "es = es1 @ x # es2" "through exits es1" "exits (asked_call x)"
          "c = map asked_call (es1 @ [x])"
        using Cons.IH [OF r] by auto
      then have "e # es = (e # es1) @ x # es2 \<and> through exits (e # es1) \<and> exits (asked_call x) \<and>
          calls = map asked_call ((e # es1) @ [x])"
        using False d(2) by simp
      then show ?thesis using d(1) True by (simp only: if_True) blast
    next
      case no: False
      then show ?thesis using Cons.IH [OF r] False d by simp
    qed
  qed
qed simp

lemma loop_pass_exact:
  "loop_pass exits w = (states, calls, ended) \<Longrightarrow>
     if ended then ends_thread w \<and> calls = [] \<or>
       (\<exists>es1 e es2. w = Wait_events (es1 @ e # es2) \<and> through exits es1 \<and> exits (asked_call e) \<and>
          calls = map asked_call (es1 @ [e]))
     else \<not> ends_thread w \<and> through exits (reported [w]) \<and> calls = map asked_call (reported [w])"
proof (cases w)
  case (Wait_error errno t1 t2)
  then show "loop_pass exits w = (states, calls, ended) \<Longrightarrow> ?thesis"
    by (auto simp: EINTR_def EINVAL_def split: if_splits)
next
  case (Wait_events es)
  then show "loop_pass exits w = (states, calls, ended) \<Longrightarrow> ?thesis"
    using process_events_exact [of exits es] by (auto split: prod.splits if_splits)
qed

lemma event_loop_exact:
  "event_loop exits ws = (states, calls, ended) \<Longrightarrow>
     if ended then
       \<exists>ws1 w ws2. ws = ws1 @ w # ws2 \<and> (\<forall>v \<in> set ws1. \<not> ends_thread v) \<and> through exits (reported ws1) \<and>
         (ends_thread w \<and> calls = map asked_call (reported ws1) \<or>
          (\<exists>es1 e es2. w = Wait_events (es1 @ e # es2) \<and> through exits es1 \<and> exits (asked_call e) \<and>
             calls = map asked_call (reported ws1 @ es1 @ [e])))
     else (\<forall>v \<in> set ws. \<not> ends_thread v) \<and> through exits (reported ws) \<and> calls = map asked_call (reported ws)"
proof (induction ws arbitrary: states calls ended)
  case (Cons w ws)
  obtain s1 c1 e1 where w: "loop_pass exits w = (s1, c1, e1)" by (cases "loop_pass exits w")
  show ?case
  proof (cases e1)
    case True
    then have ended: "ended" "calls = c1" using Cons.prems w by simp_all
    have "ends_thread w \<and> c1 = [] \<or>
        (\<exists>es1 e es2. w = Wait_events (es1 @ e # es2) \<and> through exits es1 \<and> exits (asked_call e) \<and>
           c1 = map asked_call (es1 @ [e]))"
      using loop_pass_exact [OF w] True by simp
    then show ?thesis
      unfolding ended(2) using ended(1) by (intro if_P [THEN iffD2] exI [of _ "[]"] exI [of _ w] exI [of _ ws]) simp_all
  next
    case False
    obtain s2 c2 e2 where t: "event_loop exits ws = (s2, c2, e2)" by (cases "event_loop exits ws")
    have calls: "ended = e2" "calls = c1 @ c2" using Cons.prems w t False by simp_all
    have head: "\<not> ends_thread w" "through exits (reported [w])" "c1 = map asked_call (reported [w])"
      using loop_pass_exact [OF w] False by simp_all
    have split: "reported (w # vs) = reported [w] @ reported vs" for vs by (simp add: reported_def)
    show ?thesis
    proof (cases e2)
      case True
      then obtain ws1 v ws2 where r: "ws = ws1 @ v # ws2" "\<forall>v \<in> set ws1. \<not> ends_thread v"
          "through exits (reported ws1)"
          "ends_thread v \<and> c2 = map asked_call (reported ws1) \<or>
           (\<exists>es1 e es2. v = Wait_events (es1 @ e # es2) \<and> through exits es1 \<and> exits (asked_call e) \<and>
              c2 = map asked_call (reported ws1 @ es1 @ [e]))"
        using Cons.IH [OF t] by (simp only: if_True) blast
      have "w # ws = (w # ws1) @ v # ws2 \<and> (\<forall>v \<in> set (w # ws1). \<not> ends_thread v) \<and>
          through exits (reported (w # ws1)) \<and>
          (ends_thread v \<and> calls = map asked_call (reported (w # ws1)) \<or>
           (\<exists>es1 e es2. v = Wait_events (es1 @ e # es2) \<and> through exits es1 \<and> exits (asked_call e) \<and>
              calls = map asked_call (reported (w # ws1) @ es1 @ [e])))"
        using r head unfolding split [of ws1] calls(2) by auto
      then show ?thesis using calls(1) True by (simp only: if_True) blast
    next
      case no: False
      then show ?thesis using Cons.IH [OF t] head calls unfolding split [of ws] by simp
    qed
  qed
qed simp

text \<open>
  C4: the loop of a thread, exactly.  While the thread runs, the calls it has made are those for all the
  events \<open>epoll_wait\<close> has reported, in their order and each once: \<open>mark_closed(false)\<close> for an error or a
  hang-up, else \<open>mark_closed(true)\<close> when the peer has closed its side, else \<open>execute_protector\<close>.  The thread
  ends only with a wait that failed while \<open>is_terminate\<close> was set, after all the calls for the events
  reported before, or inside a call that ends the thread, after all the calls for the events up to it.
\<close>

theorem events_reach_executors:
  assumes "event_loop exits ws = (states, calls, ended)"
  shows "if ended then
           \<exists>ws1 w ws2. ws = ws1 @ w # ws2 \<and> (\<forall>v \<in> set ws1. \<not> ends_thread v) \<and> through exits (reported ws1) \<and>
             (ends_thread w \<and> calls = map asked_call (reported ws1) \<or>
              (\<exists>es1 e es2. w = Wait_events (es1 @ e # es2) \<and> through exits es1 \<and> exits (asked_call e) \<and>
                 calls = map asked_call (reported ws1 @ es1 @ [e])))
         else (\<forall>v \<in> set ws. \<not> ends_thread v) \<and> through exits (reported ws) \<and>
              calls = map asked_call (reported ws)"
  using assms by (rule event_loop_exact)

text \<open>Four events in two waits, and a wait that is interrupted between them; the fourth event is for the executor that ends the thread.\<close>

lemma events_reach_executors_witness:
  "let ws = [Wait_events [(1, 5), (0x2011, 6)], Wait_error 4 False False, Wait_events [(0x2001, 7), (1, 9), (1, 5)]];
       calls = [Execute_protector 5, Mark_closed 6 False, Mark_closed 7 True, Execute_protector 9]
   in \<exists>ws1 w ws2. ws = ws1 @ w # ws2 \<and> (\<forall>v \<in> set ws1. \<not> ends_thread v) \<and>
        through (\<lambda>c. c = Execute_protector 9) (reported ws1) \<and>
        (ends_thread w \<and> calls = map asked_call (reported ws1) \<or>
         (\<exists>es1 e es2. w = Wait_events (es1 @ e # es2) \<and> through (\<lambda>c. c = Execute_protector 9) es1 \<and>
            asked_call e = Execute_protector 9 \<and> calls = map asked_call (reported ws1 @ es1 @ [e])))"
proof -
  have run: "event_loop (\<lambda>c. c = Execute_protector 9)
      [Wait_events [(1, 5), (0x2011, 6)], Wait_error 4 False False, Wait_events [(0x2001, 7), (1, 9), (1, 5)]] =
    ([EVENT_DIST_EPOLL_WAIT, EVENT_DIST_EPOLL_PROCESSING, EVENT_DIST_EPOLL_EXECUTE, EVENT_DIST_EPOLL_PROCESSING,
      EVENT_DIST_EPOLL_EXECUTE, EVENT_DIST_EPOLL_CLOSE, EVENT_DIST_EPOLL_WAIT, EVENT_DIST_EPOLL_WAIT,
      EVENT_DIST_EPOLL_PROCESSING, EVENT_DIST_EPOLL_EXECUTE, EVENT_DIST_EPOLL_CLOSE,
      EVENT_DIST_EPOLL_PROCESSING, EVENT_DIST_EPOLL_EXECUTE],
     [Execute_protector 5, Mark_closed 6 False, Mark_closed 7 True, Execute_protector 9], True)"
    by (simp add: event_call_of_def EPOLLRDHUP_def)
  show ?thesis unfolding Let_def using events_reach_executors [OF run] by (simp only: if_True)
qed

end
