(* ===== verification/LogThreads.thy ===== *)
theory LogThreads
  imports LogFile
begin

text \<open>
  serverlib/include/iot/core/log.hh and lib/log.cc: the loggers of all threads, the list
  \<open>logger::all\<close> that flushes them, and the log thread.  A thread is a number, its logger the one of
  LogFile; the writes to descriptors are a list.  The order in which the set of loggers is walked is
  an argument.
\<close>

subsection \<open>logger_list\<close>

record log_system =
  ls_enabled :: bool
  ls_store :: "nat set"
  ls_fd :: int
  ls_live :: "nat set"
  ls_logger :: "nat \<Rightarrow> logger"
  ls_out :: "(int \<times> u8 list) list"

definition new_log_system :: log_system where
  "new_log_system = \<lparr>ls_enabled = True, ls_store = {}, ls_fd = 0, ls_live = {},
     ls_logger = (\<lambda>_. new_logger), ls_out = []\<rparr>"

text \<open>A logger has done something: what it has written goes to the descriptor of the list.\<close>

definition put_logger :: "nat \<Rightarrow> logger \<Rightarrow> log_system \<Rightarrow> log_system" where
  "put_logger t lg s =
     s\<lparr>ls_logger := (ls_logger s)(t := lg),
       ls_out := ls_out s @ [(ls_fd s, drop (length (lg_file (ls_logger s t))) (lg_file lg))]\<rparr>"

definition list_add :: "nat \<Rightarrow> log_system \<Rightarrow> log_system" where
  "list_add t s = (if ls_enabled s then s\<lparr>ls_store := insert t (ls_store s)\<rparr> else s)"

definition list_remove :: "nat \<Rightarrow> log_system \<Rightarrow> log_system" where
  "list_remove t s = (if ls_enabled s then s\<lparr>ls_store := ls_store s - {t}\<rparr> else s)"

text \<open>\<open>flush\<close> of one logger and of all; \<open>accepted\<close> is what one \<open>write\<close> takes at most.\<close>

definition list_flush_one :: "nat \<Rightarrow> nat \<Rightarrow> log_system \<Rightarrow> log_system option" where
  "list_flush_one accepted t s =
     (if ls_enabled s
      then do { lg \<leftarrow> flush_logger accepted (ls_logger s t); Some (put_logger t lg s) }
      else Some s)"

fun flush_each :: "nat \<Rightarrow> nat list \<Rightarrow> log_system \<Rightarrow> log_system option" where
  "flush_each accepted [] s = Some s"
| "flush_each accepted (t # ts) s =
     do { lg \<leftarrow> flush_logger accepted (ls_logger s t); flush_each accepted ts (put_logger t lg s) }"

definition list_flush :: "nat \<Rightarrow> nat list \<Rightarrow> log_system \<Rightarrow> log_system option" where
  "list_flush accepted order s = (if ls_enabled s then flush_each accepted order s else Some s)"

definition list_set_fd :: "int \<Rightarrow> log_system \<Rightarrow> log_system" where
  "list_set_fd fd s = s\<lparr>ls_fd := fd\<rparr>"

text \<open>The destructor of the list: the last flush, after which loggers are no longer reached.\<close>

definition list_destroy :: "nat \<Rightarrow> nat list \<Rightarrow> log_system \<Rightarrow> log_system option" where
  "list_destroy accepted order s = do { s \<leftarrow> list_flush accepted order s; Some (s\<lparr>ls_enabled := False\<rparr>) }"

subsection \<open>The logger of a thread\<close>

text \<open>Constructor and destructor.\<close>

definition logger_start :: "nat \<Rightarrow> log_system \<Rightarrow> log_system" where
  "logger_start t s =
     list_add t (s\<lparr>ls_live := insert t (ls_live s), ls_logger := (ls_logger s)(t := new_logger)\<rparr>)"

definition logger_exit :: "nat \<Rightarrow> nat \<Rightarrow> log_system \<Rightarrow> log_system option" where
  "logger_exit accepted t s =
     do { s \<leftarrow> list_flush_one accepted t s;
          let s = list_remove t s;
          Some (s\<lparr>ls_live := ls_live s - {t}\<rparr>) }"

text \<open>
  \<open>replinish\<close> as it is when the list is gone: nothing is flushed, and the assertion that the buffer
  has been written fails unless it was empty.
\<close>

definition replinish_disabled :: "u8 list \<Rightarrow> logger \<Rightarrow> logger option" where
  "replinish_disabled junk lg =
     (case lg_buffer lg of
        None \<Rightarrow> Some (lg\<lparr>lg_buffer := Some junk, lg_next_read := 0, lg_next_write := 0\<rparr>)
      | Some buffer \<Rightarrow>
          if lg_next_read lg = lg_next_write lg then Some (lg\<lparr>lg_next_read := 0, lg_next_write := 0\<rparr>)
          else None)"

definition log_disabled :: "u8 list \<Rightarrow> u8 list \<Rightarrow> logger \<Rightarrow> logger option" where
  "log_disabled junk bs lg =
     (let buffer_end = (case lg_buffer lg of None \<Rightarrow> 0 | Some buffer \<Rightarrow> length buffer) in
      do { lg \<leftarrow> (if buffer_end \<le> lg_next_write lg + length bs then replinish_disabled junk lg else Some lg);
           store_entry bs lg })"

definition logger_log :: "nat \<Rightarrow> u8 list \<Rightarrow> nat \<Rightarrow> u8 list \<Rightarrow> log_system \<Rightarrow> log_system option" where
  "logger_log accepted junk t bs s =
     do { lg \<leftarrow> (if ls_enabled s then log_entry_bytes accepted junk bs (ls_logger s t)
                 else log_disabled junk bs (ls_logger s t));
          Some (put_logger t lg s) }"

subsection \<open>The log thread\<close>

text \<open>
  \<open>log_thread_function\<close>: one flush for every time it wakes up and one after it was told to stop
  (\<open>orders\<close> has them all); \<open>init_log_thread\<close> gives the descriptor of the file, or -1, to the list.
\<close>

fun log_thread_function :: "nat \<Rightarrow> nat list list \<Rightarrow> log_system \<Rightarrow> log_system option" where
  "log_thread_function accepted [] s = Some s"
| "log_thread_function accepted (order # orders) s =
     do { s \<leftarrow> list_flush accepted order s; log_thread_function accepted orders s }"

definition init_log_thread :: "int \<Rightarrow> log_system \<Rightarrow> log_system" where
  "init_log_thread log_filedescriptor s = list_set_fd log_filedescriptor s"

text \<open>What has been written to a descriptor.\<close>

definition written :: "int \<Rightarrow> log_system \<Rightarrow> u8 list" where
  "written fd s = concat (map snd (filter (\<lambda>w. fst w = fd) (ls_out s)))"

subsection \<open>Runs\<close>

text \<open>
  Threads start, log, exit, and the list flushes, in any order; every \<open>write\<close> takes everything.  The
  first argument has what was logged, by whom, in order.
\<close>

inductive log_run :: "int \<Rightarrow> (nat \<times> log_record) list \<Rightarrow> log_system \<Rightarrow> bool" for fd where
  start_run: "log_run fd [] (init_log_thread fd new_log_system)"
| starts: "log_run fd h s \<Longrightarrow> t \<notin> ls_live s \<Longrightarrow> log_run fd h (logger_start t s)"
| logs: "log_run fd h s \<Longrightarrow> t \<in> ls_live s \<Longrightarrow> length junk = init_log_memory \<Longrightarrow>
     length (record_bytes e) \<le> init_log_memory \<Longrightarrow>
     logger_log init_log_memory junk t (record_bytes e) s = Some s' \<Longrightarrow> log_run fd (h @ [(t, e)]) s'"
| flushes: "log_run fd h s \<Longrightarrow> distinct order \<Longrightarrow> set order = ls_store s \<Longrightarrow>
     list_flush init_log_memory order s = Some s' \<Longrightarrow> log_run fd h s'"
| exits: "log_run fd h s \<Longrightarrow> t \<in> ls_live s \<Longrightarrow> logger_exit init_log_memory t s = Some s' \<Longrightarrow> log_run fd h s'"

text \<open>The entries of one thread.\<close>

definition of_thread :: "nat \<Rightarrow> (nat \<times> log_record) list \<Rightarrow> (nat \<times> log_record) list" where
  "of_thread t h = filter (\<lambda>x. fst x = t) h"

abbreviation entries_bytes :: "(nat \<times> log_record) list \<Rightarrow> u8 list" where
  "entries_bytes h \<equiv> concat (map (record_bytes \<circ> snd) h)"

text \<open>
  The invariant, with the entries \<open>w\<close> in the file: the entries a thread has logged are those of it in
  the file, in order, and after them those in its buffer \<open>b t\<close>.
\<close>

definition log_inv :: "int \<Rightarrow> (nat \<times> log_record) list \<Rightarrow> (nat \<times> log_record) list \<Rightarrow>
    (nat \<Rightarrow> (nat \<times> log_record) list) \<Rightarrow> log_system \<Rightarrow> bool" where
  "log_inv fd h w b s \<longleftrightarrow>
     ls_enabled s \<and> ls_fd s = fd \<and> ls_store s = ls_live s \<and> written fd s = entries_bytes w \<and>
     (\<forall>t. of_thread t h = of_thread t w @ b t) \<and> (\<forall>t. of_thread t (b t) = b t) \<and>
     (\<forall>t. if t \<in> ls_live s then logger_ok (ls_logger s t) \<and> pending (ls_logger s t) = entries_bytes (b t) else b t = [])"

lemma log_entry_cases:
  assumes "logger_ok lg" "length junk = init_log_memory" "length bs \<le> init_log_memory"
  shows "\<exists>lg'. log_entry_bytes init_log_memory junk bs lg = Some lg' \<and> logger_ok lg' \<and>
    (lg_file lg' = lg_file lg \<and> pending lg' = pending lg @ bs \<or>
     lg_file lg' = lg_file lg @ pending lg \<and> pending lg' = bs)"
proof -
  let ?limit = "case lg_buffer lg of None \<Rightarrow> 0 | Some buffer \<Rightarrow> length buffer"
  obtain lg1 where lg1:
    "(if ?limit \<le> lg_next_write lg + length bs then replinish init_log_memory junk lg else Some lg) = Some lg1"
    "logger_ok lg1" "lg_buffer lg1 \<noteq> None" "lg_next_write lg1 + length bs \<le> init_log_memory"
    "lg_file lg1 = lg_file lg \<and> pending lg1 = pending lg \<or>
     lg_file lg1 = lg_file lg @ pending lg \<and> pending lg1 = []"
  proof (cases "lg_buffer lg")
    case None
    then show ?thesis
      using assms that [of "lg\<lparr>lg_buffer := Some junk, lg_next_read := 0, lg_next_write := 0\<rparr>"]
      by (simp add: replinish_def logger_ok_def pending_def)
  next
    case (Some buffer)
    show ?thesis
    proof (cases "length buffer \<le> lg_next_write lg + length bs")
      case True
      obtain lg2 where lg2: "flush_logger init_log_memory lg = Some lg2" "logger_ok lg2" "pending lg2 = []"
        "lg_file lg2 = lg_file lg @ pending lg" "lg_next_read lg2 = lg_next_write lg2" "lg_buffer lg2 = lg_buffer lg"
        using flush_logger_ok [OF assms(1)] by blast
      then show ?thesis
        using assms Some True that [of "lg2\<lparr>lg_next_read := 0, lg_next_write := 0\<rparr>"]
        by (simp add: replinish_def logger_ok_def pending_def)
    next
      case False
      then show ?thesis using assms(1) Some that [of lg] by (simp add: logger_ok_def)
    qed
  qed
  then show ?thesis
    using store_entry_ok [OF lg1(2, 3, 4)] by (auto simp: log_entry_bytes_def Let_def)
qed

lemma put_logger_simps [simp]:
  "ls_enabled (put_logger t lg s) = ls_enabled s" "ls_fd (put_logger t lg s) = ls_fd s"
  "ls_store (put_logger t lg s) = ls_store s" "ls_live (put_logger t lg s) = ls_live s"
  "ls_logger (put_logger t lg s) = (ls_logger s)(t := lg)"
  by (simp_all add: put_logger_def)

lemma written_put_logger:
  "ls_fd s = fd \<Longrightarrow> lg_file lg = lg_file (ls_logger s t) @ bs \<Longrightarrow>
   written fd (put_logger t lg s) = written fd s @ bs"
  by (simp add: written_def put_logger_def)

lemma of_thread_append [simp]: "of_thread t (xs @ ys) = of_thread t xs @ of_thread t ys"
  by (simp add: of_thread_def)

lemma of_thread_Nil [simp]: "of_thread t [] = []"
  by (simp add: of_thread_def)

lemma of_thread_single [simp]: "of_thread t [(u, e)] = (if t = u then [(u, e)] else [])"
  by (simp add: of_thread_def)

lemma of_thread_other: "of_thread t xs = xs \<Longrightarrow> u \<noteq> t \<Longrightarrow> of_thread u xs = []"
  by (auto simp: of_thread_def filter_id_conv filter_empty_conv)

lemma log_invD:
  assumes "log_inv fd h w b s"
  shows "ls_enabled s" "ls_fd s = fd" "ls_store s = ls_live s" "written fd s = entries_bytes w"
    "of_thread t h = of_thread t w @ b t" "of_thread t (b t) = b t"
    "t \<in> ls_live s \<Longrightarrow> logger_ok (ls_logger s t)" "t \<in> ls_live s \<Longrightarrow> pending (ls_logger s t) = entries_bytes (b t)"
    "t \<notin> ls_live s \<Longrightarrow> b t = []"
  using assms unfolding log_inv_def by auto

text \<open>A flush moves the entries in the buffer of a thread to the end of the file.\<close>

lemma log_inv_flush:
  assumes inv: "log_inv fd h w b s" and t: "t \<in> ls_live s"
  shows "\<exists>lg. flush_logger init_log_memory (ls_logger s t) = Some lg \<and>
           log_inv fd h (w @ b t) (b(t := [])) (put_logger t lg s)"
proof -
  note d = log_invD [OF inv]
  obtain lg where lg: "flush_logger init_log_memory (ls_logger s t) = Some lg" "logger_ok lg" "pending lg = []"
      "lg_file lg = lg_file (ls_logger s t) @ entries_bytes (b t)"
    using flush_logger_ok [OF d(7) [OF t]] d(8) [OF t] by metis
  have "written fd (put_logger t lg s) = entries_bytes (w @ b t)"
    using written_put_logger [OF d(2) lg(4)] d(4) by simp
  moreover have "of_thread u h = of_thread u (w @ b t) @ (b(t := [])) u" for u
    using d(5,6) of_thread_other [OF d(6), of u t] by (cases "u = t") simp_all
  ultimately have "log_inv fd h (w @ b t) (b(t := [])) (put_logger t lg s)"
    using d lg(2,3) t by (simp add: log_inv_def)
  with lg(1) show ?thesis by blast
qed

lemma log_inv_flush_each:
  "log_inv fd h w b s \<Longrightarrow> set order \<subseteq> ls_live s \<Longrightarrow>
   \<exists>s' w'. flush_each init_log_memory order s = Some s' \<and> ls_live s' = ls_live s \<and>
     log_inv fd h w' (\<lambda>t. if t \<in> set order then [] else b t) s'"
proof (induction order arbitrary: w b s)
  case (Cons t order)
  obtain lg where lg: "flush_logger init_log_memory (ls_logger s t) = Some lg"
      "log_inv fd h (w @ b t) (b(t := [])) (put_logger t lg s)"
    using log_inv_flush [OF Cons.prems(1)] Cons.prems(2) by auto
  obtain s' w' where "flush_each init_log_memory order (put_logger t lg s) = Some s'" "ls_live s' = ls_live s"
      "log_inv fd h w' (\<lambda>u. if u \<in> set order then [] else (b(t := [])) u) s'"
    using Cons.IH [OF lg(2)] Cons.prems(2) by auto
  moreover have "(\<lambda>u. if u \<in> set order then [] else (b(t := [])) u) = (\<lambda>u. if u \<in> set (t # order) then [] else b u)"
    by auto
  ultimately show ?case using lg(1) by (intro exI [of _ s'] exI [of _ w']) simp
qed auto

lemma log_inv_log:
  assumes inv: "log_inv fd h w b s" and t: "t \<in> ls_live s"
    and len: "length junk = init_log_memory" "length (record_bytes e) \<le> init_log_memory"
  shows "\<exists>s' w' b'. logger_log init_log_memory junk t (record_bytes e) s = Some s' \<and>
           log_inv fd (h @ [(t, e)]) w' b' s'"
proof -
  note d = log_invD [OF inv]
  let ?lg = "ls_logger s t"
  obtain lg where lg: "log_entry_bytes init_log_memory junk (record_bytes e) ?lg = Some lg" "logger_ok lg"
      "lg_file lg = lg_file ?lg \<and> pending lg = pending ?lg @ record_bytes e \<or>
       lg_file lg = lg_file ?lg @ pending ?lg \<and> pending lg = record_bytes e"
    using log_entry_cases [OF d(7) [OF t] len] by blast
  have s': "logger_log init_log_memory junk t (record_bytes e) s = Some (put_logger t lg s)"
    using d(1) lg(1) by (simp add: logger_log_def)
  from lg(3) show ?thesis
  proof
    assume stored: "lg_file lg = lg_file ?lg \<and> pending lg = pending ?lg @ record_bytes e"
    then have "written fd (put_logger t lg s) = entries_bytes w"
      using written_put_logger [OF d(2), of lg t "[]"] d(4) by simp
    then have "log_inv fd (h @ [(t, e)]) w (b(t := b t @ [(t, e)])) (put_logger t lg s)"
      using d t lg(2) stored by (simp add: log_inv_def)
    then show ?thesis using s' by blast
  next
    assume moved: "lg_file lg = lg_file ?lg @ pending ?lg \<and> pending lg = record_bytes e"
    then have "written fd (put_logger t lg s) = entries_bytes (w @ b t)"
      using written_put_logger [OF d(2), of lg t "pending ?lg"] d(4) d(8) [OF t] by simp
    moreover have "of_thread u (h @ [(t, e)]) = of_thread u (w @ b t) @ (b(t := [(t, e)])) u" for u
      using d(5,6) of_thread_other [OF d(6), of u t] by (cases "u = t") simp_all
    ultimately have "log_inv fd (h @ [(t, e)]) (w @ b t) (b(t := [(t, e)])) (put_logger t lg s)"
      using d t lg(2) moved by (simp add: log_inv_def)
    then show ?thesis using s' by blast
  qed
qed

lemma log_inv_init: "log_inv fd [] [] (\<lambda>_. []) (init_log_thread fd new_log_system)"
  by (simp add: log_inv_def init_log_thread_def list_set_fd_def new_log_system_def written_def)

lemma log_inv_start:
  assumes "log_inv fd h w b s" "t \<notin> ls_live s"
  shows "log_inv fd h w b (logger_start t s)"
proof -
  note d = log_invD [OF assms(1)]
  have "logger_ok new_logger" "pending new_logger = []" by (simp_all add: logger_ok_def new_logger_def pending_def)
  moreover have "written fd (logger_start t s) = written fd s"
    by (simp add: written_def logger_start_def list_add_def)
  ultimately show ?thesis
    using d assms(2) by (auto simp: log_inv_def logger_start_def list_add_def)
qed

lemma log_inv_exit:
  assumes "log_inv fd h w b s" "t \<in> ls_live s"
  shows "\<exists>s' w' b'. logger_exit init_log_memory t s = Some s' \<and> log_inv fd h w' b' s'"
proof -
  obtain lg where lg: "flush_logger init_log_memory (ls_logger s t) = Some lg"
      "log_inv fd h (w @ b t) (b(t := [])) (put_logger t lg s)"
    using log_inv_flush [OF assms] by blast
  note d = log_invD [OF assms(1)] and d' = log_invD [OF lg(2)]
  let ?s = "(put_logger t lg s)\<lparr>ls_store := ls_store s - {t}, ls_live := ls_live s - {t}\<rparr>"
  have "logger_exit init_log_memory t s = Some ?s"
    using lg(1) d(1) by (simp add: logger_exit_def list_flush_one_def list_remove_def Let_def)
  moreover have "log_inv fd h (w @ b t) (b(t := [])) ?s"
  proof -
    have "written fd ?s = written fd (put_logger t lg s)" by (simp add: written_def)
    then show ?thesis using lg(2) d(3) unfolding log_inv_def by (auto split: if_splits)
  qed
  ultimately show ?thesis by blast
qed

lemma log_inv_list_flush:
  assumes "log_inv fd h w b s" "set order = ls_store s"
  shows "\<exists>s' w'. list_flush init_log_memory order s = Some s' \<and> log_inv fd h w' (\<lambda>_. []) s'"
proof -
  note d = log_invD [OF assms(1)]
  obtain s' w' where s': "flush_each init_log_memory order s = Some s'"
      "log_inv fd h w' (\<lambda>t. if t \<in> set order then [] else b t) s'"
    using log_inv_flush_each [OF assms(1), of order] assms(2) d(3) by auto
  moreover have "(\<lambda>t. if t \<in> set order then [] else b t) = (\<lambda>_. [])"
    using d(9) assms(2) d(3) by auto
  ultimately show ?thesis using d(1) by (auto simp: list_flush_def)
qed

lemma log_inv_run: "log_run fd h s \<Longrightarrow> \<exists>w b. log_inv fd h w b s"
proof (induction rule: log_run.induct)
  case start_run
  show ?case using log_inv_init by blast
next
  case (starts h s t)
  then show ?case using log_inv_start by blast
next
  case (logs h s t junk e s')
  then obtain w b where "log_inv fd h w b s" by blast
  then show ?case using log_inv_log [of fd h w b s t junk e] logs.hyps by auto
next
  case (flushes h s order s')
  then obtain w b where "log_inv fd h w b s" by blast
  then show ?case using log_inv_list_flush [of fd h w b s order] flushes.hyps by auto
next
  case (exits h s t s')
  then obtain w b where "log_inv fd h w b s" by blast
  then show ?case using log_inv_exit [of fd h w b s t] exits.hyps by auto
qed

lemma of_thread_mset:
  assumes "\<And>t. of_thread t xs = of_thread t ys"
  shows "mset xs = mset ys"
proof (rule multiset_eqI)
  fix x
  have "count (mset zs) x = count (mset (of_thread (fst x) zs)) x" for zs
    by (simp add: of_thread_def)
  then show "count (mset xs) x = count (mset ys) x" using assms by metis
qed

text \<open>
  C7: from the threads to the reader.  Threads start, log and exit in any interleaving, buffers fill up
  and the log thread flushes in between: no entry is stored outside a buffer and no assertion fails.
  After the last flush the file holds every entry that was logged, whole, once and in order for each
  thread; and if no entry is written more than 200 ms after a later one, the log reader prints
  exactly the logged entries in the order of time.
\<close>

theorem logged_is_printed:
  assumes "log_run fd h s" "distinct order" "set order = ls_store s" "list_all wf_record (map snd h)"
  shows "\<exists>s' w. list_flush init_log_memory order s = Some s' \<and> written fd s' = entries_bytes w \<and>
           (\<forall>t. of_thread t w = of_thread t h) \<and>
           (sorted_wrt not_late (map snd w) \<longrightarrow>
              (\<exists>out. log_lines (written fd s') [] = Some out \<and> mset out = mset (map snd h) \<and>
                 sorted (map record_time out)))"
proof -
  obtain w b where "log_inv fd h w b s" using log_inv_run [OF assms(1)] by blast
  then obtain s' w' where s': "list_flush init_log_memory order s = Some s'" "log_inv fd h w' (\<lambda>_. []) s'"
    using log_inv_list_flush [OF _ assms(3)] by blast
  note d = log_invD [OF s'(2)]
  have threads: "of_thread t w' = of_thread t h" for t using d(5) [of t] by simp
  then have m: "mset w' = mset h" by (rule of_thread_mset)
  then have wf: "list_all wf_record (map snd w')"
    using assms(4) by (simp add: list_all_iff flip: set_mset_mset)
  have "\<exists>out. log_lines (written fd s') [] = Some out \<and> mset out = mset (map snd h) \<and>
      sorted (map record_time out)" if "sorted_wrt not_late (map snd w')"
  proof -
    have "mset (map snd w') = mset (map snd h)" using m by simp
    then show ?thesis using log_lines_sorted [OF wf, of "[]"] that d(4) by (simp add: in_window_def)
  qed
  then show ?thesis using s'(1) d(4) threads by blast
qed

text \<open>A thread logs one entry, and the log thread flushes.\<close>

definition sample_entry :: log_record where
  "sample_entry = \<lparr>lr_timestamp = 900000000, lr_id = 2, lr_arguments = []\<rparr>"

lemma sample_log_run: "\<exists>s. log_run 5 [(1, sample_entry)] s \<and> ls_store s = {1}"
proof -
  let ?s = "logger_start 1 (init_log_thread 5 new_log_system)"
  let ?junk = "replicate init_log_memory 0"
  have run: "log_run 5 [] ?s"
    by (rule log_run.starts [OF log_run.start_run]) (simp add: init_log_thread_def list_set_fd_def new_log_system_def)
  have live: "1 \<in> ls_live ?s" "ls_live ?s = {1}"
    by (simp_all add: logger_start_def list_add_def init_log_thread_def list_set_fd_def new_log_system_def)
  have len: "length ?junk = init_log_memory" "length (record_bytes sample_entry) \<le> init_log_memory"
    by (simp_all add: record_bytes_def sample_entry_def init_log_memory_def)
  have "log_inv 5 [] [] (\<lambda>_. []) ?s"
    by (rule log_inv_start [OF log_inv_init]) (simp add: init_log_thread_def list_set_fd_def new_log_system_def)
  then obtain s' w b where s': "logger_log init_log_memory ?junk 1 (record_bytes sample_entry) ?s = Some s'"
      "log_inv 5 ([] @ [(1, sample_entry)]) w b s'"
    using log_inv_log [OF _ live(1) len] by blast
  have "log_run 5 ([] @ [(1, sample_entry)]) s'"
    by (rule log_run.logs [OF run live(1) len s'(1)])
  moreover have "ls_live s' = ls_live ?s" using s'(1) by (auto simp: logger_log_def bind_Some_iff)
  ultimately show ?thesis using log_invD(3) [OF s'(2)] live(2) by auto
qed

lemma logged_is_printed_witness:
  "\<exists>s s' w. log_run 5 [(1, sample_entry)] s \<and> list_flush init_log_memory [1] s = Some s' \<and>
     written 5 s' = entries_bytes w \<and> (\<forall>t. of_thread t w = of_thread t [(1, sample_entry)])"
proof -
  obtain s where s: "log_run 5 [(1, sample_entry)] s" "ls_store s = {1}" using sample_log_run by blast
  have "get_log_length 2 = 0" by code_simp
  then have wf: "list_all wf_record (map snd [(1, sample_entry)])"
    by (simp add: sample_entry_def wf_record_def record_time_def)
  have "distinct [1 :: nat]" "set [1] = ls_store s" using s(2) by simp_all
  from logged_is_printed [OF s(1) this wf] s(1) show ?thesis by blast
qed

subsection \<open>After the end of the list\<close>

text \<open>A thread that outlives the list stops at the first full buffer: its assertion fails.\<close>

lemma log_after_destroy:
  assumes "\<not> ls_enabled s" "lg_buffer (ls_logger s t) = Some buffer"
    "length buffer \<le> lg_next_write (ls_logger s t) + length bs"
    "lg_next_read (ls_logger s t) \<noteq> lg_next_write (ls_logger s t)"
  shows "logger_log accepted junk t bs s = None"
  using assms by (simp add: logger_log_def log_disabled_def replinish_disabled_def Let_def)

text \<open>What is written before the log file is open goes to descriptor 0.\<close>

lemma log_before_init:
  "written 0 (put_logger t (new_logger\<lparr>lg_file := bs\<rparr>) new_log_system) = bs"
  by (simp add: written_def put_logger_def new_log_system_def new_logger_def)

end
