(* ===== verification/HttpPrint.thy ===== *)
theory HttpPrint
  imports Http2Request
begin

text \<open>
  The output operators of httpparser/include/http2.hh, lib/http2.cc and lib/http11.cc, with the MD5
  field of a response.  An operator is a function that returns the text it appends to the stream; the
  order in which a hash map of fields is walked is an argument.
\<close>

subsection \<open>HTTP/2 frames\<close>

text \<open>A number in decimal.\<close>

definition show_number :: "nat \<Rightarrow> string" where
  "show_number n = rev (digits_loop 10 lower n)"

definition show_frame_type :: "u8 \<Rightarrow> string" where
  "show_frame_type t = show_number (unat t) @ '':'' @ type_string t"

text \<open>The loop over the flags: the lowest bit that is set is printed and cleared.\<close>

lemma clear_lowest_less: "flags \<noteq> 0 \<Longrightarrow> unat (flags AND (flags - 1)) < unat (flags :: u8)"
proof -
  assume "flags \<noteq> 0"
  have "unat (flags AND (flags - 1)) \<le> unat (flags - 1)"
    by (simp add: word_le_nat_alt [symmetric] word_and_le1)
  also have "\<dots> < unat flags" using \<open>flags \<noteq> 0\<close> by (simp add: unat_minus_one unat_gt_0)
  finally show ?thesis .
qed

function flags_loop :: "u8 \<Rightarrow> string" where
  "flags_loop flags =
     (if flags = 0 then []
      else let next_flags = flags AND (flags - 1); flg = flags XOR next_flags
           in ''('' @ show_number (unat flg) @ '')'' @ flag_string flg @
              (if next_flags \<noteq> 0 then '','' else []) @ flags_loop next_flags)"
  by auto
termination
  by (relation "measure unat") (auto simp: clear_lowest_less)

declare flags_loop.simps [simp del]

definition show_frame_flags :: "u8 \<Rightarrow> string" where
  "show_frame_flags flags = show_number (unat flags) @ (if flags \<noteq> 0 then '':'' else []) @ flags_loop flags"

definition show_frame_error :: "u32 \<Rightarrow> string" where
  "show_frame_error e = show_number (unat e) @ '':'' @ error_string e"

definition show_frame :: "frame \<Rightarrow> string" where
  "show_frame f =
     ''{L:'' @ show_number (unat (get_length f)) @ '', T:'' @ show_frame_type (fr_type f) @
     '', F:'' @ show_frame_flags (get_flags f) @ '', ID:'' @ show_number (unat (get_stream_identifier f)) @ ''}''"

text \<open>The payloads of HEADERS, SETTINGS, GOAWAY and WINDOW_UPDATE.\<close>

definition show_header :: "u8 list \<Rightarrow> string" where
  "show_header bs =
     ''['' @ (if get_execlusive bs then ''Exclusive,'' else []) @ ''S:'' @
     show_number (unat (get_stream_dependency bs)) @ '']''"

definition show_settings :: "settings \<Rightarrow> string" where
  "show_settings s =
     ''['' @ settings_string (changeEndian16 (set_identifier s)) @ '','' @ show_number (unat (get_value s)) @ '']''"

definition show_goaway :: "u8 list \<Rightarrow> string" where
  "show_goaway bs =
     ''['' @ show_number (unat (get_last_stream_id bs)) @ '','' @ show_frame_error (get_error_code bs) @ '']''"

definition show_window_update :: "u8 list \<Rightarrow> string" where
  "show_window_update bs = ''['' @ show_number (unat (get_window_size_increment bs)) @ '']''"

definition displaymem :: "u8 list \<Rightarrow> string" where
  "displaymem bs =
     ''['' @ concat (map (\<lambda>b. [digit_char lower (unat b div 16), digit_char lower (unat b mod 16)]) bs) @ '']'' @ [CHR 0x0A]"

subsection \<open>HTTP/1.1\<close>

abbreviation newline :: string where
  "newline \<equiv> [CHR 0x0A]"

definition show_version :: "VERSION \<Rightarrow> string" where
  "show_version v = get_version_string v"

definition show_field :: "FIELD \<Rightarrow> string" where
  "show_field f = (case map_of field_list f of Some name \<Rightarrow> name | None \<Rightarrow> ''Unknown field'')"

definition show_field_pair :: "FIELD \<times> string \<Rightarrow> string" where
  "show_field_pair p = show_field (fst p) @ '': '' @ snd p"

definition show_fields :: "FIELD list \<Rightarrow> fields_t \<Rightarrow> string" where
  "show_fields order flds =
     concat (map (\<lambda>f. case flds f of None \<Rightarrow> [] | Some v \<Rightarrow> show_field_pair (f, v) @ newline) order)"

text \<open>The same for names and values that are both text.\<close>

definition show_text_pair :: "string \<times> string \<Rightarrow> string" where
  "show_text_pair p = fst p @ '': '' @ snd p"

definition show_text_pairs :: "(string \<times> string) list \<Rightarrow> string" where
  "show_text_pairs ps = concat (map (\<lambda>p. show_text_pair p @ newline) ps)"

text \<open>
  A method that was never set is \<open>None\<close>: the variable is not initialised, so what its \<open>switch\<close> does is
  undefined, and so is the text of the request.
\<close>

definition show_method :: "METHOD \<Rightarrow> string" where
  "show_method m = (case map_of method_list m of Some name \<Rightarrow> name | None \<Rightarrow> ''Unknown Method'')"

definition show_request_header :: "FIELD list \<Rightarrow> VERSION \<Rightarrow> METHOD option \<Rightarrow> fields_t \<Rightarrow> string option" where
  "show_request_header order version meth flds =
     do { m \<leftarrow> meth;
          Some (show_method m @ '' '' @
            (case flds (Pseudo Path) of Some path \<Rightarrow> path @ '' '' | None \<Rightarrow> []) @
            show_version version @ newline @ show_fields order flds @ newline) }"

definition show_code :: "CODE \<Rightarrow> string" where
  "show_code code = show_number code @ '' '' @ get_code_string code"

definition show_response_status :: "VERSION \<Rightarrow> CODE \<Rightarrow> string" where
  "show_response_status version code = show_version version @ '' '' @ show_code code @ newline"

record http_response =
  rs_version :: VERSION
  rs_code :: CODE
  rs_fields :: fields_t
  rs_body :: string

definition show_response_header :: "FIELD list \<Rightarrow> http_response \<Rightarrow> string" where
  "show_response_header order r =
     show_response_status (rs_version r) (rs_code r) @ show_fields order (rs_fields r) @ newline"

definition show_response :: "FIELD list \<Rightarrow> http_response \<Rightarrow> string" where
  "show_response order r = show_response_header order r @ rs_body r"

text \<open>
  \<open>addMD5\<close>: \<open>digest\<close> is the digest OpenSSL computes.  A byte is printed as two lower case
  hexadecimal digits (\<open>setw(2)\<close>, filled with 0); \<open>insert\<close> keeps a field that is there.
\<close>

definition hex2 :: "u8 \<Rightarrow> string" where
  "hex2 b =
     (let s = rev (digits_loop 16 lower (unat b)) in replicate (2 - length s) CHR ''0'' @ s)"

definition addMD5 :: "(string \<Rightarrow> u8 list) \<Rightarrow> http_response \<Rightarrow> http_response" where
  "addMD5 digest r =
     (case rs_fields r (Response Content_MD5) of
        Some _ \<Rightarrow> r
      | None \<Rightarrow> r\<lparr>rs_fields := (rs_fields r)(Response Content_MD5 \<mapsto> concat (map hex2 (digest (rs_body r))))\<rparr>)"

subsection \<open>Stream requests\<close>

definition show_stream_request :: "(fields_t \<Rightarrow> FIELD list) \<Rightarrow> header_request \<Rightarrow> string option" where
  "show_stream_request order q =
     do { header \<leftarrow> show_request_header (order (hq_fields q)) (hq_version q) (hq_method q) (hq_fields q);
          Some (''Stream Identifier: '' @ show_number (unat (hq_stream_identifier q)) @ newline @
            ''Weight: '' @ show_number (unat (hq_weight q)) @ newline @
            (if hq_error q \<noteq> error_code NO_ERROR then ''Error: '' @ show_frame_error (hq_error q) @ newline else []) @
            header) }"

text \<open>The loop over the list; a pointer that leads outside the heap, or a cycle, is \<open>None\<close>.\<close>

fun show_list :: "(fields_t \<Rightarrow> FIELD list) \<Rightarrow> nat \<Rightarrow> header_request list \<Rightarrow> nat option \<Rightarrow> string option" where
  "show_list order fuel heap None = Some []"
| "show_list order 0 heap (Some p) = None"
| "show_list order (Suc fuel) heap (Some p) =
     (if length heap \<le> p then None
      else do { s \<leftarrow> show_stream_request order (heap ! p);
                rest \<leftarrow> show_list order fuel heap (hq_next (heap ! p));
                Some (s @ rest) })"

definition show_requests :: "(fields_t \<Rightarrow> FIELD list) \<Rightarrow> request \<Rightarrow> string option" where
  "show_requests order rq = show_list order (length (rq_heap rq)) (rq_heap rq) (rq_first rq)"

lemma show_stream_request_None [simp]: "show_stream_request order q = None \<longleftrightarrow> hq_method q = None"
  by (auto simp: show_stream_request_def show_request_header_def bind_eq_None_conv)

lemma show_list_chain:
  "chain heap p is None \<Longrightarrow> length is \<le> fuel \<Longrightarrow> list_all (\<lambda>i. hq_method (heap ! i) \<noteq> None) is \<Longrightarrow>
   show_list order fuel heap p = Some (concat (map (\<lambda>i. the (show_stream_request order (heap ! i))) is))"
proof (induction "is" arbitrary: fuel p)
  case (Cons i "is")
  then obtain n where "fuel = Suc n" by (cases fuel) auto
  moreover obtain s where "show_stream_request order (heap ! i) = Some s"
    using Cons.prems(3) show_stream_request_None [of order "heap ! i"] by (cases "show_stream_request order (heap ! i)") auto
  ultimately show ?case using Cons by auto
qed simp

lemma show_list_unset:
  "chain heap p is None \<Longrightarrow> \<not> list_all (\<lambda>i. hq_method (heap ! i) \<noteq> None) is \<Longrightarrow> show_list order fuel heap p = None"
proof (induction "is" arbitrary: fuel p)
  case (Cons i "is")
  show ?case
  proof (cases fuel)
    case 0
    then show ?thesis using Cons.prems(1) by auto
  next
    case (Suc n)
    have "hq_method (heap ! i) = None \<or> show_list order n heap (hq_next (heap ! i)) = None"
      using Cons by auto
    then show ?thesis using Cons.prems(1) Suc by (auto simp: bind_eq_None_conv)
  qed
qed simp

subsection \<open>What is printed\<close>

text \<open>The numbers of the bits that are set, and the text for them.\<close>

definition flag_bits :: "u8 \<Rightarrow> nat list" where
  "flag_bits flags = filter (bit flags) [0..<8]"

fun join_flags :: "nat list \<Rightarrow> string" where
  "join_flags [] = []"
| "join_flags (k # ks) =
     ''('' @ show_number (2 ^ k) @ '')'' @ flag_string (2 ^ k) @ (if ks \<noteq> [] then '','' else []) @ join_flags ks"

text \<open>Clearing the lowest bit.\<close>

lemma bit_clear_lowest:
  assumes k: "bit flags k" "\<And>j. j < k \<Longrightarrow> \<not> bit flags j"
  shows "bit (flags AND (flags - 1)) j \<longleftrightarrow> k < j \<and> bit (flags :: u8) j"
proof -
  define h where "h = push_bit (Suc k) (drop_bit (Suc k) flags)"
  have bit_h: "bit h j \<longleftrightarrow> k < j \<and> bit flags j" for j
    unfolding h_def bit_push_bit_iff bit_drop_bit_eq
    by (cases "j < 8") (auto simp: Suc_le_eq)
  have "flags = h OR 2 ^ k"
  proof (rule bit_word_eqI)
    fix j assume "j < LENGTH(8)"
    then show "bit flags j = bit (h OR 2 ^ k) j"
      using k by (cases j k rule: linorder_cases) (auto simp: bit_or_iff bit_h bit_exp_iff)
  qed
  also have "\<dots> = h + 2 ^ k"
    by (rule disjoint_add [symmetric]) (auto intro!: bit_word_eqI simp: bit_and_iff bit_h bit_exp_iff)
  finally have "flags - 1 = h + (2 ^ k - 1)" by (simp add: algebra_simps)
  also have "2 ^ k - 1 = (mask k :: u8)" by (simp add: mask_eq_exp_minus_1)
  also have "h + mask k = h OR mask k"
    by (rule disjoint_add) (auto intro!: bit_word_eqI simp: bit_and_iff bit_h bit_mask_iff)
  finally have m: "flags - 1 = h OR mask k" .
  show ?thesis unfolding m bit_and_iff bit_or_iff bit_h bit_mask_iff
    using k by (cases j k rule: linorder_cases) auto
qed

lemma clear_lowest:
  assumes "flags \<noteq> 0"
  obtains k where "k < 8" "flag_bits flags = k # flag_bits (flags AND (flags - 1))"
    "flags XOR (flags AND (flags - 1)) = 2 ^ k"
proof -
  from assms obtain j where "bit flags j" by (auto simp: bit_eq_iff)
  define k where "k = (LEAST j. bit flags j)"
  have k: "bit flags k" "\<And>j. j < k \<Longrightarrow> \<not> bit flags j"
    using \<open>bit flags j\<close> unfolding k_def by (auto intro: LeastI dest: not_less_Least)
  note next_bits = bit_clear_lowest [OF k]
  have "k < 8" using k(1) bit_imp_le_length [of flags k] by simp
  then have split: "[0..<8] = [0..<k] @ k # [Suc k..<8]"
    by (metis less_imp_le_nat upt_add_eq_append upt_conv_Cons zero_le le_add_diff_inverse)
  have "flag_bits flags = k # filter (bit flags) [Suc k..<8]"
    using k unfolding flag_bits_def split by (simp add: filter_empty_conv)
  moreover have "flag_bits (flags AND (flags - 1)) = filter (bit flags) [Suc k..<8]"
    unfolding flag_bits_def split by (auto simp: next_bits filter_empty_conv intro: filter_cong)
  moreover have "flags XOR (flags AND (flags - 1)) = 2 ^ k"
  proof (rule bit_word_eqI)
    fix j assume "j < LENGTH(8)"
    then show "bit (flags XOR (flags AND (flags - 1))) j = bit ((2 :: u8) ^ k) j"
      using k by (cases j k rule: linorder_cases) (auto simp: bit_xor_iff next_bits bit_exp_iff)
  qed
  ultimately show thesis using that \<open>k < 8\<close> by metis
qed

lemma flag_bits_empty: "flag_bits flags = [] \<longleftrightarrow> flags = 0"
proof (cases "flags = 0")
  case True
  then show ?thesis by (simp add: flag_bits_def)
next
  case False
  then show ?thesis using clear_lowest [OF False] by (metis list.distinct(1))
qed

lemma flags_loop_join: "flags_loop flags = join_flags (flag_bits flags)"
proof (induction flags rule: flags_loop.induct)
  case (1 flags)
  show ?case
  proof (cases "flags = 0")
    case True
    then show ?thesis using flag_bits_empty [of flags] by (simp add: flags_loop.simps [of 0])
  next
    case False
    let ?next = "flags AND (flags - 1)"
    obtain k where k: "k < 8" "flag_bits flags = k # flag_bits ?next" "flags XOR ?next = 2 ^ k"
      using clear_lowest [OF False] .
    have "unat ((2 :: u8) ^ k) = 2 ^ k"
    proof -
      have "(2 :: nat) ^ k < 2 ^ 8" using k(1) by (intro power_strict_increasing) simp_all
      moreover have "(2 :: u8) ^ k = word_of_nat (2 ^ k)" by simp
      ultimately show ?thesis by (simp only: unat_of_nat) simp
    qed
    moreover have "flags_loop ?next = join_flags (flag_bits ?next)" by (rule 1 [OF False refl refl])
    ultimately show ?thesis
      using False k(3) by (simp add: k(2) flags_loop.simps [of flags] Let_def flag_bits_empty)
  qed
qed

text \<open>
  The flags of a frame are printed as their number followed by every bit that is set, once and in
  ascending order, with its number and its name.
\<close>

theorem frame_flags_printed:
  "show_frame_flags flags = show_number (unat flags) @ (if flags = 0 then [] else '':'' @ join_flags (flag_bits flags))"
proof (cases "flags = 0")
  case True
  have "flag_bits 0 = []" using flag_bits_empty by blast
  then show ?thesis using True by (simp add: show_frame_flags_def flags_loop_join)
qed (simp add: show_frame_flags_def flags_loop_join)

text \<open>
  C34: the output operator on every list of stream requests that parsing can build.  When every request
  has a method it ends, reads no pointer outside the list and prints every request of the connection
  exactly once; when one has none (a stream that was reset or only named as a dependency), it reads the
  uninitialised method of that request.
\<close>

theorem stream_requests_printed:
  assumes "rq_reachable rq"
  shows "\<exists>is. distinct is \<and> set is = {..<length (rq_heap rq)} \<and>
           (if list_all (\<lambda>q. hq_method q \<noteq> None) (rq_heap rq)
            then \<exists>texts. map (\<lambda>i. show_stream_request order (rq_heap rq ! i)) is = map Some texts \<and>
                   show_requests order rq = Some (concat texts)
            else show_requests order rq = None)"
proof -
  obtain "is" where l: "linked rq is" "set is = {..<length (rq_heap rq)}"
    using request_inv_reachable [OF assms] by (auto simp: request_inv_def)
  have n: "length is = length (rq_heap rq)"
    using linkedD(2) [OF l(1)] l(2) distinct_card [of "is"] by simp
  have all: "list_all (\<lambda>q. hq_method q \<noteq> None) (rq_heap rq) \<longleftrightarrow>
      list_all (\<lambda>i. hq_method (rq_heap rq ! i) \<noteq> None) is"
    unfolding list_all_iff l(2) all_set_conv_all_nth by auto
  have "if list_all (\<lambda>q. hq_method q \<noteq> None) (rq_heap rq)
      then \<exists>texts. map (\<lambda>i. show_stream_request order (rq_heap rq ! i)) is = map Some texts \<and>
             show_requests order rq = Some (concat texts)
      else show_requests order rq = None"
  proof (cases "list_all (\<lambda>q. hq_method q \<noteq> None) (rq_heap rq)")
    case True
    let ?text = "\<lambda>i. the (show_stream_request order (rq_heap rq ! i))"
    have "map (\<lambda>i. show_stream_request order (rq_heap rq ! i)) is = map Some (map ?text is)"
      using True unfolding all by (auto simp: list_all_iff)
    moreover have "show_requests order rq = Some (concat (map ?text is))"
      using show_list_chain [OF linkedD(1) [OF l(1)], of "length (rq_heap rq)" order] n True all
      by (simp add: show_requests_def)
    ultimately show ?thesis using True by (simp only: if_True) blast
  next
    case False
    then show ?thesis
      using show_list_unset [OF linkedD(1) [OF l(1)]] all by (simp add: show_requests_def)
  qed
  then show ?thesis using linkedD(2) [OF l(1)] l(2) by blast
qed

lemma stream_requests_printed_witness:
  "show_requests (\<lambda>_. []) (upgrade_request (new_dynamic_table 12) new_settings_store
     \<lparr>hr_version = VER_2, hr_method = GET, hr_fields = Map.empty\<rparr>) =
   Some (''Stream Identifier: 1'' @ newline @ ''Weight: 16'' @ newline @ ''GET HTTP/2.0'' @ newline @ newline)"
proof -
  let ?rq = "upgrade_request (new_dynamic_table 12) new_settings_store
     \<lparr>hr_version = VER_2, hr_method = GET, hr_fields = Map.empty\<rparr>"
  let ?q = "upgrade_header_request \<lparr>hr_version = VER_2, hr_method = GET, hr_fields = Map.empty\<rparr>"
  have "rq_reachable ?rq" by (intro rq_upgrade dt_new)
  moreover have heap: "rq_heap ?rq = [?q]"
    by (simp add: upgrade_request_def alloc_def insert_request_def new_request_def link_last_def Let_def)
  moreover have "hq_method ?q \<noteq> None" by (simp add: upgrade_header_request_def)
  ultimately obtain "is" texts where i: "distinct is" "set is = {0}"
    "map (\<lambda>i. show_stream_request (\<lambda>_. []) ([?q] ! i)) is = map Some texts"
    "show_requests (\<lambda>_. []) ?rq = Some (concat texts)"
    using stream_requests_printed [of ?rq "\<lambda>_. []"] by (auto simp: lessThan_Suc)
  have n: "length is = 1" using i(1,2) distinct_card [of "is"] by simp
  have "is = [0]" using n i(2) by (cases "is") auto
  have numbers: "show_number (Suc 0) = ''1''" "show_number 16 = ''16''" by code_simp+
  have "show_method GET = ''GET''" by (simp add: show_method_def method_list_def)
  then have "show_stream_request (\<lambda>_. []) ?q =
    Some (''Stream Identifier: 1'' @ newline @ ''Weight: 16'' @ newline @ ''GET HTTP/2.0'' @ newline @ newline)"
    by (simp add: show_stream_request_def upgrade_header_request_def show_request_header_def show_version_def
        show_fields_def numbers)
  then show ?thesis using i(3,4) \<open>is = [0]\<close> by (cases texts) auto
qed

end
