(* ===== verification/SocketNames.thy ===== *)
theory SocketNames
  imports Http1Event Ipv6
begin

text \<open>
  serverlib/include/iot/net/socket.hh and lib/net/socket.cc: the conversion of addresses to and from the
  system's \<open>sockaddr_in6\<close>, the addresses of the two ends of a connection, and the choice of the
  protocol of a TLS connection (ALPN), up to the connection that serves it.

  The results of \<open>getpeername\<close> and \<open>getsockname\<close> are arguments, and so is OpenSSL's
  \<open>SSL_select_next_proto\<close>; its documented behaviour is \<open>selects_common\<close>.
\<close>

subsection \<open>Addresses\<close>

record sockaddr_in6 =
  sin6_family :: nat
  sin6_addr32 :: "u32 list"
  sin6_port :: u16

definition AF_INET6 :: nat where "AF_INET6 = 10"

text \<open>The union \<open>ipv6_addr_t\<close> read as words of 32 bits, and back, on the little endian host.\<close>

fun addr_32 :: "ipv6_addr \<Rightarrow> u32 list" where
  "addr_32 (a # b # as) = (ucast a OR push_bit 16 (ucast b)) # addr_32 as"
| "addr_32 _ = []"

fun addr_16 :: "u32 list \<Rightarrow> ipv6_addr" where
  "addr_16 [] = []"
| "addr_16 (w # ws) = ucast w # ucast (drop_bit 16 w) # addr_16 ws"

definition to_sockaddr_in6 :: "ipv6_socket_addr \<Rightarrow> sockaddr_in6" where
  "to_sockaddr_in6 a =
     \<lparr>sin6_family = AF_INET6,
      sin6_addr32 = [addr_32 (sa_addr a) ! 0, addr_32 (sa_addr a) ! 1, addr_32 (sa_addr a) ! 2, addr_32 (sa_addr a) ! 3],
      sin6_port = port_value (sa_port a)\<rparr>"

text \<open>
  \<open>get_peer_ipv6_addr\<close> and \<open>get_local_ipv6_addr\<close>: \<open>filled\<close> is what the system call leaves in the
  variable, whose result is not looked at: after a failure what was there before.
\<close>

definition get_ipv6_addr :: "sockaddr_in6 \<Rightarrow> ipv6_socket_addr" where
  "get_ipv6_addr filled = \<lparr>sa_addr = addr_16 (sin6_addr32 filled), sa_port = \<lparr>port_value = sin6_port filled\<rparr>\<rparr>"

definition show_socket :: "sockaddr_in6 \<Rightarrow> string option" where
  "show_socket local_addr = ipv6_socket_to_string lower False (get_ipv6_addr local_addr)"

definition is_closed :: "int \<Rightarrow> bool" where
  "is_closed socket_id \<longleftrightarrow> socket_id = 0"

lemma bit_u16_high [simp]: "bit (a :: u16) (16 + n) \<longleftrightarrow> False"
  using bit_imp_le_length [of a "16 + n"] by auto

lemma halves:
  "(ucast ((ucast a :: u32) OR push_bit 16 (ucast b)) :: u16) = a"
  "(ucast (drop_bit 16 (ucast a :: u32) OR drop_bit 16 (push_bit 16 (ucast b))) :: u16) = b"
  by (auto intro!: bit_word_eqI simp: bit_simps)

lemma addr_16_addr_32: "even (length a) \<Longrightarrow> addr_16 (addr_32 a) = a"
  by (induction a rule: addr_32.induct) (simp_all add: halves)

lemma length_addr_32: "length (addr_32 a) = length a div 2"
  by (induction a rule: addr_32.induct) simp_all

lemma four_elements: "length xs = 4 \<Longrightarrow> [xs ! 0, xs ! 1, xs ! 2, xs ! 3] = xs"
  by (auto simp: numeral_eq_Suc length_Suc_conv)

text \<open>
  An address that is given to the system and read back is the same address and port.
\<close>

theorem sockaddr_roundtrip:
  assumes "wf_ipv6 (sa_addr a)"
  shows "get_ipv6_addr (to_sockaddr_in6 a) = a"
proof -
  have len: "length (sa_addr a) = 8" using assms by (simp add: wf_ipv6_def ipv6_addr16_size_def)
  then have "[addr_32 (sa_addr a) ! 0, addr_32 (sa_addr a) ! 1, addr_32 (sa_addr a) ! 2, addr_32 (sa_addr a) ! 3] =
      addr_32 (sa_addr a)"
    by (intro four_elements) (simp add: length_addr_32)
  then show ?thesis
    using len by (simp add: get_ipv6_addr_def to_sockaddr_in6_def addr_16_addr_32)
qed

lemma sockaddr_roundtrip_witness:
  "get_ipv6_addr (to_sockaddr_in6 \<lparr>sa_addr = [0xfe80, 0, 0, 0, 1, 2, 3, 4], sa_port = ipv6_port_of 80\<rparr>) =
     \<lparr>sa_addr = [0xfe80, 0, 0, 0, 1, 2, 3, 4], sa_port = ipv6_port_of 80\<rparr>"
  by (rule sockaddr_roundtrip) (simp add: wf_ipv6_def ipv6_addr16_size_def)

subsection \<open>ALPN\<close>

text \<open>The protocols of the server, in the order it prefers them, as the list of the TLS extension.\<close>

definition proto_list :: "u8 list" where
  "proto_list = [2] @ bytes_of ''h2'' @ [8] @ bytes_of ''http/1.1''"

text \<open>\<open>create_context\<close>: \<open>new\<close> is what \<open>SSL_CTX_new\<close> gives; the settings are those given to OpenSSL.\<close>

record tls_context =
  tc_ctx :: nat
  tc_client :: bool
  tc_read_ahead :: bool
  tc_alpn_select :: bool
  tc_next_protos_advertised :: bool
  tc_alpn_protos :: "u8 list"
  tc_session_id_context :: string
  tc_sess_cache_size :: nat

definition create_context :: "bool \<Rightarrow> nat option \<Rightarrow> err_t + tls_context" where
  "create_context isclient new =
     (case new of
        None \<Rightarrow> Inl SOCKET_SSL_CONTEXT_FAILED
      | Some ctx \<Rightarrow> Inr \<lparr>tc_ctx = ctx, tc_client = isclient, tc_read_ahead = True, tc_alpn_select = True,
          tc_next_protos_advertised = True, tc_alpn_protos = proto_list, tc_session_id_context = ''HTTP'',
          tc_sess_cache_size = 1\<rparr>)"

text \<open>The names in such a list; a length that leads past its end is \<open>None\<close>.\<close>

function protocols :: "u8 list \<Rightarrow> string list option" where
  "protocols [] = Some []"
| "protocols (n # bs) =
     (if unat n \<le> length bs
      then do { ps \<leftarrow> protocols (drop (unat n) bs); Some (chars_of (take (unat n) bs) # ps) }
      else None)"
  by pat_completeness auto
termination
  by (relation "measure length") auto

datatype alpn_result = Alert_fatal | Alpn_ok string

text \<open>
  \<open>alpn_cb\<close>: \<open>select\<close> is \<open>SSL_select_next_proto\<close>, with the flag \<open>OPENSSL_NPN_NEGOTIATED\<close> and the protocol;
  \<open>alpn_negotiate_cb\<close> gives the list of the server to the older extension.
\<close>

definition alpn_cb :: "(u8 list \<Rightarrow> u8 list \<Rightarrow> bool \<times> string) \<Rightarrow> u8 list \<Rightarrow> alpn_result" where
  "alpn_cb select offered =
     (case select proto_list offered of (negotiated, name) \<Rightarrow> if \<not> negotiated then Alert_fatal else Alpn_ok name)"

definition alpn_negotiate_cb :: "u8 list" where
  "alpn_negotiate_cb = proto_list"

text \<open>\<open>get_protocol\<close>: the protocol of ALPN, else that of the older extension; each may be null.\<close>

definition get_protocol :: "string option \<Rightarrow> string option \<Rightarrow> string option" where
  "get_protocol alpn_selected next_proto_negotiated =
     (case alpn_selected of None \<Rightarrow> next_proto_negotiated | Some p \<Rightarrow> Some p)"

text \<open>
  \<open>SSL_select_next_proto\<close> as documented: the first protocol of the server that the client offers too;
  without one nothing is negotiated.
\<close>

definition selects_common :: "(u8 list \<Rightarrow> u8 list \<Rightarrow> bool \<times> string) \<Rightarrow> bool" where
  "selects_common select \<longleftrightarrow>
     (\<forall>server client ss cs. protocols server = Some ss \<longrightarrow> protocols client = Some cs \<longrightarrow>
        (case find (\<lambda>p. p \<in> set cs) ss of
           Some p \<Rightarrow> select server client = (True, p)
         | None \<Rightarrow> \<not> fst (select server client)))"

lemma protocols_of_server: "protocols proto_list = Some [''h2'', ''http/1.1'']"
  by code_simp

text \<open>
  C17: the protocol of a TLS connection.  A client that offers HTTP/2 is served by HTTP/2, one that offers
  only HTTP/1.1 by HTTP/1.1, and one that offers neither ends in an alert: no connection is served by a
  protocol the client has not offered.  The descriptor is taken out of \<open>epoll\<close>, registered again with the
  executor of the protocol, that executor is run, and this one is given to the clean-up.
\<close>

theorem alpn_serves_offer:
  assumes "selects_common select" "protocols offered = Some names"
    and "pe_client_state p = SOCKET_PEER_ACCEPT"
  shows "case alpn_cb select offered of
           Alert_fatal \<Rightarrow> ''h2'' \<notin> set names \<and> ''http/1.1'' \<notin> set names
         | Alpn_ok name \<Rightarrow>
             ssl_execute transmit SUCCESS (get_protocol (Some name) npn) last_peer_id close_ret p =
               Some (if ''h2'' \<in> set names then Ssl_http2 (p\<lparr>pe_client_state := HTTP2_NEXT_MAGIC\<rparr>)
                     else Ssl_http11 (p\<lparr>pe_client_state := SOCKET_PEER_READ\<rparr>), ssl_upgrade_calls) \<and>
             (''h2'' \<in> set names \<or> ''http/1.1'' \<in> set names)"
proof -
  have sel: "case find (\<lambda>p. p \<in> set names) [''h2'', ''http/1.1''] of
      Some p \<Rightarrow> select proto_list offered = (True, p) | None \<Rightarrow> \<not> fst (select proto_list offered)"
    using assms(1,2) protocols_of_server unfolding selects_common_def by blast
  consider "''h2'' \<in> set names" | "''h2'' \<notin> set names" "''http/1.1'' \<in> set names"
    | "''h2'' \<notin> set names" "''http/1.1'' \<notin> set names" by blast
  then show ?thesis
  proof cases
    case 1
    then have "alpn_cb select offered = Alpn_ok ''h2''" using sel by (simp add: alpn_cb_def)
    then show ?thesis using 1 assms(3) by (simp add: get_protocol_def ssl_execute_def)
  next
    case 2
    then have "alpn_cb select offered = Alpn_ok ''http/1.1''" using sel by (simp add: alpn_cb_def)
    then show ?thesis using 2 assms(3) by (simp add: get_protocol_def ssl_execute_def)
  next
    case 3
    then have "alpn_cb select offered = Alert_fatal"
      using sel by (cases "select proto_list offered") (simp add: alpn_cb_def)
    then show ?thesis using 3 by simp
  qed
qed

text \<open>A client of HTTP/1.1 and a selection function.\<close>

definition sample_select :: "u8 list \<Rightarrow> u8 list \<Rightarrow> bool \<times> string" where
  "sample_select server client =
     (case (protocols server, protocols client) of
        (Some ss, Some cs) \<Rightarrow> (case find (\<lambda>p. p \<in> set cs) ss of Some p \<Rightarrow> (True, p) | None \<Rightarrow> (False, []))
      | _ \<Rightarrow> (False, []))"

lemma sample_select_common: "selects_common sample_select"
  by (auto simp: selects_common_def sample_select_def split: option.splits)

lemma alpn_serves_offer_witness:
  "case alpn_cb sample_select ([8] @ bytes_of ''http/1.1'') of
     Alert_fatal \<Rightarrow> ''h2'' \<notin> set [''http/1.1''] \<and> ''http/1.1'' \<notin> set [''http/1.1'']
   | Alpn_ok name \<Rightarrow>
       ssl_execute (\<lambda>_ _. None) SUCCESS (get_protocol (Some name) None) 5 SUCCESS
           (new_peer True ()) =
         Some (if ''h2'' \<in> set [''http/1.1'']
               then Ssl_http2 ((new_peer True ())\<lparr>pe_client_state := HTTP2_NEXT_MAGIC\<rparr>)
               else Ssl_http11 ((new_peer True ())\<lparr>pe_client_state := SOCKET_PEER_READ\<rparr>), ssl_upgrade_calls) \<and>
       (''h2'' \<in> set [''http/1.1''] \<or> ''http/1.1'' \<in> set [''http/1.1''])"
proof -
  have names: "protocols ([8] @ bytes_of ''http/1.1'') = Some [''http/1.1'']" by code_simp
  show ?thesis
    by (rule alpn_serves_offer [OF sample_select_common names]) (simp add: new_peer_def)
qed

end
