(* ===== verification/AppLife.thy ===== *)
theory AppLife
  imports DeviceMain LogThreads Sockets
begin

text \<open>
  Start and end of the programs: \<open>init_iot\<close> and \<open>destroy_iot\<close> of serverlib/lib/init.cc, the shutdown of
  deviceserver/deviceserver.cc and the opening of its message queue, and the main function of
  logreader/logreader.cc.
\<close>

subsection \<open>init_iot and destroy_iot\<close>

text \<open>
  The descriptor of the log file, and the result of creating the TLS context, which is an exception
  when it fails; the flushes of the log thread until it is joined.
\<close>

definition init_iot :: "int \<Rightarrow> nat option \<Rightarrow> log_system \<times> openssl \<Rightarrow> err_t + log_system \<times> openssl" where
  "init_iot log_filedescriptor ctx s =
     (case init_openssl ctx (snd s) of
        Inl e \<Rightarrow> Inl e
      | Inr ssl \<Rightarrow> Inr (init_log_thread log_filedescriptor (fst s), ssl))"

definition destroy_iot :: "nat list list \<Rightarrow> log_system \<times> openssl \<Rightarrow> (log_system \<times> openssl) option" where
  "destroy_iot orders s =
     do { l \<leftarrow> log_thread_function init_log_memory orders (fst s);
          ssl \<leftarrow> cleanup_openssl (snd s);
          Some (l, ssl) }"

subsection \<open>Shutdown of the device server\<close>

datatype app_call = App_terminate | App_destroy_iot | App_close server_event

text \<open>The four vectors of servers, in the order of the loops.\<close>

fun simple_server :: "server_event \<Rightarrow> bool" where
  "simple_server (Simple_server _) = True" | "simple_server _ = False"

fun ssl_server :: "server_event \<Rightarrow> bool" where
  "ssl_server (Ssl_server _ _ _) = True" | "ssl_server _ = False"

fun http_server :: "server_event \<Rightarrow> bool" where
  "http_server (Http_server _) = True" | "http_server _ = False"

fun https_server :: "server_event \<Rightarrow> bool" where
  "https_server (Https_server _ _ _) = True" | "https_server _ = False"

definition destroy_app :: "bool \<Rightarrow> device_server \<Rightarrow> app_call list" where
  "destroy_app evtdist ds =
     (if evtdist then [App_terminate, App_destroy_iot] else []) @
     map App_close (filter simple_server (ds_servers ds)) @ map App_close (filter ssl_server (ds_servers ds)) @
     map App_close (filter http_server (ds_servers ds)) @ map App_close (filter https_server (ds_servers ds))"

fun closed_server :: "app_call \<Rightarrow> server_event list" where
  "closed_server (App_close s) = [s]"
| "closed_server _ = []"

text \<open>Every server is closed once.\<close>

lemma server_kinds:
  "mset (filter simple_server ss) + mset (filter ssl_server ss) + mset (filter http_server ss) +
   mset (filter https_server ss) = mset ss"
proof (induction ss)
  case (Cons s ss)
  then show ?case by (cases s) simp_all
qed simp

lemma concat_closed: "concat (map (closed_server \<circ> App_close) ss) = ss"
  by (induction ss) simp_all

lemma destroy_app_closes:
  "mset (concat (map closed_server (destroy_app evtdist ds))) = mset (ds_servers ds)"
  using server_kinds [of "ds_servers ds"] by (cases evtdist) (simp_all add: destroy_app_def concat_closed ac_simps)

text \<open>
  The queue of the configuration thread: a second attempt without attributes when the first fails.
\<close>

definition open_queue :: "int \<Rightarrow> int \<Rightarrow> int option" where
  "open_queue with_attributes plain =
     (if with_attributes < 0 then (if plain < 0 then None else Some plain) else Some with_attributes)"

subsection \<open>The log reader\<close>

definition log_reader_parser :: "variables \<Rightarrow> (commandline \<times> variables) option" where
  "log_reader_parser st0 =
     do { (o1, st1) \<leftarrow> option_default CHR ''l'' (Some ''log_file'') ''file path'' ''Path to save log file''
            T_filepath (Var 0) (V_filepath ''/tmp/iotcloud/log/deviceserver.log'') False st0;
          (o2, st2) \<leftarrow> option_flag CHR ''w'' (Some ''wait'') ''Wait mode will wait for more logs'' (Var 1) st1;
          (o3, st3) \<leftarrow> option_flag CHR ''c'' (Some ''clean'') ''Delete log file'' (Var 2) st2;
          (o4, st4) \<leftarrow> option_flag CHR ''v'' (Some ''version'') ''Display version'' (Var 3) st3;
          Some (new_commandline ''Parse and display logs'' ''Parse and display logs in sorted format''
            [o1, o2, o3, o4] st4) }"

text \<open>\<open>delete_log_file\<close>; the constructor of \<open>logreader\<close>, which throws for a file it can not open.\<close>

definition delete_log_file :: "u8 list option \<Rightarrow> u8 list option" where
  "delete_log_file file = None"

definition open_logreader :: "int \<Rightarrow> err_t + int" where
  "open_logreader file_descriptor =
     (if file_descriptor < 0 then Inl err_t.LOG_FILE_OPEN_FAILURE else Inr file_descriptor)"

datatype reader_result =
    Reader_usage string
  | Reader_version string
  | Reader_missing
  | Reader_waits string
  | Reader_exception err_t
  | Reader_lines "log_record list"

text \<open>
  \<open>main\<close>: \<open>disk\<close> has the files, \<open>fd\<close> is the result of \<open>open\<close>.  In wait mode the program follows the file
  and does not end; the result is the path it waits for.  A line that the reader fails on is \<open>None\<close>.
\<close>

definition log_reader_main ::
    "string \<Rightarrow> (string \<Rightarrow> u8 list option) \<Rightarrow> int \<Rightarrow> string list \<Rightarrow> reader_result option" where
  "log_reader_main version disk fd argv =
     do { (cl, st) \<leftarrow> log_reader_parser (\<lambda>_. V_other);
          (valid, cl', st') \<leftarrow> parser cl argv st;
          if \<not> valid then Some (Reader_usage (usage cl'))
          else if st' (Var 3) = V_bool True then Some (Reader_version (prog_name cl' @ '' '' @ version))
          else let path = path_of (st' (Var 0));
                   file = (if st' (Var 2) = V_bool True then delete_log_file (disk path) else disk path) in
            if st' (Var 1) = V_bool True then Some (Reader_waits path)
            else case file of
              None \<Rightarrow> Some Reader_missing
            | Some bytes \<Rightarrow>
                (case open_logreader fd of
                   Inl e \<Rightarrow> Some (Reader_exception e)
                 | Inr _ \<Rightarrow> do { es \<leftarrow> log_lines bytes []; Some (Reader_lines es) }) }"

text \<open>
  Cleaning without waiting shows nothing: the file is deleted before the program looks for it.
\<close>

lemma clean_shows_nothing:
  assumes "log_reader_parser (\<lambda>_. V_other) = Some (cl, st)" "parser cl argv st = Some (True, cl', st')"
    and "st' (Var 3) \<noteq> V_bool True" "st' (Var 2) = V_bool True" "st' (Var 1) \<noteq> V_bool True"
  shows "log_reader_main version disk fd argv = Some Reader_missing"
  using assms by (simp add: log_reader_main_def delete_log_file_def Let_def)

end
