(* ===== verification/HttpScanner.thy ===== *)
theory HttpScanner
  imports Http11
begin

text \<open>
  The scanner of HTTP/1.1 requests, httpparser/http11.l: the regular expressions of its definitions, the
  choice of a rule (the longest match, of several the first; a character that no rule matches is echoed and
  skipped), the start conditions and \<open>yylex\<close>.  \<open>matches\<close> says what an expression describes; \<open>match_lengths\<close>
  computes how much of a text it can take, and \<open>match_lengths_iff\<close> shows that both agree.
\<close>

subsection \<open>Regular expressions\<close>

datatype rexp =
    Empty
  | Class "char \<Rightarrow> bool"
  | Seq rexp rexp
  | Alt rexp rexp
  | Star rexp

inductive matches :: "rexp \<Rightarrow> string \<Rightarrow> bool" where
  m_empty: "matches Empty []"
| m_class: "p c \<Longrightarrow> matches (Class p) [c]"
| m_seq: "matches r s \<Longrightarrow> matches q t \<Longrightarrow> matches (Seq r q) (s @ t)"
| m_left: "matches r s \<Longrightarrow> matches (Alt r q) s"
| m_right: "matches q s \<Longrightarrow> matches (Alt r q) s"
| m_done: "matches (Star r) []"
| m_more: "matches r s \<Longrightarrow> matches (Star r) t \<Longrightarrow> matches (Star r) (s @ t)"

text \<open>The lengths of the prefixes of a text that an expression matches.\<close>

function match_lengths :: "rexp \<Rightarrow> string \<Rightarrow> nat list" where
  "match_lengths Empty s = [0]"
| "match_lengths (Class p) s = (case s of [] \<Rightarrow> [] | c # _ \<Rightarrow> if p c then [1] else [])"
| "match_lengths (Seq r q) s =
     remdups (concat (map (\<lambda>n. map ((+) n) (match_lengths q (drop n s))) (match_lengths r s)))"
| "match_lengths (Alt r q) s = remdups (match_lengths r s @ match_lengths q s)"
| "match_lengths (Star r) s =
     remdups (0 # concat (map (\<lambda>n. map ((+) n) (match_lengths (Star r) (drop n s)))
                              (filter (\<lambda>n. 0 < n \<and> n \<le> length s) (match_lengths r s))))"
  by pat_completeness auto
termination
  by (relation "measures [\<lambda>(r, s). size r, \<lambda>(r, s). length s]") auto

declare match_lengths.simps(5) [simp del]

fun lit :: "string \<Rightarrow> rexp" where
  "lit [] = Empty"
| "lit (c # s) = Seq (Class ((=) c)) (lit s)"

abbreviation one_of :: "string \<Rightarrow> rexp" where
  "one_of cs \<equiv> Class (\<lambda>c. c \<in> set cs)"

definition plus_re :: "rexp \<Rightarrow> rexp" where
  "plus_re r = Seq r (Star r)"

definition opt_re :: "rexp \<Rightarrow> rexp" where
  "opt_re r = Alt Empty r"

subsection \<open>The definitions of the scanner\<close>

definition is_alpha :: "char \<Rightarrow> bool" where
  "is_alpha c \<longleftrightarrow> (let n = of_char c :: nat in 65 \<le> n \<and> n \<le> 90 \<or> 97 \<le> n \<and> n \<le> 122)"

definition is_digit :: "char \<Rightarrow> bool" where
  "is_digit c \<longleftrightarrow> (let n = of_char c :: nat in 48 \<le> n \<and> n \<le> 57)"

definition is_alnum :: "char \<Rightarrow> bool" where
  "is_alnum c \<longleftrightarrow> is_alpha c \<or> is_digit c"

definition re_hex :: rexp where
  "re_hex = one_of ''0123456789ABCDEFabcdef''"

definition re_escaped :: rexp where
  "re_escaped = Seq (lit ''%'') (Seq re_hex re_hex)"

definition re_mark :: rexp where
  "re_mark = one_of [CHR ''-'', CHR ''_'', CHR ''.'', CHR ''!'', CHR ''~'', CHR ''*'', CHR 0x27, CHR ''('', CHR '')'']"

definition re_unreserved :: rexp where
  "re_unreserved = Alt (Class is_alnum) re_mark"

definition re_reserved :: rexp where
  "re_reserved = one_of '';/?:@&=+$,''"

definition re_uric :: rexp where
  "re_uric = Alt re_reserved (Alt re_unreserved re_escaped)"

definition re_uric_no_slash :: rexp where
  "re_uric_no_slash = Alt re_unreserved (Alt re_escaped (one_of '';?:@&=+$,''))"

definition re_opaque_part :: rexp where
  "re_opaque_part = Seq re_uric_no_slash (Star re_uric)"

definition re_pchar :: rexp where
  "re_pchar = Alt re_unreserved (Alt re_escaped (one_of '':@&=+$,''))"

definition re_param :: rexp where
  "re_param = Star re_pchar"

definition re_segment :: rexp where
  "re_segment = Seq (plus_re re_pchar) (Star (Seq (lit '';'') re_param))"

definition re_path_segments :: rexp where
  "re_path_segments = Seq re_segment (Star (Seq (lit ''/'') re_segment))"

definition re_abs_path :: rexp where
  "re_abs_path = Seq (lit ''/'') (opt_re re_path_segments)"

definition re_dec_octet :: rexp where
  "re_dec_octet =
     (let digit = Class is_digit; nonzero = one_of ''123456789'' in
      Alt digit (Alt (Seq nonzero digit) (Alt (Seq (lit ''1'') (Seq digit digit))
        (Alt (Seq (lit ''2'') (Seq (one_of ''01234'') digit)) (Seq (lit ''25'') (one_of ''012345''))))))"

definition re_IPv4address :: rexp where
  "re_IPv4address =
     Seq re_dec_octet (Seq (lit ''.'') (Seq re_dec_octet (Seq (lit ''.'')
       (Seq re_dec_octet (Seq (lit ''.'') re_dec_octet)))))"

definition re_scheme :: rexp where
  "re_scheme = Seq (Class is_alpha) (Star (Alt (Class is_alpha) (Alt (Class is_digit) (one_of ''+-.''))))"

definition re_reg_name :: rexp where
  "re_reg_name = plus_re (Alt re_unreserved (Alt re_escaped (one_of ''$,;:@&=+'')))"

definition re_userinfo :: rexp where
  "re_userinfo = Star (Alt re_unreserved (Alt re_escaped (one_of '';:&=+$,'')))"

text \<open>
  In \<open>domainlabel\<close> and \<open>toplabel\<close> the classes stand without their outer brackets: \<open>[:alnum:]\<close> is one of the
  characters colon, a, l, n, u and m.
\<close>

definition re_domainlabel :: rexp where
  "re_domainlabel =
     Alt (one_of '':alnum'')
         (Seq (one_of '':alnum'') (Seq (Star (Alt (Class is_alnum) (lit ''-''))) (one_of '':alnum'')))"

definition re_toplabel :: rexp where
  "re_toplabel =
     Alt (one_of '':alph'')
         (Seq (one_of '':alph'') (Seq (Star (Alt (Class is_alnum) (lit ''-''))) (one_of '':alnum'')))"

definition re_hostname :: rexp where
  "re_hostname = Seq (Star (Seq re_domainlabel (lit ''.''))) (Seq re_toplabel (opt_re (lit ''.'')))"

definition re_host :: rexp where
  "re_host = Alt re_hostname re_IPv4address"

text \<open>The expression has \<open>port\<close> without braces: it is the word.\<close>

definition re_hostport :: rexp where
  "re_hostport = Seq re_host (opt_re (lit '':port''))"

definition re_server :: rexp where
  "re_server = opt_re (Seq (opt_re (Seq re_userinfo (lit ''@''))) re_hostport)"

definition re_authority :: rexp where
  "re_authority = Alt re_server re_reg_name"

definition re_net_path :: rexp where
  "re_net_path = Seq (lit ''//'') (Seq re_authority (opt_re re_abs_path))"

definition re_query :: rexp where
  "re_query = Star re_uric"

definition re_hier_part :: rexp where
  "re_hier_part = Seq (Alt re_net_path re_abs_path) (opt_re (Seq (lit ''?'') re_query))"

definition re_absoluteURI :: rexp where
  "re_absoluteURI = Seq re_scheme (Seq (lit '':'') (Alt re_hier_part re_opaque_part))"

definition re_rel_segment :: rexp where
  "re_rel_segment = plus_re (Alt re_unreserved (Alt re_escaped (one_of '';@&=+$,'')))"

definition re_rel_path :: rexp where
  "re_rel_path = Seq re_rel_segment (opt_re re_abs_path)"

definition re_relativeURI :: rexp where
  "re_relativeURI =
     Seq (Alt re_net_path (Alt re_abs_path re_rel_path)) (opt_re (Seq (lit ''?'') re_query))"

definition re_Request_URI :: rexp where
  "re_Request_URI = Alt (lit ''*'') (Alt re_absoluteURI (Alt re_relativeURI re_authority))"

definition not_newline :: "char \<Rightarrow> bool" where
  "not_newline c \<longleftrightarrow> c \<noteq> CHR 0x0D \<and> c \<noteq> CHR 0x0A"

definition is_space :: "char \<Rightarrow> bool" where
  "is_space c \<longleftrightarrow> c = CHR '' '' \<or> c = CHR 0x09"

definition name_char :: "char \<Rightarrow> bool" where
  "name_char c \<longleftrightarrow> c \<noteq> CHR '':'' \<and> not_newline c"

definition re_field_value :: rexp where
  "re_field_value = plus_re (Class not_newline)"

definition re_space :: rexp where
  "re_space = plus_re (Class is_space)"

definition re_field_name :: rexp where
  "re_field_name = plus_re (Class name_char)"

subsection \<open>Tokens and rules\<close>

text \<open>The tokens that a rule gives, with their values.\<close>

datatype token =
    T_COLON
  | T_METHOD METHOD
  | T_VERSION VERSION
  | T_FIELD FIELD
  | T_FIELD_CUSTOM string
  | T_FIELD_VALUE string
  | T_PATH string
  | T_NEWLINE
  | T_SPACE
  | T_CHAR char
  | T_END

datatype start_condition = INITIAL | REQUEST | HEADER

type_synonym rule = "rexp \<times> (start_condition \<Rightarrow> string \<Rightarrow> start_condition \<times> token)"

text \<open>\<open>yytext\<close> is read as a C string, so the value of a token ends at a null character.\<close>

definition c_str :: "string \<Rightarrow> string" where
  "c_str = takeWhile (\<lambda>c. c \<noteq> CHR 0x00)"

definition skipFirstAndSpace :: "string \<Rightarrow> string" where
  "skipFirstAndSpace str = dropWhile is_space (c_str (tl str))"

definition tokVOID :: "token \<Rightarrow> start_condition \<Rightarrow> string \<Rightarrow> start_condition \<times> token" where
  "tokVOID t st yytext = (st, t)"

definition tokSTRING :: "(string \<Rightarrow> token) \<Rightarrow> start_condition \<Rightarrow> string \<Rightarrow> start_condition \<times> token" where
  "tokSTRING t st yytext = (st, t (c_str yytext))"

definition tokVERSION :: "VERSION \<Rightarrow> start_condition \<Rightarrow> string \<Rightarrow> start_condition \<times> token" where
  "tokVERSION v st yytext = (HEADER, T_VERSION v)"

definition tokFIELDVALUE :: "start_condition \<Rightarrow> string \<Rightarrow> start_condition \<times> token" where
  "tokFIELDVALUE st yytext = (st, T_FIELD_VALUE (skipFirstAndSpace yytext))"

definition tokCHAR :: "start_condition \<Rightarrow> string \<Rightarrow> start_condition \<times> token" where
  "tokCHAR st yytext = (st, T_CHAR (hd yytext))"

definition method_rules :: "(string \<times> METHOD) list" where
  "method_rules =
     [(''OPTIONS'', OPTIONS), (''GET'', GET), (''HEAD'', HEAD), (''POST'', POST), (''PUT'', PUT),
      (''DELETE'', DELETE), (''TRACE'', TRACE), (''CONNECT'', CONNECT), (''PRI'', PRI)]"

text \<open>
  The rules of the names of fields are the entries of the table of http11.hh in the same order, without
  the five pseudo fields at its start and the mark at its end.
\<close>

definition field_rules :: "(string \<times> FIELD) list" where
  "field_rules = map (\<lambda>(field, name). (name, field)) (butlast (drop 5 field_list))"

definition newline_rule :: rule where
  "newline_rule = (Alt (lit [CHR 0x0D]) (lit [CHR 0x0D, CHR 0x0A]), tokVOID T_NEWLINE)"

definition space_rule :: rule where
  "space_rule = (re_space, tokVOID T_SPACE)"

fun rules :: "start_condition \<Rightarrow> rule list" where
  "rules INITIAL =
     [(lit '':'', tokVOID T_COLON), newline_rule, space_rule, (Class (\<lambda>c. c \<noteq> CHR 0x0A), tokCHAR)]"
| "rules REQUEST =
     map (\<lambda>(name, value). (lit name, tokVOID (T_METHOD value))) method_rules @
     [(lit ''HTTP/1.1'', tokVERSION VER_1_1), (lit ''HTTP/2.0'', tokVERSION VER_2),
      (re_Request_URI, tokSTRING T_PATH), newline_rule, space_rule]"
| "rules HEADER =
     map (\<lambda>(name, field). (lit name, tokVOID (T_FIELD field))) field_rules @
     [(re_field_name, tokSTRING T_FIELD_CUSTOM),
      (Seq (lit '':'') (Seq re_space re_field_value), tokFIELDVALUE), newline_rule]"

subsection \<open>yylex\<close>

definition longest :: "rexp \<Rightarrow> string \<Rightarrow> nat" where
  "longest r s = foldr max (match_lengths r s) 0"

text \<open>The first of the rules with the longest match; a match of no character is none.\<close>

fun choose_rule :: "(rexp \<times> 'a) list \<Rightarrow> string \<Rightarrow> (nat \<times> 'a) option" where
  "choose_rule [] s = None"
| "choose_rule ((r, a) # rs) s =
     (let n = longest r s in
      case choose_rule rs s of
        None \<Rightarrow> if 0 < n then Some (n, a) else None
      | Some (m, b) \<Rightarrow> if 0 < n \<and> m \<le> n then Some (n, a) else Some (m, b))"

text \<open>
  The token, the start condition and the text that is left.  The end of the text is the end of the
  input; a character without a rule is written to the standard output by the default rule.
\<close>

fun yylex :: "start_condition \<Rightarrow> string \<Rightarrow> token \<times> start_condition \<times> string" where
  "yylex st [] = (T_END, st, [])"
| "yylex st (c # s) =
     (case choose_rule (rules st) (c # s) of
        None \<Rightarrow> yylex st s
      | Some (n, action) \<Rightarrow>
          let (st', t) = action st (take n (c # s)) in (t, st', drop n (c # s)))"

subsection \<open>What match_lengths computes\<close>

inductive_cases matches_EmptyE [elim!]: "matches Empty s"
inductive_cases matches_ClassE [elim!]: "matches (Class p) s"
inductive_cases matches_SeqE [elim!]: "matches (Seq r q) s"
inductive_cases matches_AltE: "matches (Alt r q) s"

lemma matches_Empty_iff: "matches Empty s \<longleftrightarrow> s = []"
  by (auto intro: m_empty)

lemma matches_Class_iff: "matches (Class p) s \<longleftrightarrow> (\<exists>c. s = [c] \<and> p c)"
  by (auto intro: m_class)

lemma matches_Seq_iff: "matches (Seq r q) s \<longleftrightarrow> (\<exists>t u. s = t @ u \<and> matches r t \<and> matches q u)"
  by (auto intro: m_seq)

lemma matches_Alt_iff: "matches (Alt r q) s \<longleftrightarrow> matches r s \<or> matches q s"
  by (auto elim: matches_AltE intro: m_left m_right)

text \<open>A repetition is empty or starts with a match that is not empty.\<close>

lemma matches_Star_iff:
  "matches (Star r) s \<longleftrightarrow> s = [] \<or> (\<exists>t u. s = t @ u \<and> t \<noteq> [] \<and> matches r t \<and> matches (Star r) u)"
proof
  assume "matches (Star r) s"
  then show "s = [] \<or> (\<exists>t u. s = t @ u \<and> t \<noteq> [] \<and> matches r t \<and> matches (Star r) u)"
  proof (induction "Star r" s)
    case (m_more s t)
    then show ?case by (cases "s = []") (simp, blast)
  qed simp
qed (auto intro: m_done m_more)

lemma matches_lit: "matches (lit t) s \<longleftrightarrow> s = t"
  by (induction t arbitrary: s) (auto simp: matches_Empty_iff matches_Seq_iff matches_Class_iff)

declare lit.simps [simp del]

lemmas matches_iff = matches_Empty_iff matches_Class_iff matches_Seq_iff matches_Alt_iff matches_lit

lemma split_prefix:
  "(\<exists>t u. take n s = t @ u \<and> P t \<and> Q u) \<and> n \<le> length s \<longleftrightarrow>
   (\<exists>k m. n = k + m \<and> k \<le> length s \<and> P (take k s) \<and> m \<le> length (drop k s) \<and> Q (take m (drop k s)))"
proof
  assume "(\<exists>t u. take n s = t @ u \<and> P t \<and> Q u) \<and> n \<le> length s"
  then obtain t u where tu: "take n s = t @ u" "P t" "Q u" "n \<le> length s" by blast
  have len: "length t + length u = n" using tu(1, 4) by (metis length_append length_take min.absorb2)
  have s: "s = (t @ u) @ drop n s" using tu(1) by (metis append_take_drop_id)
  have "take (length t) s = t" "take (length u) (drop (length t) s) = u" by (subst s, simp)+
  then show "\<exists>k m. n = k + m \<and> k \<le> length s \<and> P (take k s) \<and> m \<le> length (drop k s) \<and> Q (take m (drop k s))"
    using tu(2-4) len by (intro exI [of _ "length t"] exI [of _ "length u"]) auto
next
  assume "\<exists>k m. n = k + m \<and> k \<le> length s \<and> P (take k s) \<and> m \<le> length (drop k s) \<and> Q (take m (drop k s))"
  then obtain k m where km: "n = k + m" "k \<le> length s" "P (take k s)" "m \<le> length (drop k s)" "Q (take m (drop k s))"
    by blast
  then have "take n s = take k s @ take m (drop k s)" by (simp add: take_add)
  then show "(\<exists>t u. take n s = t @ u \<and> P t \<and> Q u) \<and> n \<le> length s" using km by auto
qed

lemma match_lengths_iff: "n \<in> set (match_lengths r s) \<longleftrightarrow> n \<le> length s \<and> matches r (take n s)"
proof (induction r s arbitrary: n rule: match_lengths.induct)
  case (2 p s)
  then show ?case by (cases s) (auto simp: matches_Class_iff take_Cons')
next
  case (3 r q s)
  have "n \<in> set (match_lengths (Seq r q) s) \<longleftrightarrow>
      (\<exists>k m. n = k + m \<and> k \<in> set (match_lengths r s) \<and> m \<in> set (match_lengths q (drop k s)))"
    by auto
  also have "\<dots> \<longleftrightarrow>
      (\<exists>k m. n = k + m \<and> k \<le> length s \<and> matches r (take k s) \<and> m \<le> length (drop k s) \<and> matches q (take m (drop k s)))"
    using 3 by blast
  finally show ?case using split_prefix [of n s "matches r" "matches q"] by (auto simp: matches_Seq_iff)
next
  case (5 r s)
  let ?parts = "filter (\<lambda>n. 0 < n \<and> n \<le> length s) (match_lengths r s)"
  have parts: "k \<in> set ?parts \<longleftrightarrow> k \<le> length s \<and> (take k s \<noteq> [] \<and> matches r (take k s))" for k
    using 5(1) [of k] by auto
  have "n \<in> set (match_lengths (Star r) s) \<longleftrightarrow>
      n = 0 \<or> (\<exists>k m. n = k + m \<and> k \<in> set ?parts \<and> m \<in> set (match_lengths (Star r) (drop k s)))"
    by (subst match_lengths.simps(5)) auto
  also have "\<dots> \<longleftrightarrow> n = 0 \<or>
      (\<exists>k m. n = k + m \<and> k \<in> set ?parts \<and> m \<le> length (drop k s) \<and> matches (Star r) (take m (drop k s)))"
    using 5(2) by blast
  also have "\<dots> \<longleftrightarrow> n = 0 \<or>
      (\<exists>k m. n = k + m \<and> k \<le> length s \<and> (take k s \<noteq> [] \<and> matches r (take k s)) \<and> m \<le> length (drop k s) \<and>
         matches (Star r) (take m (drop k s)))"
    by (simp only: parts conj_assoc)
  finally have step: "n \<in> set (match_lengths (Star r) s) \<longleftrightarrow> n = 0 \<or>
      (\<exists>k m. n = k + m \<and> k \<le> length s \<and> (take k s \<noteq> [] \<and> matches r (take k s)) \<and> m \<le> length (drop k s) \<and>
         matches (Star r) (take m (drop k s)))" .
  show ?case
    unfolding step using split_prefix [of n s "\<lambda>t. t \<noteq> [] \<and> matches r t" "matches (Star r)"]
    by (subst matches_Star_iff) auto
qed (auto simp: matches_iff)

subsection \<open>Longest matches\<close>

lemma foldr_max_le: "foldr max ns (0 :: nat) \<le> k \<longleftrightarrow> (\<forall>n\<in>set ns. n \<le> k)"
  by (induction ns) auto

lemma longest_le_iff: "longest r s \<le> k \<longleftrightarrow> (\<forall>n \<le> length s. matches r (take n s) \<longrightarrow> n \<le> k)"
  by (auto simp: longest_def foldr_max_le match_lengths_iff)

lemma longest_eqI:
  assumes "n \<le> length s" "matches r (take n s)" "longest r s \<le> n"
  shows "longest r s = n"
proof (rule antisym)
  show "n \<le> longest r s" using longest_le_iff [of r s "longest r s"] assms(1, 2) by simp
qed (rule assms(3))

lemma longest_le_length: "longest r s \<le> length s"
  by (simp add: longest_le_iff)

text \<open>The characters an expression can take; a match stops before any other character.\<close>

fun letters :: "rexp \<Rightarrow> char \<Rightarrow> bool" where
  "letters Empty c = False"
| "letters (Class p) c = p c"
| "letters (Seq r q) c \<longleftrightarrow> letters r c \<or> letters q c"
| "letters (Alt r q) c \<longleftrightarrow> letters r c \<or> letters q c"
| "letters (Star r) c = letters r c"

lemma matches_letters: "matches r s \<Longrightarrow> c \<in> set s \<Longrightarrow> letters r c"
  by (induction rule: matches.induct) auto

lemma longest_before:
  assumes "\<not> letters r c"
  shows "longest r (t @ c # s) \<le> length t"
proof (unfold longest_le_iff, intro allI impI)
  fix n
  assume "matches r (take n (t @ c # s))"
  then have "c \<notin> set (take n (t @ c # s))" using matches_letters assms by blast
  then show "n \<le> length t" by (cases "n \<le> length t") (auto simp: take_Cons' split: if_splits)
qed

lemma longest_whole: "matches r t \<Longrightarrow> \<not> letters r c \<Longrightarrow> longest r (t @ c # s) = length t"
  by (intro longest_eqI longest_before) simp_all

lemma longest_none: "\<not> letters r c \<Longrightarrow> longest r (c # s) = 0"
  using longest_before [of r c "[]" s] by simp

lemma longest_lit: "longest (lit t) s = (if take (length t) s = t then length t else 0)"
proof (cases "take (length t) s = t")
  case True
  then have "length t \<le> length s" by (metis length_take min.cobounded1)
  then show ?thesis using True by (auto intro!: longest_eqI simp: longest_le_iff matches_lit)
next
  case False
  have "n = 0" if "n \<le> length s" "matches (lit t) (take n s)" for n
    using that False by (auto simp: matches_lit)
  then have "longest (lit t) s \<le> 0" unfolding longest_le_iff by auto
  then show ?thesis using False by simp
qed

lemma letters_lit [simp]: "letters (lit t) c \<longleftrightarrow> c \<in> set t"
  by (induction t) (auto simp: lit.simps)

lemma letters_plus [simp]: "letters (plus_re r) c = letters r c"
  by (simp add: plus_re_def)

lemma letters_opt [simp]: "letters (opt_re r) c = letters r c"
  by (simp add: opt_re_def)

lemma matches_class_seq: "matches (Seq (Class p) r) s \<longleftrightarrow> (\<exists>c t. s = c # t \<and> p c \<and> matches r t)"
proof
  assume "\<exists>c t. s = c # t \<and> p c \<and> matches r t"
  then show "matches (Seq (Class p) r) s" using m_seq [OF m_class, of p _ r] by fastforce
qed (auto simp: matches_Seq_iff matches_Class_iff)

lemma matches_star_class: "matches (Star (Class p)) s \<longleftrightarrow> list_all p s"
proof
  show "matches (Star (Class p)) s \<Longrightarrow> list_all p s" using matches_letters by (fastforce simp: list_all_iff)
  show "list_all p s \<Longrightarrow> matches (Star (Class p)) s"
  proof (induction s)
    case (Cons c s)
    then show ?case using m_more [OF m_class [of p c], of s] by simp
  qed (simp add: m_done)
qed

lemma matches_plus_class: "matches (plus_re (Class p)) s \<longleftrightarrow> s \<noteq> [] \<and> list_all p s"
  by (cases s) (auto simp: plus_re_def matches_class_seq matches_star_class)

subsection \<open>The choice of a rule\<close>

lemma choose_rule_pos: "choose_rule rs s = Some (n, a) \<Longrightarrow> 0 < n \<and> n \<le> length s"
  by (induction rs arbitrary: n a) (auto simp: Let_def longest_le_length split: option.splits if_splits)

lemma choose_rule_le:
  "\<forall>(q, b)\<in>set rs. longest q s \<le> k \<Longrightarrow> choose_rule rs s = Some (n, a) \<Longrightarrow> n \<le> k"
  by (induction rs arbitrary: n a) (auto simp: Let_def split: option.splits if_splits)

lemma choose_rule_here:
  assumes "\<forall>(q, b)\<in>set post. longest q s \<le> longest r s" "0 < longest r s"
  shows "choose_rule ((r, a) # post) s = Some (longest r s, a)"
  using assms choose_rule_le [OF assms(1)] by (auto simp: Let_def split: option.splits)

lemma choose_rule_skip:
  assumes "choose_rule rs s = Some (n, a)" "\<forall>(q, b)\<in>set pre. longest q s < n"
  shows "choose_rule (pre @ rs) s = Some (n, a)"
  using assms(2) by (induction pre) (auto simp: assms(1) Let_def)

lemma choose_rule_eq:
  assumes "longest r s = n" "0 < n" "\<forall>(q, b)\<in>set pre. longest q s < n" "\<forall>(q, b)\<in>set post. longest q s \<le> n"
  shows "choose_rule (pre @ (r, a) # post) s = Some (n, a)"
  using assms choose_rule_here [of post s r a] by (intro choose_rule_skip) auto

text \<open>A token other than the end takes at least one character.\<close>

lemma yylex_shorter: "yylex st s = (t, st', s') \<Longrightarrow> t \<noteq> T_END \<Longrightarrow> length s' < length s"
proof (induction st s rule: yylex.induct)
  case (2 st c s)
  show ?case
  proof (cases "choose_rule (rules st) (c # s)")
    case None
    then show ?thesis using 2 by auto
  next
    case (Some na)
    then obtain n a where na: "choose_rule (rules st) (c # s) = Some (n, a)" by (cases na) auto
    then show ?thesis using 2(2) choose_rule_pos [OF na] by (auto simp: Let_def split: prod.splits)
  qed
qed simp

end
