(* ===== verification/HttpDriver.thy ===== *)
theory HttpDriver
  imports Http1Event HttpScanner
begin

text \<open>
  The parser of HTTP/1.1 requests: the grammar of httpparser/http11.yy and \<open>http11driver\<close> of http11driver.cc.
  A request that is written in the usual form is read back with its method, path, version and fields; a
  header without a space after its colon is refused.
\<close>

subsection \<open>The grammar\<close>

text \<open>\<open>insert\<close> keeps the first value of a field.\<close>

definition insert_field :: "FIELD \<Rightarrow> string \<Rightarrow> http_header_request \<Rightarrow> http_header_request" where
  "insert_field field value h =
     (if hr_fields h field = None then h\<lparr>hr_fields := (hr_fields h)(field \<mapsto> value)\<rparr> else h)"

text \<open>\<open>METHOD SPACE PATH SPACE VERSION NEWLINE\<close>, of \<open>request_line\<close> and \<open>request_line_end\<close>.\<close>

definition request_line :: "string \<Rightarrow> (METHOD \<times> string \<times> VERSION \<times> start_condition \<times> string) option" where
  "request_line text =
     (case yylex REQUEST text of
        (T_METHOD m, st, s) \<Rightarrow>
          (case yylex st s of
             (T_SPACE, st, s) \<Rightarrow>
               (case yylex st s of
                  (T_PATH p, st, s) \<Rightarrow>
                    (case yylex st s of
                       (T_SPACE, st, s) \<Rightarrow>
                         (case yylex st s of
                            (T_VERSION v, st, s) \<Rightarrow>
                              (case yylex st s of
                                 (T_NEWLINE, st, s) \<Rightarrow> Some (m, p, v, st, s)
                               | _ \<Rightarrow> None)
                          | _ \<Rightarrow> None)
                     | _ \<Rightarrow> None)
                | _ \<Rightarrow> None)
           | _ \<Rightarrow> None)
      | _ \<Rightarrow> None)"

text \<open>\<open>FIELD_VALUE NEWLINE\<close>, the rest of a \<open>standard_field\<close> or a \<open>custom_field\<close>.\<close>

definition field_end :: "start_condition \<Rightarrow> string \<Rightarrow> (string \<times> start_condition \<times> string) option" where
  "field_end st s =
     (case yylex st s of
        (T_FIELD_VALUE value, st, s) \<Rightarrow>
          (case yylex st s of
             (T_NEWLINE, st, s) \<Rightarrow> Some (value, st, s)
           | _ \<Rightarrow> None)
      | _ \<Rightarrow> None)"

lemma field_end_shorter: "field_end st s = Some (value, st', s') \<Longrightarrow> length s' < length s"
  unfolding field_end_def
  by (auto split: prod.splits token.splits dest!: yylex_shorter)

text \<open>
  \<open>fields NEWLINE\<close>, or the second \<open>NEWLINE\<close> of \<open>request_line_end\<close>, which has the action of \<open>request_line\<close>:
  the fields are entered one by one, and what was read before an error stays in the header.
\<close>

function parse_fields :: "start_condition \<Rightarrow> string \<Rightarrow> http_header_request \<Rightarrow> bool \<times> http_header_request" where
  "parse_fields st s h =
     (case yylex st s of
        (T_NEWLINE, st, s) \<Rightarrow> (True, h)
      | (T_FIELD field, st, s) \<Rightarrow>
          (case field_end st s of
             None \<Rightarrow> (False, h)
           | Some (value, st, s) \<Rightarrow> parse_fields st s (insert_field field value h))
      | (T_FIELD_CUSTOM _, st, s) \<Rightarrow>
          (case field_end st s of
             None \<Rightarrow> (False, h)
           | Some (_, st, s) \<Rightarrow> parse_fields st s h)
      | _ \<Rightarrow> (False, h))"
  by pat_completeness auto
termination
  by (relation "measure (\<lambda>(st, s, h). length s)")
    (auto dest!: sym [of "(_, _)" "yylex _ _"] yylex_shorter field_end_shorter)

declare parse_fields.simps [simp del]

text \<open>
  \<open>http11driver::parse\<close> on a header: the result is the code of the call and the header that is left in the
  driver.  The header of a new driver has no fields; its method and version have no defined value.
\<close>

definition driver_parse :: "http_header_request \<Rightarrow> string \<Rightarrow> err_t \<times> http_header_request" where
  "driver_parse header input =
     (case request_line input of
        None \<Rightarrow> (HTTP11_PARSER_FAILURE, header)
      | Some (m, p, v, st, s) \<Rightarrow>
          (case parse_fields st s (insert_field (Pseudo Path) p (header\<lparr>hr_method := m, hr_version := v\<rparr>)) of
             (accepted, h) \<Rightarrow> (if accepted then SUCCESS else HTTP11_PARSER_FAILURE, h)))"

definition new_header :: "METHOD \<Rightarrow> VERSION \<Rightarrow> http_header_request" where
  "new_header m v = \<lparr>hr_version = v, hr_method = m, hr_fields = Map.empty\<rparr>"

subsection \<open>The text of a token\<close>

lemmas re_uri_defs = re_Request_URI_def re_absoluteURI_def re_relativeURI_def re_authority_def re_server_def
  re_reg_name_def re_rel_path_def re_rel_segment_def re_hier_part_def re_opaque_part_def re_net_path_def
  re_abs_path_def re_path_segments_def re_segment_def re_param_def re_query_def re_hostport_def re_host_def
  re_hostname_def re_toplabel_def re_domainlabel_def re_userinfo_def re_IPv4address_def re_dec_octet_def
  re_scheme_def re_uric_no_slash_def re_uric_def re_pchar_def re_reserved_def re_unreserved_def re_mark_def
  re_escaped_def re_hex_def

lemma uri_letters:
  "\<not> letters re_Request_URI CHR '' ''" "\<not> letters re_Request_URI CHR 0x0D" "\<not> letters re_Request_URI CHR 0x0A"
  "\<not> letters re_Request_URI CHR 0x00"
  by code_simp+

lemma newline_longest:
  "longest (Alt (lit [CHR 0x0D]) (lit [CHR 0x0D, CHR 0x0A])) (CHR 0x0D # CHR 0x0A # s) = 2"
  by (rule longest_eqI) (auto simp: matches_iff longest_le_iff dest!: arg_cong [where f = length])

lemma newline_none: "c \<noteq> CHR 0x0D \<Longrightarrow> c \<noteq> CHR 0x0A \<Longrightarrow> longest (Alt (lit [CHR 0x0D]) (lit [CHR 0x0D, CHR 0x0A])) (c # s) = 0"
  by (rule longest_none) simp


text \<open>The word before a character that no word of the rules has: its rule is chosen.\<close>

lemma keyword_lt:
  assumes "c \<notin> set n" "n \<noteq> name" "name \<noteq> []"
  shows "longest (lit n) (name @ c # s) < length name"
proof -
  have le: "longest (lit n) (name @ c # s) \<le> length name" using assms(1) by (intro longest_before) simp
  have "longest (lit n) (name @ c # s) \<noteq> length name" using assms(2, 3) by (auto simp: longest_lit)
  then show ?thesis using le by simp
qed

lemma keyword_rule:
  assumes "name \<noteq> []" "\<forall>(q, b)\<in>set post. longest q (name @ c # s) \<le> length name"
  shows "\<forall>(n, v)\<in>set ks. c \<notin> set n \<Longrightarrow> map_of ks name = Some v \<Longrightarrow>
    choose_rule (map (\<lambda>(n, v). (lit n, f v)) ks @ post) (name @ c # s) = Some (length name, f v)"
proof (induction ks)
  case (Cons k ks)
  obtain n w where k: "k = (n, w)" by (cases k)
  show ?case
  proof (cases "n = name")
    case True
    have "longest (lit m) (name @ c # s) \<le> length name" if "(m, u) \<in> set ks" for m u
      using that Cons.prems(1) by (intro longest_before) auto
    then have "\<forall>(q, b)\<in>set (map (\<lambda>(n, v). (lit n, f v)) ks @ post). longest q (name @ c # s) \<le> longest (lit n) (name @ c # s)"
      using True assms(2) by (auto simp: longest_lit)
    then have "choose_rule ((lit n, f w) # map (\<lambda>(n, v). (lit n, f v)) ks @ post) (name @ c # s) =
        Some (longest (lit n) (name @ c # s), f w)"
      using True assms(1) by (intro choose_rule_here) (simp_all add: longest_lit)
    then show ?thesis using True k Cons.prems(2) by (simp add: longest_lit del: choose_rule.simps)
  next
    case False
    then show ?thesis
      using Cons k keyword_lt [of c n name s] assms(1)
        choose_rule_skip [of _ "name @ c # s" "length name" "f v" "[(lit n, f w)]"] by simp
  qed
qed simp

lemma no_keyword_rule:
  assumes "name \<noteq> []" "choose_rule post (name @ c # s) = Some (length name, a)"
    and "\<forall>(n, v)\<in>set ks. c \<notin> set n" "map_of ks name = None"
  shows "choose_rule (map (\<lambda>(n, v). (lit n, f v)) ks @ post) (name @ c # s) = Some (length name, a)"
  using assms(2)
proof (rule choose_rule_skip)
  show "\<forall>(q, b)\<in>set (map (\<lambda>(n, v). (lit n, f v)) ks). longest q (name @ c # s) < length name"
  proof (clarsimp)
    fix n v
    assume nv: "(n, v) \<in> set ks"
    then have "n \<noteq> name" using assms(4) by (auto simp: map_of_eq_None_iff image_iff)
    then show "longest (lit n) (name @ c # s) < length name" using nv assms(1, 3) by (intro keyword_lt) auto
  qed
qed

text \<open>One token after another: the method, the path and the version of the first line.\<close>

definition method_name :: "METHOD \<Rightarrow> string" where
  "method_name m = (case map_of method_list m of Some name \<Rightarrow> name | None \<Rightarrow> [])"

lemma yylex_choose:
  "s \<noteq> [] \<Longrightarrow> choose_rule (rules st) s = Some (n, a) \<Longrightarrow>
   yylex st s = (snd (a st (take n s)), fst (a st (take n s)), drop n s)"
  by (cases s) (simp_all add: split_beta Let_def)

lemma longest_uri_keyword: "CHR '' '' \<notin> set t \<Longrightarrow> longest re_Request_URI (t @ CHR '' '' # s) \<le> length t"
  by (rule longest_before) (rule uri_letters)

lemma space_none: "\<not> is_space c \<Longrightarrow> longest re_space (c # s) = 0"
  by (rule longest_none) (simp add: re_space_def)

lemma method_names: "map_of method_rules (method_name m) = (if m = METHOD_IGNORE_THIS then None else Some m)"
  by (cases m) (simp_all add: method_name_def method_list_def method_rules_def)

lemma method_name_start:
  "m \<noteq> METHOD_IGNORE_THIS \<Longrightarrow> \<exists>c t. method_name m = c # t \<and> is_alpha c"
  by (cases m) (simp_all add: method_name_def method_list_def is_alpha_def)

lemma method_rule_letters: "\<forall>(n, v)\<in>set method_rules. CHR '' '' \<notin> set n"
  by (simp add: method_rules_def)

declare yylex.simps [simp del]

lemma lex_method:
  assumes "m \<noteq> METHOD_IGNORE_THIS"
  shows "yylex REQUEST (method_name m @ CHR '' '' # s) = (T_METHOD m, REQUEST, CHR '' '' # s)"
proof -
  obtain c t where c: "method_name m = c # t" "is_alpha c" using method_name_start [OF assms] by blast
  have others: "longest r (method_name m @ CHR '' '' # s) \<le> length (method_name m)" if "\<not> letters r CHR '' ''" for r
    using that by (rule longest_before)
  have newline: "c \<noteq> CHR 0x0D" "c \<noteq> CHR 0x0A" "\<not> is_space c" using c(2) by (auto simp: is_alpha_def is_space_def)
  have "choose_rule (rules REQUEST) (method_name m @ CHR '' '' # s) =
      Some (length (method_name m), tokVOID (T_METHOD m))"
    unfolding rules.simps
  proof (rule keyword_rule)
    show "\<forall>(q, b)\<in>set [(lit ''HTTP/1.1'', tokVERSION VER_1_1), (lit ''HTTP/2.0'', tokVERSION VER_2),
        (re_Request_URI, tokSTRING T_PATH), newline_rule, space_rule].
        longest q (method_name m @ CHR '' '' # s) \<le> length (method_name m)"
      using others [of re_Request_URI] others [of "lit ''HTTP/1.1''"] others [of "lit ''HTTP/2.0''"] newline
      by (simp add: newline_rule_def space_rule_def uri_letters c(1) newline_none space_none)
    show "method_name m \<noteq> []" using c(1) by simp
    show "map_of method_rules (method_name m) = Some m" using assms by (simp add: method_names)
  qed (rule method_rule_letters)
  then show ?thesis using c(1) by (subst yylex_choose) (auto simp: tokVOID_def)
qed

lemma lex_space:
  assumes "\<not> is_space c"
  shows "yylex REQUEST (CHR '' '' # c # s) = (T_SPACE, REQUEST, c # s)"
proof -
  have "longest re_space ([CHR '' ''] @ c # s) = length [CHR '' '']"
    using assms by (intro longest_whole) (simp_all add: re_space_def matches_plus_class is_space_def)
  then have space: "longest re_space (CHR '' '' # c # s) = 1" by simp
  have uri: "longest re_Request_URI (CHR '' '' # c # s) = 0"
    using uri_letters(1) by (rule longest_none)
  have "choose_rule (rules REQUEST) (CHR '' '' # c # s) = Some (1, tokVOID T_SPACE)"
    by (simp add: method_rules_def longest_lit uri newline_rule_def newline_none space_rule_def space)
  then show ?thesis by (subst yylex_choose) (auto simp: tokVOID_def)
qed

text \<open>A path: a text the URI expression describes that starts with a slash, or the asterisk.\<close>

definition uri_path :: "string \<Rightarrow> bool" where
  "uri_path p \<longleftrightarrow> (take 1 p = ''/'' \<or> p = ''*'') \<and> length p \<in> set (match_lengths re_Request_URI p)"

lemma uri_path_matches: "uri_path p \<longleftrightarrow> (take 1 p = ''/'' \<or> p = ''*'') \<and> matches re_Request_URI p"
  by (simp add: uri_path_def match_lengths_iff)

lemma lex_path:
  assumes "uri_path p"
  shows "yylex REQUEST (p @ CHR '' '' # s) = (T_PATH p, REQUEST, CHR '' '' # s)"
proof -
  obtain c q where p: "p = c # q" "c = CHR ''/'' \<or> c = CHR ''*''" using assms by (cases p) (auto simp: uri_path_def)
  have m: "matches re_Request_URI p" using assms by (simp add: uri_path_matches)
  have uri: "longest re_Request_URI (p @ CHR '' '' # s) = length p"
    using m uri_letters(1) by (rule longest_whole)
  have "CHR 0x00 \<notin> set p" using matches_letters [OF m] uri_letters(4) by blast
  then have c: "c_str p = p" by (auto simp: c_str_def takeWhile_eq_all_conv)
  have "choose_rule (rules REQUEST) (p @ CHR '' '' # s) = Some (length p, tokSTRING T_PATH)"
    using uri p by (elim disjE) (simp_all add: method_rules_def longest_lit newline_rule_def newline_none
      space_rule_def space_none is_space_def)
  then show ?thesis using c p by (subst yylex_choose) (auto simp: tokSTRING_def)
qed

lemma lex_version:
  "yylex REQUEST (get_version_string v @ CHR 0x0D # s) = (T_VERSION v, HEADER, CHR 0x0D # s)"
proof -
  let ?s = "get_version_string v @ CHR 0x0D # s"
  let ?post = "[(re_Request_URI, tokSTRING T_PATH), newline_rule, space_rule]"
  have len: "length (get_version_string v) = 8" by (cases v) simp_all
  have "longest re_Request_URI ?s \<le> 8" using longest_before [OF uri_letters(2)] len by metis
  then have post: "\<forall>(q, b)\<in>set ?post. longest q ?s \<le> 8"
    by (cases v) (simp_all add: newline_rule_def space_rule_def newline_none space_none is_space_def)
  have "choose_rule ((lit ''HTTP/1.1'', tokVERSION VER_1_1) # (lit ''HTTP/2.0'', tokVERSION VER_2) # ?post) ?s =
      Some (8, tokVERSION v)"
  proof (cases v)
    case VER_1_1
    have l: "longest (lit ''HTTP/1.1'') ?s = 8" "longest (lit ''HTTP/2.0'') ?s = 0"
      by (simp_all add: VER_1_1 longest_lit)
    show ?thesis
      using choose_rule_here [of "(lit ''HTTP/2.0'', tokVERSION VER_2) # ?post" ?s "lit ''HTTP/1.1''" "tokVERSION VER_1_1"]
        post l VER_1_1 by simp
  next
    case VER_2
    have l: "longest (lit ''HTTP/1.1'') ?s = 0" "longest (lit ''HTTP/2.0'') ?s = 8"
      by (simp_all add: VER_2 longest_lit)
    have "choose_rule ((lit ''HTTP/2.0'', tokVERSION VER_2) # ?post) ?s = Some (8, tokVERSION v)"
      using choose_rule_here [of ?post ?s "lit ''HTTP/2.0''" "tokVERSION VER_2"] post l VER_2 by simp
    then show ?thesis
      using choose_rule_skip [of _ ?s 8 "tokVERSION v" "[(lit ''HTTP/1.1'', tokVERSION VER_1_1)]"] l by simp
  qed
  then have "choose_rule (rules REQUEST) ?s = Some (8, tokVERSION v)"
    unfolding rules.simps append_Cons append_Nil
    by (rule choose_rule_skip) (cases v; simp add: method_rules_def longest_lit)
  then show ?thesis using len by (subst yylex_choose) (auto simp: tokVERSION_def)
qed

lemma field_rule_letters: "\<forall>(n, v)\<in>set field_rules. n \<noteq> [] \<and> list_all name_char n"
  by code_simp

lemma field_rule_colon: "\<forall>(n, v)\<in>set field_rules. CHR '':'' \<notin> set n"
  using field_rule_letters by (fastforce simp: list_all_iff name_char_def)

lemma field_rule_none:
  assumes "\<not> name_char c" "(n, v) \<in> set field_rules"
  shows "longest (lit n) (c # s) = 0"
proof -
  obtain d m where "n = d # m" "name_char d" using assms(2) field_rule_letters by (cases n) fastforce+
  then show ?thesis using assms(1) by (auto simp: longest_lit)
qed

lemma lex_newline: "yylex HEADER (CHR 0x0D # CHR 0x0A # s) = (T_NEWLINE, HEADER, s)"
proof -
  let ?s = "CHR 0x0D # CHR 0x0A # s"
  have none: "longest re_field_name ?s = 0" "longest (Seq (lit '':'') (Seq re_space re_field_value)) ?s = 0"
    by (auto intro!: longest_none simp: re_field_name_def re_space_def re_field_value_def name_char_def
      not_newline_def is_space_def)
  have "choose_rule (rules HEADER) ?s = Some (2, tokVOID T_NEWLINE)"
    unfolding rules.simps
  proof (rule choose_rule_skip)
    show "choose_rule [(re_field_name, tokSTRING T_FIELD_CUSTOM),
        (Seq (lit '':'') (Seq re_space re_field_value), tokFIELDVALUE), newline_rule] ?s = Some (2, tokVOID T_NEWLINE)"
      by (simp add: none newline_rule_def newline_longest)
  qed (auto simp: field_rule_none name_char_def not_newline_def)
  then show ?thesis by (subst yylex_choose) (auto simp: tokVOID_def)
qed

text \<open>The token of a name: its field, when the scanner has a rule for it.\<close>

definition name_token :: "string \<Rightarrow> token" where
  "name_token name =
     (case map_of field_rules name of Some field \<Rightarrow> T_FIELD field | None \<Rightarrow> T_FIELD_CUSTOM (c_str name))"

lemma lex_name:
  assumes "name \<noteq> []" "list_all name_char name"
  shows "yylex HEADER (name @ CHR '':'' # s) = (name_token name, HEADER, CHR '':'' # s)"
proof -
  let ?s = "name @ CHR '':'' # s"
  let ?post = "[(re_field_name, tokSTRING T_FIELD_CUSTOM),
      (Seq (lit '':'') (Seq re_space re_field_value), tokFIELDVALUE), newline_rule]"
  obtain c n where name: "name = c # n" "name_char c" using assms by (cases name) auto
  have custom: "longest re_field_name ?s = length name"
    using assms by (intro longest_whole) (simp_all add: re_field_name_def matches_plus_class name_char_def)
  have "longest (Seq (lit '':'') (Seq re_space re_field_value)) ?s = 0"
  proof -
    have "m = 0" if "matches (Seq (lit '':'') (Seq re_space re_field_value)) (take m ?s)" for m
      using that name by (cases m) (auto simp: matches_iff name_char_def)
    then show ?thesis using longest_le_iff [of "Seq (lit '':'') (Seq re_space re_field_value)" ?s 0] by auto
  qed
  moreover have "longest (fst newline_rule) ?s = 0"
    using name by (simp add: newline_rule_def newline_none name_char_def not_newline_def)
  ultimately have post: "\<forall>(q, b)\<in>set ?post. longest q ?s \<le> length name"
    "choose_rule ?post ?s = Some (length name, tokSTRING T_FIELD_CUSTOM)"
    using custom assms(1) by (auto simp: newline_rule_def)
  show ?thesis
  proof (cases "map_of field_rules name")
    case None
    then have "choose_rule (rules HEADER) ?s = Some (length name, tokSTRING T_FIELD_CUSTOM)"
      unfolding rules.simps using field_rule_colon assms(1) post(2) by (intro no_keyword_rule)
    then show ?thesis using None by (subst yylex_choose) (auto simp: tokSTRING_def name_token_def)
  next
    case (Some field)
    have "choose_rule (rules HEADER) ?s = Some (length name, tokVOID (T_FIELD field))"
      unfolding rules.simps by (rule keyword_rule [OF assms(1) post(1) field_rule_colon Some])
    then show ?thesis using Some by (subst yylex_choose) (auto simp: tokVOID_def name_token_def)
  qed
qed

definition header_value :: "string \<Rightarrow> bool" where
  "header_value value \<longleftrightarrow> value \<noteq> [] \<and> \<not> is_space (hd value) \<and> list_all not_newline value"

lemma lex_value:
  assumes "header_value value"
  shows "yylex HEADER ('': '' @ value @ CHR 0x0D # s) = (T_FIELD_VALUE (c_str value), HEADER, CHR 0x0D # s)"
proof -
  let ?r = "Seq (lit '':'') (Seq re_space re_field_value)" and ?t = "'': '' @ value"
  have "matches re_space '' ''" by (simp add: re_space_def matches_plus_class is_space_def)
  moreover have "matches re_field_value value"
    using assms by (simp add: re_field_value_def matches_plus_class header_value_def)
  ultimately have "matches ?r ('':'' @ '' '' @ value)"
    by (intro m_seq) (simp add: matches_lit)
  then have whole: "longest ?r (?t @ CHR 0x0D # s) = length ?t"
    by (intro longest_whole) (simp_all add: re_space_def re_field_value_def is_space_def not_newline_def)
  have name: "longest re_field_name (?t @ CHR 0x0D # s) = 0"
    by (simp add: longest_none re_field_name_def name_char_def)
  have "choose_rule (rules HEADER) (?t @ CHR 0x0D # s) = Some (length ?t, tokFIELDVALUE)"
    unfolding rules.simps
  proof (rule choose_rule_skip)
    show "choose_rule [(re_field_name, tokSTRING T_FIELD_CUSTOM), (?r, tokFIELDVALUE), newline_rule]
        (?t @ CHR 0x0D # s) = Some (length ?t, tokFIELDVALUE)"
      using whole name by (simp add: newline_rule_def newline_none)
  qed (auto simp: field_rule_none name_char_def)
  moreover have "skipFirstAndSpace ?t = c_str value"
    using assms by (cases "value") (auto simp: skipFirstAndSpace_def c_str_def is_space_def header_value_def)
  ultimately show ?thesis by (subst yylex_choose) (auto simp: tokFIELDVALUE_def)
qed

subsection \<open>Requests in the usual form\<close>

definition header_name :: "string \<Rightarrow> bool" where
  "header_name name \<longleftrightarrow> name \<noteq> [] \<and> list_all name_char name"

definition header_ok :: "string \<times> string \<Rightarrow> bool" where
  "header_ok line = (header_name (fst line) \<and> header_value (snd line))"

definition header_line_text :: "string \<times> string \<Rightarrow> string" where
  "header_line_text line = fst line @ '': '' @ snd line @ [CHR 0x0D, CHR 0x0A]"

definition request_text :: "METHOD \<Rightarrow> string \<Rightarrow> VERSION \<Rightarrow> (string \<times> string) list \<Rightarrow> string" where
  "request_text m p v lines =
     method_name m @ '' '' @ p @ '' '' @ get_version_string v @ [CHR 0x0D, CHR 0x0A] @
     concat (map header_line_text lines) @ [CHR 0x0D, CHR 0x0A]"

text \<open>The fields of the lines whose names the scanner knows; the first line of a field counts.\<close>

definition known_fields :: "(string \<times> string) list \<Rightarrow> (FIELD \<times> string) list" where
  "known_fields lines =
     List.map_filter (\<lambda>(name, value). map_option (\<lambda>field. (field, c_str value)) (map_of field_rules name)) lines"

lemma known_fields_simps:
  "known_fields [] = []"
  "known_fields (line # lines) =
     (case map_of field_rules (fst line) of None \<Rightarrow> known_fields lines
      | Some field \<Rightarrow> (field, c_str (snd line)) # known_fields lines)"
  by (simp_all add: known_fields_def map_filter_simps split: option.split prod.split)

lemma request_line_parsed:
  assumes "m \<noteq> METHOD_IGNORE_THIS" "uri_path p"
  shows "request_line (method_name m @ '' '' @ p @ '' '' @ get_version_string v @ [CHR 0x0D, CHR 0x0A] @ s) =
    Some (m, p, v, HEADER, s)"
proof -
  obtain c q where p: "p = c # q" "\<not> is_space c"
    using assms(2) by (cases p) (auto simp: uri_path_def is_space_def)
  obtain u where v: "get_version_string v = CHR ''H'' # u" by (cases v) simp_all
  show ?thesis
    using lex_method [OF assms(1)] lex_space [OF p(2)] lex_space [of "CHR ''H''"] lex_path [OF assms(2)]
      lex_version [of v] lex_newline
    by (simp add: request_line_def is_space_def p(1) v)
qed

lemma field_end_parsed:
  assumes "header_value value"
  shows "field_end HEADER ('': '' @ value @ CHR 0x0D # CHR 0x0A # s) = Some (c_str value, HEADER, s)"
  using lex_value [OF assms] lex_newline by (simp add: field_end_def)

lemma parse_fields_step:
  assumes "header_ok line"
  shows "parse_fields HEADER (header_line_text line @ s) h =
    parse_fields HEADER s
      (case map_of field_rules (fst line) of None \<Rightarrow> h | Some field \<Rightarrow> insert_field field (c_str (snd line)) h)"
proof -
  have "yylex HEADER (header_line_text line @ s) =
      (name_token (fst line), HEADER, '': '' @ snd line @ CHR 0x0D # CHR 0x0A # s)"
    using lex_name [of "fst line" "CHR '' '' # snd line @ CHR 0x0D # CHR 0x0A # s"] assms
    by (simp add: header_line_text_def header_ok_def header_name_def)
  then show ?thesis
    using field_end_parsed [of "snd line" s] assms
    by (subst parse_fields.simps) (simp add: header_ok_def name_token_def split: option.split)
qed

lemma parse_fields_done: "parse_fields HEADER (CHR 0x0D # CHR 0x0A # s) h = (True, h)"
  by (subst parse_fields.simps) (simp add: lex_newline)

lemma hr_fields_insert: "hr_fields (insert_field field value h) = [field \<mapsto> value] ++ hr_fields h"
  by (auto simp: insert_field_def map_add_def split: option.split)

lemma insert_field_rest:
  "hr_method (insert_field field value h) = hr_method h" "hr_version (insert_field field value h) = hr_version h"
  by (simp_all add: insert_field_def)

lemma parse_fields_skip:
  "list_all header_ok lines \<Longrightarrow>
   parse_fields HEADER (concat (map header_line_text lines) @ s) h =
     parse_fields HEADER s (h\<lparr>hr_fields := map_of (known_fields lines) ++ hr_fields h\<rparr>)"
proof (induction lines arbitrary: h)
  case (Cons line lines)
  have eq: "insert_field field value h\<lparr>hr_fields := g\<rparr> = h\<lparr>hr_fields := g\<rparr>" for field "value" g
    by (simp add: insert_field_def)
  have upd: "(\<lambda>g. if g = field then Some v else f g) = f(field \<mapsto> v)" for field :: FIELD and v :: string and f
    by (simp add: fun_upd_def)
  show ?case
    using Cons parse_fields_step [of line]
    by (auto simp: known_fields_simps hr_fields_insert eq map_add_assoc upd split: option.split)
qed (simp add: known_fields_simps)

lemmas parse_fields_lines = parse_fields_skip [of _ "CHR 0x0D # CHR 0x0A # s" for s, unfolded parse_fields_done]

definition read_header :: "METHOD \<Rightarrow> string \<Rightarrow> VERSION \<Rightarrow> (string \<times> string) list \<Rightarrow> http_header_request" where
  "read_header m p v lines =
     \<lparr>hr_version = v, hr_method = m, hr_fields = map_of (known_fields lines) ++ [Pseudo Path \<mapsto> p]\<rparr>"

lemma driver_parse_text:
  assumes "m \<noteq> METHOD_IGNORE_THIS" "uri_path p" "list_all header_ok lines"
  shows "driver_parse (new_header m0 v0) (request_text m p v lines @ rest) = (SUCCESS, read_header m p v lines)"
  using request_line_parsed [OF assms(1, 2), of v "concat (map header_line_text lines) @ CHR 0x0D # CHR 0x0A # rest"]
    parse_fields_lines [OF assms(3), of rest]
  by (simp add: driver_parse_def request_text_def new_header_def read_header_def insert_field_def)

text \<open>
  C5: A request that is written in the usual form - a method, a path the URI expression of the scanner
  describes, a version, and lines of a name, a colon, a space and a value - is read back by the parser:
  the header of the driver has its method, its version, its path, and for every field the scanner has a
  rule for the value of its first line.  What follows the request in the same text is not read.
\<close>

theorem request_parsed:
  assumes "m \<noteq> METHOD_IGNORE_THIS" "uri_path p" "list_all header_ok lines"
  shows "driver_parse (new_header m0 v0) (request_text m p v lines @ rest) =
    (SUCCESS, \<lparr>hr_version = v, hr_method = m, hr_fields = map_of (known_fields lines) ++ [Pseudo Path \<mapsto> p]\<rparr>)"
  using driver_parse_text [OF assms] by (simp add: read_header_def)

theorem request_parsed_witness:
  "driver_parse (new_header PRI VER_2)
     (request_text GET ''/a/b.html?q'' VER_1_1 [(''Host'', ''x''), (''X-My'', ''1''), (''Host'', ''y'')] @ ''more'') =
   (SUCCESS, \<lparr>hr_version = VER_1_1, hr_method = GET,
     hr_fields = map_of (known_fields [(''Host'', ''x''), (''X-My'', ''1''), (''Host'', ''y'')]) ++
       [Pseudo Path \<mapsto> ''/a/b.html?q'']\<rparr>) \<and>
   map snd (known_fields [(''Host'', ''x''), (''X-My'', ''1''), (''Host'', ''y'')]) = [''x'', ''y'']"
proof
  have "uri_path ''/a/b.html?q''" by code_simp
  moreover have "list_all header_ok [(''Host'', ''x''), (''X-My'', ''1''), (''Host'', ''y'')]"
    by (simp add: header_ok_def header_name_def header_value_def name_char_def not_newline_def is_space_def)
  ultimately show "driver_parse (new_header PRI VER_2)
     (request_text GET ''/a/b.html?q'' VER_1_1 [(''Host'', ''x''), (''X-My'', ''1''), (''Host'', ''y'')] @ ''more'') =
   (SUCCESS, \<lparr>hr_version = VER_1_1, hr_method = GET,
     hr_fields = map_of (known_fields [(''Host'', ''x''), (''X-My'', ''1''), (''Host'', ''y'')]) ++
       [Pseudo Path \<mapsto> ''/a/b.html?q'']\<rparr>)"
    by (intro request_parsed) simp_all
qed code_simp

text \<open>Paths of segments of usual characters are paths for the scanner.\<close>

definition plain_char :: "char \<Rightarrow> bool" where
  "plain_char c \<longleftrightarrow> is_alnum c \<or> c \<in> {CHR ''-'', CHR ''_'', CHR ''.'', CHR ''~''}"

lemma plain_char_pchar: "plain_char c \<Longrightarrow> matches re_pchar [c]"
  by (auto simp: plain_char_def re_pchar_def re_unreserved_def re_mark_def matches_Alt_iff matches_Class_iff)

lemma matches_star_chars: "(\<And>c. c \<in> set s \<Longrightarrow> matches r [c]) \<Longrightarrow> matches (Star r) s"
proof (induction s)
  case (Cons c s)
  then show ?case using m_more [of r "[c]" s] by simp
qed (simp add: m_done)

lemma plain_segment: "s \<noteq> [] \<Longrightarrow> list_all plain_char s \<Longrightarrow> matches re_segment s"
proof (cases s)
  case (Cons c t)
  assume "list_all plain_char s"
  then have "matches (plus_re re_pchar) ([c] @ t)"
    unfolding plus_re_def using Cons
    by (intro m_seq matches_star_chars) (auto simp: plain_char_pchar list_all_iff)
  then have "matches re_segment (([c] @ t) @ [])" unfolding re_segment_def by (rule m_seq [OF _ m_done])
  then show ?thesis using Cons by simp
qed simp

lemma plain_segments:
  "\<forall>s\<in>set ss. s \<noteq> [] \<and> list_all plain_char s \<Longrightarrow>
   matches (Star (Seq (lit ''/'') re_segment)) (concat (map ((#) CHR ''/'') ss))"
proof (induction ss)
  case (Cons s ss)
  have "matches (Seq (lit ''/'') re_segment) (''/'' @ s)"
    using Cons.prems plain_segment by (intro m_seq) (simp_all add: matches_lit)
  then show ?case using Cons m_more [of _ "CHR ''/'' # s"] by simp
qed (simp add: m_done)

lemma plain_path:
  assumes "ss \<noteq> []" "\<forall>s\<in>set ss. s \<noteq> [] \<and> list_all plain_char s"
  shows "uri_path (concat (map ((#) CHR ''/'') ss))"
proof -
  obtain s t where ss: "ss = s # t" using assms(1) by (cases ss) auto
  have "matches re_path_segments (s @ concat (map ((#) CHR ''/'') t))"
    unfolding re_path_segments_def using assms(2) ss by (intro m_seq plain_segment plain_segments) simp_all
  then have "matches re_abs_path (''/'' @ s @ concat (map ((#) CHR ''/'') t))"
    unfolding re_abs_path_def opt_re_def by (intro m_seq m_right) (simp_all add: matches_lit)
  then have "matches (Alt re_net_path (Alt re_abs_path re_rel_path)) (''/'' @ s @ concat (map ((#) CHR ''/'') t))"
    by (simp add: matches_Alt_iff)
  then have "matches re_relativeURI ((''/'' @ s @ concat (map ((#) CHR ''/'') t)) @ [])"
    unfolding re_relativeURI_def opt_re_def by (rule m_seq [OF _ m_left [OF m_empty]])
  then show ?thesis by (simp add: uri_path_matches re_Request_URI_def matches_Alt_iff ss)
qed

subsection \<open>Requests that are refused\<close>

lemma choose_rule_in: "choose_rule rs s = Some (n, a) \<Longrightarrow> \<exists>r. (r, a) \<in> set rs \<and> longest r s = n"
proof (induction rs arbitrary: n a)
  case (Cons r rs)
  obtain q b where r: "r = (q, b)" by (cases r)
  have "\<exists>r. (r, a) \<in> set rs \<and> longest r s = n" if "choose_rule rs s = Some (n, a)" using Cons.IH that .
  then show ?case using Cons.prems r by (auto simp: Let_def split: option.splits if_splits)
qed simp

lemma choose_rule_none: "choose_rule rs s = None \<longleftrightarrow> (\<forall>(q, b)\<in>set rs. longest q s = 0)"
  by (induction rs) (auto simp: Let_def split: option.splits if_splits)

lemma yylex_echo: "choose_rule (rules st) (c # s) = None \<Longrightarrow> yylex st (c # s) = yylex st s"
  by (simp add: yylex.simps)

lemma value_rule_none:
  assumes "\<not> (c = CHR '':'' \<and> (\<exists>d t. s = d # t \<and> is_space d))"
  shows "longest (Seq (lit '':'') (Seq re_space re_field_value)) (c # s) = 0"
proof -
  let ?r = "Seq (lit '':'') (Seq re_space re_field_value)"
  have "n = 0" if "matches ?r (take n (c # s))" for n
    using that assms
    by (cases n; cases s) (auto simp: matches_iff re_space_def matches_plus_class take_Cons' Cons_eq_append_conv
      split: if_splits)
  then show ?thesis using longest_le_iff [of ?r "c # s" 0] by auto
qed

text \<open>A token that starts with a character of names is not a value.\<close>

lemma name_start:
  assumes "name_char c"
  shows "\<exists>field t. fst (yylex HEADER (c # s)) \<in> {T_FIELD field, T_FIELD_CUSTOM t}"
proof -
  have c: "c \<noteq> CHR '':''" "c \<noteq> CHR 0x0D" "c \<noteq> CHR 0x0A" using assms by (auto simp: name_char_def not_newline_def)
  have "\<not> longest re_field_name (c # s) \<le> 0"
    using assms by (auto simp: longest_le_iff re_field_name_def matches_plus_class simp del: le_zero_eq intro!: exI [of _ 1])
  moreover have "(re_field_name, tokSTRING T_FIELD_CUSTOM) \<in> set (rules HEADER)" by simp
  ultimately have "choose_rule (rules HEADER) (c # s) \<noteq> None"
    unfolding choose_rule_none by (force simp del: rules.simps)
  then obtain n a where na: "choose_rule (rules HEADER) (c # s) = Some (n, a)"
    by (metis option.exhaust surj_pair)
  then obtain r where r: "(r, a) \<in> set (rules HEADER)" "longest r (c # s) = n" "0 < n"
    using choose_rule_in [OF na] choose_rule_pos [OF na] by blast
  have none: "longest (Seq (lit '':'') (Seq re_space re_field_value)) (c # s) = 0"
    "longest (fst newline_rule) (c # s) = 0"
    using c by (simp_all add: value_rule_none newline_rule_def newline_none)
  have "a = tokSTRING T_FIELD_CUSTOM \<or> (\<exists>field. a = tokVOID (T_FIELD field))"
    using r none by (auto simp: newline_rule_def)
  then show ?thesis using yylex_choose [OF _ na] by (auto simp: tokVOID_def tokSTRING_def)
qed

lemma field_end_refused:
  assumes "name_char c" "\<not> is_space c"
  shows "field_end HEADER (CHR '':'' # c # s) = None"
proof -
  have "longest (Seq (lit '':'') (Seq re_space re_field_value)) (CHR '':'' # c # s) = 0"
    using assms(2) by (intro value_rule_none) simp
  moreover have "longest re_field_name (CHR '':'' # c # s) = 0"
    by (simp add: longest_none re_field_name_def name_char_def)
  ultimately have "choose_rule (rules HEADER) (CHR '':'' # c # s) = None"
    by (auto simp: choose_rule_none field_rule_none name_char_def newline_rule_def newline_none)
  then have "yylex HEADER (CHR '':'' # c # s) = yylex HEADER (c # s)" by (rule yylex_echo)
  then show ?thesis
    using name_start [OF assms(1), of s] by (auto simp: field_end_def split: prod.split)
qed

text \<open>
  C24: A header line whose value follows its colon directly, and begins with a character that is no
  colon, space, tab or end of a line, is refused with the whole request, whatever the lines before it and
  the rest of the text are: the scanner has no rule for such a colon, skips it, and takes the value for a
  name.  (A value that begins with a colon is not covered: in \<open>Host:: y\<close> the first colon is skipped, the
  second one is taken, and the value is \<open>y\<close>.)
\<close>

theorem no_space_refused:
  assumes "m \<noteq> METHOD_IGNORE_THIS" "uri_path p" "list_all header_ok lines" "header_name name"
    and "name_char c" "\<not> is_space c"
  shows "fst (driver_parse h (method_name m @ '' '' @ p @ '' '' @ get_version_string v @ [CHR 0x0D, CHR 0x0A] @
    concat (map header_line_text lines) @ name @ CHR '':'' # c # rest)) = HTTP11_PARSER_FAILURE"
proof -
  have "parse_fields HEADER (name @ CHR '':'' # c # rest) g = (False, g)" for g
    using lex_name [of name "c # rest"] assms(4) field_end_refused [OF assms(5, 6), of rest]
    by (subst parse_fields.simps) (simp add: header_name_def name_token_def split: option.split)
  then show ?thesis
    using request_line_parsed [OF assms(1, 2), of v "concat (map header_line_text lines) @ name @ CHR '':'' # c # rest"]
      parse_fields_skip [OF assms(3), of "name @ CHR '':'' # c # rest"]
    by (simp add: driver_parse_def)
qed

theorem no_space_refused_witness:
  "fst (driver_parse (new_header PRI VER_2) (method_name GET @ '' '' @ ''/x'' @ '' '' @ get_version_string VER_1_1 @
    [CHR 0x0D, CHR 0x0A] @ concat (map header_line_text []) @ ''Host'' @ CHR '':'' # CHR ''x'' # [CHR 0x0D, CHR 0x0A])) =
   HTTP11_PARSER_FAILURE"
proof (rule no_space_refused)
  show "uri_path ''/x''" by code_simp
qed (simp_all add: header_name_def name_char_def not_newline_def is_space_def)

subsection \<open>Connections that read texts\<close>

text \<open>\<open>read_helper\<close> makes a string of the bytes it has read and gives it to a new driver.\<close>

definition read_request :: "METHOD \<Rightarrow> VERSION \<Rightarrow> u8 list \<Rightarrow> err_t \<times> http_header_request" where
  "read_request m0 v0 data = driver_parse (new_header m0 v0) (chars_of data)"

lemma read_request_text:
  assumes "m \<noteq> METHOD_IGNORE_THIS" "uri_path p" "list_all header_ok lines"
  shows "read_request m0 v0 (bytes_of (request_text m p v lines @ rest)) = (SUCCESS, read_header m p v lines)"
  unfolding read_request_def chars_of_bytes_of by (rule driver_parse_text [OF assms])

lemma known_fields_values: "(field, v) \<in> set (known_fields lines) \<Longrightarrow> \<exists>line\<in>set lines. v = c_str (snd line)"
  by (induction lines) (auto simp: known_fields_simps split: option.splits)

lemma no_upgrade:
  assumes "\<forall>line\<in>set lines. c_str (snd line) \<noteq> ''h2c''"
  shows "\<not> wants_upgrade False (read_header m p v lines)"
  using assms known_fields_values
  by (fastforce simp: wants_upgrade_def upgrade_version_def read_header_def dest!: map_of_SomeD split: option.splits if_splits)

type_synonym get_request = "string \<times> (string \<times> string) list"

definition get_bytes :: "get_request \<Rightarrow> u8 list" where
  "get_bytes g = bytes_of (request_text GET (fst g) VER_1_1 (snd g))"

definition get_header :: "get_request \<Rightarrow> http_header_request" where
  "get_header g = read_header GET (fst g) VER_1_1 (snd g)"

definition get_ok :: "http_env \<Rightarrow> filemap \<Rightarrow> get_request \<Rightarrow> bool" where
  "get_ok env fm g \<longleftrightarrow>
     uri_path (fst g) \<and> list_all header_ok (snd g) \<and> \<not> wants_upgrade False (get_header g) \<and>
     (case cache fm (fst g) of None \<Rightarrow> True | Some info \<Rightarrow> servable_file env info)"

lemma get_header_path: "get_path (get_header g) = fst g"
  by (simp add: get_header_def read_header_def get_path_def)

lemma get_bytes_read:
  assumes "get_ok env fm g"
  shows "read_request m0 v0 (get_bytes g) = (SUCCESS, get_header g)"
  using read_request_text [of GET "fst g" "snd g" m0 v0 VER_1_1 "[]"] assms
  by (simp add: get_ok_def get_bytes_def get_header_def)

lemma get_bytes_get_read:
  assumes "get_ok env fm g"
  shows "get_read env (read_request m0 v0) fm (get_bytes g)"
proof -
  have "get_bytes g \<noteq> []" by (simp add: get_bytes_def request_text_def method_name_def method_list_def)
  then show ?thesis
    using get_bytes_read [OF assms, of m0 v0] assms
    by (simp add: get_read_def get_header_path get_ok_def) (simp add: get_header_def read_header_def)
qed

text \<open>
  C10: A connection that reads the texts of GET requests, one whole text in each read, answers every
  one of them in order: what is sent and what is still queued are together the answers to the requests
  as they were written, as long as no write fails.
\<close>

theorem get_texts_answered:
  assumes "web_reachable (he_webmaps env)" "env_ok env" "length mem = buffer_size"
    and "getfilemap (sa_port (he_local_address env)) (he_webmaps env) = Some (Inr fm)"
    and "list_all (get_ok env fm) gs"
  shows "\<exists>p mem'.
    http1_read_helper plain_write False env (read_request m0 v0) (map (\<lambda>g. (SUCCESS, get_bytes g)) gs) mem
      (new_peer False \<lparr>wi_sent = [], wi_choices = choices\<rparr>) = Some (Stays p mem') \<and>
    (pe_log p = [] \<longrightarrow> wi_sent (pe_peer_id p) @ unsent (pe_write_queue p) =
      concat (map (\<lambda>g. http1_reply env (get_header g) fm) gs))"
proof -
  have reads: "list_all (get_read env (read_request m0 v0) fm) (map get_bytes gs)"
    using assms(5) get_bytes_get_read by (auto simp: list_all_iff)
  have replies: "map (\<lambda>d. http1_reply env (snd (read_request m0 v0 d)) fm) (map get_bytes gs) =
      map (\<lambda>g. http1_reply env (get_header g) fm) gs"
    using assms(5) get_bytes_read by (auto simp: list_all_iff)
  show ?thesis
    using http1_gets_run [OF assms(1-4) reads, of choices] unfolding replies by (auto simp: comp_def)
qed

theorem get_texts_answered_witness:
  "\<exists>p mem'.
    http1_read_helper plain_write False demo_env (read_request PRI VER_2)
      [(SUCCESS, get_bytes (''/x'', [(''Host'', ''y'')])), (SUCCESS, get_bytes (''/'', []))] (replicate buffer_size 0)
      (new_peer False \<lparr>wi_sent = [], wi_choices = [7]\<rparr>) = Some (Stays p mem') \<and>
    (pe_log p = [] \<longrightarrow> wi_sent (pe_peer_id p) @ unsent (pe_write_queue p) =
      http1_reply demo_env (get_header (''/x'', [(''Host'', ''y'')])) (new_filemap ''/www'') @
      http1_reply demo_env (get_header (''/'', [])) (new_filemap ''/www''))"
proof -
  have "web_reachable (he_webmaps demo_env)"
    unfolding demo_env_def by (simp add: web_reachable.folder web_reachable.start)
  moreover have "uri_path ''/x''" "uri_path ''/''" by code_simp+
  then have "list_all (get_ok demo_env (new_filemap ''/www'')) [(''/x'', [(''Host'', ''y'')]), (''/'', [])]"
    by (simp add: get_ok_def new_filemap_def header_ok_def header_name_def header_value_def name_char_def
      not_newline_def is_space_def get_header_def no_upgrade c_str_def)
  ultimately show ?thesis
    using get_texts_answered [OF _ demo_env_ok _ demo_env_file, of "replicate buffer_size 0"
        "[(''/x'', [(''Host'', ''y'')]), (''/'', [])]" PRI VER_2 "[7]"]
    by auto
qed

end
