(* ===== verification/Devices.thy ===== *)
theory Devices
  imports Guid
begin

text \<open>
  Devices, their models and the list of devices of the device server: deviceserver/include/devices.hh and
  devicemanager.hh.  A shared pointer is what it points to, \<open>None\<close> for a null pointer; nothing in these
  classes changes what it points to.
\<close>

record component =
  co_id :: u32
  co_name :: string
  co_operation :: string

record model =
  mo_id :: u32
  mo_name :: string
  mo_spec :: string
  mo_components :: "component list"

text \<open>\<open>operator[]\<close> of the vector does not check the index.\<close>

definition model_component :: "model \<Rightarrow> nat \<Rightarrow> component option" where
  "model_component m index =
     (if index < length (mo_components m) then Some (mo_components m ! index) else None)"

text \<open>The private key of a new device is a null pointer; \<open>symetrickey_time\<close> is a clock without state.\<close>

record device =
  dev_guid :: guid
  dev_model :: model
  dev_publicKeyBinary :: "string option"
  dev_privateKeyBinary :: "string option"

definition new_device :: "guid \<Rightarrow> model \<Rightarrow> string option \<Rightarrow> device" where
  "new_device g m key =
     \<lparr>dev_guid = g, dev_model = m, dev_publicKeyBinary = key, dev_privateKeyBinary = None\<rparr>"

subsection \<open>devicemanager\<close>

type_synonym devicelist = "guid \<rightharpoonup> device option"

definition GetDevice :: "devicelist \<Rightarrow> guid \<Rightarrow> device option" where
  "GetDevice l g = (case l g of None \<Rightarrow> None | Some dev \<Rightarrow> dev)"

definition RemoveDevice :: "devicelist \<Rightarrow> guid \<Rightarrow> bool \<times> devicelist" where
  "RemoveDevice l g = ((if l g = None then 0 else 1) = (0 :: nat), l(g := None))"

text \<open>\<open>insert\<close> leaves an entry that is there.\<close>

definition AddDevice :: "devicelist \<Rightarrow> guid \<Rightarrow> device option \<Rightarrow> devicelist" where
  "AddDevice l g dev = (if l g = None then l(g \<mapsto> dev) else l)"

lemma GetDevice_AddDevice:
  "GetDevice (AddDevice l g dev) g' = (if g' = g \<and> l g = None then dev else GetDevice l g')"
  by (simp add: GetDevice_def AddDevice_def)

lemma GetDevice_RemoveDevice: "GetDevice (snd (RemoveDevice l g)) g' = (if g' = g then None else GetDevice l g')"
  by (simp add: GetDevice_def RemoveDevice_def)

text \<open>The result says that there was no such device.\<close>

lemma RemoveDevice_result: "fst (RemoveDevice l g) \<longleftrightarrow> l g = None"
  by (simp add: RemoveDevice_def)

end
